(* ===== verification/Serialize.thy ===== *)
theory Serialize
  imports Prelude
begin

text \<open>
  The serialization framework (\<open>serialize.h\<close>, the integer primitives of
  \<open>crypto/common.h\<close> and the read side of \<open>CDataStream\<close> in \<open>streams.h\<close>).
  A stream is the list of the bytes that are still to be read; writing
  appends. A value of an unsigned C++ type is a \<open>nat\<close>, cut to its width where
  it is written. The locale \<open>codec\<close> is the contract a type's \<open>Serialize\<close> and
  \<open>Unserialize\<close> keep, and \<open>canonical_codec\<close> adds that only the written form is
  accepted; vectors and optional values inherit both from their element.
\<close>

datatype ser_error =
    EndOfData
  | NonCanonicalCompactSize
  | SizeTooLarge
  | VarIntTooLarge

type_synonym 'a reader = "bytes \<Rightarrow> ser_error + 'a \<times> bytes"

section \<open>Streams and fixed-width integers\<close>

definition stream_read :: "nat \<Rightarrow> bytes reader" where
  "stream_read nSize s =
     (if length s < nSize then Inl EndOfData else Inr (take nSize s, drop nSize s))"

definition ReadLE16 :: "bytes \<Rightarrow> nat" where "ReadLE16 p = le_val (take 2 p)"
definition ReadLE32 :: "bytes \<Rightarrow> nat" where "ReadLE32 p = le_val (take 4 p)"
definition ReadLE64 :: "bytes \<Rightarrow> nat" where "ReadLE64 p = le_val (take 8 p)"
definition WriteLE16 :: "nat \<Rightarrow> bytes" where "WriteLE16 x = le_bytes 2 x"
definition WriteLE32 :: "nat \<Rightarrow> bytes" where "WriteLE32 x = le_bytes 4 x"
definition WriteLE64 :: "nat \<Rightarrow> bytes" where "WriteLE64 x = le_bytes 8 x"

definition ser_writedata8 :: "nat \<Rightarrow> bytes" where "ser_writedata8 x = le_bytes 1 x"
definition ser_writedata16 :: "nat \<Rightarrow> bytes" where "ser_writedata16 x = le_bytes 2 x"
definition ser_writedata32 :: "nat \<Rightarrow> bytes" where "ser_writedata32 x = le_bytes 4 x"
definition ser_writedata64 :: "nat \<Rightarrow> bytes" where "ser_writedata64 x = le_bytes 8 x"

definition ser_readdata :: "nat \<Rightarrow> nat reader" where
  "ser_readdata w s = bindE (stream_read w s) (\<lambda>(b, s'). Inr (le_val b, s'))"

definition ser_readdata8 :: "nat reader" where "ser_readdata8 = ser_readdata 1"
definition ser_readdata16 :: "nat reader" where "ser_readdata16 = ser_readdata 2"
definition ser_readdata32 :: "nat reader" where "ser_readdata32 = ser_readdata 4"
definition ser_readdata64 :: "nat reader" where "ser_readdata64 = ser_readdata 8"

text \<open>A signed integer is written as the unsigned value of its two's complement of \<open>w\<close> bits.\<close>

definition u_of_int :: "nat \<Rightarrow> int \<Rightarrow> nat" where
  "u_of_int w x = nat (x mod 2 ^ w)"

definition int_of_u :: "nat \<Rightarrow> nat \<Rightarrow> int" where
  "int_of_u w n = (if n < 2 ^ (w - 1) then int n else int n - 2 ^ w)"

section \<open>CompactSize\<close>

abbreviation MAX_SIZE :: nat where "MAX_SIZE \<equiv> 0x02000000"

definition GetSizeOfCompactSize :: "nat \<Rightarrow> nat" where
  "GetSizeOfCompactSize nSize =
     (if nSize < 253 then 1
      else if nSize \<le> 0xffff then 1 + 2
      else if nSize \<le> 0xffffffff then 1 + 4
      else 1 + 8)"

definition WriteCompactSize :: "nat \<Rightarrow> bytes" where
  "WriteCompactSize nSize =
     (if nSize < 253 then ser_writedata8 nSize
      else if nSize \<le> 0xffff then ser_writedata8 253 @ ser_writedata16 nSize
      else if nSize \<le> 0xffffffff then ser_writedata8 254 @ ser_writedata32 nSize
      else ser_writedata8 255 @ ser_writedata64 nSize)"

definition ReadCompactSize :: "bool \<Rightarrow> nat reader" where
  "ReadCompactSize range_check s =
     bindE (ser_readdata8 s) (\<lambda>(chSize, s1).
     bindE (if chSize < 253 then Inr (chSize, s1)
            else if chSize = 253 then
              bindE (ser_readdata16 s1) (\<lambda>(n, s2).
                if n < 253 then Inl NonCanonicalCompactSize else Inr (n, s2))
            else if chSize = 254 then
              bindE (ser_readdata32 s1) (\<lambda>(n, s2).
                if n < 0x10000 then Inl NonCanonicalCompactSize else Inr (n, s2))
            else
              bindE (ser_readdata64 s1) (\<lambda>(n, s2).
                if n < 0x100000000 then Inl NonCanonicalCompactSize else Inr (n, s2)))
       (\<lambda>(nSizeRet, s3).
          if range_check \<and> nSizeRet > MAX_SIZE then Inl SizeTooLarge else Inr (nSizeRet, s3)))"

section \<open>VarInt\<close>

text \<open>
  \<open>WriteVarInt\<close> fills \<open>tmp\<close> from the low digit up and then writes it backwards; the
  accumulator holds the digits in the order they are written.
\<close>

function WriteVarInt_loop :: "bool \<Rightarrow> nat \<Rightarrow> bytes \<Rightarrow> bytes" where
  "WriteVarInt_loop more n tmp =
     (let tmp' = ((of_nat n AND 0x7F) OR (if more then 0x80 else 0x00)) # tmp
      in if n \<le> 0x7F then tmp' else WriteVarInt_loop True (drop_bit 7 n - 1) tmp')"
  by pat_completeness auto
termination
  by (relation "measure (\<lambda>(more, n, tmp). n)")
     (auto simp: drop_bit_eq_div less_Suc_eq_le intro: le_trans[OF diff_le_self div_le_dividend]
       intro!: diff_less_Suc)

declare WriteVarInt_loop.simps [simp del]

definition WriteVarInt :: "nat \<Rightarrow> bytes" where
  "WriteVarInt n = WriteVarInt_loop False n []"

function GetSizeOfVarInt :: "nat \<Rightarrow> nat" where
  "GetSizeOfVarInt n = (if n \<le> 0x7F then 1 else 1 + GetSizeOfVarInt (drop_bit 7 n - 1))"
  by pat_completeness auto
termination
  by (relation "measure (\<lambda>n. n)") (auto simp: drop_bit_eq_div intro: le_less_trans[OF diff_le_self])

declare GetSizeOfVarInt.simps [simp del]

text \<open>\<open>imax\<close> is \<open>std::numeric_limits<I>::max()\<close> of the type that is read.\<close>

fun ReadVarInt_loop :: "nat \<Rightarrow> nat \<Rightarrow> nat reader" where
  "ReadVarInt_loop imax n [] = Inl EndOfData"
| "ReadVarInt_loop imax n (chData # s) =
     (if n > drop_bit 7 imax then Inl VarIntTooLarge
      else let n' = push_bit 7 n OR unat (chData AND 0x7F)
           in if chData AND 0x80 \<noteq> 0 then
                (if n' = imax then Inl VarIntTooLarge else ReadVarInt_loop imax (n' + 1) s)
              else Inr (n', s))"

definition ReadVarInt :: "nat \<Rightarrow> nat reader" where
  "ReadVarInt imax s = ReadVarInt_loop imax 0 s"

section \<open>Byte vectors, vectors, optional values\<close>

definition Serialize_bytes :: "bytes \<Rightarrow> bytes" where
  "Serialize_bytes v = WriteCompactSize (length v) @ v"

text \<open>\<open>Unserialize_impl\<close> for \<open>unsigned char\<close> reads in blocks, so that a bogus size does not allocate.\<close>

function Unserialize_blocks :: "nat \<Rightarrow> nat \<Rightarrow> bytes \<Rightarrow> bytes reader" where
  "Unserialize_blocks nSize i v s =
     (if i < nSize then
        let blk = min (nSize - i) (1 + 4999999)
        in bindE (stream_read blk s) (\<lambda>(b, s'). Unserialize_blocks nSize (i + blk) (v @ b) s')
      else Inr (v, s))"
  by pat_completeness auto
termination
  by (relation "measure (\<lambda>(nSize, i, v, s). nSize - i)") auto

declare Unserialize_blocks.simps [simp del]

definition Unserialize_bytes :: "bytes reader" where
  "Unserialize_bytes s =
     bindE (ReadCompactSize True s) (\<lambda>(nSize, s'). Unserialize_blocks nSize 0 [] s')"

definition VectorSer :: "('a \<Rightarrow> bytes) \<Rightarrow> 'a list \<Rightarrow> bytes" where
  "VectorSer ser v = WriteCompactSize (length v) @ concat (map ser v)"

fun VectorUnser_loop :: "'a reader \<Rightarrow> nat \<Rightarrow> 'a list reader" where
  "VectorUnser_loop unser 0 s = Inr ([], s)"
| "VectorUnser_loop unser (Suc n) s =
     bindE (unser s) (\<lambda>(x, s'). bindE (VectorUnser_loop unser n s') (\<lambda>(xs, s''). Inr (x # xs, s'')))"

definition VectorUnser :: "'a reader \<Rightarrow> 'a list reader" where
  "VectorUnser unser s =
     bindE (ReadCompactSize True s) (\<lambda>(size, s'). VectorUnser_loop unser size s')"

definition OptionalSer :: "('a \<Rightarrow> bytes) \<Rightarrow> 'a option \<Rightarrow> bytes" where
  "OptionalSer ser item =
     (case item of Some x \<Rightarrow> ser_writedata8 1 @ ser x | None \<Rightarrow> ser_writedata8 0)"

definition OptionalUnser :: "'a reader \<Rightarrow> 'a option reader" where
  "OptionalUnser unser s =
     bindE (ser_readdata8 s) (\<lambda>(discriminant, s').
       if discriminant = 0 then Inr (None, s')
       else bindE (unser s') (\<lambda>(x, s''). Inr (Some x, s'')))"


section \<open>Round trips of the integer encodings\<close>

lemma stream_read_append [simp]: "length b = n \<Longrightarrow> stream_read n (b @ rest) = Inr (b, rest)"
  by (simp add: stream_read_def)

lemma stream_read_eq_Inr: "stream_read n s = Inr (b, rest) \<longleftrightarrow> s = b @ rest \<and> length b = n"
  by (auto simp: stream_read_def)

lemmas ser_readdata_defs = ser_readdata8_def ser_readdata16_def ser_readdata32_def ser_readdata64_def
lemmas ser_writedata_defs =
  ser_writedata8_def ser_writedata16_def ser_writedata32_def ser_writedata64_def

lemma ser_readdata_le_bytes: "x < 256 ^ w \<Longrightarrow> ser_readdata w (le_bytes w x @ rest) = Inr (x, rest)"
  by (simp add: ser_readdata_def le_val_le_bytes)

lemma ser_readdata_eq_Inr:
  "ser_readdata w s = Inr (x, rest) \<longleftrightarrow> s = le_bytes w x @ rest \<and> x < 256 ^ w"
proof
  assume "ser_readdata w s = Inr (x, rest)"
  then obtain b where "stream_read w s = Inr (b, rest)" and x: "x = le_val b"
    by (auto simp: ser_readdata_def bindE_eq_Inr_iff)
  then have "s = b @ rest" and "length b = w" by (simp_all add: stream_read_eq_Inr)
  then show "s = le_bytes w x @ rest \<and> x < 256 ^ w"
    using le_bytes_le_val[of b] le_val_less[of b] x by auto
qed (simp add: ser_readdata_le_bytes)

lemma ReadWriteLE [simp]:
  "x < 0x10000 \<Longrightarrow> ReadLE16 (WriteLE16 x @ rest) = x"
  "x < 0x100000000 \<Longrightarrow> ReadLE32 (WriteLE32 x @ rest) = x"
  "x < 0x10000000000000000 \<Longrightarrow> ReadLE64 (WriteLE64 x @ rest) = x"
  by (simp_all add: ReadLE16_def WriteLE16_def ReadLE32_def WriteLE32_def ReadLE64_def
      WriteLE64_def le_val_le_bytes)

lemma length_WriteLE [simp]:
  "length (WriteLE16 x) = 2" "length (WriteLE32 x) = 4" "length (WriteLE64 x) = 8"
  by (simp_all add: WriteLE16_def WriteLE32_def WriteLE64_def)

lemma u_of_int_less: "u_of_int w x < 2 ^ w"
  by (simp add: u_of_int_def nat_less_iff)

lemma int_of_u_of_int:
  assumes "0 < w" and "- (2 ^ (w - 1)) \<le> x" and "x < 2 ^ (w - 1)"
  shows "int_of_u w (u_of_int w x) = x"
proof -
  have two: "(2 :: int) ^ w = 2 * 2 ^ (w - 1)" using assms(1) by (cases w) simp_all
  show ?thesis
  proof (cases "0 \<le> x")
    case True
    then have "x mod 2 ^ w = x" using assms two by (intro mod_pos_pos_trivial) auto
    then show ?thesis using True assms by (simp add: int_of_u_def u_of_int_def nat_less_iff)
  next
    case False
    have "x mod 2 ^ w = x + 2 ^ w"
      using mod_pos_pos_trivial[of "x + 2 ^ w" "2 ^ w"] assms two False by simp
    then show ?thesis using assms two False by (simp add: int_of_u_def u_of_int_def nat_less_iff)
  qed
qed

lemma u_of_int_of_u: "n < 2 ^ w \<Longrightarrow> u_of_int w (int_of_u w n) = n"
proof -
  assume "n < 2 ^ w"
  then have "int n < 2 ^ w" by simp
  then show ?thesis by (simp add: int_of_u_def u_of_int_def)
qed

lemma int_of_u_range:
  assumes "0 < w" and "n < 2 ^ w"
  shows "- (2 ^ (w - 1)) \<le> int_of_u w n \<and> int_of_u w n < 2 ^ (w - 1)"
proof -
  have two: "(2 :: int) ^ w = 2 * 2 ^ (w - 1)" using assms(1) by (cases w) simp_all
  have less: "int n < 2 ^ w" using assms(2) by simp
  have iff: "n < 2 ^ (w - 1) \<longleftrightarrow> int n < 2 ^ (w - 1)" by simp
  show ?thesis
  proof (cases "n < 2 ^ (w - 1)")
    case True
    then show ?thesis by (simp add: int_of_u_def order_trans[of _ 0])
  next
    case False
    then have "int n \<ge> 2 ^ (w - 1)" using iff by linarith
    moreover have "int_of_u w n = int n - 2 ^ w" using False by (simp add: int_of_u_def)
    ultimately show ?thesis using two less by linarith
  qed
qed

subsection \<open>CompactSize\<close>

lemma length_WriteCompactSize: "length (WriteCompactSize n) = GetSizeOfCompactSize n"
  by (simp add: WriteCompactSize_def GetSizeOfCompactSize_def ser_writedata_defs)

lemma ReadCompactSize_Write:
  assumes "n < 2 ^ 64" and "rc \<longrightarrow> n \<le> MAX_SIZE"
  shows "ReadCompactSize rc (WriteCompactSize n @ rest) = Inr (n, rest)"
  using assms
  by (auto simp: ReadCompactSize_def WriteCompactSize_def ser_writedata_defs ser_readdata_defs
      ser_readdata_le_bytes simp del: le_bytes.simps)

lemma ReadCompactSize_canonical:
  assumes "ReadCompactSize rc s = Inr (n, rest)"
  shows "s = WriteCompactSize n @ rest \<and> n < 2 ^ 64 \<and> (rc \<longrightarrow> n \<le> MAX_SIZE)"
proof -
  obtain c s1 where c: "ser_readdata 1 s = Inr (c, s1)"
    using assms by (auto simp: ReadCompactSize_def bindE_eq_Inr_iff ser_readdata_defs)
  then have s: "s = le_bytes 1 c @ s1" and "c < 256"
    by (simp_all add: ser_readdata_eq_Inr)
  note r = assms[unfolded ReadCompactSize_def ser_readdata_defs c]
  consider "c < 253" | "c = 253" | "c = 254" | "c = 255" using \<open>c < 256\<close> by linarith
  then show ?thesis
    using r by cases (auto simp: s WriteCompactSize_def ser_writedata_defs
        ser_readdata_defs bindE_eq_Inr_iff ser_readdata_eq_Inr split: if_splits
        simp del: le_bytes.simps)
qed

subsection \<open>VarInt\<close>

definition varint_byte :: "bool \<Rightarrow> nat \<Rightarrow> byte" where
  "varint_byte more n = (of_nat n AND 0x7F) OR (if more then 0x80 else 0x00)"

lemma varint_digit [simp]: "unat (varint_byte more n) = n mod 128 + (if more then 128 else 0)"
  using byte_or_80[of "of_nat n"] by (simp add: mod_mod_cancel varint_byte_def)

lemma varint_digit_inj: "unat b = n mod 128 + (if more then 128 else 0) \<Longrightarrow> b = varint_byte more n"
  by (simp only: word_unat_eq_iff varint_digit)

lemma varint_join: "push_bit 7 n OR unat (b AND 0x7F :: byte) = 128 * n + unat b mod 128"
  using nat_push_bit_or[of "unat b mod 128" 7 n] by simp

lemma ReadVarInt_loop_Cons:
  "ReadVarInt_loop imax n (b # s) =
     (if n > imax div 128 then Inl VarIntTooLarge
      else if 128 \<le> unat b then
        (if 128 * n + unat b mod 128 = imax then Inl VarIntTooLarge
         else ReadVarInt_loop imax (128 * n + unat b mod 128 + 1) s)
      else Inr (128 * n + unat b mod 128, s))"
  by (simp only: ReadVarInt_loop.simps varint_join byte_and_80 Let_def not_less drop_bit_eq_div
      power_numeral) simp

declare ReadVarInt_loop.simps(2) [simp del]

lemma WriteVarInt_loop_step:
  "WriteVarInt_loop more n tmp =
     (if n \<le> 127 then varint_byte more n # tmp
      else WriteVarInt_loop True (n div 128 - 1) (varint_byte more n # tmp))"
  by (subst WriteVarInt_loop.simps) (simp only: Let_def drop_bit_eq_div varint_byte_def, simp)

lemma WriteVarInt_induct [case_names digit]:
  assumes "\<And>more n tmp. (127 < n \<Longrightarrow> P True (n div 128 - 1) (varint_byte more n # tmp)) \<Longrightarrow> P more n tmp"
  shows "P more n tmp"
proof (induction more n tmp rule: WriteVarInt_loop.induct)
  case (1 more n tmp)
  show ?case
    by (rule assms) (use 1 in \<open>simp add: varint_byte_def drop_bit_eq_div\<close>)
qed

lemma ReadVarInt_Write_loop:
  "(more \<longrightarrow> n < imax \<longrightarrow>
     ReadVarInt_loop imax 0 (WriteVarInt_loop more n tmp) = ReadVarInt_loop imax (n + 1) tmp) \<and>
   (\<not> more \<longrightarrow> n \<le> imax \<longrightarrow> ReadVarInt_loop imax 0 (WriteVarInt_loop more n tmp) = Inr (n, tmp))"
proof (induction more n tmp rule: WriteVarInt_induct)
  case (digit more n tmp)
  show ?case
  proof (cases "n \<le> 127")
    case True
    then show ?thesis
      by (auto simp: WriteVarInt_loop_step[of _ n] ReadVarInt_loop_Cons)
  next
    case False
    have digits: "128 * (n div 128) + n mod 128 = n" by simp
    have "ReadVarInt_loop imax 0 (WriteVarInt_loop more n tmp)
        = ReadVarInt_loop imax (n div 128) (varint_byte more n # tmp)" if "n \<le> imax"
    proof -
      have "n div 128 < n" using False by simp
      then have "n div 128 - 1 < imax" and "n div 128 - 1 + 1 = n div 128"
        using False that by auto
      then show ?thesis
        using digit False by (simp add: WriteVarInt_loop_step[of _ n])
    qed
    then show ?thesis
      using digits by (auto simp: ReadVarInt_loop_Cons not_less div_le_mono)
  qed
qed

lemma WriteVarInt_loop_append: "WriteVarInt_loop more n tmp = WriteVarInt_loop more n [] @ tmp"
proof (induction n arbitrary: more tmp rule: less_induct)
  case (less n)
  show ?case
  proof (cases "n \<le> 127")
    case False
    then have "n div 128 - 1 < n" by (simp add: less_imp_diff_less)
    from less[OF this, of True "varint_byte more n # tmp"] less[OF this, of True "[varint_byte more n]"]
    show ?thesis using False by (simp add: WriteVarInt_loop_step[of more n])
  qed (simp add: WriteVarInt_loop_step[of more n])
qed

lemma ReadVarInt_Write:
  "n \<le> imax \<Longrightarrow> ReadVarInt imax (WriteVarInt n @ rest) = Inr (n, rest)"
  using ReadVarInt_Write_loop[of False n imax rest]
  by (simp add: ReadVarInt_def WriteVarInt_def WriteVarInt_loop_append[of False n rest, symmetric])

text \<open>
  The bytes already consumed when the reader holds \<open>n\<close> are those of the continuation digits of
  \<open>n - 1\<close>; no second encoding of a value is accepted.
\<close>

definition varint_prefix :: "nat \<Rightarrow> bytes" where
  "varint_prefix n = (if n = 0 then [] else WriteVarInt_loop True (n - 1) [])"

lemma varint_prefix_snoc:
  "varint_prefix n @ [varint_byte more (128 * n + d)] = WriteVarInt_loop more (128 * n + d) []"
  if "d < 128"
proof (cases "n = 0")
  case True
  with that show ?thesis by (simp add: varint_prefix_def WriteVarInt_loop_step[of more])
next
  case False
  then have "\<not> 128 * n + d \<le> 127" and "(128 * n + d) div 128 = n" using that by auto
  then show ?thesis
    using False WriteVarInt_loop_append[of True "n - 1" "[varint_byte more (128 * n + d)]"]
    by (simp add: varint_prefix_def WriteVarInt_loop_step[of more])
qed

lemma ReadVarInt_loop_canonical:
  "imax mod 128 = 127 \<Longrightarrow> ReadVarInt_loop imax n s = Inr (x, rest) \<Longrightarrow> varint_prefix n @ s = WriteVarInt x @ rest \<and> x \<le> imax"
proof (induction s arbitrary: n)
  case (Cons b s)
  let ?m = "128 * n + unat b mod 128"
  have le: "n \<le> imax div 128" using Cons.prems by (auto simp: ReadVarInt_loop_Cons split: if_splits)
  have snoc: "varint_prefix n @ [b] = WriteVarInt_loop (128 \<le> unat b) ?m []"
  proof -
    have "unat b - 128 < 128" using unat_byte_less[of b] by linarith
    then have "unat b = unat b mod 128 + (if 128 \<le> unat b then 128 else 0)"
      by (cases "128 \<le> unat b") (auto simp: le_mod_geq)
    then have "b = varint_byte (128 \<le> unat b) ?m" by (intro varint_digit_inj) simp
    then show ?thesis using varint_prefix_snoc[of "unat b mod 128" n "128 \<le> unat b"] by simp
  qed
  have whole: "varint_prefix n @ b # s = WriteVarInt_loop (128 \<le> unat b) ?m [] @ s"
    using snoc[symmetric] by simp
  show ?case
  proof (cases "128 \<le> unat b")
    case True
    then have "varint_prefix (?m + 1) @ s = WriteVarInt x @ rest \<and> x \<le> imax"
      using Cons by (auto simp: ReadVarInt_loop_Cons split: if_splits)
    then show ?thesis using True whole by (simp add: varint_prefix_def[of "Suc _"])
  next
    case False
    then have "x = ?m" and "s = rest" and "unat b < 128"
      using Cons.prems by (auto simp: ReadVarInt_loop_Cons split: if_splits)
    moreover have "?m \<le> imax" 
      using le Cons.prems(1) mult_div_mod_eq[of 128 imax] mod_less_divisor[of 128 "unat b"] by linarith
    ultimately show ?thesis using False whole by (simp add: WriteVarInt_def)
  qed
qed simp

lemma ReadVarInt_canonical:
  "imax mod 128 = 127 \<Longrightarrow> ReadVarInt imax s = Inr (n, rest) \<Longrightarrow> s = WriteVarInt n @ rest \<and> n \<le> imax"
  using ReadVarInt_loop_canonical[of imax 0 s n rest] by (simp add: ReadVarInt_def varint_prefix_def)

lemma length_WriteVarInt_loop: "length (WriteVarInt_loop more n tmp) = GetSizeOfVarInt n + length tmp"
proof (induction more n tmp rule: WriteVarInt_induct)
  case (digit more n tmp)
  then show ?case
    by (cases "n \<le> 127")
       (auto simp: WriteVarInt_loop_step[of more] GetSizeOfVarInt.simps[of n] drop_bit_eq_div)
qed

lemma length_WriteVarInt: "length (WriteVarInt n) = GetSizeOfVarInt n"
  by (simp add: WriteVarInt_def length_WriteVarInt_loop)

subsection \<open>Byte vectors\<close>

text \<open>Reading in blocks of five million bytes is one read of the whole length.\<close>

lemma stream_read_add:
  "stream_read (m + n) s =
     bindE (stream_read m s) (\<lambda>(a, s'). bindE (stream_read n s') (\<lambda>(b, s''). Inr (a @ b, s'')))"
  by (auto simp: stream_read_def take_add drop_drop add.commute)

lemma Unserialize_blocks_eq:
  "i \<le> nSize \<Longrightarrow> Unserialize_blocks nSize i v s =
     bindE (stream_read (nSize - i) s) (\<lambda>(b, s'). Inr (v @ b, s'))"
proof (induction nSize i v s rule: Unserialize_blocks.induct)
  case (1 nSize i v s)
  let ?blk = "min (nSize - i) (1 + 4999999)"
  show ?case
  proof (cases "i < nSize")
    case True
    then have le: "i + ?blk \<le> nSize" and split: "nSize - i = ?blk + (nSize - (i + ?blk))" by auto
    have "Unserialize_blocks nSize i v s =
        bindE (stream_read ?blk s) (\<lambda>(b, s'). Unserialize_blocks nSize (i + ?blk) (v @ b) s')"
      using True by (subst Unserialize_blocks.simps) (simp add: Let_def)
    also have "\<dots> = bindE (stream_read ?blk s) (\<lambda>(b, s').
        bindE (stream_read (nSize - (i + ?blk)) s') (\<lambda>(b', s''). Inr ((v @ b) @ b', s'')))"
      using "1.IH"[OF True refl _ _ le] by (intro bindE_cong) (auto split: prod.splits)
    also have "\<dots> = bindE (stream_read (nSize - i) s) (\<lambda>(b, s'). Inr (v @ b, s'))"
      by (subst split, simp only: stream_read_add) (auto simp: bindE_def split: sum.splits)
    finally show ?thesis .
  next
    case False
    with "1.prems" show ?thesis by (subst Unserialize_blocks.simps) (simp add: stream_read_def)
  qed
qed

lemma Unserialize_bytes_eq:
  "Unserialize_bytes s = bindE (ReadCompactSize True s) (\<lambda>(n, s'). stream_read n s')"
  by (auto simp: Unserialize_bytes_def Unserialize_blocks_eq bindE_def split: sum.splits)


section \<open>Codecs\<close>

text \<open>
  What every \<open>Serialize\<close>/\<open>Unserialize\<close> pair promises to the code that uses it: on a value inside
  its domain the reader returns the value and leaves exactly the bytes that follow it.  A canonical
  codec accepts no other encoding.  The template code for vectors and optional values only relies on
  these laws, so its round trips are proved here once.
\<close>

locale codec =
  fixes ser :: "'a \<Rightarrow> bytes" and unser :: "'a reader" and ok :: "'a \<Rightarrow> bool"
  assumes unser_ser: "ok x \<Longrightarrow> unser (ser x @ rest) = Inr (x, rest)"
begin

lemma ser_prefix_free:
  assumes "ok x" "ok y" "ser x @ r = ser y @ r'"
  shows "x = y \<and> r = r'"
proof -
  have "Inr (x, r) = unser (ser x @ r)" using unser_ser[OF assms(1)] by (rule sym)
  also have "\<dots> = Inr (y, r')" unfolding assms(3) by (rule unser_ser[OF assms(2)])
  finally show ?thesis by simp
qed

lemma unser_ser_nil: "ok x \<Longrightarrow> unser (ser x) = Inr (x, [])"
  using unser_ser[of x "[]"] by simp

lemma ser_inj: "ok x \<Longrightarrow> ok y \<Longrightarrow> ser x = ser y \<Longrightarrow> x = y"
  using ser_prefix_free[of x y "[]" "[]"] by simp

lemma VectorUnser_loop_ser:
  "list_all ok xs \<Longrightarrow> VectorUnser_loop unser (length xs) (concat (map ser xs) @ rest) = Inr (xs, rest)"
  by (induction xs) (simp_all add: unser_ser)

lemma codec_vector:
  "codec (VectorSer ser) (VectorUnser unser) (\<lambda>xs. list_all ok xs \<and> length xs \<le> MAX_SIZE)"
  by unfold_locales
     (simp add: VectorSer_def VectorUnser_def ReadCompactSize_Write VectorUnser_loop_ser)

lemma codec_optional: "codec (OptionalSer ser) (OptionalUnser unser) (pred_option ok)"
  by unfold_locales
     (auto simp: OptionalSer_def OptionalUnser_def unser_ser ser_readdata_defs ser_writedata_defs
       ser_readdata_le_bytes simp del: le_bytes.simps split: option.splits)

end

locale canonical_codec = codec +
  assumes ser_unser: "unser s = Inr (x, rest) \<Longrightarrow> s = ser x @ rest \<and> ok x"
begin

lemma unser_iff: "unser s = Inr (x, rest) \<longleftrightarrow> s = ser x @ rest \<and> ok x"
  using ser_unser unser_ser by blast

lemma VectorUnser_loop_canonical:
  "VectorUnser_loop unser n s = Inr (xs, rest) \<Longrightarrow>
   s = concat (map ser xs) @ rest \<and> list_all ok xs \<and> length xs = n"
  by (induction n arbitrary: s xs) (auto simp: bindE_eq_Inr_iff dest!: ser_unser)

lemma canonical_codec_vector:
  "canonical_codec (VectorSer ser) (VectorUnser unser) (\<lambda>xs. list_all ok xs \<and> length xs \<le> MAX_SIZE)"
  by (intro canonical_codec.intro codec_vector canonical_codec_axioms.intro)
     (auto simp: VectorSer_def VectorUnser_def bindE_eq_Inr_iff
       dest!: ReadCompactSize_canonical VectorUnser_loop_canonical)

end


interpretation compact: canonical_codec WriteCompactSize "ReadCompactSize True" "\<lambda>n. n \<le> MAX_SIZE"
  by unfold_locales (simp add: ReadCompactSize_Write, drule ReadCompactSize_canonical, simp)

interpretation varint64: canonical_codec WriteVarInt "ReadVarInt (2 ^ 64 - 1)" "\<lambda>n. n \<le> 2 ^ 64 - 1"
  by unfold_locales (simp add: ReadVarInt_Write, rule ReadVarInt_canonical, simp_all)

interpretation varint32: canonical_codec WriteVarInt "ReadVarInt (2 ^ 32 - 1)" "\<lambda>n. n \<le> 2 ^ 32 - 1"
  by unfold_locales (simp add: ReadVarInt_Write, rule ReadVarInt_canonical, simp_all)

interpretation le32: canonical_codec ser_writedata32 ser_readdata32 "\<lambda>n. n < 2 ^ 32"
  by unfold_locales
     (auto simp: ser_writedata_defs ser_readdata_defs ser_readdata_le_bytes ser_readdata_eq_Inr
       simp del: le_bytes.simps)

interpretation le64: canonical_codec ser_writedata64 ser_readdata64 "\<lambda>n. n < 2 ^ 64"
  by unfold_locales
     (auto simp: ser_writedata_defs ser_readdata_defs ser_readdata_le_bytes ser_readdata_eq_Inr
       simp del: le_bytes.simps)

interpretation bytevec: canonical_codec Serialize_bytes Unserialize_bytes "\<lambda>v. length v \<le> MAX_SIZE"
  by unfold_locales
     (auto simp: Serialize_bytes_def Unserialize_bytes_eq compact.unser_ser bindE_eq_Inr_iff
       stream_read_eq_Inr dest!: compact.ser_unser)

section \<open>Properties\<close>

text \<open>
  A CompactSize value has one encoding.  \<open>ReadCompactSize\<close> returns \<open>n\<close> and leaves \<open>rest\<close> exactly
  when the stream is the output of \<open>WriteCompactSize n\<close> followed by \<open>rest\<close> and \<open>n\<close> is within the bound
  that the caller asked to be checked; the size announced by \<open>GetSizeOfCompactSize\<close> is the number of
  bytes consumed.
\<close>

theorem CompactSize_one_encoding:
  "ReadCompactSize rc s = Inr (n, rest) \<longleftrightarrow>
     s = WriteCompactSize n @ rest \<and> n < 2 ^ 64 \<and> \<not> (rc \<and> MAX_SIZE < n) \<and>
     length s = GetSizeOfCompactSize n + length rest"
  using ReadCompactSize_canonical[of rc s n rest] ReadCompactSize_Write[of n rc rest]
  by (auto simp: length_WriteCompactSize not_less)

text \<open>
  A VarInt has one encoding: reading an unsigned 64-bit VarInt succeeds exactly on the output of
  \<open>WriteVarInt\<close>, returns the number written, consumes \<open>GetSizeOfVarInt\<close> bytes, and never returns a
  value that does not fit the type.
\<close>

theorem VarInt_one_encoding:
  "ReadVarInt (2 ^ 64 - 1) s = Inr (n, rest) \<longleftrightarrow>
     s = WriteVarInt n @ rest \<and> n < 2 ^ 64 \<and> length s = GetSizeOfVarInt n + length rest"
  unfolding varint64.unser_iff using length_WriteVarInt[of n] by auto

end
