(* ===== verification/Script.thy ===== *)
theory Script
  imports Opcodes Serialize
begin

text \<open>
  Scripts: \<open>script/script.h\<close> and \<open>script/script.cpp\<close>.  A script is its list of bytes; an iterator into
  it is the suffix that starts there, so \<open>pc == end()\<close> is the empty list and \<open>end() - pc\<close> its length.
  \<open>CScriptNum\<close> holds an \<open>int64_t\<close>, here an \<open>int\<close>; its byte conversions run on \<open>64 word\<close> as in the code.
\<close>

abbreviation (input) MAX_SCRIPT_ELEMENT_SIZE :: nat where "MAX_SCRIPT_ELEMENT_SIZE \<equiv> 520"
abbreviation (input) MAX_PUBKEYS_PER_MULTISIG :: nat where "MAX_PUBKEYS_PER_MULTISIG \<equiv> 20"
abbreviation (input) MAX_SCRIPT_SIZE :: nat where "MAX_SCRIPT_SIZE \<equiv> 10000"
abbreviation (input) LOCKTIME_THRESHOLD :: nat where "LOCKTIME_THRESHOLD \<equiv> 500000000"

section \<open>CScriptNum\<close>

datatype scriptnum_error = ScriptNumOverflow | ScriptNumNotMinimal

abbreviation (input) nDefaultMaxNumSize :: nat where "nDefaultMaxNumSize \<equiv> 4"

text \<open>
  The loop of \<open>set_vch\<close>.  Shifting by 64 or more is undefined in C++; every caller bounds the size by
  at most five bytes.
\<close>

fun set_vch_loop :: "nat \<Rightarrow> bytes \<Rightarrow> 64 word" where
  "set_vch_loop i [] = 0"
| "set_vch_loop i (b # vch) = push_bit (8 * i) (ucast b) OR set_vch_loop (Suc i) vch"

definition set_vch :: "bytes \<Rightarrow> int" where
  "set_vch vch =
     (if vch = [] then 0
      else let result = set_vch_loop 0 vch
           in if last vch AND 0x80 \<noteq> 0
              then - sint (result AND NOT (push_bit (8 * (length vch - 1)) 0x80))
              else sint result)"

definition CScriptNum_vch :: "bytes \<Rightarrow> bool \<Rightarrow> nat \<Rightarrow> scriptnum_error + int" where
  "CScriptNum_vch vch fRequireMinimal nMaxNumSize =
     (if length vch > nMaxNumSize then Inl ScriptNumOverflow
      else if fRequireMinimal \<and> length vch > 0 \<and> last vch AND 0x7f = 0
              \<and> (length vch \<le> 1 \<or> vch ! (length vch - 2) AND 0x80 = 0)
           then Inl ScriptNumNotMinimal
           else Inr (set_vch vch))"

function serialize_loop :: "64 word \<Rightarrow> bytes" where
  "serialize_loop absvalue =
     (if absvalue = 0 then [] else ucast (absvalue AND 0xff) # serialize_loop (drop_bit 8 absvalue))"
  by pat_completeness auto
termination
proof (relation "measure unat")
  fix w :: "64 word"
  assume "w \<noteq> 0"
  then have "0 < unat w" by (simp add: unat_gt_0)
  then show "(drop_bit 8 w, w) \<in> measure unat"
    by (simp add: drop_bit_eq_div unat_div)
qed simp

declare serialize_loop.simps [simp del]

definition CScriptNum_serialize :: "int \<Rightarrow> bytes" where
  "CScriptNum_serialize val =
     (if val = 0 then []
      else let neg = val < 0;
               absvalue = (if neg then NOT (word_of_int val) + 1 else word_of_int val);
               result = serialize_loop absvalue
           in if last result AND 0x80 \<noteq> 0 then result @ [if neg then 0x80 else 0]
              else if neg then butlast result @ [last result OR 0x80]
              else result)"

definition getint :: "int \<Rightarrow> int" where
  "getint m_value = (if m_value > INT_MAX then INT_MAX else if m_value < INT_MIN then INT_MIN else m_value)"

section \<open>Building scripts\<close>

text \<open>\<open>operator<<\<close> appends: each definition is the bytes that are inserted at the end.\<close>

definition push_op :: "nat \<Rightarrow> bytes" where
  "push_op opcode = [of_nat opcode]"

definition push_vch :: "bytes \<Rightarrow> bytes" where
  "push_vch b =
     (if length b < OP_PUSHDATA1 then [of_nat (length b)]
      else if length b \<le> 0xff then [of_nat OP_PUSHDATA1, of_nat (length b)]
      else if length b \<le> 0xffff then of_nat OP_PUSHDATA2 # WriteLE16 (length b)
      else of_nat OP_PUSHDATA4 # WriteLE32 (length b)) @ b"

definition push_int64 :: "int \<Rightarrow> bytes" where
  "push_int64 n =
     (if n = -1 \<or> 1 \<le> n \<and> n \<le> 16 then [of_int (n + (int OP_1 - 1))]
      else if n = 0 then [of_nat OP_0]
      else push_vch (CScriptNum_serialize n))"

definition push_scriptnum :: "int \<Rightarrow> bytes" where
  "push_scriptnum n = push_vch (CScriptNum_serialize n)"

section \<open>Reading scripts\<close>

text \<open>\<open>GetOp2\<close> moves the iterator also when it fails, and one caller goes on from there.\<close>

datatype getop =
  GetOp_ok (op_code: nat) (op_data: bytes) (op_pc: bytes)
| GetOp_fail (op_pc: bytes)

definition GetOp_operand :: "nat \<Rightarrow> nat \<Rightarrow> bytes \<Rightarrow> getop" where
  "GetOp_operand opcode nSize pc =
     (if length pc < nSize then GetOp_fail pc else GetOp_ok opcode (take nSize pc) (drop nSize pc))"

definition GetOp2 :: "bytes \<Rightarrow> getop" where
  "GetOp2 pc0 =
     (case pc0 of
        [] \<Rightarrow> GetOp_fail []
      | c # pc \<Rightarrow>
          let opcode = unat c
          in if opcode \<le> OP_PUSHDATA4 then
               (if opcode < OP_PUSHDATA1 then GetOp_operand opcode opcode pc
                else if opcode = OP_PUSHDATA1 then
                  (case pc of [] \<Rightarrow> GetOp_fail pc | n # pc' \<Rightarrow> GetOp_operand opcode (unat n) pc')
                else if opcode = OP_PUSHDATA2 then
                  (if length pc < 2 then GetOp_fail pc
                   else GetOp_operand opcode (ReadLE16 pc) (drop 2 pc))
                else
                  (if length pc < 4 then GetOp_fail pc
                   else GetOp_operand opcode (ReadLE32 pc) (drop 4 pc)))
             else GetOp_ok opcode [] pc)"

text \<open>Every instruction has at least one byte, which is what makes the loops over scripts end.\<close>

lemma GetOp_operand_pc:
  "GetOp_operand opcode nSize pc = GetOp_ok op v pc' \<Longrightarrow> op = opcode \<and> pc = v @ pc' \<and> length v = nSize"
  by (auto simp: GetOp_operand_def split: if_splits)

lemma GetOp2_split:
  assumes "GetOp2 pc = GetOp_ok op v pc'"
  obtains hdr where "pc = of_nat op # hdr @ v @ pc'" and "op < 256" and "length hdr \<le> 4"
proof -
  obtain c cs where pc: "pc = c # cs" using assms by (cases pc) (auto simp: GetOp2_def)
  have c: "of_nat (unat c) = c" "unat c < 256" by simp_all
  have shift: "GetOp_operand opc n (drop k cs) = GetOp_ok op v pc' \<Longrightarrow> op = opc \<and> cs = take k cs @ v @ pc'"
    for opc n k using GetOp_operand_pc[of opc n "drop k cs" op v pc'] append_take_drop_id[of k cs] by auto
  consider "unat c < 76" | "unat c = 76" | "unat c = 77" | "unat c = 78" | "78 < unat c" by linarith
  then have "op = unat c \<and> (\<exists>k \<le> 4. cs = take k cs @ v @ pc')"
  proof cases
    case 2
    then show ?thesis
      using assms shift[of 76 _ 1] by (cases cs) (auto simp: pc GetOp2_def intro!: exI[of _ 1])
  next
    case 3
    then show ?thesis
      using assms shift[of 77 _ 2] by (auto simp: pc GetOp2_def split: if_splits intro!: exI[of _ 2])
  next
    case 4
    then show ?thesis
      using assms shift[of 78 _ 4] by (auto simp: pc GetOp2_def split: if_splits intro!: exI[of _ 4])
  qed (use assms shift[of "unat c" _ 0] in \<open>auto simp: pc GetOp2_def Let_def intro!: exI[of _ 0]\<close>)
  then show thesis using that c by (auto simp: pc)
qed

lemma GetOp2_progress [simp]: "GetOp2 pc = GetOp_ok op v pc' \<Longrightarrow> length pc' < length pc"
  by (erule GetOp2_split) simp

text \<open>A failed assertion aborts the process: it is \<open>None\<close>.\<close>

definition DecodeOP_N :: "nat \<Rightarrow> nat option" where
  "DecodeOP_N opcode =
     (if opcode = OP_0 then Some 0
      else if OP_1 \<le> opcode \<and> opcode \<le> OP_16 then Some (opcode - (OP_1 - 1))
      else None)"

definition EncodeOP_N :: "int \<Rightarrow> nat option" where
  "EncodeOP_N n =
     (if 0 \<le> n \<and> n \<le> 16 then if n = 0 then Some OP_0 else Some (OP_1 + nat n - 1) else None)"

section \<open>Searching scripts\<close>

text \<open>
  \<open>FindAndDelete\<close> returns the number of deletions and replaces the script.  The outer loop copies the
  instruction it just parsed (the bytes between \<open>pc2\<close> and \<open>pc\<close>, here \<open>chunk\<close>), skips every copy of \<open>b\<close>
  that starts at \<open>pc\<close>, and parses the next instruction.
\<close>

function FindAndDelete_skip :: "bytes \<Rightarrow> bytes \<Rightarrow> nat \<Rightarrow> bytes \<times> nat" where
  "FindAndDelete_skip b pc nFound =
     (if b \<noteq> [] \<and> length pc \<ge> length b \<and> take (length b) pc = b
      then FindAndDelete_skip b (drop (length b) pc) (nFound + 1)
      else (pc, nFound))"
  by pat_completeness auto
termination
  by (relation "measure (\<lambda>(b, pc, nFound). length pc)") (auto simp: neq_Nil_conv)

declare FindAndDelete_skip.simps [simp del]

lemma FindAndDelete_skip_length:
  "FindAndDelete_skip b pc n = (pc', n') \<Longrightarrow> length pc = length pc' + (n' - n) * length b \<and> n \<le> n'"
proof (induction b pc n rule: FindAndDelete_skip.induct)
  case (1 b pc n)
  show ?case
  proof (cases "b \<noteq> [] \<and> length pc \<ge> length b \<and> take (length b) pc = b")
    case True
    then have "FindAndDelete_skip b (drop (length b) pc) (n + 1) = (pc', n')"
      using 1(2) FindAndDelete_skip.simps[of b pc n] by simp
    with 1(1)[OF True]
    have "length (drop (length b) pc) = length pc' + (n' - (n + 1)) * length b \<and> n + 1 \<le> n'"
      by blast
    moreover from this have "n' - n = Suc (n' - (n + 1))" by linarith
    ultimately show ?thesis using True by auto
  next
    case False
    with 1(2) show ?thesis using FindAndDelete_skip.simps[of b pc n] by auto
  qed
qed

function FindAndDelete_loop :: "bytes \<Rightarrow> bytes \<Rightarrow> bytes \<Rightarrow> bytes \<Rightarrow> nat \<Rightarrow> bytes \<times> bytes \<times> nat" where
  "FindAndDelete_loop b result chunk pc nFound =
     (let result' = result @ chunk;
          (pc2, nFound') = FindAndDelete_skip b pc nFound
      in case GetOp2 pc2 of
           GetOp_ok opcode v pc' \<Rightarrow>
             FindAndDelete_loop b result' (take (length pc2 - length pc') pc2) pc' nFound'
         | GetOp_fail pc' \<Rightarrow> (result', pc2, nFound'))"
  by pat_completeness auto
termination
proof (relation "measure (\<lambda>(b, result, chunk, pc, nFound). length pc)", simp)
  fix b result chunk pc nFound result' x pc2 nFound' opcode v pc'
  assume "x = FindAndDelete_skip b pc nFound" "(pc2, nFound') = x" and op: "GetOp2 pc2 = GetOp_ok opcode v pc'"
  then have "length pc2 \<le> length pc" using FindAndDelete_skip_length[of b pc nFound pc2 nFound'] by simp
  then show "((b, result', take (length pc2 - length pc') pc2, pc', nFound'), b, result, chunk, pc, nFound)
      \<in> measure (\<lambda>(b, result, chunk, pc, nFound). length pc)"
    using GetOp2_progress[OF op] by simp
qed

declare FindAndDelete_loop.simps [simp del]

definition FindAndDelete :: "bytes \<Rightarrow> bytes \<Rightarrow> bytes \<times> nat" where
  "FindAndDelete script b =
     (if b = [] then (script, 0)
      else let (result, pc2, nFound) = FindAndDelete_loop b [] [] script 0
           in (if nFound > 0 then result @ pc2 else script, nFound))"

function Find_loop :: "nat \<Rightarrow> bytes \<Rightarrow> nat \<Rightarrow> nat" where
  "Find_loop op pc nFound =
     (case GetOp2 pc of
        GetOp_ok opcode v pc' \<Rightarrow> Find_loop op pc' (if opcode = op then nFound + 1 else nFound)
      | GetOp_fail pc' \<Rightarrow> nFound)"
  by pat_completeness auto
termination by (relation "measure (\<lambda>(op, pc, nFound). length pc)") auto

declare Find_loop.simps [simp del]

definition Find :: "bytes \<Rightarrow> nat \<Rightarrow> nat" where
  "Find script op = Find_loop op script 0"

section \<open>Signature operations\<close>

text \<open>The guard on \<open>lastOpcode\<close> keeps \<open>DecodeOP_N\<close> inside its assertion.\<close>

function GetSigOpCount_loop :: "bool \<Rightarrow> nat \<Rightarrow> bytes \<Rightarrow> nat \<Rightarrow> nat" where
  "GetSigOpCount_loop fAccurate lastOpcode pc n =
     (case GetOp2 pc of
        GetOp_fail pc' \<Rightarrow> n
      | GetOp_ok opcode v pc' \<Rightarrow>
          GetSigOpCount_loop fAccurate opcode pc'
            (if opcode = OP_CHECKSIG \<or> opcode = OP_CHECKSIGVERIFY then n + 1
             else if opcode = OP_CHECKMULTISIG \<or> opcode = OP_CHECKMULTISIGVERIFY then
               (if fAccurate \<and> OP_1 \<le> lastOpcode \<and> lastOpcode \<le> OP_16
                then n + the (DecodeOP_N lastOpcode)
                else n + MAX_PUBKEYS_PER_MULTISIG)
             else n))"
  by pat_completeness auto
termination by (relation "measure (\<lambda>(fAccurate, lastOpcode, pc, n). length pc)") auto

declare GetSigOpCount_loop.simps [simp del]

definition GetSigOpCount :: "bytes \<Rightarrow> bool \<Rightarrow> nat" where
  "GetSigOpCount script fAccurate = GetSigOpCount_loop fAccurate OP_INVALIDOPCODE script 0"

section \<open>Output templates\<close>

definition IsPayToPublicKeyHash :: "bytes \<Rightarrow> bool" where
  "IsPayToPublicKeyHash s \<longleftrightarrow>
     length s = 25 \<and> unat (s ! 0) = OP_DUP \<and> unat (s ! 1) = OP_HASH160 \<and> s ! 2 = 0x14 \<and>
     unat (s ! 23) = OP_EQUALVERIFY \<and> unat (s ! 24) = OP_CHECKSIG"

definition IsPayToScriptHash :: "bytes \<Rightarrow> bool" where
  "IsPayToScriptHash s \<longleftrightarrow>
     length s = 23 \<and> unat (s ! 0) = OP_HASH160 \<and> s ! 1 = 0x14 \<and> unat (s ! 22) = OP_EQUAL"

definition IsPayToColdStaking :: "bytes \<Rightarrow> bool" where
  "IsPayToColdStaking s \<longleftrightarrow>
     length s = 51 \<and> unat (s ! 0) = OP_DUP \<and> unat (s ! 1) = OP_HASH160 \<and> unat (s ! 2) = OP_ROT \<and>
     unat (s ! 3) = OP_IF \<and>
     (unat (s ! 4) = OP_CHECKCOLDSTAKEVERIFY \<or> unat (s ! 4) = OP_CHECKCOLDSTAKEVERIFY_LOF) \<and>
     s ! 5 = 0x14 \<and> unat (s ! 26) = OP_ELSE \<and> s ! 27 = 0x14 \<and> unat (s ! 48) = OP_ENDIF \<and>
     unat (s ! 49) = OP_EQUALVERIFY \<and> unat (s ! 50) = OP_CHECKSIG"

definition IsPayToColdStakingLOF :: "bytes \<Rightarrow> bool" where
  "IsPayToColdStakingLOF s \<longleftrightarrow> IsPayToColdStaking s \<and> unat (s ! 4) = OP_CHECKCOLDSTAKEVERIFY_LOF"

definition IsPayToExchangeAddress :: "bytes \<Rightarrow> bool" where
  "IsPayToExchangeAddress s \<longleftrightarrow>
     length s = 26 \<and> unat (s ! 0) = OP_EXCHANGEADDR \<and> unat (s ! 1) = OP_DUP \<and>
     unat (s ! 2) = OP_HASH160 \<and> s ! 3 = 0x14 \<and> unat (s ! 24) = OP_EQUALVERIFY \<and>
     unat (s ! 25) = OP_CHECKSIG"

definition StartsWithOpcode :: "bytes \<Rightarrow> nat \<Rightarrow> bool" where
  "StartsWithOpcode s opcode \<longleftrightarrow> s \<noteq> [] \<and> unat (s ! 0) = opcode"

definition IsZerocoinMint :: "bytes \<Rightarrow> bool" where
  "IsZerocoinMint s = StartsWithOpcode s OP_ZEROCOINMINT"

definition IsZerocoinSpend :: "bytes \<Rightarrow> bool" where
  "IsZerocoinSpend s = StartsWithOpcode s OP_ZEROCOINSPEND"

definition IsZerocoinPublicSpend :: "bytes \<Rightarrow> bool" where
  "IsZerocoinPublicSpend s = StartsWithOpcode s OP_ZEROCOINPUBLICSPEND"

definition IsUnspendable :: "bytes \<Rightarrow> bool" where
  "IsUnspendable s \<longleftrightarrow> length s > 0 \<and> unat (hd s) = OP_RETURN \<or> length s > MAX_SCRIPT_SIZE"

function IsPushOnly :: "bytes \<Rightarrow> bool" where
  "IsPushOnly pc =
     (if pc = [] then True
      else case GetOp2 pc of
             GetOp_fail pc' \<Rightarrow> False
           | GetOp_ok opcode v pc' \<Rightarrow> if opcode > OP_16 then False else IsPushOnly pc')"
  by pat_completeness auto
termination by (relation "measure length") auto

declare IsPushOnly.simps [simp del]

text \<open>
  The pay-to-script-hash count: the data of the last push of \<open>scriptSig\<close>, or \<open>None\<close> where the loop
  returns zero early.
\<close>

function last_push :: "bytes \<Rightarrow> bytes \<Rightarrow> bytes option" where
  "last_push data pc =
     (if pc = [] then Some data
      else case GetOp2 pc of
             GetOp_fail pc' \<Rightarrow> None
           | GetOp_ok opcode v pc' \<Rightarrow> if opcode > OP_16 then None else last_push v pc')"
  by pat_completeness auto
termination by (relation "measure (\<lambda>(data, pc). length pc)") auto

declare last_push.simps [simp del]

definition GetSigOpCount_P2SH :: "bytes \<Rightarrow> bytes \<Rightarrow> nat" where
  "GetSigOpCount_P2SH script scriptSig =
     (if \<not> IsPayToScriptHash script then GetSigOpCount script True
      else case last_push [] scriptSig of
             None \<Rightarrow> 0
           | Some subscript \<Rightarrow> GetSigOpCount subscript True)"

section \<open>Script numbers\<close>

text \<open>
  The number an encoding denotes, without machine words: sign and magnitude, the sign in the top bit
  of the last byte.
\<close>

definition script_num_val :: "bytes \<Rightarrow> int" where
  "script_num_val vch =
     (if vch = [] then 0
      else let m = le_val (butlast vch) + 256 ^ (length vch - 1) * (unat (last vch) mod 128)
           in if 128 \<le> unat (last vch) then - int m else int m)"

lemma pow256: "(2 :: 'a :: comm_semiring_1) ^ (8 * i) = 256 ^ i"
  by (simp only: power_mult) simp

lemma unat_ucast_byte: "unat (ucast (b :: byte) :: 64 word) = unat b"
proof -
  have "take_bit 64 (unat b) = unat b"
    by (rule take_bit_nat_eq_self) (rule less_trans[OF unat_byte_less], simp)
  then show ?thesis by (simp add: unsigned_ucast_eq)
qed

lemma unat_push_byte:
  assumes "i < 8"
  shows "unat (push_bit (8 * i) (ucast (b :: byte)) :: 64 word) = 256 ^ i * unat b"
proof -
  have "2 ^ (8 * i) * unat b < 2 ^ (8 * i) * 2 ^ 8" using unat_byte_less[of b] by simp
  also have "\<dots> \<le> 2 ^ 64" unfolding power_add[symmetric] using assms by (intro power_increasing) auto
  finally have "take_bit 64 (push_bit (8 * i) (unat b)) = push_bit (8 * i) (unat b)"
    by (simp only: take_bit_nat_eq_self push_bit_eq_mult mult.commute)
  moreover have "unat (push_bit (8 * i) (ucast b) :: 64 word) = take_bit 64 (push_bit (8 * i) (unat b))"
    by (simp only: unsigned_push_bit_eq unat_ucast_byte) simp
  ultimately show ?thesis by (simp only: push_bit_eq_mult[of _ "unat b"] pow256 mult.commute[of "unat b"])
qed

lemma set_vch_loop_val:
  "i + length vch \<le> 8 \<Longrightarrow> unat (set_vch_loop i vch) = 256 ^ i * le_val vch"
proof (induction vch arbitrary: i)
  case (Cons b vch)
  have "256 ^ i * unat b < 2 ^ (8 * Suc i)"
    using unat_byte_less[of b] by (simp only: pow256) simp
  from nat_push_bit_or[OF this, of "le_val vch"]
  have "256 ^ i * unat b OR 256 ^ Suc i * le_val vch = 256 ^ i * unat b + 256 ^ Suc i * le_val vch"
    by (simp only: push_bit_eq_mult pow256 or.commute[of "256 ^ i * unat b"] add.commute[of "256 ^ i * unat b"]
        mult.commute[of "256 ^ Suc i"])
  then show ?case
    using Cons unat_push_byte[of i b]
    by (simp only: set_vch_loop.simps unsigned_or_eq) (simp add: distrib_left mult.assoc mult.left_commute)
qed simp

lemma sint_small: "unat w < 2 ^ 63 \<Longrightarrow> sint (w :: 64 word) = int (unat w)"
proof -
  assume "unat w < 2 ^ 63"
  then have "int (unat w) < int (2 ^ 63)" by (simp only: of_nat_less_iff)
  then have u: "int (unat w) < 2 ^ 63" by (simp only: of_nat_power of_nat_numeral)
  have "sint w = signed_take_bit 63 (int (unat w))" by (simp add: sint_uint)
  also have "\<dots> = int (unat w)"
    by (rule signed_take_bit_int_eq_self) (use u in \<open>auto intro: order_trans[of _ 0]\<close>)
  finally show ?thesis .
qed

lemma clear_top_bit:
  assumes "unat w < 2 ^ Suc j"
  shows "unat (w AND NOT (push_bit j 1) :: 64 word) = unat w mod 2 ^ j"
proof -
  have "\<not> bit w n" if "j < n" for n
  proof -
    have "unat w < 2 ^ n" using assms that by (meson less_le_trans one_le_numeral power_increasing Suc_leI)
    then have "\<not> bit (unat w) n" by (simp add: bit_iff_odd)
    then show ?thesis by (simp add: bit_unsigned_iff)
  qed
  then have "w AND NOT (push_bit j 1) = take_bit j w"
    by (intro bit_word_eqI) (auto simp: bit_and_iff bit_not_iff bit_push_bit_iff bit_take_bit_iff bit_exp_iff possible_bit_word linorder_neq_iff)
  then show ?thesis by (simp only: unsigned_take_bit_eq take_bit_eq_mod[of j "unat w"])
qed

lemma le_val_butlast_last:
  "vch \<noteq> [] \<Longrightarrow> le_val vch = le_val (butlast vch) + 256 ^ (length vch - 1) * unat (last vch)"
  using le_val_append[of "butlast vch" "[last vch]"] by simp

lemma radix_part: "low < P \<Longrightarrow> u < q \<Longrightarrow> low + P * u < P * (q :: nat)"
  using mult_le_mono2[of "Suc u" q P] by simp

lemma byte_top: "128 \<le> unat (b :: byte) \<Longrightarrow> unat b = 128 + unat b mod 128"
  using unat_byte_less[of b] mod_less[of "unat b - 128" 128] le_mod_geq[of 128 "unat b"] by linarith

lemma radix_mod:
  assumes "low < P" and "128 \<le> unat (b :: byte)"
  shows "(low + P * unat b) mod (P * 128) = low + P * (unat b mod 128)"
proof -
  have "low + P * unat b = low + P * (unat b mod 128) + P * 128"
    by (subst byte_top[OF assms(2)]) (simp add: distrib_left)
  then have "(low + P * unat b) mod (P * 128) = (low + P * (unat b mod 128)) mod (P * 128)"
    by (simp only: mod_add_self2)
  also have "\<dots> = low + P * (unat b mod 128)"
    using assms(1) by (intro mod_less radix_part) simp_all
  finally show ?thesis .
qed

lemma set_vch_eq: "length vch \<le> 8 \<Longrightarrow> set_vch vch = script_num_val vch"
proof (cases "vch = []")
  case False
  assume len: "length vch \<le> 8"
  let ?k = "length vch - 1" and ?w = "set_vch_loop 0 vch" and ?low = "le_val (butlast vch)"
    and ?t = "unat (last vch)"
  have w: "unat ?w = ?low + 256 ^ ?k * ?t"
    using set_vch_loop_val[of 0 vch] len le_val_butlast_last[OF False] by simp
  have low: "?low < 256 ^ ?k" using le_val_less[of "butlast vch"] by simp
  have pow: "(2 :: nat) ^ (8 * ?k + 7) = 256 ^ ?k * 128" by (simp add: power_add pow256)
  have pos: "(256 :: nat) ^ ?k * 128 \<le> 2 ^ 63"
    unfolding pow[symmetric] using len by (intro power_increasing) auto
  show ?thesis
  proof (cases "128 \<le> ?t")
    case True
    have "push_bit (8 * ?k) 0x80 = (push_bit (8 * ?k + 7) 1 :: 64 word)"
      by (simp add: push_bit_eq_mult power_add)
    moreover have "unat ?w < 2 ^ Suc (8 * ?k + 7)"
      using radix_part[OF low unat_byte_less, of "last vch"] by (simp only: w power_Suc pow mult.assoc mult.left_commute[of 2]) 
    ultimately have m: "unat (?w AND NOT (push_bit (8 * ?k) 0x80)) = ?low + 256 ^ ?k * (?t mod 128)"
      using radix_mod[OF low True] by (simp only: clear_top_bit w pow)
    have "?low + 256 ^ ?k * (?t mod 128) < 256 ^ ?k * 128" using low by (intro radix_part) simp_all
    then have "sint (?w AND NOT (push_bit (8 * ?k) 0x80)) = int (?low + 256 ^ ?k * (?t mod 128))"
      using pos m by (subst sint_small) simp_all
    then show ?thesis
      using False True by (simp add: set_vch_def script_num_val_def byte_and_80)
  next
    case small: False
    then have "?low + 256 ^ ?k * ?t < 256 ^ ?k * 128" using low by (intro radix_part) simp_all
    then have "sint ?w = int (?low + 256 ^ ?k * ?t)" using pos w by (subst sint_small) simp_all
    then show ?thesis
      using False small by (simp add: set_vch_def script_num_val_def byte_and_80)
  qed
qed (simp add: set_vch_def script_num_val_def)

text \<open>The bytes of \<open>serialize\<close>'s loop are the base-256 digits without leading zeros.\<close>

function digits256 :: "nat \<Rightarrow> bytes" where
  "digits256 n = (if n = 0 then [] else of_nat n # digits256 (n div 256))"
  by pat_completeness auto
termination by (relation "measure id") auto

declare digits256.simps [simp del]

lemma digits256_0 [simp]: "digits256 0 = []"
  by (simp add: digits256.simps)

lemma digits256_pos: "0 < n \<Longrightarrow> digits256 n = of_nat n # digits256 (n div 256)"
  by (subst digits256.simps) simp

lemma serialize_loop_digits: "serialize_loop w = digits256 (unat w)"
proof (induction w rule: serialize_loop.induct)
  case (1 w)
  show ?case
  proof (cases "w = 0")
    case False
    have "ucast (w AND 0xff) = (of_nat (unat w) :: byte)"
      using unat_and_mask[of w 8]
      by (simp add: word_unat_eq_iff unsigned_ucast_eq mask_eq_exp_minus_1 take_bit_eq_mod)
    moreover have "unat (drop_bit 8 w) = unat w div 256" by (simp add: drop_bit_eq_div unat_div)
    ultimately show ?thesis
      using 1 False by (subst serialize_loop.simps) (simp add: digits256_pos unat_gt_0)
  qed (simp add: serialize_loop.simps)
qed

lemma le_val_digits256: "le_val (digits256 n) = n"
proof (induction n rule: digits256.induct)
  case (1 n)
  then show ?case by (cases "n = 0") (simp_all add: digits256_pos)
qed

lemma digits256_eq_Nil [simp]: "digits256 n = [] \<longleftrightarrow> n = 0"
  by (subst digits256.simps) simp

lemma last_digits256: "0 < n \<Longrightarrow> last (digits256 n) \<noteq> 0"
proof (induction n rule: digits256.induct)
  case (1 n)
  show ?case
  proof (cases "n < 256")
    case True
    then show ?thesis using 1(2) by (simp add: digits256_pos word_unat_eq_iff)
  next
    case False
    then have "0 < n div 256" by (simp add: div_greater_zero_iff)
    then show ?thesis using 1 by (simp add: digits256_pos[of n])
  qed
qed

lemma le_val_eq_0: "le_val bs = 0 \<Longrightarrow> bs \<noteq> [] \<Longrightarrow> last bs = 0"
  by (induction bs) (auto simp: unat_eq_0 split: if_splits)

lemma digits256_le_val: "bs = [] \<or> last bs \<noteq> 0 \<Longrightarrow> digits256 (le_val bs) = bs"
proof (induction bs)
  case (Cons b bs)
  have "le_val (b # bs) \<noteq> 0" using le_val_eq_0[of "b # bs"] Cons.prems by blast
  moreover have "(of_nat (unat b + 256 * le_val bs) :: byte) = b"
    by (simp only: word_unat_eq_iff unat_of_nat_byte) simp
  ultimately show ?case
    using Cons by (simp add: digits256_pos split: if_splits)
qed simp

text \<open>The sign step of \<open>serialize\<close>, on the digits of the magnitude.\<close>

definition sign_bytes :: "bool \<Rightarrow> bytes \<Rightarrow> bytes" where
  "sign_bytes neg r =
     (if last r AND 0x80 \<noteq> 0 then r @ [if neg then 0x80 else 0]
      else if neg then butlast r @ [last r OR 0x80] else r)"

lemma unat_word_of_int_64: "0 \<le> x \<Longrightarrow> x < 2 ^ 64 \<Longrightarrow> unat (word_of_int x :: 64 word) = nat x"
  by (simp only: unat_eq_nat_uint uint_word_of_int) (simp add: take_bit_int_eq_self)

lemma serialize_eq:
  assumes "\<bar>v\<bar> < 2 ^ 63"
  shows "CScriptNum_serialize v = (if v = 0 then [] else sign_bytes (v < 0) (digits256 (nat \<bar>v\<bar>)))"
proof -
  have "NOT (word_of_int v) + 1 = (word_of_int (- v) :: 64 word)"
    by (simp add: minus_eq_not_plus_1[symmetric])
  moreover have "unat (word_of_int \<bar>v\<bar> :: 64 word) = nat \<bar>v\<bar>"
    by (rule unat_word_of_int_64) (use assms in auto)
  ultimately have "unat (if v < 0 then NOT (word_of_int v) + 1 else word_of_int v :: 64 word) = nat \<bar>v\<bar>"
    by (cases "v < 0") (simp_all del: unat_word_of_int_64)
  then show ?thesis
    by (simp only: CScriptNum_serialize_def sign_bytes_def serialize_loop_digits Let_def)
qed

lemma byte_or_80_small: "unat b < 128 \<Longrightarrow> unat (b OR 0x80 :: byte) = unat b + 128"
proof -
  assume "unat b < 128"
  then have "b AND 0x7F = b" by (simp add: word_unat_eq_iff)
  then show ?thesis using byte_or_80[of b] \<open>unat b < 128\<close> by simp
qed

lemma script_num_val_snoc:
  "script_num_val (bs @ [b]) =
     (if 128 \<le> unat b then - 1 else 1) * int (le_val bs + 256 ^ length bs * (unat b mod 128))"
  by (simp add: script_num_val_def Let_def)

lemma script_num_val_sign_bytes:
  assumes "r \<noteq> []"
  shows "script_num_val (sign_bytes neg r) = (if neg then - int (le_val r) else int (le_val r))"
proof -
  obtain xs x where "r = xs @ [x]" using assms by (metis append_butlast_last_id)
  then show ?thesis
    using script_num_val_snoc[of "xs @ [x]"]
    by (auto simp: sign_bytes_def byte_and_80 script_num_val_snoc byte_or_80_small le_val_append)
qed

text \<open>The check of \<open>fRequireMinimal\<close>, as a predicate.\<close>

definition minimal_num :: "bytes \<Rightarrow> bool" where
  "minimal_num vch \<longleftrightarrow>
     vch = [] \<or> unat (last vch) mod 128 \<noteq> 0 \<or>
     (length vch > 1 \<and> 128 \<le> unat (vch ! (length vch - 2)))"

lemma CScriptNum_vch_eq:
  "CScriptNum_vch vch m k =
     (if length vch > k then Inl ScriptNumOverflow
      else if m \<and> \<not> minimal_num vch then Inl ScriptNumNotMinimal else Inr (set_vch vch))"
proof -
  have "last vch AND 0x7f = 0 \<longleftrightarrow> unat (last vch) mod 128 = 0"
    by (simp only: byte_and_7F[symmetric] unat_eq_0)
  then show ?thesis
    by (auto simp: CScriptNum_vch_def minimal_num_def byte_and_80)
qed

lemma minimal_num_sign_bytes:
  assumes "r \<noteq> []" and "last r \<noteq> 0"
  shows "minimal_num (sign_bytes neg r)"
proof -
  obtain xs x where r: "r = xs @ [x]" using assms by (metis append_butlast_last_id)
  then have "unat x \<noteq> 0" using assms by (simp add: unat_eq_0)
  then show ?thesis
    by (auto simp: r sign_bytes_def byte_and_80 minimal_num_def byte_or_80_small nth_append)
qed

lemma minimal_num_is_sign_bytes:
  assumes "minimal_num vch" and "vch \<noteq> []"
  obtains neg r where "vch = sign_bytes neg r" and "r \<noteq> []" and "last r \<noteq> 0"
proof -
  obtain xs x where v: "vch = xs @ [x]" using assms by (metis append_butlast_last_id)
  show thesis
  proof (cases "unat x mod 128 = 0")
    case True
    then have xs: "xs \<noteq> []" "128 \<le> unat (last xs)"
      using assms by (auto simp: v minimal_num_def nth_append last_conv_nth split: if_splits)
    have "unat x = 0 \<or> unat x = 128" using True byte_top[of x] by (cases "128 \<le> unat x") auto
    then have "x = (if 128 \<le> unat x then 0x80 else 0)" by (auto simp: word_unat_eq_iff)
    then have "vch = sign_bytes (128 \<le> unat x) xs" using xs by (simp add: v sign_bytes_def byte_and_80)
    then show thesis by (rule that) (use xs in auto)
  next
    case False
    let ?y = "x AND 0x7F"
    have "128 \<le> unat x \<Longrightarrow> x = ?y OR 0x80"
      using byte_top[of x] byte_or_80[of x] by (simp add: word_unat_eq_iff)
    moreover have "\<not> 128 \<le> unat x \<Longrightarrow> x = ?y" by (simp add: word_unat_eq_iff)
    ultimately have "vch = sign_bytes (128 \<le> unat x) (xs @ [?y])"
      by (simp add: v sign_bytes_def byte_and_80)
    then show thesis by (rule that) (use False in \<open>auto simp: word_unat_eq_iff\<close>)
  qed
qed

lemma length_sign_bytes:
  assumes "r \<noteq> []" and "last r \<noteq> 0" and "0 < k"
  shows "length (sign_bytes neg r) \<le> k \<longleftrightarrow> le_val r < 128 * 256 ^ (k - 1)"
proof -
  obtain xs x where r: "r = xs @ [x]" using assms by (metis append_butlast_last_id)
  let ?n = "length xs" and ?x = "unat x"
  have low: "le_val xs < 256 ^ ?n" by (rule le_val_less)
  have x: "0 < ?x" using assms by (simp add: r unat_gt_0)
  have lo: "256 ^ ?n * ?x \<le> le_val r" by (simp add: r le_val_append)
  have hi: "?x < q \<Longrightarrow> le_val r < 256 ^ ?n * q" for q using radix_part[OF low] by (simp add: r le_val_append)
  have len: "length (sign_bytes neg r) = ?n + (if 128 \<le> ?x then 2 else 1)"
    by (simp add: r sign_bytes_def byte_and_80)
  show ?thesis
  proof (cases "128 \<le> ?x")
    case True
    have "le_val r < 256 ^ Suc ?n" using hi[of 256] by simp
    moreover have "256 ^ ?n * 128 \<le> le_val r" using lo mult_le_mono2[OF True, of "256 ^ ?n"] by linarith
    moreover have "(256 :: nat) ^ Suc ?n \<le> 256 ^ (k - 1)" if "?n + 2 \<le> k"
      using that by (intro power_increasing) auto
    moreover have "(256 :: nat) ^ (k - 1) \<le> 256 ^ ?n" if "\<not> ?n + 2 \<le> k"
      using that by (intro power_increasing) auto
    ultimately have "le_val r < 128 * 256 ^ (k - 1) \<longleftrightarrow> ?n + 2 \<le> k" by (cases "?n + 2 \<le> k") linarith+
    then show ?thesis using True by (simp add: len)
  next
    case False
    have "le_val r < 256 ^ ?n * 128" using hi[of 128] False by simp
    moreover have "256 ^ ?n \<le> le_val r" using lo mult_le_mono2[of 1 ?x "256 ^ ?n"] x by linarith
    moreover have "(256 :: nat) ^ ?n \<le> 256 ^ (k - 1)" if "?n + 1 \<le> k"
      using that by (intro power_increasing) auto
    moreover have "256 * (256 :: nat) ^ (k - 1) \<le> 256 ^ ?n" if "\<not> ?n + 1 \<le> k"
    proof -
      have "256 * (256 :: nat) ^ (k - 1) = 256 ^ k" using assms(3) by (cases k) simp_all
      also have "\<dots> \<le> 256 ^ ?n" using that by (intro power_increasing) auto
      finally show ?thesis .
    qed
    ultimately have "le_val r < 128 * 256 ^ (k - 1) \<longleftrightarrow> ?n + 1 \<le> k"
      using zero_less_power[of "256 :: nat" "k - 1"] by (cases "?n + 1 \<le> k") linarith+
    then show ?thesis using False by (simp add: len)
  qed
qed

text \<open>With the minimality flag, decoding is the inverse of \<open>serialize\<close>.\<close>

lemma serialize_le_val:
  assumes "r \<noteq> []" and "last r \<noteq> 0" and "le_val r < 2 ^ 63"
  shows "CScriptNum_serialize (if neg then - int (le_val r) else int (le_val r)) = sign_bytes neg r"
proof -
  have "0 < le_val r" using le_val_eq_0[of r] assms by blast
  moreover have "int (le_val r) < 2 ^ 63" using assms(3) by simp
  ultimately show ?thesis using assms by (simp add: serialize_eq digits256_le_val)
qed

lemma CScriptNum_vch_serialize:
  assumes "0 < k" and "k \<le> 8" and n: "\<bar>n\<bar> < 128 * 256 ^ (k - 1)"
  shows "CScriptNum_vch (CScriptNum_serialize n) m k = Inr n"
proof (cases "n = 0")
  case True
  then show ?thesis by (simp add: CScriptNum_vch_def CScriptNum_serialize_def set_vch_def)
next
  case False
  let ?r = "digits256 (nat \<bar>n\<bar>)"
  have r: "?r \<noteq> []" "last ?r \<noteq> 0" using False last_digits256[of "nat \<bar>n\<bar>"] by auto
  have "(128 :: int) * 256 ^ (k - 1) \<le> 128 * 256 ^ 7"
    using assms by (intro mult_left_mono power_increasing) auto
  then have s: "CScriptNum_serialize n = sign_bytes (n < 0) ?r"
    using n False by (subst serialize_eq) simp_all
  have "nat \<bar>n\<bar> < 128 * 256 ^ (k - 1)" using n by (simp add: nat_less_iff)
  then have "length (sign_bytes (n < 0) ?r) \<le> k"
    by (subst length_sign_bytes[OF r assms(1)]) (simp add: le_val_digits256)
  then show ?thesis
    using assms(2)
    by (simp add: s CScriptNum_vch_eq minimal_num_sign_bytes[OF r] set_vch_eq
        script_num_val_sign_bytes[OF r(1)] le_val_digits256)
qed

lemma CScriptNum_vch_minimal:
  assumes "0 < k" and "k \<le> 8" and "CScriptNum_vch vch True k = Inr n"
  shows "vch = CScriptNum_serialize n \<and> \<bar>n\<bar> < 128 * 256 ^ (k - 1)"
proof (cases "vch = []")
  case True
  then show ?thesis using assms by (auto simp: CScriptNum_vch_def CScriptNum_serialize_def set_vch_def)
next
  case False
  have len: "length vch \<le> k" and "minimal_num vch" and n: "n = script_num_val vch"
    using assms by (auto simp: CScriptNum_vch_eq set_vch_eq split: if_splits)
  then obtain neg r where v: "vch = sign_bytes neg r" and r: "r \<noteq> []" "last r \<noteq> 0"
    using minimal_num_is_sign_bytes False by metis
  have lt: "le_val r < 128 * 256 ^ (k - 1)" using len length_sign_bytes[OF r assms(1)] v by simp
  moreover have "(128 :: nat) * 256 ^ (k - 1) \<le> 128 * 256 ^ 7"
    using assms by (intro mult_left_mono power_increasing) auto
  ultimately have "le_val r < 2 ^ 63" by simp
  moreover have "int (le_val r) < 128 * 256 ^ (k - 1)"
    using iffD2[OF of_nat_less_iff lt] by (simp only: of_nat_mult of_nat_numeral of_nat_power)
  ultimately show ?thesis
    using serialize_le_val[OF r] by (auto simp: n v script_num_val_sign_bytes[OF r(1)])
qed

section \<open>Instructions\<close>

lemma unat_of_nat_small [simp]: "n < 256 \<Longrightarrow> unat (of_nat n :: byte) = n"
  by simp

lemma GetOp2_push_vch:
  assumes "length b < 2 ^ 32"
  shows "GetOp2 (push_vch b @ rest) = GetOp_ok (unat (hd (push_vch b))) b rest"
  using assms by (auto simp: push_vch_def GetOp2_def GetOp_operand_def Let_def simp del: of_nat_numeral)

lemma GetOp2_push_op:
  assumes "OP_PUSHDATA4 < op" and "op < 256"
  shows "GetOp2 (push_op op @ rest) = GetOp_ok op [] rest"
  using assms by (simp add: push_op_def GetOp2_def Let_def)

lemma GetOp2_Nil [simp]: "GetOp2 [] = GetOp_fail []"
  by (simp add: GetOp2_def)

text \<open>The positions a scan from the start of a script reaches.\<close>

inductive boundary :: "bytes \<Rightarrow> bytes \<Rightarrow> bool" where
  boundary_begin: "boundary s s"
| boundary_step: "GetOp2 s = GetOp_ok op v s' \<Longrightarrow> boundary s' pc \<Longrightarrow> boundary s pc"

inductive_simps boundary_iff: "boundary s pc"

lemma boundary_suffix: "boundary s pc \<Longrightarrow> \<exists>pre. s = pre @ pc"
proof (induction rule: boundary.induct)
  case (boundary_step s op v s' pc)
  then show ?case by (elim GetOp2_split) (metis append.assoc append_Cons)
qed simp

section \<open>FindAndDelete\<close>

lemma FindAndDelete_loop_length:
  "FindAndDelete_loop b result chunk pc n = (res, pc2, n') \<Longrightarrow>
   length result + length chunk + length pc = length res + length pc2 + (n' - n) * length b \<and> n \<le> n'"
proof (induction b result chunk pc n rule: FindAndDelete_loop.induct)
  case (1 b result chunk pc n)
  obtain pc1 n1 where sk: "FindAndDelete_skip b pc n = (pc1, n1)" by fastforce
  note skip = FindAndDelete_skip_length[OF sk]
  show ?case
  proof (cases "GetOp2 pc1")
    case (GetOp_ok op v pc')
    have "FindAndDelete_loop b (result @ chunk) (take (length pc1 - length pc') pc1) pc' n1 = (res, pc2, n')"
      using "1.prems" by (subst (asm) FindAndDelete_loop.simps) (simp add: sk GetOp_ok)
    from "1.IH"[OF refl refl sk[symmetric] GetOp_ok this]
    have "length (result @ chunk) + length pc1 = length res + length pc2 + (n' - n1) * length b \<and> n1 \<le> n'"
      using GetOp2_progress[OF GetOp_ok] by simp
    moreover have "(n' - n) * length b = (n' - n1) * length b + (n1 - n) * length b" if "n1 \<le> n'"
      using that skip by (simp add: distrib_right[symmetric])
    ultimately show ?thesis using skip by simp
  next
    case (GetOp_fail pc')
    then show ?thesis
      using "1.prems" skip by (subst (asm) FindAndDelete_loop.simps) (auto simp: sk)
  qed
qed

lemma FindAndDelete_skip_found:
  assumes "FindAndDelete_skip b pc n = (pc1, n1)" and "b \<noteq> []"
    and "length b \<le> length pc \<and> take (length b) pc = b"
  shows "n < n1"
  using assms FindAndDelete_skip.simps[of b pc n]
    FindAndDelete_skip_length[of b "drop (length b) pc" "n + 1" pc1 n1] by simp

lemma FindAndDelete_loop_step:
  assumes "FindAndDelete_skip b pc n = (pc1, n1)"
  shows "FindAndDelete_loop b result chunk pc n =
    (case GetOp2 pc1 of
       GetOp_ok op v pc' \<Rightarrow> FindAndDelete_loop b (result @ chunk) (take (length pc1 - length pc') pc1) pc' n1
     | GetOp_fail pc' \<Rightarrow> (result @ chunk, pc1, n1))"
  by (subst FindAndDelete_loop.simps) (simp add: assms Let_def)

lemma FindAndDelete_loop_mono: "n \<le> snd (snd (FindAndDelete_loop b result chunk pc n))"
  using FindAndDelete_loop_length[of b result chunk pc n] by (metis prod.collapse)

lemma FindAndDelete_loop_zero:
  assumes "b \<noteq> []"
  shows "snd (snd (FindAndDelete_loop b result chunk pc n)) = n \<longleftrightarrow>
     (\<forall>p. boundary pc p \<longrightarrow> \<not> (length b \<le> length p \<and> take (length b) p = b))"
  using assms
proof (induction b result chunk pc n rule: FindAndDelete_loop.induct)
  case (1 b result chunk pc n)
  obtain pc1 n1 where sk: "FindAndDelete_skip b pc n = (pc1, n1)" by fastforce
  show ?case
  proof (cases "length b \<le> length pc \<and> take (length b) pc = b")
    case True
    from FindAndDelete_skip_found[OF sk "1.prems" True] have "n < snd (snd (FindAndDelete_loop b result chunk pc n))"
      using FindAndDelete_loop_mono[of n1 b] less_le_trans
      by (fastforce simp: FindAndDelete_loop_step[OF sk] split: getop.splits)
    then show ?thesis using True boundary_begin[of pc] by auto
  next
    case False
    then have same: "pc1 = pc" "n1 = n" using sk 1(2) by (auto simp: FindAndDelete_skip.simps[of b pc n])
    show ?thesis
    proof (cases "GetOp2 pc")
      case (GetOp_ok op v pc')
      have "boundary pc p \<longleftrightarrow> p = pc \<or> boundary pc' p" for p
        using GetOp_ok by (subst boundary_iff) auto
      moreover have "FindAndDelete_loop b result chunk pc n =
          FindAndDelete_loop b (result @ chunk) (take (length pc - length pc') pc) pc' n"
        by (simp add: FindAndDelete_loop_step[OF sk] same GetOp_ok)
      ultimately show ?thesis
        using "1.IH"[OF refl refl sk[symmetric], unfolded same, OF GetOp_ok "1.prems"] False by auto
    next
      case (GetOp_fail pc')
      then have "boundary pc p \<longleftrightarrow> p = pc" for p by (subst boundary_iff) auto
      then show ?thesis using False by (simp add: FindAndDelete_loop_step[OF sk] same GetOp_fail)
    qed
  qed
qed

section \<open>Counting signature operations\<close>

lemma DecodeOP_N_guarded: "OP_1 \<le> op \<Longrightarrow> op \<le> OP_16 \<Longrightarrow> DecodeOP_N op = Some (op - 80)"
  by (simp add: DecodeOP_N_def)

lemma EncodeDecodeOP_N: "0 \<le> n \<Longrightarrow> n \<le> 16 \<Longrightarrow> Option.bind (EncodeOP_N n) DecodeOP_N = Some (nat n)"
  by (auto simp: EncodeOP_N_def DecodeOP_N_def)

lemma GetSigOpCount_loop_mono:
  "n \<le> m \<Longrightarrow> GetSigOpCount_loop fAccurate lastOpcode pc n \<le> GetSigOpCount_loop False lastOpcode' pc m"
proof (induction "length pc" arbitrary: pc n m lastOpcode lastOpcode' rule: less_induct)
  case less
  show ?case
  proof (cases "GetOp2 pc")
    case (GetOp_ok op v pc')
    show ?thesis
      unfolding GetSigOpCount_loop.simps[of _ _ pc] GetOp_ok getop.case
      by (rule less(1)[OF GetOp2_progress[OF GetOp_ok]])
         (use less(2) in \<open>auto simp: DecodeOP_N_guarded\<close>)
  next
    case (GetOp_fail pc')
    then show ?thesis using less(2) by (simp add: GetSigOpCount_loop.simps[of _ _ pc])
  qed
qed

lemma GetSigOpCount_loop_bound: "GetSigOpCount_loop fAccurate lastOpcode pc n \<le> n + 20 * length pc"
proof (induction "length pc" arbitrary: pc n lastOpcode rule: less_induct)
  case less
  show ?case
  proof (cases "GetOp2 pc")
    case (GetOp_ok op v pc')
    have *: "GetSigOpCount_loop fAccurate op pc' k \<le> n + 20 * length pc" if "k \<le> n + 20" for k
      using less[OF GetOp2_progress[OF GetOp_ok], of op k] GetOp2_progress[OF GetOp_ok] that by linarith
    show ?thesis
      unfolding GetSigOpCount_loop.simps[of _ _ pc] GetOp_ok getop.case
      by (rule *) (auto simp: DecodeOP_N_guarded)
  next
    case (GetOp_fail pc')
    then show ?thesis by (simp add: GetSigOpCount_loop.simps[of _ _ pc])
  qed
qed

section \<open>Push-only scripts\<close>

lemma IsPushOnly_Nil [simp]: "IsPushOnly []"
  by (simp add: IsPushOnly.simps)

lemma IsPushOnly_push_vch: "length b < 2 ^ 32 \<Longrightarrow> IsPushOnly (push_vch b @ s) = IsPushOnly s"
proof -
  assume b: "length b < 2 ^ 32"
  have "unat (hd (push_vch b)) \<le> OP_PUSHDATA4" and "push_vch b @ s \<noteq> []"
    by (auto simp: push_vch_def simp del: of_nat_numeral)
  then show ?thesis by (subst IsPushOnly.simps) (simp add: GetOp2_push_vch[OF b])
qed

lemma last_push_push_only: "last_push d s \<noteq> None \<longleftrightarrow> IsPushOnly s"
proof (induction d s rule: last_push.induct)
  case (1 d s)
  show ?case
    using 1 by (cases "s = []"; cases "GetOp2 s")
      (simp_all add: last_push.simps[of d] IsPushOnly.simps[of s])
qed

section \<open>The shape of the templates\<close>

lemma nth_drop_Cons: "i < length s \<Longrightarrow> drop i s = s ! i # drop (Suc i) s"
  by (simp add: Cons_nth_drop_Suc)

lemma take_drop_split: "drop i s = take k (drop i s) @ drop (i + k) s"
  by (metis append_take_drop_id drop_drop add.commute)

lemma byte_eq_unat: "unat (b :: byte) = n \<Longrightarrow> b = of_nat n"
  by auto

lemma IsPayToScriptHash_iff:
  "IsPayToScriptHash s \<longleftrightarrow> (\<exists>h. length h = 20 \<and> s = push_op OP_HASH160 @ push_vch h @ push_op OP_EQUAL)"
proof
  assume s: "IsPayToScriptHash s"
  have "s = s ! 0 # s ! 1 # take 20 (drop 2 s) @ [s ! 22]"
    using s nth_drop_Cons[of 0 s] nth_drop_Cons[of 1 s] take_drop_split[of 2 s 20] nth_drop_Cons[of 22 s]
    by (simp add: IsPayToScriptHash_def numeral_2_eq_2)
  moreover have "s ! 0 = 0xa9" "s ! 1 = 0x14" "s ! 22 = 0x87"
    using s by (auto simp: IsPayToScriptHash_def dest!: byte_eq_unat)
  ultimately have "s = push_op OP_HASH160 @ push_vch (take 20 (drop 2 s)) @ push_op OP_EQUAL"
    using s by (simp add: push_op_def push_vch_def IsPayToScriptHash_def)
  moreover have "length (take 20 (drop 2 s)) = 20" using s by (simp add: IsPayToScriptHash_def)
  ultimately show "\<exists>h. length h = 20 \<and> s = push_op OP_HASH160 @ push_vch h @ push_op OP_EQUAL" by blast
next
  assume "\<exists>h. length h = 20 \<and> s = push_op OP_HASH160 @ push_vch h @ push_op OP_EQUAL"
  then show "IsPayToScriptHash s"
    by (auto simp: IsPayToScriptHash_def push_op_def push_vch_def nth_append nth_Cons')
qed

lemma IsPayToPublicKeyHash_iff:
  "IsPayToPublicKeyHash s \<longleftrightarrow>
     (\<exists>h. length h = 20 \<and> s = push_op OP_DUP @ push_op OP_HASH160 @ push_vch h
            @ push_op OP_EQUALVERIFY @ push_op OP_CHECKSIG)" (is "_ = (\<exists>h. ?t h)")
proof
  assume s: "IsPayToPublicKeyHash s"
  have "s = s ! 0 # s ! 1 # s ! 2 # take 20 (drop 3 s) @ [s ! 23, s ! 24]"
    using s nth_drop_Cons[of 0 s] nth_drop_Cons[of 1 s] nth_drop_Cons[of 2 s] take_drop_split[of 3 s 20]
      nth_drop_Cons[of 23 s] nth_drop_Cons[of 24 s]
    by (simp add: IsPayToPublicKeyHash_def numeral_2_eq_2 numeral_3_eq_3)
  moreover have "s ! 0 = 0x76" "s ! 1 = 0xa9" "s ! 2 = 0x14" "s ! 23 = 0x88" "s ! 24 = 0xac"
    using s by (auto simp: IsPayToPublicKeyHash_def dest!: byte_eq_unat)
  ultimately have "?t (take 20 (drop 3 s))"
    using s by (simp add: push_op_def push_vch_def IsPayToPublicKeyHash_def)
  then show "\<exists>h. ?t h" by blast
next
  assume "\<exists>h. ?t h"
  then show "IsPayToPublicKeyHash s"
    by (auto simp: IsPayToPublicKeyHash_def push_op_def push_vch_def nth_append nth_Cons')
qed

section \<open>Properties\<close>

text \<open>
  (C29) Script numbers.  With \<open>fRequireMinimal\<close> set and a size limit of \<open>k\<close> bytes, the constructor of
  \<open>CScriptNum\<close> accepts exactly the encodings that \<open>CScriptNum::serialize\<close> produces for the integers
  of magnitude below \<open>2 ^ (8 k - 1)\<close>, and returns the integer that was encoded.  So every such number
  has exactly one accepted encoding, and anything longer, padded or encoding a negative zero throws.
\<close>

theorem CScriptNum_codec:
  assumes "0 < k" and "k \<le> 8"
  shows "CScriptNum_vch vch True k = Inr n \<longleftrightarrow> vch = CScriptNum_serialize n \<and> \<bar>n\<bar> < 2 ^ (8 * k - 1)"
proof -
  have "8 * k - 1 = 7 + 8 * (k - 1)" using assms by simp
  then have "(2 :: int) ^ (8 * k - 1) = 128 * 256 ^ (k - 1)" by (simp only: power_add pow256) simp
  then show ?thesis
    using CScriptNum_vch_minimal[OF assms, of vch n] CScriptNum_vch_serialize[OF assms, of n True] by auto
qed

theorem CScriptNum_codec_witness:
  "CScriptNum_serialize (-255) = [0xff, 0x80] \<and> CScriptNum_vch [0xff, 0x80] True 4 = Inr (-255)"
proof -
  have "CScriptNum_vch [0xff, 0x80] True 4 = Inr (-255)" by code_simp
  then show ?thesis using CScriptNum_codec[of 4 "[0xff, 0x80]" "-255"] by simp
qed

text \<open>
  (C30) \<open>operator<<\<close> and \<open>GetOp\<close> are inverse.  Pushing data on a script and parsing the result gives
  the data back and leaves the iterator exactly behind it, whichever of the four push opcodes was
  chosen, and the opcode is one that \<open>IsPushOnly\<close> counts as a push.
\<close>

theorem push_GetOp_roundtrip:
  assumes "length b < 2 ^ 32"
  shows "\<exists>opcode. GetOp2 (push_vch b @ rest) = GetOp_ok opcode b rest \<and> opcode \<le> OP_PUSHDATA4 \<and>
           IsPushOnly (push_vch b @ rest) = IsPushOnly rest"
proof -
  have "unat (hd (push_vch b)) \<le> OP_PUSHDATA4" by (auto simp: push_vch_def simp del: of_nat_numeral)
  then show ?thesis using GetOp2_push_vch[OF assms] IsPushOnly_push_vch[OF assms] by blast
qed

theorem push_GetOp_roundtrip_witness:
  "\<exists>opcode. GetOp2 (push_vch (replicate 300 0) @ [0x75]) = GetOp_ok opcode (replicate 300 0) [0x75] \<and>
     opcode \<le> OP_PUSHDATA4 \<and> IsPushOnly (push_vch (replicate 300 0) @ [0x75]) = IsPushOnly [0x75]"
  by (rule push_GetOp_roundtrip) simp

text \<open>
  \<open>FindAndDelete\<close> removes whole copies of its argument and nothing else: the length drops by
  exactly the number of deletions times the length of the pattern, and it reports no deletion (and
  then leaves the script untouched) exactly when the pattern is empty or occurs at no instruction
  boundary of the script.
\<close>

theorem FindAndDelete_spec:
  assumes "FindAndDelete s b = (s', n)"
  shows "length s = length s' + n * length b \<and>
    (n = 0 \<longleftrightarrow> b = [] \<or> (\<forall>pc. boundary s pc \<longrightarrow> \<not> (length b \<le> length pc \<and> take (length b) pc = b))) \<and>
    (n = 0 \<longrightarrow> s' = s)"
proof (cases "b = []")
  case False
  obtain res pc2 n' where l: "FindAndDelete_loop b [] [] s 0 = (res, pc2, n')" by (metis prod.exhaust)
  then show ?thesis
    using assms False FindAndDelete_loop_length[OF l] FindAndDelete_loop_zero[OF False, of "[]" "[]" s 0]
    by (auto simp: FindAndDelete_def)
qed (use assms in \<open>auto simp: FindAndDelete_def\<close>)

theorem FindAndDelete_spec_witness:
  "FindAndDelete [0x01, 0xac, 0xac, 0xac, 0x51] [0xac] = ([0x01, 0xac, 0x51], 2) \<and>
   length [0x01, 0xac, 0xac, 0xac, 0x51 :: byte] = length [0x01, 0xac, 0x51 :: byte] + 2 * length [0xac :: byte]"
proof -
  have r: "FindAndDelete [0x01, 0xac, 0xac, 0xac, 0x51] [0xac] = ([0x01, 0xac, 0x51], 2)" by code_simp
  with FindAndDelete_spec[OF r] show ?thesis by blast
qed

text \<open>
  The accurate signature operation count never exceeds the legacy count, and neither exceeds
  twenty per byte of the script, so the \<open>unsigned int\<close> counter cannot wrap for any script that fits a
  block.
\<close>

theorem GetSigOpCount_bounds:
  "GetSigOpCount s True \<le> GetSigOpCount s False \<and> GetSigOpCount s False \<le> 20 * length s"
  using GetSigOpCount_loop_mono[of 0 0 True _ s] GetSigOpCount_loop_bound[of False _ s 0]
  by (auto simp: GetSigOpCount_def)

end
