(* ===== verification/Hashes.thy ===== *)
theory Hashes
  imports Serialize
begin

text \<open>
  The hash functions of \<open>crypto/sha256.cpp\<close>, \<open>crypto/sha1.cpp\<close> and \<open>crypto/ripemd160.cpp\<close> and their
  compositions in \<open>hash.h\<close>.  A hasher is its chaining state, its 64-byte buffer and its byte counter;
  the unrolled compression functions are translated round by round.  The buffering code is the same
  text in the three classes, so it is modelled once over the compression function.
\<close>

type_synonym u32 = "32 word"

section \<open>Big-endian accessors\<close>

definition ReadBE32 :: "bytes \<Rightarrow> u32" where
  "ReadBE32 p = of_nat (le_val (rev (take 4 p)))"

definition WriteBE32 :: "u32 \<Rightarrow> bytes" where
  "WriteBE32 x = rev (le_bytes 4 (unat x))"

definition WriteBE64 :: "nat \<Rightarrow> bytes" where
  "WriteBE64 x = rev (le_bytes 8 x)"

section \<open>Buffering\<close>

record hasher =
  h_s :: "u32 list"
  h_buf :: bytes
  h_bytes :: nat

definition memcpy_at :: "bytes \<Rightarrow> nat \<Rightarrow> bytes \<Rightarrow> bytes" where
  "memcpy_at buf i src = take i buf @ src @ drop (i + length src) buf"

function Write_chunks :: "(u32 list \<Rightarrow> bytes \<Rightarrow> u32 list) \<Rightarrow> hasher \<Rightarrow> bytes \<Rightarrow> hasher \<times> bytes" where
  "Write_chunks Transform h data =
     (if length data \<ge> 64
      then Write_chunks Transform
             (h\<lparr>h_s := Transform (h_s h) (take 64 data), h_bytes := h_bytes h + 64\<rparr>) (drop 64 data)
      else (h, data))"
  by pat_completeness auto
termination by (relation "measure (\<lambda>(T, h, data). length data)") auto

declare Write_chunks.simps [simp del]

definition hasher_Write :: "(u32 list \<Rightarrow> bytes \<Rightarrow> u32 list) \<Rightarrow> hasher \<Rightarrow> bytes \<Rightarrow> hasher" where
  "hasher_Write Transform h data =
     (let bufsize = h_bytes h mod 64;
          (h1, data1, bufsize1) =
            (if bufsize \<noteq> 0 \<and> bufsize + length data \<ge> 64 then
               let buf = memcpy_at (h_buf h) bufsize (take (64 - bufsize) data)
               in (h\<lparr>h_buf := buf, h_bytes := h_bytes h + (64 - bufsize), h_s := Transform (h_s h) buf\<rparr>,
                   drop (64 - bufsize) data, 0)
             else (h, data, bufsize));
          (h2, data2) = Write_chunks Transform h1 data1
      in if data2 \<noteq> []
         then h2\<lparr>h_buf := memcpy_at (h_buf h2) bufsize1 data2, h_bytes := h_bytes h2 + length data2\<rparr>
         else h2)"

definition pad :: bytes where
  "pad = 0x80 # replicate 63 0"

text \<open>The two writes of \<open>Finalize\<close>; \<open>sizedesc\<close> is the message length in bits.\<close>

definition hasher_pad :: "(u32 list \<Rightarrow> bytes \<Rightarrow> u32 list) \<Rightarrow> bytes \<Rightarrow> hasher \<Rightarrow> hasher" where
  "hasher_pad Transform sizedesc h =
     hasher_Write Transform
       (hasher_Write Transform h (take (1 + ((119 - (h_bytes h mod 64)) mod 64)) pad)) sizedesc"

section \<open>SHA-256\<close>

definition Ch :: "u32 \<Rightarrow> u32 \<Rightarrow> u32 \<Rightarrow> u32" where "Ch x y z = z XOR (x AND (y XOR z))"
definition Maj :: "u32 \<Rightarrow> u32 \<Rightarrow> u32 \<Rightarrow> u32" where "Maj x y z = (x AND y) OR (z AND (x OR y))"
definition Sigma0 :: "u32 \<Rightarrow> u32" where
  "Sigma0 x = (drop_bit 2 x OR push_bit 30 x) XOR (drop_bit 13 x OR push_bit 19 x)
     XOR (drop_bit 22 x OR push_bit 10 x)"
definition Sigma1 :: "u32 \<Rightarrow> u32" where
  "Sigma1 x = (drop_bit 6 x OR push_bit 26 x) XOR (drop_bit 11 x OR push_bit 21 x)
     XOR (drop_bit 25 x OR push_bit 7 x)"
definition sigma0 :: "u32 \<Rightarrow> u32" where
  "sigma0 x = (drop_bit 7 x OR push_bit 25 x) XOR (drop_bit 18 x OR push_bit 14 x) XOR drop_bit 3 x"
definition sigma1 :: "u32 \<Rightarrow> u32" where
  "sigma1 x = (drop_bit 17 x OR push_bit 15 x) XOR (drop_bit 19 x OR push_bit 13 x) XOR drop_bit 10 x"

text \<open>\<open>Round\<close> writes its reference parameters \<open>d\<close> and \<open>h\<close>: it returns the pair.\<close>

definition sha256_Round ::
  "u32 \<Rightarrow> u32 \<Rightarrow> u32 \<Rightarrow> u32 \<Rightarrow> u32 \<Rightarrow> u32 \<Rightarrow> u32 \<Rightarrow> u32 \<Rightarrow> u32 \<Rightarrow> u32 \<Rightarrow> u32 \<times> u32" where
  "sha256_Round a b c d e f g h k w =
     (let t1 = h + Sigma1 e + Ch e f g + k + w;
          t2 = Sigma0 a + Maj a b c
      in (d + t1, t1 + t2))"

definition sha256_Initialize :: "u32 list" where
  "sha256_Initialize =
     [0x6a09e667, 0xbb67ae85, 0x3c6ef372, 0xa54ff53a, 0x510e527f, 0x9b05688c, 0x1f83d9ab, 0x5be0cd19]"

definition sha256_Transform :: "u32 list \<Rightarrow> bytes \<Rightarrow> u32 list" where
  "sha256_Transform s chunk =
     (let a = s ! 0; b = s ! 1; c = s ! 2; d = s ! 3; e = s ! 4; f = s ! 5; g = s ! 6; h = s ! 7;
      w0 = ReadBE32 (drop 0 chunk);
      (d, h) = sha256_Round a b c d e f g h 0x428a2f98 w0;
      w1 = ReadBE32 (drop 4 chunk);
      (c, g) = sha256_Round h a b c d e f g 0x71374491 w1;
      w2 = ReadBE32 (drop 8 chunk);
      (b, f) = sha256_Round g h a b c d e f 0xb5c0fbcf w2;
      w3 = ReadBE32 (drop 12 chunk);
      (a, e) = sha256_Round f g h a b c d e 0xe9b5dba5 w3;
      w4 = ReadBE32 (drop 16 chunk);
      (h, d) = sha256_Round e f g h a b c d 0x3956c25b w4;
      w5 = ReadBE32 (drop 20 chunk);
      (g, c) = sha256_Round d e f g h a b c 0x59f111f1 w5;
      w6 = ReadBE32 (drop 24 chunk);
      (f, b) = sha256_Round c d e f g h a b 0x923f82a4 w6;
      w7 = ReadBE32 (drop 28 chunk);
      (e, a) = sha256_Round b c d e f g h a 0xab1c5ed5 w7;
      w8 = ReadBE32 (drop 32 chunk);
      (d, h) = sha256_Round a b c d e f g h 0xd807aa98 w8;
      w9 = ReadBE32 (drop 36 chunk);
      (c, g) = sha256_Round h a b c d e f g 0x12835b01 w9;
      w10 = ReadBE32 (drop 40 chunk);
      (b, f) = sha256_Round g h a b c d e f 0x243185be w10;
      w11 = ReadBE32 (drop 44 chunk);
      (a, e) = sha256_Round f g h a b c d e 0x550c7dc3 w11;
      w12 = ReadBE32 (drop 48 chunk);
      (h, d) = sha256_Round e f g h a b c d 0x72be5d74 w12;
      w13 = ReadBE32 (drop 52 chunk);
      (g, c) = sha256_Round d e f g h a b c 0x80deb1fe w13;
      w14 = ReadBE32 (drop 56 chunk);
      (f, b) = sha256_Round c d e f g h a b 0x9bdc06a7 w14;
      w15 = ReadBE32 (drop 60 chunk);
      (e, a) = sha256_Round b c d e f g h a 0xc19bf174 w15;
      w0 = w0 + (sigma1 w14 + w9 + sigma0 w1);
      (d, h) = sha256_Round a b c d e f g h 0xe49b69c1 w0;
      w1 = w1 + (sigma1 w15 + w10 + sigma0 w2);
      (c, g) = sha256_Round h a b c d e f g 0xefbe4786 w1;
      w2 = w2 + (sigma1 w0 + w11 + sigma0 w3);
      (b, f) = sha256_Round g h a b c d e f 0x0fc19dc6 w2;
      w3 = w3 + (sigma1 w1 + w12 + sigma0 w4);
      (a, e) = sha256_Round f g h a b c d e 0x240ca1cc w3;
      w4 = w4 + (sigma1 w2 + w13 + sigma0 w5);
      (h, d) = sha256_Round e f g h a b c d 0x2de92c6f w4;
      w5 = w5 + (sigma1 w3 + w14 + sigma0 w6);
      (g, c) = sha256_Round d e f g h a b c 0x4a7484aa w5;
      w6 = w6 + (sigma1 w4 + w15 + sigma0 w7);
      (f, b) = sha256_Round c d e f g h a b 0x5cb0a9dc w6;
      w7 = w7 + (sigma1 w5 + w0 + sigma0 w8);
      (e, a) = sha256_Round b c d e f g h a 0x76f988da w7;
      w8 = w8 + (sigma1 w6 + w1 + sigma0 w9);
      (d, h) = sha256_Round a b c d e f g h 0x983e5152 w8;
      w9 = w9 + (sigma1 w7 + w2 + sigma0 w10);
      (c, g) = sha256_Round h a b c d e f g 0xa831c66d w9;
      w10 = w10 + (sigma1 w8 + w3 + sigma0 w11);
      (b, f) = sha256_Round g h a b c d e f 0xb00327c8 w10;
      w11 = w11 + (sigma1 w9 + w4 + sigma0 w12);
      (a, e) = sha256_Round f g h a b c d e 0xbf597fc7 w11;
      w12 = w12 + (sigma1 w10 + w5 + sigma0 w13);
      (h, d) = sha256_Round e f g h a b c d 0xc6e00bf3 w12;
      w13 = w13 + (sigma1 w11 + w6 + sigma0 w14);
      (g, c) = sha256_Round d e f g h a b c 0xd5a79147 w13;
      w14 = w14 + (sigma1 w12 + w7 + sigma0 w15);
      (f, b) = sha256_Round c d e f g h a b 0x06ca6351 w14;
      w15 = w15 + (sigma1 w13 + w8 + sigma0 w0);
      (e, a) = sha256_Round b c d e f g h a 0x14292967 w15;
      w0 = w0 + (sigma1 w14 + w9 + sigma0 w1);
      (d, h) = sha256_Round a b c d e f g h 0x27b70a85 w0;
      w1 = w1 + (sigma1 w15 + w10 + sigma0 w2);
      (c, g) = sha256_Round h a b c d e f g 0x2e1b2138 w1;
      w2 = w2 + (sigma1 w0 + w11 + sigma0 w3);
      (b, f) = sha256_Round g h a b c d e f 0x4d2c6dfc w2;
      w3 = w3 + (sigma1 w1 + w12 + sigma0 w4);
      (a, e) = sha256_Round f g h a b c d e 0x53380d13 w3;
      w4 = w4 + (sigma1 w2 + w13 + sigma0 w5);
      (h, d) = sha256_Round e f g h a b c d 0x650a7354 w4;
      w5 = w5 + (sigma1 w3 + w14 + sigma0 w6);
      (g, c) = sha256_Round d e f g h a b c 0x766a0abb w5;
      w6 = w6 + (sigma1 w4 + w15 + sigma0 w7);
      (f, b) = sha256_Round c d e f g h a b 0x81c2c92e w6;
      w7 = w7 + (sigma1 w5 + w0 + sigma0 w8);
      (e, a) = sha256_Round b c d e f g h a 0x92722c85 w7;
      w8 = w8 + (sigma1 w6 + w1 + sigma0 w9);
      (d, h) = sha256_Round a b c d e f g h 0xa2bfe8a1 w8;
      w9 = w9 + (sigma1 w7 + w2 + sigma0 w10);
      (c, g) = sha256_Round h a b c d e f g 0xa81a664b w9;
      w10 = w10 + (sigma1 w8 + w3 + sigma0 w11);
      (b, f) = sha256_Round g h a b c d e f 0xc24b8b70 w10;
      w11 = w11 + (sigma1 w9 + w4 + sigma0 w12);
      (a, e) = sha256_Round f g h a b c d e 0xc76c51a3 w11;
      w12 = w12 + (sigma1 w10 + w5 + sigma0 w13);
      (h, d) = sha256_Round e f g h a b c d 0xd192e819 w12;
      w13 = w13 + (sigma1 w11 + w6 + sigma0 w14);
      (g, c) = sha256_Round d e f g h a b c 0xd6990624 w13;
      w14 = w14 + (sigma1 w12 + w7 + sigma0 w15);
      (f, b) = sha256_Round c d e f g h a b 0xf40e3585 w14;
      w15 = w15 + (sigma1 w13 + w8 + sigma0 w0);
      (e, a) = sha256_Round b c d e f g h a 0x106aa070 w15;
      w0 = w0 + (sigma1 w14 + w9 + sigma0 w1);
      (d, h) = sha256_Round a b c d e f g h 0x19a4c116 w0;
      w1 = w1 + (sigma1 w15 + w10 + sigma0 w2);
      (c, g) = sha256_Round h a b c d e f g 0x1e376c08 w1;
      w2 = w2 + (sigma1 w0 + w11 + sigma0 w3);
      (b, f) = sha256_Round g h a b c d e f 0x2748774c w2;
      w3 = w3 + (sigma1 w1 + w12 + sigma0 w4);
      (a, e) = sha256_Round f g h a b c d e 0x34b0bcb5 w3;
      w4 = w4 + (sigma1 w2 + w13 + sigma0 w5);
      (h, d) = sha256_Round e f g h a b c d 0x391c0cb3 w4;
      w5 = w5 + (sigma1 w3 + w14 + sigma0 w6);
      (g, c) = sha256_Round d e f g h a b c 0x4ed8aa4a w5;
      w6 = w6 + (sigma1 w4 + w15 + sigma0 w7);
      (f, b) = sha256_Round c d e f g h a b 0x5b9cca4f w6;
      w7 = w7 + (sigma1 w5 + w0 + sigma0 w8);
      (e, a) = sha256_Round b c d e f g h a 0x682e6ff3 w7;
      w8 = w8 + (sigma1 w6 + w1 + sigma0 w9);
      (d, h) = sha256_Round a b c d e f g h 0x748f82ee w8;
      w9 = w9 + (sigma1 w7 + w2 + sigma0 w10);
      (c, g) = sha256_Round h a b c d e f g 0x78a5636f w9;
      w10 = w10 + (sigma1 w8 + w3 + sigma0 w11);
      (b, f) = sha256_Round g h a b c d e f 0x84c87814 w10;
      w11 = w11 + (sigma1 w9 + w4 + sigma0 w12);
      (a, e) = sha256_Round f g h a b c d e 0x8cc70208 w11;
      w12 = w12 + (sigma1 w10 + w5 + sigma0 w13);
      (h, d) = sha256_Round e f g h a b c d 0x90befffa w12;
      w13 = w13 + (sigma1 w11 + w6 + sigma0 w14);
      (g, c) = sha256_Round d e f g h a b c 0xa4506ceb w13;
      (f, b) = sha256_Round c d e f g h a b 0xbef9a3f7 (w14 + sigma1 w12 + w7 + sigma0 w15);
      (e, a) = sha256_Round b c d e f g h a 0xc67178f2 (w15 + sigma1 w13 + w8 + sigma0 w0)
      in [s ! 0 + a, s ! 1 + b, s ! 2 + c, s ! 3 + d, s ! 4 + e, s ! 5 + f, s ! 6 + g, s ! 7 + h])"

definition CSHA256 :: hasher where
  "CSHA256 = \<lparr>h_s = sha256_Initialize, h_buf = replicate 64 0, h_bytes = 0\<rparr>"

definition CSHA256_Write :: "hasher \<Rightarrow> bytes \<Rightarrow> hasher" where
  "CSHA256_Write = hasher_Write sha256_Transform"

definition CSHA256_Reset :: "hasher \<Rightarrow> hasher" where
  "CSHA256_Reset h = h\<lparr>h_bytes := 0, h_s := sha256_Initialize\<rparr>"

text \<open>\<open>None\<close> is the \<open>std::length_error\<close> exception.\<close>

definition CSHA256_FinalizeNoPadding :: "hasher \<Rightarrow> bool \<Rightarrow> bytes option" where
  "CSHA256_FinalizeNoPadding h enforce_compression =
     (if enforce_compression \<and> h_bytes h \<noteq> 64 then None else Some (concat (map WriteBE32 (h_s h))))"

definition CSHA256_Finalize :: "hasher \<Rightarrow> bytes" where
  "CSHA256_Finalize h =
     (case CSHA256_FinalizeNoPadding (hasher_pad sha256_Transform (WriteBE64 (8 * h_bytes h)) h) False of
        Some hash \<Rightarrow> hash | None \<Rightarrow> [])"

section \<open>SHA-1\<close>

definition sha1_Round ::
  "u32 \<Rightarrow> u32 \<Rightarrow> u32 \<Rightarrow> u32 \<Rightarrow> u32 \<Rightarrow> u32 \<Rightarrow> u32 \<Rightarrow> u32 \<Rightarrow> u32 \<times> u32" where
  "sha1_Round a b c d e f k w =
     (push_bit 30 b OR drop_bit 2 b, e + ((push_bit 5 a OR drop_bit 27 a) + f + k + w))"

definition sha1_f1 :: "u32 \<Rightarrow> u32 \<Rightarrow> u32 \<Rightarrow> u32" where "sha1_f1 b c d = d XOR (b AND (c XOR d))"
definition sha1_f2 :: "u32 \<Rightarrow> u32 \<Rightarrow> u32 \<Rightarrow> u32" where "sha1_f2 b c d = b XOR c XOR d"
definition sha1_f3 :: "u32 \<Rightarrow> u32 \<Rightarrow> u32 \<Rightarrow> u32" where "sha1_f3 b c d = (b AND c) OR (d AND (b OR c))"
definition sha1_left :: "u32 \<Rightarrow> u32" where "sha1_left x = push_bit 1 x OR drop_bit 31 x"

definition sha1_Initialize :: "u32 list" where
  "sha1_Initialize = [0x67452301, 0xEFCDAB89, 0x98BADCFE, 0x10325476, 0xC3D2E1F0]"

abbreviation (input) sha1_k1 :: u32 where "sha1_k1 \<equiv> 0x5A827999"
abbreviation (input) sha1_k2 :: u32 where "sha1_k2 \<equiv> 0x6ED9EBA1"
abbreviation (input) sha1_k3 :: u32 where "sha1_k3 \<equiv> 0x8F1BBCDC"
abbreviation (input) sha1_k4 :: u32 where "sha1_k4 \<equiv> 0xCA62C1D6"

definition sha1_Transform :: "u32 list \<Rightarrow> bytes \<Rightarrow> u32 list" where
  "sha1_Transform s chunk =
     (let a = s ! 0; b = s ! 1; c = s ! 2; d = s ! 3; e = s ! 4;
      w0 = ReadBE32 (drop 0 chunk);
      (b, e) = sha1_Round a b c d e (sha1_f1 b c d) sha1_k1 w0;
      w1 = ReadBE32 (drop 4 chunk);
      (a, d) = sha1_Round e a b c d (sha1_f1 a b c) sha1_k1 w1;
      w2 = ReadBE32 (drop 8 chunk);
      (e, c) = sha1_Round d e a b c (sha1_f1 e a b) sha1_k1 w2;
      w3 = ReadBE32 (drop 12 chunk);
      (d, b) = sha1_Round c d e a b (sha1_f1 d e a) sha1_k1 w3;
      w4 = ReadBE32 (drop 16 chunk);
      (c, a) = sha1_Round b c d e a (sha1_f1 c d e) sha1_k1 w4;
      w5 = ReadBE32 (drop 20 chunk);
      (b, e) = sha1_Round a b c d e (sha1_f1 b c d) sha1_k1 w5;
      w6 = ReadBE32 (drop 24 chunk);
      (a, d) = sha1_Round e a b c d (sha1_f1 a b c) sha1_k1 w6;
      w7 = ReadBE32 (drop 28 chunk);
      (e, c) = sha1_Round d e a b c (sha1_f1 e a b) sha1_k1 w7;
      w8 = ReadBE32 (drop 32 chunk);
      (d, b) = sha1_Round c d e a b (sha1_f1 d e a) sha1_k1 w8;
      w9 = ReadBE32 (drop 36 chunk);
      (c, a) = sha1_Round b c d e a (sha1_f1 c d e) sha1_k1 w9;
      w10 = ReadBE32 (drop 40 chunk);
      (b, e) = sha1_Round a b c d e (sha1_f1 b c d) sha1_k1 w10;
      w11 = ReadBE32 (drop 44 chunk);
      (a, d) = sha1_Round e a b c d (sha1_f1 a b c) sha1_k1 w11;
      w12 = ReadBE32 (drop 48 chunk);
      (e, c) = sha1_Round d e a b c (sha1_f1 e a b) sha1_k1 w12;
      w13 = ReadBE32 (drop 52 chunk);
      (d, b) = sha1_Round c d e a b (sha1_f1 d e a) sha1_k1 w13;
      w14 = ReadBE32 (drop 56 chunk);
      (c, a) = sha1_Round b c d e a (sha1_f1 c d e) sha1_k1 w14;
      w15 = ReadBE32 (drop 60 chunk);
      (b, e) = sha1_Round a b c d e (sha1_f1 b c d) sha1_k1 w15;
      w0 = sha1_left (w0 XOR w13 XOR w8 XOR w2);
      (a, d) = sha1_Round e a b c d (sha1_f1 a b c) sha1_k1 w0;
      w1 = sha1_left (w1 XOR w14 XOR w9 XOR w3);
      (e, c) = sha1_Round d e a b c (sha1_f1 e a b) sha1_k1 w1;
      w2 = sha1_left (w2 XOR w15 XOR w10 XOR w4);
      (d, b) = sha1_Round c d e a b (sha1_f1 d e a) sha1_k1 w2;
      w3 = sha1_left (w3 XOR w0 XOR w11 XOR w5);
      (c, a) = sha1_Round b c d e a (sha1_f1 c d e) sha1_k1 w3;
      w4 = sha1_left (w4 XOR w1 XOR w12 XOR w6);
      (b, e) = sha1_Round a b c d e (sha1_f2 b c d) sha1_k2 w4;
      w5 = sha1_left (w5 XOR w2 XOR w13 XOR w7);
      (a, d) = sha1_Round e a b c d (sha1_f2 a b c) sha1_k2 w5;
      w6 = sha1_left (w6 XOR w3 XOR w14 XOR w8);
      (e, c) = sha1_Round d e a b c (sha1_f2 e a b) sha1_k2 w6;
      w7 = sha1_left (w7 XOR w4 XOR w15 XOR w9);
      (d, b) = sha1_Round c d e a b (sha1_f2 d e a) sha1_k2 w7;
      w8 = sha1_left (w8 XOR w5 XOR w0 XOR w10);
      (c, a) = sha1_Round b c d e a (sha1_f2 c d e) sha1_k2 w8;
      w9 = sha1_left (w9 XOR w6 XOR w1 XOR w11);
      (b, e) = sha1_Round a b c d e (sha1_f2 b c d) sha1_k2 w9;
      w10 = sha1_left (w10 XOR w7 XOR w2 XOR w12);
      (a, d) = sha1_Round e a b c d (sha1_f2 a b c) sha1_k2 w10;
      w11 = sha1_left (w11 XOR w8 XOR w3 XOR w13);
      (e, c) = sha1_Round d e a b c (sha1_f2 e a b) sha1_k2 w11;
      w12 = sha1_left (w12 XOR w9 XOR w4 XOR w14);
      (d, b) = sha1_Round c d e a b (sha1_f2 d e a) sha1_k2 w12;
      w13 = sha1_left (w13 XOR w10 XOR w5 XOR w15);
      (c, a) = sha1_Round b c d e a (sha1_f2 c d e) sha1_k2 w13;
      w14 = sha1_left (w14 XOR w11 XOR w6 XOR w0);
      (b, e) = sha1_Round a b c d e (sha1_f2 b c d) sha1_k2 w14;
      w15 = sha1_left (w15 XOR w12 XOR w7 XOR w1);
      (a, d) = sha1_Round e a b c d (sha1_f2 a b c) sha1_k2 w15;
      w0 = sha1_left (w0 XOR w13 XOR w8 XOR w2);
      (e, c) = sha1_Round d e a b c (sha1_f2 e a b) sha1_k2 w0;
      w1 = sha1_left (w1 XOR w14 XOR w9 XOR w3);
      (d, b) = sha1_Round c d e a b (sha1_f2 d e a) sha1_k2 w1;
      w2 = sha1_left (w2 XOR w15 XOR w10 XOR w4);
      (c, a) = sha1_Round b c d e a (sha1_f2 c d e) sha1_k2 w2;
      w3 = sha1_left (w3 XOR w0 XOR w11 XOR w5);
      (b, e) = sha1_Round a b c d e (sha1_f2 b c d) sha1_k2 w3;
      w4 = sha1_left (w4 XOR w1 XOR w12 XOR w6);
      (a, d) = sha1_Round e a b c d (sha1_f2 a b c) sha1_k2 w4;
      w5 = sha1_left (w5 XOR w2 XOR w13 XOR w7);
      (e, c) = sha1_Round d e a b c (sha1_f2 e a b) sha1_k2 w5;
      w6 = sha1_left (w6 XOR w3 XOR w14 XOR w8);
      (d, b) = sha1_Round c d e a b (sha1_f2 d e a) sha1_k2 w6;
      w7 = sha1_left (w7 XOR w4 XOR w15 XOR w9);
      (c, a) = sha1_Round b c d e a (sha1_f2 c d e) sha1_k2 w7;
      w8 = sha1_left (w8 XOR w5 XOR w0 XOR w10);
      (b, e) = sha1_Round a b c d e (sha1_f3 b c d) sha1_k3 w8;
      w9 = sha1_left (w9 XOR w6 XOR w1 XOR w11);
      (a, d) = sha1_Round e a b c d (sha1_f3 a b c) sha1_k3 w9;
      w10 = sha1_left (w10 XOR w7 XOR w2 XOR w12);
      (e, c) = sha1_Round d e a b c (sha1_f3 e a b) sha1_k3 w10;
      w11 = sha1_left (w11 XOR w8 XOR w3 XOR w13);
      (d, b) = sha1_Round c d e a b (sha1_f3 d e a) sha1_k3 w11;
      w12 = sha1_left (w12 XOR w9 XOR w4 XOR w14);
      (c, a) = sha1_Round b c d e a (sha1_f3 c d e) sha1_k3 w12;
      w13 = sha1_left (w13 XOR w10 XOR w5 XOR w15);
      (b, e) = sha1_Round a b c d e (sha1_f3 b c d) sha1_k3 w13;
      w14 = sha1_left (w14 XOR w11 XOR w6 XOR w0);
      (a, d) = sha1_Round e a b c d (sha1_f3 a b c) sha1_k3 w14;
      w15 = sha1_left (w15 XOR w12 XOR w7 XOR w1);
      (e, c) = sha1_Round d e a b c (sha1_f3 e a b) sha1_k3 w15;
      w0 = sha1_left (w0 XOR w13 XOR w8 XOR w2);
      (d, b) = sha1_Round c d e a b (sha1_f3 d e a) sha1_k3 w0;
      w1 = sha1_left (w1 XOR w14 XOR w9 XOR w3);
      (c, a) = sha1_Round b c d e a (sha1_f3 c d e) sha1_k3 w1;
      w2 = sha1_left (w2 XOR w15 XOR w10 XOR w4);
      (b, e) = sha1_Round a b c d e (sha1_f3 b c d) sha1_k3 w2;
      w3 = sha1_left (w3 XOR w0 XOR w11 XOR w5);
      (a, d) = sha1_Round e a b c d (sha1_f3 a b c) sha1_k3 w3;
      w4 = sha1_left (w4 XOR w1 XOR w12 XOR w6);
      (e, c) = sha1_Round d e a b c (sha1_f3 e a b) sha1_k3 w4;
      w5 = sha1_left (w5 XOR w2 XOR w13 XOR w7);
      (d, b) = sha1_Round c d e a b (sha1_f3 d e a) sha1_k3 w5;
      w6 = sha1_left (w6 XOR w3 XOR w14 XOR w8);
      (c, a) = sha1_Round b c d e a (sha1_f3 c d e) sha1_k3 w6;
      w7 = sha1_left (w7 XOR w4 XOR w15 XOR w9);
      (b, e) = sha1_Round a b c d e (sha1_f3 b c d) sha1_k3 w7;
      w8 = sha1_left (w8 XOR w5 XOR w0 XOR w10);
      (a, d) = sha1_Round e a b c d (sha1_f3 a b c) sha1_k3 w8;
      w9 = sha1_left (w9 XOR w6 XOR w1 XOR w11);
      (e, c) = sha1_Round d e a b c (sha1_f3 e a b) sha1_k3 w9;
      w10 = sha1_left (w10 XOR w7 XOR w2 XOR w12);
      (d, b) = sha1_Round c d e a b (sha1_f3 d e a) sha1_k3 w10;
      w11 = sha1_left (w11 XOR w8 XOR w3 XOR w13);
      (c, a) = sha1_Round b c d e a (sha1_f3 c d e) sha1_k3 w11;
      w12 = sha1_left (w12 XOR w9 XOR w4 XOR w14);
      (b, e) = sha1_Round a b c d e (sha1_f2 b c d) sha1_k4 w12;
      w13 = sha1_left (w13 XOR w10 XOR w5 XOR w15);
      (a, d) = sha1_Round e a b c d (sha1_f2 a b c) sha1_k4 w13;
      w14 = sha1_left (w14 XOR w11 XOR w6 XOR w0);
      (e, c) = sha1_Round d e a b c (sha1_f2 e a b) sha1_k4 w14;
      w15 = sha1_left (w15 XOR w12 XOR w7 XOR w1);
      (d, b) = sha1_Round c d e a b (sha1_f2 d e a) sha1_k4 w15;
      w0 = sha1_left (w0 XOR w13 XOR w8 XOR w2);
      (c, a) = sha1_Round b c d e a (sha1_f2 c d e) sha1_k4 w0;
      w1 = sha1_left (w1 XOR w14 XOR w9 XOR w3);
      (b, e) = sha1_Round a b c d e (sha1_f2 b c d) sha1_k4 w1;
      w2 = sha1_left (w2 XOR w15 XOR w10 XOR w4);
      (a, d) = sha1_Round e a b c d (sha1_f2 a b c) sha1_k4 w2;
      w3 = sha1_left (w3 XOR w0 XOR w11 XOR w5);
      (e, c) = sha1_Round d e a b c (sha1_f2 e a b) sha1_k4 w3;
      w4 = sha1_left (w4 XOR w1 XOR w12 XOR w6);
      (d, b) = sha1_Round c d e a b (sha1_f2 d e a) sha1_k4 w4;
      w5 = sha1_left (w5 XOR w2 XOR w13 XOR w7);
      (c, a) = sha1_Round b c d e a (sha1_f2 c d e) sha1_k4 w5;
      w6 = sha1_left (w6 XOR w3 XOR w14 XOR w8);
      (b, e) = sha1_Round a b c d e (sha1_f2 b c d) sha1_k4 w6;
      w7 = sha1_left (w7 XOR w4 XOR w15 XOR w9);
      (a, d) = sha1_Round e a b c d (sha1_f2 a b c) sha1_k4 w7;
      w8 = sha1_left (w8 XOR w5 XOR w0 XOR w10);
      (e, c) = sha1_Round d e a b c (sha1_f2 e a b) sha1_k4 w8;
      w9 = sha1_left (w9 XOR w6 XOR w1 XOR w11);
      (d, b) = sha1_Round c d e a b (sha1_f2 d e a) sha1_k4 w9;
      w10 = sha1_left (w10 XOR w7 XOR w2 XOR w12);
      (c, a) = sha1_Round b c d e a (sha1_f2 c d e) sha1_k4 w10;
      w11 = sha1_left (w11 XOR w8 XOR w3 XOR w13);
      (b, e) = sha1_Round a b c d e (sha1_f2 b c d) sha1_k4 w11;
      w12 = sha1_left (w12 XOR w9 XOR w4 XOR w14);
      (a, d) = sha1_Round e a b c d (sha1_f2 a b c) sha1_k4 w12;
      (e, c) = sha1_Round d e a b c (sha1_f2 e a b) sha1_k4 (sha1_left (w13 XOR w10 XOR w5 XOR w15));
      (d, b) = sha1_Round c d e a b (sha1_f2 d e a) sha1_k4 (sha1_left (w14 XOR w11 XOR w6 XOR w0));
      (c, a) = sha1_Round b c d e a (sha1_f2 c d e) sha1_k4 (sha1_left (w15 XOR w12 XOR w7 XOR w1))
      in [s ! 0 + a, s ! 1 + b, s ! 2 + c, s ! 3 + d, s ! 4 + e])"

definition CSHA1 :: hasher where
  "CSHA1 = \<lparr>h_s = sha1_Initialize, h_buf = replicate 64 0, h_bytes = 0\<rparr>"

definition CSHA1_Write :: "hasher \<Rightarrow> bytes \<Rightarrow> hasher" where
  "CSHA1_Write = hasher_Write sha1_Transform"

definition CSHA1_Finalize :: "hasher \<Rightarrow> bytes" where
  "CSHA1_Finalize h =
     concat (map WriteBE32 (h_s (hasher_pad sha1_Transform (WriteBE64 (8 * h_bytes h)) h)))"

section \<open>RIPEMD-160\<close>

definition rmd_f1 :: "u32 \<Rightarrow> u32 \<Rightarrow> u32 \<Rightarrow> u32" where "rmd_f1 x y z = x XOR y XOR z"
definition rmd_f2 :: "u32 \<Rightarrow> u32 \<Rightarrow> u32 \<Rightarrow> u32" where "rmd_f2 x y z = (x AND y) OR (NOT x AND z)"
definition rmd_f3 :: "u32 \<Rightarrow> u32 \<Rightarrow> u32 \<Rightarrow> u32" where "rmd_f3 x y z = (x OR NOT y) XOR z"
definition rmd_f4 :: "u32 \<Rightarrow> u32 \<Rightarrow> u32 \<Rightarrow> u32" where "rmd_f4 x y z = (x AND z) OR (y AND NOT z)"
definition rmd_f5 :: "u32 \<Rightarrow> u32 \<Rightarrow> u32 \<Rightarrow> u32" where "rmd_f5 x y z = x XOR (y OR NOT z)"

definition rmd_Initialize :: "u32 list" where
  "rmd_Initialize = [0x67452301, 0xEFCDAB89, 0x98BADCFE, 0x10325476, 0xC3D2E1F0]"

definition rmd_rol :: "u32 \<Rightarrow> nat \<Rightarrow> u32" where
  "rmd_rol x i = push_bit i x OR drop_bit (32 - i) x"

definition rmd_Round ::
  "u32 \<Rightarrow> u32 \<Rightarrow> u32 \<Rightarrow> u32 \<Rightarrow> u32 \<Rightarrow> u32 \<Rightarrow> u32 \<Rightarrow> u32 \<Rightarrow> nat \<Rightarrow> u32 \<times> u32" where
  "rmd_Round a b c d e f x k r = (rmd_rol (a + f + x + k) r + e, rmd_rol c 10)"

definition rmd_R11 :: "u32 \<Rightarrow> u32 \<Rightarrow> u32 \<Rightarrow> u32 \<Rightarrow> u32 \<Rightarrow> u32 \<Rightarrow> nat \<Rightarrow> u32 \<times> u32" where
  "rmd_R11 a b c d e x r = rmd_Round a b c d e (rmd_f1 b c d) x 0 r"
definition rmd_R21 :: "u32 \<Rightarrow> u32 \<Rightarrow> u32 \<Rightarrow> u32 \<Rightarrow> u32 \<Rightarrow> u32 \<Rightarrow> nat \<Rightarrow> u32 \<times> u32" where
  "rmd_R21 a b c d e x r = rmd_Round a b c d e (rmd_f2 b c d) x 0x5A827999 r"
definition rmd_R31 :: "u32 \<Rightarrow> u32 \<Rightarrow> u32 \<Rightarrow> u32 \<Rightarrow> u32 \<Rightarrow> u32 \<Rightarrow> nat \<Rightarrow> u32 \<times> u32" where
  "rmd_R31 a b c d e x r = rmd_Round a b c d e (rmd_f3 b c d) x 0x6ED9EBA1 r"
definition rmd_R41 :: "u32 \<Rightarrow> u32 \<Rightarrow> u32 \<Rightarrow> u32 \<Rightarrow> u32 \<Rightarrow> u32 \<Rightarrow> nat \<Rightarrow> u32 \<times> u32" where
  "rmd_R41 a b c d e x r = rmd_Round a b c d e (rmd_f4 b c d) x 0x8F1BBCDC r"
definition rmd_R51 :: "u32 \<Rightarrow> u32 \<Rightarrow> u32 \<Rightarrow> u32 \<Rightarrow> u32 \<Rightarrow> u32 \<Rightarrow> nat \<Rightarrow> u32 \<times> u32" where
  "rmd_R51 a b c d e x r = rmd_Round a b c d e (rmd_f5 b c d) x 0xA953FD4E r"
definition rmd_R12 :: "u32 \<Rightarrow> u32 \<Rightarrow> u32 \<Rightarrow> u32 \<Rightarrow> u32 \<Rightarrow> u32 \<Rightarrow> nat \<Rightarrow> u32 \<times> u32" where
  "rmd_R12 a b c d e x r = rmd_Round a b c d e (rmd_f5 b c d) x 0x50A28BE6 r"
definition rmd_R22 :: "u32 \<Rightarrow> u32 \<Rightarrow> u32 \<Rightarrow> u32 \<Rightarrow> u32 \<Rightarrow> u32 \<Rightarrow> nat \<Rightarrow> u32 \<times> u32" where
  "rmd_R22 a b c d e x r = rmd_Round a b c d e (rmd_f4 b c d) x 0x5C4DD124 r"
definition rmd_R32 :: "u32 \<Rightarrow> u32 \<Rightarrow> u32 \<Rightarrow> u32 \<Rightarrow> u32 \<Rightarrow> u32 \<Rightarrow> nat \<Rightarrow> u32 \<times> u32" where
  "rmd_R32 a b c d e x r = rmd_Round a b c d e (rmd_f3 b c d) x 0x6D703EF3 r"
definition rmd_R42 :: "u32 \<Rightarrow> u32 \<Rightarrow> u32 \<Rightarrow> u32 \<Rightarrow> u32 \<Rightarrow> u32 \<Rightarrow> nat \<Rightarrow> u32 \<times> u32" where
  "rmd_R42 a b c d e x r = rmd_Round a b c d e (rmd_f2 b c d) x 0x7A6D76E9 r"
definition rmd_R52 :: "u32 \<Rightarrow> u32 \<Rightarrow> u32 \<Rightarrow> u32 \<Rightarrow> u32 \<Rightarrow> u32 \<Rightarrow> nat \<Rightarrow> u32 \<times> u32" where
  "rmd_R52 a b c d e x r = rmd_Round a b c d e (rmd_f1 b c d) x 0 r"

definition rmd_Transform :: "u32 list \<Rightarrow> bytes \<Rightarrow> u32 list" where
  "rmd_Transform s chunk =
     (let a1 = s ! 0; b1 = s ! 1; c1 = s ! 2; d1 = s ! 3; e1 = s ! 4;
      a2 = a1; b2 = b1; c2 = c1; d2 = d1; e2 = e1;
      w0 = of_nat (ReadLE32 (drop 0 chunk)); w1 = of_nat (ReadLE32 (drop 4 chunk));
      w2 = of_nat (ReadLE32 (drop 8 chunk)); w3 = of_nat (ReadLE32 (drop 12 chunk));
      w4 = of_nat (ReadLE32 (drop 16 chunk)); w5 = of_nat (ReadLE32 (drop 20 chunk));
      w6 = of_nat (ReadLE32 (drop 24 chunk)); w7 = of_nat (ReadLE32 (drop 28 chunk));
      w8 = of_nat (ReadLE32 (drop 32 chunk)); w9 = of_nat (ReadLE32 (drop 36 chunk));
      w10 = of_nat (ReadLE32 (drop 40 chunk)); w11 = of_nat (ReadLE32 (drop 44 chunk));
      w12 = of_nat (ReadLE32 (drop 48 chunk)); w13 = of_nat (ReadLE32 (drop 52 chunk));
      w14 = of_nat (ReadLE32 (drop 56 chunk)); w15 = of_nat (ReadLE32 (drop 60 chunk));
      (a1, c1) = rmd_R11 a1 b1 c1 d1 e1 w0 11;
      (a2, c2) = rmd_R12 a2 b2 c2 d2 e2 w5 8;
      (e1, b1) = rmd_R11 e1 a1 b1 c1 d1 w1 14;
      (e2, b2) = rmd_R12 e2 a2 b2 c2 d2 w14 9;
      (d1, a1) = rmd_R11 d1 e1 a1 b1 c1 w2 15;
      (d2, a2) = rmd_R12 d2 e2 a2 b2 c2 w7 9;
      (c1, e1) = rmd_R11 c1 d1 e1 a1 b1 w3 12;
      (c2, e2) = rmd_R12 c2 d2 e2 a2 b2 w0 11;
      (b1, d1) = rmd_R11 b1 c1 d1 e1 a1 w4 5;
      (b2, d2) = rmd_R12 b2 c2 d2 e2 a2 w9 13;
      (a1, c1) = rmd_R11 a1 b1 c1 d1 e1 w5 8;
      (a2, c2) = rmd_R12 a2 b2 c2 d2 e2 w2 15;
      (e1, b1) = rmd_R11 e1 a1 b1 c1 d1 w6 7;
      (e2, b2) = rmd_R12 e2 a2 b2 c2 d2 w11 15;
      (d1, a1) = rmd_R11 d1 e1 a1 b1 c1 w7 9;
      (d2, a2) = rmd_R12 d2 e2 a2 b2 c2 w4 5;
      (c1, e1) = rmd_R11 c1 d1 e1 a1 b1 w8 11;
      (c2, e2) = rmd_R12 c2 d2 e2 a2 b2 w13 7;
      (b1, d1) = rmd_R11 b1 c1 d1 e1 a1 w9 13;
      (b2, d2) = rmd_R12 b2 c2 d2 e2 a2 w6 7;
      (a1, c1) = rmd_R11 a1 b1 c1 d1 e1 w10 14;
      (a2, c2) = rmd_R12 a2 b2 c2 d2 e2 w15 8;
      (e1, b1) = rmd_R11 e1 a1 b1 c1 d1 w11 15;
      (e2, b2) = rmd_R12 e2 a2 b2 c2 d2 w8 11;
      (d1, a1) = rmd_R11 d1 e1 a1 b1 c1 w12 6;
      (d2, a2) = rmd_R12 d2 e2 a2 b2 c2 w1 14;
      (c1, e1) = rmd_R11 c1 d1 e1 a1 b1 w13 7;
      (c2, e2) = rmd_R12 c2 d2 e2 a2 b2 w10 14;
      (b1, d1) = rmd_R11 b1 c1 d1 e1 a1 w14 9;
      (b2, d2) = rmd_R12 b2 c2 d2 e2 a2 w3 12;
      (a1, c1) = rmd_R11 a1 b1 c1 d1 e1 w15 8;
      (a2, c2) = rmd_R12 a2 b2 c2 d2 e2 w12 6;
      (e1, b1) = rmd_R21 e1 a1 b1 c1 d1 w7 7;
      (e2, b2) = rmd_R22 e2 a2 b2 c2 d2 w6 9;
      (d1, a1) = rmd_R21 d1 e1 a1 b1 c1 w4 6;
      (d2, a2) = rmd_R22 d2 e2 a2 b2 c2 w11 13;
      (c1, e1) = rmd_R21 c1 d1 e1 a1 b1 w13 8;
      (c2, e2) = rmd_R22 c2 d2 e2 a2 b2 w3 15;
      (b1, d1) = rmd_R21 b1 c1 d1 e1 a1 w1 13;
      (b2, d2) = rmd_R22 b2 c2 d2 e2 a2 w7 7;
      (a1, c1) = rmd_R21 a1 b1 c1 d1 e1 w10 11;
      (a2, c2) = rmd_R22 a2 b2 c2 d2 e2 w0 12;
      (e1, b1) = rmd_R21 e1 a1 b1 c1 d1 w6 9;
      (e2, b2) = rmd_R22 e2 a2 b2 c2 d2 w13 8;
      (d1, a1) = rmd_R21 d1 e1 a1 b1 c1 w15 7;
      (d2, a2) = rmd_R22 d2 e2 a2 b2 c2 w5 9;
      (c1, e1) = rmd_R21 c1 d1 e1 a1 b1 w3 15;
      (c2, e2) = rmd_R22 c2 d2 e2 a2 b2 w10 11;
      (b1, d1) = rmd_R21 b1 c1 d1 e1 a1 w12 7;
      (b2, d2) = rmd_R22 b2 c2 d2 e2 a2 w14 7;
      (a1, c1) = rmd_R21 a1 b1 c1 d1 e1 w0 12;
      (a2, c2) = rmd_R22 a2 b2 c2 d2 e2 w15 7;
      (e1, b1) = rmd_R21 e1 a1 b1 c1 d1 w9 15;
      (e2, b2) = rmd_R22 e2 a2 b2 c2 d2 w8 12;
      (d1, a1) = rmd_R21 d1 e1 a1 b1 c1 w5 9;
      (d2, a2) = rmd_R22 d2 e2 a2 b2 c2 w12 7;
      (c1, e1) = rmd_R21 c1 d1 e1 a1 b1 w2 11;
      (c2, e2) = rmd_R22 c2 d2 e2 a2 b2 w4 6;
      (b1, d1) = rmd_R21 b1 c1 d1 e1 a1 w14 7;
      (b2, d2) = rmd_R22 b2 c2 d2 e2 a2 w9 15;
      (a1, c1) = rmd_R21 a1 b1 c1 d1 e1 w11 13;
      (a2, c2) = rmd_R22 a2 b2 c2 d2 e2 w1 13;
      (e1, b1) = rmd_R21 e1 a1 b1 c1 d1 w8 12;
      (e2, b2) = rmd_R22 e2 a2 b2 c2 d2 w2 11;
      (d1, a1) = rmd_R31 d1 e1 a1 b1 c1 w3 11;
      (d2, a2) = rmd_R32 d2 e2 a2 b2 c2 w15 9;
      (c1, e1) = rmd_R31 c1 d1 e1 a1 b1 w10 13;
      (c2, e2) = rmd_R32 c2 d2 e2 a2 b2 w5 7;
      (b1, d1) = rmd_R31 b1 c1 d1 e1 a1 w14 6;
      (b2, d2) = rmd_R32 b2 c2 d2 e2 a2 w1 15;
      (a1, c1) = rmd_R31 a1 b1 c1 d1 e1 w4 7;
      (a2, c2) = rmd_R32 a2 b2 c2 d2 e2 w3 11;
      (e1, b1) = rmd_R31 e1 a1 b1 c1 d1 w9 14;
      (e2, b2) = rmd_R32 e2 a2 b2 c2 d2 w7 8;
      (d1, a1) = rmd_R31 d1 e1 a1 b1 c1 w15 9;
      (d2, a2) = rmd_R32 d2 e2 a2 b2 c2 w14 6;
      (c1, e1) = rmd_R31 c1 d1 e1 a1 b1 w8 13;
      (c2, e2) = rmd_R32 c2 d2 e2 a2 b2 w6 6;
      (b1, d1) = rmd_R31 b1 c1 d1 e1 a1 w1 15;
      (b2, d2) = rmd_R32 b2 c2 d2 e2 a2 w9 14;
      (a1, c1) = rmd_R31 a1 b1 c1 d1 e1 w2 14;
      (a2, c2) = rmd_R32 a2 b2 c2 d2 e2 w11 12;
      (e1, b1) = rmd_R31 e1 a1 b1 c1 d1 w7 8;
      (e2, b2) = rmd_R32 e2 a2 b2 c2 d2 w8 13;
      (d1, a1) = rmd_R31 d1 e1 a1 b1 c1 w0 13;
      (d2, a2) = rmd_R32 d2 e2 a2 b2 c2 w12 5;
      (c1, e1) = rmd_R31 c1 d1 e1 a1 b1 w6 6;
      (c2, e2) = rmd_R32 c2 d2 e2 a2 b2 w2 14;
      (b1, d1) = rmd_R31 b1 c1 d1 e1 a1 w13 5;
      (b2, d2) = rmd_R32 b2 c2 d2 e2 a2 w10 13;
      (a1, c1) = rmd_R31 a1 b1 c1 d1 e1 w11 12;
      (a2, c2) = rmd_R32 a2 b2 c2 d2 e2 w0 13;
      (e1, b1) = rmd_R31 e1 a1 b1 c1 d1 w5 7;
      (e2, b2) = rmd_R32 e2 a2 b2 c2 d2 w4 7;
      (d1, a1) = rmd_R31 d1 e1 a1 b1 c1 w12 5;
      (d2, a2) = rmd_R32 d2 e2 a2 b2 c2 w13 5;
      (c1, e1) = rmd_R41 c1 d1 e1 a1 b1 w1 11;
      (c2, e2) = rmd_R42 c2 d2 e2 a2 b2 w8 15;
      (b1, d1) = rmd_R41 b1 c1 d1 e1 a1 w9 12;
      (b2, d2) = rmd_R42 b2 c2 d2 e2 a2 w6 5;
      (a1, c1) = rmd_R41 a1 b1 c1 d1 e1 w11 14;
      (a2, c2) = rmd_R42 a2 b2 c2 d2 e2 w4 8;
      (e1, b1) = rmd_R41 e1 a1 b1 c1 d1 w10 15;
      (e2, b2) = rmd_R42 e2 a2 b2 c2 d2 w1 11;
      (d1, a1) = rmd_R41 d1 e1 a1 b1 c1 w0 14;
      (d2, a2) = rmd_R42 d2 e2 a2 b2 c2 w3 14;
      (c1, e1) = rmd_R41 c1 d1 e1 a1 b1 w8 15;
      (c2, e2) = rmd_R42 c2 d2 e2 a2 b2 w11 14;
      (b1, d1) = rmd_R41 b1 c1 d1 e1 a1 w12 9;
      (b2, d2) = rmd_R42 b2 c2 d2 e2 a2 w15 6;
      (a1, c1) = rmd_R41 a1 b1 c1 d1 e1 w4 8;
      (a2, c2) = rmd_R42 a2 b2 c2 d2 e2 w0 14;
      (e1, b1) = rmd_R41 e1 a1 b1 c1 d1 w13 9;
      (e2, b2) = rmd_R42 e2 a2 b2 c2 d2 w5 6;
      (d1, a1) = rmd_R41 d1 e1 a1 b1 c1 w3 14;
      (d2, a2) = rmd_R42 d2 e2 a2 b2 c2 w12 9;
      (c1, e1) = rmd_R41 c1 d1 e1 a1 b1 w7 5;
      (c2, e2) = rmd_R42 c2 d2 e2 a2 b2 w2 12;
      (b1, d1) = rmd_R41 b1 c1 d1 e1 a1 w15 6;
      (b2, d2) = rmd_R42 b2 c2 d2 e2 a2 w13 9;
      (a1, c1) = rmd_R41 a1 b1 c1 d1 e1 w14 8;
      (a2, c2) = rmd_R42 a2 b2 c2 d2 e2 w9 12;
      (e1, b1) = rmd_R41 e1 a1 b1 c1 d1 w5 6;
      (e2, b2) = rmd_R42 e2 a2 b2 c2 d2 w7 5;
      (d1, a1) = rmd_R41 d1 e1 a1 b1 c1 w6 5;
      (d2, a2) = rmd_R42 d2 e2 a2 b2 c2 w10 15;
      (c1, e1) = rmd_R41 c1 d1 e1 a1 b1 w2 12;
      (c2, e2) = rmd_R42 c2 d2 e2 a2 b2 w14 8;
      (b1, d1) = rmd_R51 b1 c1 d1 e1 a1 w4 9;
      (b2, d2) = rmd_R52 b2 c2 d2 e2 a2 w12 8;
      (a1, c1) = rmd_R51 a1 b1 c1 d1 e1 w0 15;
      (a2, c2) = rmd_R52 a2 b2 c2 d2 e2 w15 5;
      (e1, b1) = rmd_R51 e1 a1 b1 c1 d1 w5 5;
      (e2, b2) = rmd_R52 e2 a2 b2 c2 d2 w10 12;
      (d1, a1) = rmd_R51 d1 e1 a1 b1 c1 w9 11;
      (d2, a2) = rmd_R52 d2 e2 a2 b2 c2 w4 9;
      (c1, e1) = rmd_R51 c1 d1 e1 a1 b1 w7 6;
      (c2, e2) = rmd_R52 c2 d2 e2 a2 b2 w1 12;
      (b1, d1) = rmd_R51 b1 c1 d1 e1 a1 w12 8;
      (b2, d2) = rmd_R52 b2 c2 d2 e2 a2 w5 5;
      (a1, c1) = rmd_R51 a1 b1 c1 d1 e1 w2 13;
      (a2, c2) = rmd_R52 a2 b2 c2 d2 e2 w8 14;
      (e1, b1) = rmd_R51 e1 a1 b1 c1 d1 w10 12;
      (e2, b2) = rmd_R52 e2 a2 b2 c2 d2 w7 6;
      (d1, a1) = rmd_R51 d1 e1 a1 b1 c1 w14 5;
      (d2, a2) = rmd_R52 d2 e2 a2 b2 c2 w6 8;
      (c1, e1) = rmd_R51 c1 d1 e1 a1 b1 w1 12;
      (c2, e2) = rmd_R52 c2 d2 e2 a2 b2 w2 13;
      (b1, d1) = rmd_R51 b1 c1 d1 e1 a1 w3 13;
      (b2, d2) = rmd_R52 b2 c2 d2 e2 a2 w13 6;
      (a1, c1) = rmd_R51 a1 b1 c1 d1 e1 w8 14;
      (a2, c2) = rmd_R52 a2 b2 c2 d2 e2 w14 5;
      (e1, b1) = rmd_R51 e1 a1 b1 c1 d1 w11 11;
      (e2, b2) = rmd_R52 e2 a2 b2 c2 d2 w0 15;
      (d1, a1) = rmd_R51 d1 e1 a1 b1 c1 w6 8;
      (d2, a2) = rmd_R52 d2 e2 a2 b2 c2 w3 13;
      (c1, e1) = rmd_R51 c1 d1 e1 a1 b1 w15 5;
      (c2, e2) = rmd_R52 c2 d2 e2 a2 b2 w9 11;
      (b1, d1) = rmd_R51 b1 c1 d1 e1 a1 w13 6;
      (b2, d2) = rmd_R52 b2 c2 d2 e2 a2 w11 11
      in [s ! 1 + c1 + d2, s ! 2 + d1 + e2, s ! 3 + e1 + a2, s ! 4 + a1 + b2, s ! 0 + b1 + c2])"

definition CRIPEMD160 :: hasher where
  "CRIPEMD160 = \<lparr>h_s = rmd_Initialize, h_buf = replicate 64 0, h_bytes = 0\<rparr>"

definition CRIPEMD160_Write :: "hasher \<Rightarrow> bytes \<Rightarrow> hasher" where
  "CRIPEMD160_Write = hasher_Write rmd_Transform"

definition CRIPEMD160_Finalize :: "hasher \<Rightarrow> bytes" where
  "CRIPEMD160_Finalize h =
     concat (map (\<lambda>x. WriteLE32 (unat x)) (h_s (hasher_pad rmd_Transform (WriteLE64 (8 * h_bytes h)) h)))"

section \<open>Compositions\<close>

definition CHash256_Finalize :: "hasher \<Rightarrow> bytes" where
  "CHash256_Finalize sha =
     (let buf = CSHA256_Finalize sha
      in CSHA256_Finalize (CSHA256_Write (CSHA256_Reset sha) buf))"

definition CHash160_Finalize :: "hasher \<Rightarrow> bytes" where
  "CHash160_Finalize sha =
     (let buf = CSHA256_Finalize sha in CRIPEMD160_Finalize (CRIPEMD160_Write CRIPEMD160 buf))"

definition SHA256 :: "bytes \<Rightarrow> bytes" where
  "SHA256 m = CSHA256_Finalize (CSHA256_Write CSHA256 m)"

definition SHA1 :: "bytes \<Rightarrow> bytes" where
  "SHA1 m = CSHA1_Finalize (CSHA1_Write CSHA1 m)"

definition RIPEMD160 :: "bytes \<Rightarrow> bytes" where
  "RIPEMD160 m = CRIPEMD160_Finalize (CRIPEMD160_Write CRIPEMD160 m)"

definition Hash :: "bytes \<Rightarrow> bytes" where
  "Hash m = CHash256_Finalize (CSHA256_Write CSHA256 m)"

definition Hash_2 :: "bytes \<Rightarrow> bytes \<Rightarrow> bytes" where
  "Hash_2 m1 m2 = CHash256_Finalize (CSHA256_Write (CSHA256_Write CSHA256 m1) m2)"

definition Hash160 :: "bytes \<Rightarrow> bytes" where
  "Hash160 m = CHash160_Finalize (CSHA256_Write CSHA256 m)"

text \<open>\<open>CHashWriter\<close>: one \<open>write\<close> per serialized field, then \<open>GetHash\<close>.\<close>

definition CHashWriter_GetHash :: "bytes list \<Rightarrow> bytes" where
  "CHashWriter_GetHash writes = CHash256_Finalize (foldl CSHA256_Write CSHA256 writes)"

section \<open>One-shot reference\<close>

text \<open>
  The reference that the buffered code implements: cut the padded message into 64-byte blocks and
  run the compression function over them.
\<close>

function digest_blocks :: "(u32 list \<Rightarrow> bytes \<Rightarrow> u32 list) \<Rightarrow> u32 list \<Rightarrow> bytes \<Rightarrow> u32 list" where
  "digest_blocks T s m =
     (if length m < 64 then s else digest_blocks T (T s (take 64 m)) (drop 64 m))"
  by pat_completeness auto
termination by (relation "measure (\<lambda>(T, s, m). length m)") auto

declare digest_blocks.simps [simp del]

definition tail_bytes :: "bytes \<Rightarrow> bytes" where
  "tail_bytes m = drop (64 * (length m div 64)) m"

definition padding :: "nat \<Rightarrow> bytes \<Rightarrow> bytes" where
  "padding n sizedesc = 0x80 # replicate ((119 - n mod 64) mod 64) 0 @ sizedesc"

lemma digest_blocks_short: "length m < 64 \<Longrightarrow> digest_blocks T s m = s"
  by (simp add: digest_blocks.simps)

lemma digest_blocks_step:
  "64 \<le> length m \<Longrightarrow> digest_blocks T s m = digest_blocks T (T s (take 64 m)) (drop 64 m)"
  by (subst digest_blocks.simps) simp

lemma length_tail_bytes: "length (tail_bytes m) = length m mod 64"
  by (simp add: tail_bytes_def minus_mult_div_eq_mod)

lemma tail_bytes_short: "length m < 64 \<Longrightarrow> tail_bytes m = m"
  by (simp add: tail_bytes_def)

lemma tail_bytes_step: "64 \<le> length m \<Longrightarrow> tail_bytes m = tail_bytes (drop 64 m)"
proof -
  assume "64 \<le> length m"
  then have "length m div 64 = Suc ((length m - 64) div 64)" by (simp add: le_div_geq)
  then show ?thesis by (simp add: tail_bytes_def algebra_simps)
qed

lemma digest_blocks_append:
  "digest_blocks T s (a @ b) = digest_blocks T (digest_blocks T s a) (tail_bytes a @ b) \<and>
   tail_bytes (a @ b) = tail_bytes (tail_bytes a @ b)"
proof (induction "length a" arbitrary: a s rule: less_induct)
  case less
  show ?case
  proof (cases "length a < 64")
    case True
    then show ?thesis by (simp add: digest_blocks_short tail_bytes_short)
  next
    case False
    then have "take 64 (a @ b) = take 64 a" "drop 64 (a @ b) = drop 64 a @ b" by simp_all
    then show ?thesis
      using less[of "drop 64 a" "T s (take 64 a)"] False
      by (simp add: digest_blocks_step[of a] digest_blocks_step[of "a @ b"] tail_bytes_step[of a]
          tail_bytes_step[of "a @ b"])
  qed
qed

lemma Write_chunks_digest:
  "Write_chunks T h data =
     (h\<lparr>h_s := digest_blocks T (h_s h) data, h_bytes := h_bytes h + (length data - length data mod 64)\<rparr>,
      tail_bytes data)"
proof (induction T h data rule: Write_chunks.induct)
  case (1 T h data)
  show ?case
  proof (cases "64 \<le> length data")
    case True
    then have "64 + (length data - 64 - (length data - 64) mod 64) = length data - length data mod 64"
      by (simp add: le_mod_geq)
    then show ?thesis
      using 1 True
      by (subst Write_chunks.simps) (simp add: digest_blocks_step tail_bytes_step add.assoc)
  qed (simp add: Write_chunks.simps digest_blocks_short tail_bytes_short)
qed

text \<open>\<open>h\<close> has absorbed \<open>m\<close>: whole blocks are in the chaining state, the rest waits in the buffer.\<close>

definition absorbed :: "(u32 list \<Rightarrow> bytes \<Rightarrow> u32 list) \<Rightarrow> u32 list \<Rightarrow> bytes \<Rightarrow> hasher \<Rightarrow> bool" where
  "absorbed T init m h \<longleftrightarrow>
     h_bytes h = length m \<and> length (h_buf h) = 64 \<and> h_s h = digest_blocks T init m \<and>
     take (length m mod 64) (h_buf h) = tail_bytes m"

lemma length_memcpy_at: "i + length src \<le> length buf \<Longrightarrow> length (memcpy_at buf i src) = length buf"
  by (simp add: memcpy_at_def)

lemma take_memcpy_at:
  "i + length src \<le> length buf \<Longrightarrow> take (i + length src) (memcpy_at buf i src) = take i buf @ src"
  by (simp add: memcpy_at_def)

lemma absorbed_chunks:
  assumes "absorbed T init m h" and "length m mod 64 = 0" and "Write_chunks T h data = (h', rest)"
  shows "absorbed T init (m @ data) (if rest \<noteq> [] then h'\<lparr>h_buf := memcpy_at (h_buf h') 0 rest,
           h_bytes := h_bytes h' + length rest\<rparr> else h')"
proof -
  have t: "tail_bytes m = []" using assms(2) length_tail_bytes[of m] by simp
  have r: "rest = tail_bytes data" "length rest = length data mod 64"
    using assms(3) by (auto simp: Write_chunks_digest length_tail_bytes)
  have len: "(length m + length data) mod 64 = length data mod 64"
    using assms(2) by (metis add_0 mod_add_left_eq)
  have d: "digest_blocks T init (m @ data) = digest_blocks T (digest_blocks T init m) data"
    "tail_bytes (m @ data) = tail_bytes data"
    using digest_blocks_append[of T init m data] t by simp_all
  show ?thesis
    using assms(1,3) r
    by (auto simp: absorbed_def Write_chunks_digest d len length_memcpy_at memcpy_at_def less_imp_le
        mod_less_eq_dividend)
qed

lemma absorbed_fill:
  assumes "absorbed T init m h" and "length m mod 64 \<noteq> 0" and "length d = 64 - length m mod 64"
    and "buf = memcpy_at (h_buf h) (length m mod 64) d"
  shows "absorbed T init (m @ d) (h\<lparr>h_buf := buf, h_bytes := h_bytes h + length d, h_s := T (h_s h) buf\<rparr>)"
proof -
  have lt: "length m mod 64 < 64" by simp
  have buf: "buf = tail_bytes m @ d" "length buf = 64"
    using assms length_tail_bytes[of m] by (auto simp: absorbed_def memcpy_at_def)
  have "digest_blocks T init (m @ d) = T (digest_blocks T init m) buf"
    using digest_blocks_append[of T init m d] buf
    by (simp add: digest_blocks_step[of buf, unfolded buf(1)] digest_blocks_short buf)
  moreover have "(length m + length d) mod 64 = 0"
    using assms(3) lt by (metis add_diff_inverse_nat mod_add_left_eq mod_self not_less_iff_gr_or_eq)
  moreover have "tail_bytes (m @ d) = []"
    using calculation(2) length_tail_bytes[of "m @ d"] by simp
  ultimately show ?thesis using assms(1) buf by (simp add: absorbed_def)
qed

lemma absorbed_Write:
  assumes "absorbed T init m h"
  shows "absorbed T init (m @ data) (hasher_Write T h data)"
proof -
  let ?b = "length m mod 64"
  have b: "h_bytes h mod 64 = ?b" using assms by (simp add: absorbed_def)
  consider (aligned) "?b = 0" | (fill) "?b \<noteq> 0" "?b + length data \<ge> 64" | (short) "?b \<noteq> 0" "?b + length data < 64"
    by linarith
  then show ?thesis
  proof cases
    case aligned
    obtain h' rest where w: "Write_chunks T h data = (h', rest)" by fastforce
    from absorbed_chunks[OF assms aligned w] show ?thesis
      by (simp add: hasher_Write_def b aligned w)
  next
    case fill
    let ?d = "take (64 - ?b) data"
    let ?buf = "memcpy_at (h_buf h) ?b ?d"
    let ?h1 = "h\<lparr>h_buf := ?buf, h_bytes := h_bytes h + (64 - ?b), h_s := T (h_s h) ?buf\<rparr>"
    have d: "length ?d = 64 - ?b" using fill by simp
    from absorbed_fill[OF assms fill(1) d refl] have h1: "absorbed T init (m @ ?d) ?h1" by (simp only: d)
    have "(length m + (64 - ?b)) mod 64 = 0"
      by (metis d add_diff_inverse_nat mod_add_left_eq mod_less_divisor mod_self not_less_iff_gr_or_eq zero_less_numeral)
    then have al: "length (m @ ?d) mod 64 = 0" by (simp only: length_append d)
    obtain h' rest where w: "Write_chunks T ?h1 (drop (64 - ?b) data) = (h', rest)" by fastforce
    from absorbed_chunks[OF h1 al w] show ?thesis
      using fill by (simp add: hasher_Write_def b w Let_def del: add_diff_assoc)
  next
    case short
    have "tail_bytes (m @ data) = tail_bytes m @ data \<and> digest_blocks T init (m @ data) = digest_blocks T init m"
      using digest_blocks_append[of T init m data] short(2) length_tail_bytes[of m]
      by (simp add: digest_blocks_short tail_bytes_short)
    moreover have "(length m + length data) mod 64 = ?b + length data"
      using short(2) by (metis mod_add_left_eq mod_less)
    ultimately show ?thesis
      using assms short
      by (auto simp: hasher_Write_def b Let_def Write_chunks.simps[of T h] absorbed_def length_memcpy_at
          take_memcpy_at)
  qed
qed

lemma absorbed_init: "length buf = 64 \<Longrightarrow> absorbed T init [] \<lparr>h_s = init, h_buf = buf, h_bytes = 0\<rparr>"
  by (simp add: absorbed_def digest_blocks_short tail_bytes_def)

lemma absorbed_foldl: "absorbed T init m h \<Longrightarrow> absorbed T init (m @ concat ws) (foldl (hasher_Write T) h ws)"
proof (induction ws arbitrary: m h)
  case (Cons w ws)
  from Cons.IH[OF absorbed_Write[OF Cons.prems, of w]] show ?case by simp
qed simp

lemma absorbed_pad:
  assumes "absorbed T init m h"
  shows "absorbed T init (m @ padding (length m) sizedesc) (hasher_pad T sizedesc h)"
proof -
  have "take (1 + (119 - length m mod 64) mod 64) pad = 0x80 # replicate ((119 - length m mod 64) mod 64) 0"
    using mod_less_divisor[of 64 "119 - length m mod 64"] by (simp add: pad_def take_replicate min_def)
  moreover have "h_bytes h = length m" using assms by (simp add: absorbed_def)
  ultimately show ?thesis
    using absorbed_Write[OF absorbed_Write[OF assms, of "take (1 + (119 - length m mod 64) mod 64) pad"], of sizedesc]
    by (simp add: hasher_pad_def padding_def)
qed

lemma padding_aligned: "length sizedesc = 8 \<Longrightarrow> (length m + length (padding (length m) sizedesc)) mod 64 = 0"
proof -
  assume sd: "length sizedesc = 8"
  let ?r = "length m mod 64"
  have "?r + (1 + (119 - ?r) mod 64 + 8) = 64 \<or> ?r + (1 + (119 - ?r) mod 64 + 8) = 128"
  proof (cases "?r \<le> 55")
    case True
    then have "(119 - ?r) mod 64 = 55 - ?r" by (simp add: le_mod_geq)
    then show ?thesis using True by simp
  next
    case False
    then have "(119 - ?r) mod 64 = 119 - ?r" by simp
    then show ?thesis using mod_less_divisor[of 64 "length m"] by linarith
  qed
  then have "(?r + (1 + (119 - ?r) mod 64 + 8)) mod 64 = 0" by (elim disjE; simp only:; simp)
  then have "(length m + (1 + (119 - ?r) mod 64 + 8)) mod 64 = 0" by (simp only: mod_add_left_eq)
  then show ?thesis using sd by (simp add: padding_def)
qed

text \<open>What a compression function owes its hasher: a state of fixed size.\<close>

locale block_hash =
  fixes Transform :: "u32 list \<Rightarrow> bytes \<Rightarrow> u32 list" and init :: "u32 list" and words :: nat
  assumes length_init: "length init = words"
    and length_Transform: "length (Transform s chunk) = words"
begin

lemma length_digest: "length s = words \<Longrightarrow> length (digest_blocks Transform s m) = words"
proof (induction "length m" arbitrary: s m rule: less_induct)
  case less
  then show ?case by (subst digest_blocks.simps) (simp add: length_Transform)
qed

lemma finalized_state:
  "h_s (hasher_pad Transform sizedesc (foldl (hasher_Write Transform) \<lparr>h_s = init, h_buf = replicate 64 0, h_bytes = 0\<rparr> ws))
     = digest_blocks Transform init (concat ws @ padding (length (concat ws)) sizedesc)"
  using absorbed_pad[OF absorbed_foldl[OF absorbed_init[of "replicate 64 0" Transform init], of ws], of sizedesc]
  by (simp add: absorbed_def)

lemma finalized_length:
  "length (h_s (hasher_pad Transform sizedesc
     (foldl (hasher_Write Transform) \<lparr>h_s = init, h_buf = replicate 64 0, h_bytes = 0\<rparr> ws))) = words"
  by (simp add: finalized_state length_digest length_init)

end

lemma Let_intro: "(\<And>x. P (f x)) \<Longrightarrow> P (Let t f)"
  by (simp add: Let_def)

lemma case_prod_intro: "(\<And>x y. P (f x y)) \<Longrightarrow> P (case_prod f t)"
  by (simp split: prod.split)

interpretation sha256: block_hash sha256_Transform sha256_Initialize 8
proof
  fix s chunk
  show "length (sha256_Transform s chunk) = 8"
    unfolding sha256_Transform_def
    by (intro Let_intro[where P = "\<lambda>x. length x = 8"] case_prod_intro[where P = "\<lambda>x. length x = 8"]) simp
qed (simp add: sha256_Initialize_def)

interpretation sha1: block_hash sha1_Transform sha1_Initialize 5
proof
  fix s chunk
  show "length (sha1_Transform s chunk) = 5"
    unfolding sha1_Transform_def
    by (intro Let_intro[where P = "\<lambda>x. length x = 5"] case_prod_intro[where P = "\<lambda>x. length x = 5"]) simp
qed (simp add: sha1_Initialize_def)

interpretation rmd: block_hash rmd_Transform rmd_Initialize 5
proof
  fix s chunk
  show "length (rmd_Transform s chunk) = 5"
    unfolding rmd_Transform_def
    by (intro Let_intro[where P = "\<lambda>x. length x = 5"] case_prod_intro[where P = "\<lambda>x. length x = 5"]) simp
qed (simp add: rmd_Initialize_def)

subsection \<open>SHA-256 and its compositions\<close>

definition SHA256_ref :: "bytes \<Rightarrow> bytes" where
  "SHA256_ref m = concat (map WriteBE32
     (digest_blocks sha256_Transform sha256_Initialize (m @ padding (length m) (WriteBE64 (8 * length m)))))"

definition RIPEMD160_ref :: "bytes \<Rightarrow> bytes" where
  "RIPEMD160_ref m = concat (map (\<lambda>x. WriteLE32 (unat x))
     (digest_blocks rmd_Transform rmd_Initialize (m @ padding (length m) (WriteLE64 (8 * length m)))))"

lemma length_concat_words: "(\<And>x. length (f x) = 4) \<Longrightarrow> length (concat (map f xs)) = 4 * length xs"
  by (induction xs) auto

lemma CSHA256_Finalize_absorbed:
  assumes "absorbed sha256_Transform sha256_Initialize m h"
  shows "CSHA256_Finalize h = SHA256_ref m"
  using absorbed_pad[OF assms, of "WriteBE64 (8 * length m)"] assms
  by (simp add: CSHA256_Finalize_def CSHA256_FinalizeNoPadding_def SHA256_ref_def absorbed_def)

lemma CRIPEMD160_Finalize_absorbed:
  assumes "absorbed rmd_Transform rmd_Initialize m h"
  shows "CRIPEMD160_Finalize h = RIPEMD160_ref m"
  using absorbed_pad[OF assms, of "WriteLE64 (8 * length m)"] assms
  by (simp add: CRIPEMD160_Finalize_def RIPEMD160_ref_def absorbed_def)

lemma absorbed_CSHA256: "absorbed sha256_Transform sha256_Initialize (concat ws) (foldl CSHA256_Write CSHA256 ws)"
  using absorbed_foldl[OF absorbed_init[of "replicate 64 0" sha256_Transform sha256_Initialize], of ws]
  by (simp add: CSHA256_def CSHA256_Write_def)

lemma absorbed_CSHA256_1: "absorbed sha256_Transform sha256_Initialize m (CSHA256_Write CSHA256 m)"
  using absorbed_CSHA256[of "[m]"] by simp

lemma absorbed_CRIPEMD160: "absorbed rmd_Transform rmd_Initialize m (CRIPEMD160_Write CRIPEMD160 m)"
  using absorbed_Write[OF absorbed_init[of "replicate 64 0" rmd_Transform rmd_Initialize], of m]
  by (simp add: CRIPEMD160_def CRIPEMD160_Write_def)

lemma absorbed_Reset:
  assumes "absorbed sha256_Transform sha256_Initialize m h"
  shows "absorbed sha256_Transform sha256_Initialize d (CSHA256_Write (CSHA256_Reset h) d)"
proof -
  have "absorbed sha256_Transform sha256_Initialize [] (CSHA256_Reset h)"
    using assms by (simp add: absorbed_def CSHA256_Reset_def digest_blocks_short tail_bytes_def)
  from absorbed_Write[OF this, of d] show ?thesis by (simp add: CSHA256_Write_def)
qed

lemma SHA256_eq_ref: "SHA256 m = SHA256_ref m"
  unfolding SHA256_def by (rule CSHA256_Finalize_absorbed[OF absorbed_CSHA256_1])

lemma RIPEMD160_eq_ref: "RIPEMD160 m = RIPEMD160_ref m"
  unfolding RIPEMD160_def by (rule CRIPEMD160_Finalize_absorbed[OF absorbed_CRIPEMD160])

lemma CHash256_Finalize_absorbed:
  assumes "absorbed sha256_Transform sha256_Initialize m h"
  shows "CHash256_Finalize h = SHA256 (SHA256 m)"
  by (simp only: CHash256_Finalize_def Let_def CSHA256_Finalize_absorbed[OF assms]
      CSHA256_Finalize_absorbed[OF absorbed_Reset[OF assms]] SHA256_eq_ref)

lemma CHash160_Finalize_absorbed:
  assumes "absorbed sha256_Transform sha256_Initialize m h"
  shows "CHash160_Finalize h = RIPEMD160 (SHA256 m)"
  by (simp only: CHash160_Finalize_def Let_def CSHA256_Finalize_absorbed[OF assms] RIPEMD160_def SHA256_eq_ref)

lemma Hash_eq: "Hash m = SHA256 (SHA256 m)"
  unfolding Hash_def by (rule CHash256_Finalize_absorbed[OF absorbed_CSHA256_1])

lemma Hash160_eq: "Hash160 m = RIPEMD160 (SHA256 m)"
  unfolding Hash160_def by (rule CHash160_Finalize_absorbed[OF absorbed_CSHA256_1])

lemma Hash_2_eq: "Hash_2 a b = Hash (a @ b)"
  using CHash256_Finalize_absorbed[OF absorbed_CSHA256[of "[a, b]"]] by (simp add: Hash_2_def Hash_eq)

lemma CHashWriter_eq: "CHashWriter_GetHash ws = Hash (concat ws)"
  unfolding CHashWriter_GetHash_def Hash_eq by (rule CHash256_Finalize_absorbed[OF absorbed_CSHA256])

lemma length_SHA256 [simp]: "length (SHA256 m) = 32"
  by (simp add: SHA256_eq_ref SHA256_ref_def length_concat_words WriteBE32_def sha256.length_digest sha256.length_init)

lemma length_RIPEMD160 [simp]: "length (RIPEMD160 m) = 20"
  by (simp add: RIPEMD160_eq_ref RIPEMD160_ref_def length_concat_words rmd.length_digest rmd.length_init)

lemma length_SHA1 [simp]: "length (SHA1 m) = 20"
  using sha1.finalized_length[of _ "[m]"]
  by (simp add: SHA1_def CSHA1_Finalize_def CSHA1_Write_def CSHA1_def length_concat_words WriteBE32_def)

lemma length_Hash [simp]: "length (Hash m) = 32"
  by (simp add: Hash_eq)

lemma length_Hash160 [simp]: "length (Hash160 m) = 20"
  by (simp add: Hash160_eq)

lemma absorbed_CSHA1: "absorbed sha1_Transform sha1_Initialize (concat ws) (foldl CSHA1_Write CSHA1 ws)"
  using absorbed_foldl[OF absorbed_init[of "replicate 64 0" sha1_Transform sha1_Initialize], of ws]
  by (simp add: CSHA1_def CSHA1_Write_def)

lemma absorbed_CRIPEMD160_all: "absorbed rmd_Transform rmd_Initialize (concat ws) (foldl CRIPEMD160_Write CRIPEMD160 ws)"
  using absorbed_foldl[OF absorbed_init[of "replicate 64 0" rmd_Transform rmd_Initialize], of ws]
  by (simp add: CRIPEMD160_def CRIPEMD160_Write_def)

lemma CSHA1_Finalize_absorbed:
  assumes "absorbed sha1_Transform sha1_Initialize m h"
  shows "CSHA1_Finalize h = concat (map WriteBE32
     (digest_blocks sha1_Transform sha1_Initialize (m @ padding (length m) (WriteBE64 (8 * length m)))))"
  using absorbed_pad[OF assms, of "WriteBE64 (8 * length m)"] assms
  by (simp add: CSHA1_Finalize_def absorbed_def)

section \<open>Properties\<close>

text \<open>
  (C20) The buffered hashers compute the hash of the concatenation.  However the input is cut into \<open>Write\<close>
  calls, \<open>CSHA256\<close>, \<open>CSHA1\<close> and \<open>CRIPEMD160\<close> finalize to their compression function run over the 64-byte
  blocks of the message followed by its padding (a \<open>0x80\<close> byte, zeros, the bit length in eight bytes,
  big-endian for the first two and little-endian for the third), and the padded message is a whole number of blocks.
  \<open>CHash256\<close>, \<open>CHashWriter\<close> and the two-part \<open>Hash\<close> are the double SHA-256 of the concatenation of what was
  written, \<open>CHash160\<close> is the RIPEMD-160 of its SHA-256.
\<close>

theorem streaming_hash_is_one_shot:
  "CSHA256_Finalize (foldl CSHA256_Write CSHA256 ws) =
     concat (map WriteBE32 (digest_blocks sha256_Transform sha256_Initialize
       (concat ws @ padding (length (concat ws)) (WriteBE64 (8 * length (concat ws)))))) \<and>
   CSHA1_Finalize (foldl CSHA1_Write CSHA1 ws) =
     concat (map WriteBE32 (digest_blocks sha1_Transform sha1_Initialize
       (concat ws @ padding (length (concat ws)) (WriteBE64 (8 * length (concat ws)))))) \<and>
   CRIPEMD160_Finalize (foldl CRIPEMD160_Write CRIPEMD160 ws) =
     concat (map (\<lambda>x. WriteLE32 (unat x)) (digest_blocks rmd_Transform rmd_Initialize
       (concat ws @ padding (length (concat ws)) (WriteLE64 (8 * length (concat ws)))))) \<and>
   (length m + length (padding (length m) (WriteBE64 (8 * length m)))) mod 64 = 0 \<and>
   (length m + length (padding (length m) (WriteLE64 (8 * length m)))) mod 64 = 0 \<and>
   CHash256_Finalize (foldl CSHA256_Write CSHA256 ws) = SHA256 (SHA256 (concat ws)) \<and>
   CHash160_Finalize (foldl CSHA256_Write CSHA256 ws) = RIPEMD160 (SHA256 (concat ws)) \<and>
   CHashWriter_GetHash ws = SHA256 (SHA256 (concat ws)) \<and> Hash_2 a b = SHA256 (SHA256 (a @ b)) \<and>
   length (SHA1 m) = 20 \<and> length (Hash160 m) = 20 \<and> length (Hash m) = 32"
proof (intro conjI)
  show "(length m + length (padding (length m) (WriteBE64 (8 * length m)))) mod 64 = 0"
    "(length m + length (padding (length m) (WriteLE64 (8 * length m)))) mod 64 = 0"
    by (simp_all add: padding_aligned WriteBE64_def WriteLE64_def)
qed (simp_all only: CSHA256_Finalize_absorbed[OF absorbed_CSHA256] SHA256_ref_def CSHA1_Finalize_absorbed[OF absorbed_CSHA1]
    CRIPEMD160_Finalize_absorbed[OF absorbed_CRIPEMD160_all] RIPEMD160_ref_def CHash256_Finalize_absorbed[OF absorbed_CSHA256]
    CHash160_Finalize_absorbed[OF absorbed_CSHA256] CHashWriter_eq Hash_2_eq Hash_eq length_SHA1 length_Hash160 length_SHA256)

end
