(* ===== verification/Transaction.thy ===== *)
theory Transaction
  imports Script Hashes
begin

text \<open>
  Transactions: \<open>primitives/transaction.h\<close>, \<open>primitives/transaction.cpp\<close>,
  \<open>sapling/sapling_transaction.h\<close>, and \<open>CheckedAdd\<close> of \<open>amount.h\<close>.  A \<open>uint256\<close> is its 32 bytes in
  memory order, which is also the order it is serialized and compared in.  The memory-only members
  (\<open>COutPoint::isTransparent\<close>, \<open>CTxOut::nRounds\<close>, the cached hash) are not part of the records:
  the first two are constant and the third is \<open>GetHash\<close>.
\<close>

type_synonym uint256 = bytes
type_synonym CAmount = int

abbreviation (input) COIN :: int where "COIN \<equiv> 100000000"
abbreviation (input) CENT :: int where "CENT \<equiv> 1000000"

definition CheckedAdd :: "CAmount \<Rightarrow> CAmount \<Rightarrow> CAmount option" where
  "CheckedAdd a b =
     (if b > 0 \<and> a > INT64_MAX - b then None
      else if b < 0 \<and> a < INT64_MIN - b then None
      else Some (a + b))"

section \<open>Signed integers in streams\<close>

definition ser_int64 :: "int \<Rightarrow> bytes" where
  "ser_int64 x = ser_writedata64 (u_of_int 64 x)"

definition unser_int64 :: "int reader" where
  "unser_int64 s = bindE (ser_readdata64 s) (\<lambda>(n, s'). Inr (int_of_u 64 n, s'))"

definition ser_int16 :: "int \<Rightarrow> bytes" where
  "ser_int16 x = ser_writedata16 (u_of_int 16 x)"

definition unser_int16 :: "int reader" where
  "unser_int16 s = bindE (ser_readdata16 s) (\<lambda>(n, s'). Inr (int_of_u 16 n, s'))"

section \<open>Outpoints, inputs, outputs\<close>

abbreviation null_hash :: uint256 where "null_hash \<equiv> replicate 32 0"

definition uint256_IsNull :: "uint256 \<Rightarrow> bool" where
  "uint256_IsNull h \<longleftrightarrow> (\<forall>b \<in> set h. b = 0)"

record COutPoint =
  out_hash :: uint256
  out_n :: nat

definition COutPoint_SetNull :: COutPoint where
  "COutPoint_SetNull = \<lparr>out_hash = null_hash, out_n = 0xffffffff\<rparr>"

definition COutPoint_IsNull :: "COutPoint \<Rightarrow> bool" where
  "COutPoint_IsNull o1 \<longleftrightarrow> uint256_IsNull (out_hash o1) \<and> out_n o1 = 0xffffffff"

definition ser_COutPoint :: "COutPoint \<Rightarrow> bytes" where
  "ser_COutPoint o1 = out_hash o1 @ ser_writedata32 (out_n o1)"

definition unser_COutPoint :: "COutPoint reader" where
  "unser_COutPoint s =
     bindE (stream_read 32 s) (\<lambda>(h, s1).
     bindE (ser_readdata32 s1) (\<lambda>(n, s2). Inr (\<lparr>out_hash = h, out_n = n\<rparr>, s2)))"

record CTxIn =
  prevout :: COutPoint
  scriptSig :: bytes
  nSequence :: nat

abbreviation (input) SEQUENCE_FINAL :: nat where "SEQUENCE_FINAL \<equiv> 0xffffffff"

definition CTxIn_IsFinal :: "CTxIn \<Rightarrow> bool" where
  "CTxIn_IsFinal i \<longleftrightarrow> nSequence i = SEQUENCE_FINAL"

definition CTxIn_IsNull :: "CTxIn \<Rightarrow> bool" where
  "CTxIn_IsNull i \<longleftrightarrow> COutPoint_IsNull (prevout i) \<and> scriptSig i = [] \<and> CTxIn_IsFinal i"

definition CTxIn_IsZerocoinSpend :: "CTxIn \<Rightarrow> bool" where
  "CTxIn_IsZerocoinSpend i \<longleftrightarrow> uint256_IsNull (out_hash (prevout i)) \<and> IsZerocoinSpend (scriptSig i)"

definition CTxIn_IsZerocoinPublicSpend :: "CTxIn \<Rightarrow> bool" where
  "CTxIn_IsZerocoinPublicSpend i \<longleftrightarrow> IsZerocoinPublicSpend (scriptSig i)"

definition ser_CTxIn :: "CTxIn \<Rightarrow> bytes" where
  "ser_CTxIn i = ser_COutPoint (prevout i) @ Serialize_bytes (scriptSig i) @ ser_writedata32 (nSequence i)"

definition unser_CTxIn :: "CTxIn reader" where
  "unser_CTxIn s =
     bindE (unser_COutPoint s) (\<lambda>(p, s1).
     bindE (Unserialize_bytes s1) (\<lambda>(sc, s2).
     bindE (ser_readdata32 s2) (\<lambda>(q, s3).
       Inr (\<lparr>prevout = p, scriptSig = sc, nSequence = q\<rparr>, s3))))"

record CTxOut =
  nValue :: CAmount
  scriptPubKey :: bytes

definition CTxOut_SetNull :: CTxOut where
  "CTxOut_SetNull = \<lparr>nValue = -1, scriptPubKey = []\<rparr>"

definition CTxOut_IsNull :: "CTxOut \<Rightarrow> bool" where
  "CTxOut_IsNull t \<longleftrightarrow> nValue t = -1"

definition CTxOut_SetEmpty :: CTxOut where
  "CTxOut_SetEmpty = \<lparr>nValue = 0, scriptPubKey = []\<rparr>"

definition CTxOut_IsEmpty :: "CTxOut \<Rightarrow> bool" where
  "CTxOut_IsEmpty t \<longleftrightarrow> nValue t = 0 \<and> scriptPubKey t = []"

definition CTxOut_IsZerocoinMint :: "CTxOut \<Rightarrow> bool" where
  "CTxOut_IsZerocoinMint t \<longleftrightarrow> IsZerocoinMint (scriptPubKey t)"

definition ser_CTxOut :: "CTxOut \<Rightarrow> bytes" where
  "ser_CTxOut t = ser_int64 (nValue t) @ Serialize_bytes (scriptPubKey t)"

definition unser_CTxOut :: "CTxOut reader" where
  "unser_CTxOut s =
     bindE (unser_int64 s) (\<lambda>(v, s1).
     bindE (Unserialize_bytes s1) (\<lambda>(sc, s2). Inr (\<lparr>nValue = v, scriptPubKey = sc\<rparr>, s2)))"

definition CTxOut_GetHash :: "CTxOut \<Rightarrow> uint256" where
  "CTxOut_GetHash t = Hash (ser_CTxOut t)"

section \<open>Sapling data\<close>

record SpendDescription =
  sd_cv :: uint256
  sd_anchor :: uint256
  sd_nullifier :: uint256
  sd_rk :: uint256
  sd_zkproof :: bytes
  sd_spendAuthSig :: bytes

abbreviation (input) GROTH_PROOF_SIZE :: nat where "GROTH_PROOF_SIZE \<equiv> 192"

definition ser_SpendDescription :: "SpendDescription \<Rightarrow> bytes" where
  "ser_SpendDescription d =
     sd_cv d @ sd_anchor d @ sd_nullifier d @ sd_rk d @ sd_zkproof d @ sd_spendAuthSig d"

definition unser_SpendDescription :: "SpendDescription reader" where
  "unser_SpendDescription s =
     bindE (stream_read 32 s) (\<lambda>(cv, s).
     bindE (stream_read 32 s) (\<lambda>(an, s).
     bindE (stream_read 32 s) (\<lambda>(nf, s).
     bindE (stream_read 32 s) (\<lambda>(rk, s).
     bindE (stream_read GROTH_PROOF_SIZE s) (\<lambda>(zk, s).
     bindE (stream_read 64 s) (\<lambda>(sg, s).
       Inr (\<lparr>sd_cv = cv, sd_anchor = an, sd_nullifier = nf, sd_rk = rk, sd_zkproof = zk,
             sd_spendAuthSig = sg\<rparr>, s)))))))"

record OutputDescription =
  od_cv :: uint256
  od_cmu :: uint256
  od_ephemeralKey :: uint256
  od_encCiphertext :: bytes
  od_outCiphertext :: bytes
  od_zkproof :: bytes

definition ser_OutputDescription :: "OutputDescription \<Rightarrow> bytes" where
  "ser_OutputDescription d =
     od_cv d @ od_cmu d @ od_ephemeralKey d @ od_encCiphertext d @ od_outCiphertext d @ od_zkproof d"

definition unser_OutputDescription :: "OutputDescription reader" where
  "unser_OutputDescription s =
     bindE (stream_read 32 s) (\<lambda>(cv, s).
     bindE (stream_read 32 s) (\<lambda>(cm, s).
     bindE (stream_read 32 s) (\<lambda>(ek, s).
     bindE (stream_read 580 s) (\<lambda>(en, s).
     bindE (stream_read 80 s) (\<lambda>(ou, s).
     bindE (stream_read GROTH_PROOF_SIZE s) (\<lambda>(zk, s).
       Inr (\<lparr>od_cv = cv, od_cmu = cm, od_ephemeralKey = ek, od_encCiphertext = en,
             od_outCiphertext = ou, od_zkproof = zk\<rparr>, s)))))))"

record SaplingTxData =
  valueBalance :: CAmount
  vShieldedSpend :: "SpendDescription list"
  vShieldedOutput :: "OutputDescription list"
  bindingSig :: bytes

definition SaplingTxData_default :: SaplingTxData where
  "SaplingTxData_default =
     \<lparr>valueBalance = 0, vShieldedSpend = [], vShieldedOutput = [], bindingSig = replicate 64 0\<rparr>"

definition hasBindingSig :: "SaplingTxData \<Rightarrow> bool" where
  "hasBindingSig d \<longleftrightarrow> (\<exists>c \<in> set (bindingSig d). c \<noteq> 0)"

definition ser_SaplingTxData :: "SaplingTxData \<Rightarrow> bytes" where
  "ser_SaplingTxData d =
     ser_int64 (valueBalance d) @ VectorSer ser_SpendDescription (vShieldedSpend d) @
     VectorSer ser_OutputDescription (vShieldedOutput d) @ bindingSig d"

definition unser_SaplingTxData :: "SaplingTxData reader" where
  "unser_SaplingTxData s =
     bindE (unser_int64 s) (\<lambda>(vb, s).
     bindE (VectorUnser unser_SpendDescription s) (\<lambda>(sp, s).
     bindE (VectorUnser unser_OutputDescription s) (\<lambda>(ou, s).
     bindE (stream_read 64 s) (\<lambda>(bs, s).
       Inr (\<lparr>valueBalance = vb, vShieldedSpend = sp, vShieldedOutput = ou, bindingSig = bs\<rparr>, s)))))"

section \<open>Transactions\<close>

abbreviation (input) TxVersion_LEGACY :: int where "TxVersion_LEGACY \<equiv> 1"
abbreviation (input) TxVersion_SAPLING :: int where "TxVersion_SAPLING \<equiv> 3"
abbreviation (input) TxVersion_TOOHIGH :: int where "TxVersion_TOOHIGH \<equiv> 4"
abbreviation (input) TxType_NORMAL :: int where "TxType_NORMAL \<equiv> 0"
abbreviation (input) TxType_PROREG :: int where "TxType_PROREG \<equiv> 1"
abbreviation (input) TxType_LLMQCOMM :: int where "TxType_LLMQCOMM \<equiv> 5"

record CTransaction =
  vin :: "CTxIn list"
  vout :: "CTxOut list"
  nVersion :: int
  nType :: int
  nLockTime :: nat
  sapData :: "SaplingTxData option"
  extraPayload :: "bytes option"

definition CMutableTransaction :: CTransaction where
  "CMutableTransaction =
     \<lparr>vin = [], vout = [], nVersion = TxVersion_LEGACY, nType = TxType_NORMAL, nLockTime = 0,
      sapData = Some SaplingTxData_default, extraPayload = None\<rparr>"

definition isSaplingVersion :: "CTransaction \<Rightarrow> bool" where
  "isSaplingVersion tx \<longleftrightarrow> nVersion tx \<ge> TxVersion_SAPLING"

definition IsNormalType :: "CTransaction \<Rightarrow> bool" where
  "IsNormalType tx \<longleftrightarrow> nType tx = TxType_NORMAL"

definition SerializeTransaction :: "CTransaction \<Rightarrow> bytes" where
  "SerializeTransaction tx =
     ser_int16 (nVersion tx) @ ser_int16 (nType tx) @ VectorSer ser_CTxIn (vin tx) @
     VectorSer ser_CTxOut (vout tx) @ ser_writedata32 (nLockTime tx) @
     (if isSaplingVersion tx then
        OptionalSer ser_SaplingTxData (sapData tx) @
        (if \<not> IsNormalType tx then OptionalSer Serialize_bytes (extraPayload tx) else [])
      else [])"

definition UnserializeTransaction :: "CTransaction reader" where
  "UnserializeTransaction s =
     bindE (unser_int16 s) (\<lambda>(ver, s).
     bindE (unser_int16 s) (\<lambda>(ty, s).
     bindE (VectorUnser unser_CTxIn s) (\<lambda>(ins, s).
     bindE (VectorUnser unser_CTxOut s) (\<lambda>(outs, s).
     bindE (ser_readdata32 s) (\<lambda>(lock, s).
       let tx = CMutableTransaction\<lparr>nVersion := ver, nType := ty, vin := ins, vout := outs, nLockTime := lock\<rparr>
       in if isSaplingVersion tx then
            bindE (OptionalUnser unser_SaplingTxData s) (\<lambda>(sap, s).
              if \<not> IsNormalType tx then
                bindE (OptionalUnser Unserialize_bytes s) (\<lambda>(pay, s).
                  Inr (tx\<lparr>sapData := sap, extraPayload := pay\<rparr>, s))
              else Inr (tx\<lparr>sapData := sap\<rparr>, s))
          else Inr (tx, s))))))"

definition GetHash :: "CTransaction \<Rightarrow> uint256" where
  "GetHash tx = Hash (SerializeTransaction tx)"

definition GetTotalSize :: "CTransaction \<Rightarrow> nat" where
  "GetTotalSize tx = length (SerializeTransaction tx)"

definition hasSaplingData :: "CTransaction \<Rightarrow> bool" where
  "hasSaplingData tx \<longleftrightarrow>
     (case sapData tx of
        None \<Rightarrow> False
      | Some d \<Rightarrow> vShieldedOutput d \<noteq> [] \<or> vShieldedSpend d \<noteq> [] \<or> valueBalance d \<noteq> 0 \<or> hasBindingSig d)"

definition IsShieldedTx :: "CTransaction \<Rightarrow> bool" where
  "IsShieldedTx tx \<longleftrightarrow> isSaplingVersion tx \<and> hasSaplingData tx"

definition hasExtraPayload :: "CTransaction \<Rightarrow> bool" where
  "hasExtraPayload tx \<longleftrightarrow> (case extraPayload tx of None \<Rightarrow> False | Some p \<Rightarrow> p \<noteq> [])"

definition IsSpecialTx :: "CTransaction \<Rightarrow> bool" where
  "IsSpecialTx tx \<longleftrightarrow> isSaplingVersion tx \<and> nType tx \<noteq> TxType_NORMAL \<and> hasExtraPayload tx"

definition IsProRegTx :: "CTransaction \<Rightarrow> bool" where
  "IsProRegTx tx \<longleftrightarrow> IsSpecialTx tx \<and> nType tx = TxType_PROREG"

definition IsQuorumCommitmentTx :: "CTransaction \<Rightarrow> bool" where
  "IsQuorumCommitmentTx tx \<longleftrightarrow> IsSpecialTx tx \<and> nType tx = TxType_LLMQCOMM"

datatype SigVersion = SIGVERSION_BASE | SIGVERSION_SAPLING

definition GetRequiredSigVersion :: "CTransaction \<Rightarrow> SigVersion" where
  "GetRequiredSigVersion tx = (if isSaplingVersion tx then SIGVERSION_SAPLING else SIGVERSION_BASE)"

definition CTransaction_IsNull :: "CTransaction \<Rightarrow> bool" where
  "CTransaction_IsNull tx \<longleftrightarrow> vin tx = [] \<and> vout tx = []"

definition HasZerocoinSpendInputs :: "CTransaction \<Rightarrow> bool" where
  "HasZerocoinSpendInputs tx \<longleftrightarrow>
     (\<exists>i \<in> set (vin tx). CTxIn_IsZerocoinSpend i \<or> CTxIn_IsZerocoinPublicSpend i)"

definition HasZerocoinMintOutputs :: "CTransaction \<Rightarrow> bool" where
  "HasZerocoinMintOutputs tx \<longleftrightarrow> (\<exists>t \<in> set (vout tx). CTxOut_IsZerocoinMint t)"

definition ContainsZerocoins :: "CTransaction \<Rightarrow> bool" where
  "ContainsZerocoins tx \<longleftrightarrow> HasZerocoinSpendInputs tx \<or> HasZerocoinMintOutputs tx"

definition IsCoinBase :: "CTransaction \<Rightarrow> bool" where
  "IsCoinBase tx \<longleftrightarrow>
     length (vin tx) = 1 \<and> COutPoint_IsNull (prevout (vin tx ! 0)) \<and> \<not> IsZerocoinSpend (scriptSig (vin tx ! 0))"

definition IsCoinStake :: "CTransaction \<Rightarrow> bool" where
  "IsCoinStake tx \<longleftrightarrow>
     (if vin tx = [] then False
      else let fAllowNull = CTxIn_IsZerocoinSpend (vin tx ! 0)
           in if COutPoint_IsNull (prevout (vin tx ! 0)) \<and> \<not> fAllowNull then False
              else length (vout tx) \<ge> 2 \<and> CTxOut_IsEmpty (vout tx ! 0))"

definition HasP2CSOutputs :: "CTransaction \<Rightarrow> bool" where
  "HasP2CSOutputs tx \<longleftrightarrow> (\<exists>t \<in> set (vout tx). IsPayToColdStaking (scriptPubKey t))"

definition HasExchangeAddr :: "CTransaction \<Rightarrow> bool" where
  "HasExchangeAddr tx \<longleftrightarrow> (\<exists>t \<in> set (vout tx). IsPayToExchangeAddress (scriptPubKey t))"

text \<open>The value sums; the additions wrap at 64 bits, the throws are \<open>Inl\<close>.\<close>

datatype value_error = ValueNegative | ValueWraps | InvalidTxVersion

fun GetValueOut_loop :: "CAmount \<Rightarrow> CTxOut list \<Rightarrow> value_error + CAmount" where
  "GetValueOut_loop nValueOut [] = Inr nValueOut"
| "GetValueOut_loop nValueOut (out # outs) =
     (if nValue out < 0 then Inl ValueNegative
      else if wrap64 (nValueOut + nValue out) < nValueOut then Inl ValueWraps
      else GetValueOut_loop (wrap64 (nValueOut + nValue out)) outs)"

definition GetValueOut :: "CTransaction \<Rightarrow> value_error + CAmount" where
  "GetValueOut tx =
     bindE (GetValueOut_loop 0 (vout tx)) (\<lambda>nValueOut.
       if hasSaplingData tx \<and> valueBalance (the (sapData tx)) < 0 then
         (if \<not> isSaplingVersion tx then Inl InvalidTxVersion
          else Inr (wrap64 (nValueOut + - valueBalance (the (sapData tx)))))
       else Inr nValueOut)"

definition GetShieldedValueIn :: "CTransaction \<Rightarrow> value_error + CAmount" where
  "GetShieldedValueIn tx =
     (if hasSaplingData tx \<and> valueBalance (the (sapData tx)) > 0 then
        (if \<not> isSaplingVersion tx then Inl InvalidTxVersion else Inr (valueBalance (the (sapData tx))))
      else Inr 0)"

section \<open>Well-formed values\<close>

text \<open>The values the C++ types can hold and the wire format can carry.\<close>

definition ok_COutPoint :: "COutPoint \<Rightarrow> bool" where
  "ok_COutPoint o1 \<longleftrightarrow> length (out_hash o1) = 32 \<and> out_n o1 < 2 ^ 32"

definition ok_CTxIn :: "CTxIn \<Rightarrow> bool" where
  "ok_CTxIn i \<longleftrightarrow> ok_COutPoint (prevout i) \<and> length (scriptSig i) \<le> MAX_SIZE \<and> nSequence i < 2 ^ 32"

definition ok_CTxOut :: "CTxOut \<Rightarrow> bool" where
  "ok_CTxOut t \<longleftrightarrow> in_i64 (nValue t) \<and> length (scriptPubKey t) \<le> MAX_SIZE"

definition ok_SpendDescription :: "SpendDescription \<Rightarrow> bool" where
  "ok_SpendDescription d \<longleftrightarrow>
     length (sd_cv d) = 32 \<and> length (sd_anchor d) = 32 \<and> length (sd_nullifier d) = 32 \<and>
     length (sd_rk d) = 32 \<and> length (sd_zkproof d) = GROTH_PROOF_SIZE \<and> length (sd_spendAuthSig d) = 64"

definition ok_OutputDescription :: "OutputDescription \<Rightarrow> bool" where
  "ok_OutputDescription d \<longleftrightarrow>
     length (od_cv d) = 32 \<and> length (od_cmu d) = 32 \<and> length (od_ephemeralKey d) = 32 \<and>
     length (od_encCiphertext d) = 580 \<and> length (od_outCiphertext d) = 80 \<and>
     length (od_zkproof d) = GROTH_PROOF_SIZE"

abbreviation ok_vec :: "('a \<Rightarrow> bool) \<Rightarrow> 'a list \<Rightarrow> bool" where
  "ok_vec ok xs \<equiv> list_all ok xs \<and> length xs \<le> MAX_SIZE"

definition ok_SaplingTxData :: "SaplingTxData \<Rightarrow> bool" where
  "ok_SaplingTxData d \<longleftrightarrow>
     in_i64 (valueBalance d) \<and> ok_vec ok_SpendDescription (vShieldedSpend d) \<and>
     ok_vec ok_OutputDescription (vShieldedOutput d) \<and> length (bindingSig d) = 64"

text \<open>A transaction whose optional parts are those its version and type announce.\<close>

definition ok_CTransaction :: "CTransaction \<Rightarrow> bool" where
  "ok_CTransaction tx \<longleftrightarrow>
     - (2 ^ 15) \<le> nVersion tx \<and> nVersion tx < 2 ^ 15 \<and> - (2 ^ 15) \<le> nType tx \<and> nType tx < 2 ^ 15 \<and>
     ok_vec ok_CTxIn (vin tx) \<and> ok_vec ok_CTxOut (vout tx) \<and> nLockTime tx < 2 ^ 32 \<and>
     (if isSaplingVersion tx
      then pred_option ok_SaplingTxData (sapData tx) \<and>
           (if IsNormalType tx then extraPayload tx = None
            else pred_option (\<lambda>p. length p \<le> MAX_SIZE) (extraPayload tx))
      else sapData tx = Some SaplingTxData_default \<and> extraPayload tx = None)"

section \<open>Wire formats\<close>

lemma in_i64_alt: "in_i64 x \<longleftrightarrow> - (2 ^ (64 - 1)) \<le> x \<and> x < 2 ^ (64 - 1)"
  by (auto simp: in_i64_def)

interpretation i64: canonical_codec ser_int64 unser_int64 in_i64
proof
  fix x rest assume "in_i64 x"
  then show "unser_int64 (ser_int64 x @ rest) = Inr (x, rest)"
    using le64.unser_ser[of "u_of_int 64 x" rest] u_of_int_less[of 64 x]
    by (simp add: ser_int64_def unser_int64_def int_of_u_of_int in_i64_alt)
next
  fix s x rest assume "unser_int64 s = Inr (x, rest)"
  then show "s = ser_int64 x @ rest \<and> in_i64 x"
    using int_of_u_range[of 64]
    by (auto simp: unser_int64_def ser_int64_def bindE_eq_Inr_iff u_of_int_of_u in_i64_alt dest!: le64.ser_unser)
qed

interpretation le16: canonical_codec ser_writedata16 ser_readdata16 "\<lambda>n. n < 2 ^ 16"
  by unfold_locales
     (auto simp: ser_writedata_defs ser_readdata_defs ser_readdata_le_bytes ser_readdata_eq_Inr
       simp del: le_bytes.simps)

interpretation i16: canonical_codec ser_int16 unser_int16 "\<lambda>x. - (2 ^ 15) \<le> x \<and> x < 2 ^ 15"
proof
  fix x rest assume x: "- (2 ^ 15) \<le> x \<and> x < (2 ^ 15 :: int)"
  then have "int_of_u 16 (u_of_int 16 x) = x" by (intro int_of_u_of_int) auto
  then show "unser_int16 (ser_int16 x @ rest) = Inr (x, rest)"
    using le16.unser_ser[of "u_of_int 16 x" rest] u_of_int_less[of 16 x]
    by (simp add: ser_int16_def unser_int16_def)
next
  fix s x rest assume "unser_int16 s = Inr (x, rest)"
  then show "s = ser_int16 x @ rest \<and> - (2 ^ 15) \<le> x \<and> x < 2 ^ 15"
    using int_of_u_range[of 16]
    by (auto simp: unser_int16_def ser_int16_def bindE_eq_Inr_iff u_of_int_of_u dest!: le16.ser_unser)
qed

interpretation outpoint: canonical_codec ser_COutPoint unser_COutPoint ok_COutPoint
  by unfold_locales
     (auto simp: ser_COutPoint_def unser_COutPoint_def ok_COutPoint_def bindE_eq_Inr_iff le32.unser_ser
       stream_read_eq_Inr dest!: le32.ser_unser)

interpretation txin: canonical_codec ser_CTxIn unser_CTxIn ok_CTxIn
  by unfold_locales
     (auto simp: ser_CTxIn_def unser_CTxIn_def ok_CTxIn_def bindE_eq_Inr_iff outpoint.unser_ser
       bytevec.unser_ser le32.unser_ser dest!: outpoint.ser_unser bytevec.ser_unser le32.ser_unser)

interpretation txout: canonical_codec ser_CTxOut unser_CTxOut ok_CTxOut
  by unfold_locales
     (auto simp: ser_CTxOut_def unser_CTxOut_def ok_CTxOut_def bindE_eq_Inr_iff i64.unser_ser
       bytevec.unser_ser dest!: i64.ser_unser bytevec.ser_unser)

interpretation spend: canonical_codec ser_SpendDescription unser_SpendDescription ok_SpendDescription
  by unfold_locales
     (auto simp: ser_SpendDescription_def unser_SpendDescription_def ok_SpendDescription_def
       bindE_eq_Inr_iff stream_read_eq_Inr)

interpretation outdesc: canonical_codec ser_OutputDescription unser_OutputDescription ok_OutputDescription
  by unfold_locales
     (auto simp: ser_OutputDescription_def unser_OutputDescription_def ok_OutputDescription_def
       bindE_eq_Inr_iff stream_read_eq_Inr)

interpretation vins: canonical_codec "VectorSer ser_CTxIn" "VectorUnser unser_CTxIn" "ok_vec ok_CTxIn"
  by (rule txin.canonical_codec_vector)

interpretation vouts: canonical_codec "VectorSer ser_CTxOut" "VectorUnser unser_CTxOut" "ok_vec ok_CTxOut"
  by (rule txout.canonical_codec_vector)

interpretation spends: canonical_codec "VectorSer ser_SpendDescription" "VectorUnser unser_SpendDescription"
  "ok_vec ok_SpendDescription"
  by (rule spend.canonical_codec_vector)

interpretation outputs: canonical_codec "VectorSer ser_OutputDescription" "VectorUnser unser_OutputDescription"
  "ok_vec ok_OutputDescription"
  by (rule outdesc.canonical_codec_vector)

interpretation sapling: canonical_codec ser_SaplingTxData unser_SaplingTxData ok_SaplingTxData
  by unfold_locales
     (auto simp: ser_SaplingTxData_def unser_SaplingTxData_def ok_SaplingTxData_def bindE_eq_Inr_iff
       i64.unser_ser spends.unser_ser outputs.unser_ser stream_read_eq_Inr
       dest!: i64.ser_unser spends.ser_unser outputs.ser_unser)

interpretation opt_sapling: codec "OptionalSer ser_SaplingTxData" "OptionalUnser unser_SaplingTxData"
  "pred_option ok_SaplingTxData"
  by (rule sapling.codec_optional)

interpretation opt_payload: codec "OptionalSer Serialize_bytes" "OptionalUnser Unserialize_bytes"
  "pred_option (\<lambda>p. length p \<le> MAX_SIZE)"
  by (rule bytevec.codec_optional)

lemma record_CTransaction_cong:
  "(tx :: CTransaction) = \<lparr>vin = vin tx, vout = vout tx, nVersion = nVersion tx, nType = nType tx,
     nLockTime = nLockTime tx, sapData = sapData tx, extraPayload = extraPayload tx\<rparr>"
  by simp

lemma IsFlags [simp]:
  "isSaplingVersion (tx\<lparr>vin := a\<rparr>) = isSaplingVersion tx" "isSaplingVersion (tx\<lparr>vout := b\<rparr>) = isSaplingVersion tx"
  "isSaplingVersion (tx\<lparr>nVersion := v\<rparr>) = (3 \<le> v)"
  by (simp_all add: isSaplingVersion_def)

interpretation txcodec: codec SerializeTransaction UnserializeTransaction ok_CTransaction
proof
  fix tx :: CTransaction and rest :: bytes
  assume "ok_CTransaction tx"
  then show "UnserializeTransaction (SerializeTransaction tx @ rest) = Inr (tx, rest)"
    by (cases tx)
       (auto simp: SerializeTransaction_def UnserializeTransaction_def ok_CTransaction_def Let_def
        i16.unser_ser vins.unser_ser vouts.unser_ser le32.unser_ser opt_sapling.unser_ser
        opt_payload.unser_ser isSaplingVersion_def IsNormalType_def CMutableTransaction_def)
qed

text \<open>Before Sapling there is one encoding of a transaction.\<close>

lemma legacy_canonical:
  assumes "UnserializeTransaction s = Inr (tx, rest)" and "\<not> isSaplingVersion tx"
  shows "s = SerializeTransaction tx @ rest \<and> ok_CTransaction tx"
  using assms
  by (auto simp: UnserializeTransaction_def bindE_eq_Inr_iff Let_def isSaplingVersion_def
      SerializeTransaction_def ok_CTransaction_def CMutableTransaction_def split: if_splits
      dest!: i16.ser_unser vins.ser_unser vouts.ser_unser le32.ser_unser)

section \<open>Sums of amounts\<close>

lemma GetValueOut_loop_exact:
  assumes "\<forall>t \<in> set outs. in_i64 (nValue t)" and "0 \<le> a" and "in_i64 a"
  shows "GetValueOut_loop a outs = Inr v \<longleftrightarrow>
     (\<forall>t \<in> set outs. 0 \<le> nValue t) \<and> v = a + sum_list (map nValue outs) \<and> in_i64 v"
  using assms
proof (induction outs arbitrary: a)
  case Nil
  then show ?case by auto
next
  case (Cons t outs)
  have nonneg: "0 \<le> sum_list (map nValue outs)" if "\<forall>t \<in> set outs. 0 \<le> nValue t"
    using that by (intro sum_list_nonneg) auto
  show ?case
  proof (cases "nValue t < 0")
    case False
    show ?thesis
    proof (cases "in_i64 (a + nValue t)")
      case True
      then show ?thesis using Cons False by (simp add: wrap64_id add.assoc)
    next
      case over: False
      then have "wrap64 (a + nValue t) < a"
        using Cons.prems False by (subst wrap64_above) (auto simp: in_i64_def)
      then show ?thesis using False over nonneg Cons.prems by (auto simp: in_i64_def)
    qed
  qed auto
qed

lemma CheckedAdd_exact: "in_i64 a \<Longrightarrow> in_i64 b \<Longrightarrow> CheckedAdd a b = (if in_i64 (a + b) then Some (a + b) else None)"
  by (auto simp: CheckedAdd_def in_i64_def)

section \<open>Properties\<close>

text \<open>
  (C10) Transactions survive the wire.  Parsing the serialization of a well-formed transaction, followed
  by anything, gives the transaction back and stops exactly behind it; two well-formed transactions
  with the same serialization are equal, so different transactions can only share a transaction id
  through a SHA-256 collision; and a byte string that parses as a pre-Sapling transaction is the one
  serialization of that transaction.
\<close>

theorem transaction_roundtrip:
  assumes "ok_CTransaction tx"
  shows "UnserializeTransaction (SerializeTransaction tx @ rest) = Inr (tx, rest) \<and>
    (\<forall>tx'. ok_CTransaction tx' \<and> SerializeTransaction tx' = SerializeTransaction tx \<longrightarrow> tx' = tx) \<and>
    (\<forall>s rest'. \<not> isSaplingVersion tx \<and> UnserializeTransaction s = Inr (tx, rest') \<longrightarrow>
       s = SerializeTransaction tx @ rest')"
  using txcodec.unser_ser[OF assms] txcodec.ser_inj[OF _ assms] legacy_canonical by blast

theorem transaction_roundtrip_witness:
  "\<exists>tx. ok_CTransaction tx \<and> vin tx \<noteq> [] \<and> vout tx \<noteq> [] \<and>
     UnserializeTransaction (SerializeTransaction tx @ [0x2a]) = Inr (tx, [0x2a])"
proof -
  let ?tx = "CMutableTransaction\<lparr>nVersion := 3,
    vin := [\<lparr>prevout = COutPoint_SetNull, scriptSig = [0x51], nSequence = SEQUENCE_FINAL\<rparr>],
    vout := [\<lparr>nValue = 5000, scriptPubKey = [0x6a]\<rparr>]\<rparr>"
  have ok: "ok_CTransaction ?tx"
    by (simp add: ok_CTransaction_def CMutableTransaction_def ok_CTxIn_def ok_COutPoint_def ok_CTxOut_def
        COutPoint_SetNull_def isSaplingVersion_def IsNormalType_def ok_SaplingTxData_def
        SaplingTxData_default_def in_i64_def)
  show ?thesis using transaction_roundtrip[OF ok, of "[0x2a]"] ok
    by (intro exI[of _ ?tx]) simp
qed

text \<open>
  (C31) When \<open>GetValueOut\<close> throws and what it returns.  For outputs whose amounts are \<open>int64_t\<close> values it returns
  exactly if no amount is negative, the mathematical sum of the outputs fits an \<open>int64_t\<close>, and a negative Sapling
  balance occurs only in a Sapling version; it then returns the sum of the outputs, plus the amount that a negative
  Sapling balance takes.  That last addition has no check: its result is the wrapped sum.
\<close>

theorem GetValueOut_exact:
  assumes "\<forall>t \<in> set (vout tx). in_i64 (nValue t)"
  shows "GetValueOut tx = Inr v \<longleftrightarrow>
    (\<forall>t \<in> set (vout tx). 0 \<le> nValue t) \<and> sum_list (map nValue (vout tx)) \<le> INT64_MAX \<and>
    (if hasSaplingData tx \<and> valueBalance (the (sapData tx)) < 0
     then isSaplingVersion tx \<and> v = wrap64 (sum_list (map nValue (vout tx)) - valueBalance (the (sapData tx)))
     else v = sum_list (map nValue (vout tx)))"
proof -
  let ?S = "sum_list (map nValue (vout tx))"
  have "0 \<le> ?S" if "\<forall>t \<in> set (vout tx). 0 \<le> nValue t"
    using that by (intro sum_list_nonneg) auto
  then have "GetValueOut_loop 0 (vout tx) = Inr w \<longleftrightarrow> (\<forall>t \<in> set (vout tx). 0 \<le> nValue t) \<and> w = ?S \<and> ?S \<le> INT64_MAX" for w
    using GetValueOut_loop_exact[OF assms, of 0 w] by (auto simp: in_i64_def)
  then show ?thesis by (auto simp: GetValueOut_def bindE_eq_Inr_iff)
qed

theorem GetValueOut_exact_witness:
  "GetValueOut (CMutableTransaction\<lparr>vout := [\<lparr>nValue = 5, scriptPubKey = []\<rparr>, \<lparr>nValue = 7, scriptPubKey = []\<rparr>]\<rparr>)
     = Inr 12 \<and>
   (\<forall>v. GetValueOut (CMutableTransaction\<lparr>vout := replicate 2 \<lparr>nValue = 7000000000000000000, scriptPubKey = []\<rparr>\<rparr>)
     \<noteq> Inr v) \<and>
   GetValueOut (CMutableTransaction\<lparr>vout := [\<lparr>nValue = 5, scriptPubKey = []\<rparr>], nVersion := 3,
     sapData := Some (SaplingTxData_default\<lparr>valueBalance := -7\<rparr>)\<rparr>) = Inr 12"
proof -
  have d: "\<not> hasSaplingData (CMutableTransaction\<lparr>vout := outs\<rparr>)" for outs
    by (simp add: hasSaplingData_def CMutableTransaction_def SaplingTxData_default_def hasBindingSig_def)
  let ?tx = "CMutableTransaction\<lparr>vout := [\<lparr>nValue = 5, scriptPubKey = []\<rparr>], nVersion := 3,
     sapData := Some (SaplingTxData_default\<lparr>valueBalance := -7\<rparr>)\<rparr>"
  have h: "hasSaplingData ?tx" "isSaplingVersion ?tx" by (simp_all add: hasSaplingData_def isSaplingVersion_def)
  have "GetValueOut ?tx = Inr 12" using GetValueOut_exact[of ?tx 12] h by (simp add: in_i64_def)
  then show ?thesis
    using GetValueOut_exact[of "CMutableTransaction\<lparr>vout := [\<lparr>nValue = 5, scriptPubKey = []\<rparr>, \<lparr>nValue = 7, scriptPubKey = []\<rparr>]\<rparr>" 12]
      GetValueOut_exact[of "CMutableTransaction\<lparr>vout := replicate 2 \<lparr>nValue = 7000000000000000000, scriptPubKey = []\<rparr>\<rparr>"] d
    by (auto simp: in_i64_def numeral_2_eq_2)
qed

end
