(* ===== verification/Interpreter.thy ===== *)
theory Interpreter
  imports Transaction "HOL-Library.Sublist"
begin

text \<open>
  The script interpreter: \<open>script/interpreter.cpp\<close> up to and including \<open>EvalScript\<close>, and
  \<open>script/script_error.h\<close>.  The main and the alternative stack are lists with their top first, so
  \<open>stacktop(-i)\<close> is element \<open>i - 1\<close>; \<open>vfExec\<close> too.  A \<open>return set_error(serror, e)\<close> is \<open>Inl e\<close>, an
  exception caught by \<open>EvalScript\<close> is \<open>Inl SCRIPT_ERR_UNKNOWN_ERROR\<close>.  \<open>BaseSignatureChecker\<close> is a
  record of its virtual functions: \<open>CheckSig\<close> is \<open>None\<close> where it throws.  \<open>CheckLowS\<close> is the static
  function of \<open>CPubKey\<close> that calls the elliptic curve library.
\<close>

datatype ScriptError =
  SCRIPT_ERR_OK
| SCRIPT_ERR_UNKNOWN_ERROR
| SCRIPT_ERR_EVAL_FALSE
| SCRIPT_ERR_OP_RETURN
| SCRIPT_ERR_SCRIPT_SIZE
| SCRIPT_ERR_PUSH_SIZE
| SCRIPT_ERR_OP_COUNT
| SCRIPT_ERR_STACK_SIZE
| SCRIPT_ERR_SIG_COUNT
| SCRIPT_ERR_PUBKEY_COUNT
| SCRIPT_ERR_VERIFY
| SCRIPT_ERR_EQUALVERIFY
| SCRIPT_ERR_EXCHANGEADDRVERIFY
| SCRIPT_ERR_CHECKCOLDSTAKEVERIFY
| SCRIPT_ERR_CHECKMULTISIGVERIFY
| SCRIPT_ERR_CHECKSIGVERIFY
| SCRIPT_ERR_NUMEQUALVERIFY
| SCRIPT_ERR_BAD_OPCODE
| SCRIPT_ERR_DISABLED_OPCODE
| SCRIPT_ERR_INVALID_STACK_OPERATION
| SCRIPT_ERR_INVALID_ALTSTACK_OPERATION
| SCRIPT_ERR_UNBALANCED_CONDITIONAL
| SCRIPT_ERR_NEGATIVE_LOCKTIME
| SCRIPT_ERR_UNSATISFIED_LOCKTIME
| SCRIPT_ERR_SIG_HASHTYPE
| SCRIPT_ERR_SIG_DER
| SCRIPT_ERR_MINIMALDATA
| SCRIPT_ERR_SIG_PUSHONLY
| SCRIPT_ERR_SIG_HIGH_S
| SCRIPT_ERR_SIG_NULLDUMMY
| SCRIPT_ERR_PUBKEYTYPE
| SCRIPT_ERR_CLEANSTACK
| SCRIPT_ERR_DISCOURAGE_UPGRADABLE_NOPS

section \<open>Flags\<close>

abbreviation (input) SIGHASH_ALL :: nat where "SIGHASH_ALL \<equiv> 1"
abbreviation (input) SIGHASH_NONE :: nat where "SIGHASH_NONE \<equiv> 2"
abbreviation (input) SIGHASH_SINGLE :: nat where "SIGHASH_SINGLE \<equiv> 3"
abbreviation (input) SIGHASH_ANYONECANPAY :: nat where "SIGHASH_ANYONECANPAY \<equiv> 0x80"

abbreviation (input) SCRIPT_VERIFY_P2SH :: nat where "SCRIPT_VERIFY_P2SH \<equiv> 0"
abbreviation (input) SCRIPT_VERIFY_STRICTENC :: nat where "SCRIPT_VERIFY_STRICTENC \<equiv> 1"
abbreviation (input) SCRIPT_VERIFY_DERSIG :: nat where "SCRIPT_VERIFY_DERSIG \<equiv> 2"
abbreviation (input) SCRIPT_VERIFY_LOW_S :: nat where "SCRIPT_VERIFY_LOW_S \<equiv> 3"
abbreviation (input) SCRIPT_VERIFY_NULLDUMMY :: nat where "SCRIPT_VERIFY_NULLDUMMY \<equiv> 4"
abbreviation (input) SCRIPT_VERIFY_SIGPUSHONLY :: nat where "SCRIPT_VERIFY_SIGPUSHONLY \<equiv> 5"
abbreviation (input) SCRIPT_VERIFY_MINIMALDATA :: nat where "SCRIPT_VERIFY_MINIMALDATA \<equiv> 6"
abbreviation (input) SCRIPT_VERIFY_DISCOURAGE_UPGRADABLE_NOPS :: nat where
  "SCRIPT_VERIFY_DISCOURAGE_UPGRADABLE_NOPS \<equiv> 7"
abbreviation (input) SCRIPT_VERIFY_CLEANSTACK :: nat where "SCRIPT_VERIFY_CLEANSTACK \<equiv> 8"
abbreviation (input) SCRIPT_VERIFY_CHECKLOCKTIMEVERIFY :: nat where
  "SCRIPT_VERIFY_CHECKLOCKTIMEVERIFY \<equiv> 9"
abbreviation (input) SCRIPT_VERIFY_EXCHANGEADDR :: nat where "SCRIPT_VERIFY_EXCHANGEADDR \<equiv> 10"

text \<open>A flag is named by its bit; \<open>flag\<close> is the test \<open>flags & (1U << k)\<close>.\<close>

definition flag :: "nat \<Rightarrow> nat \<Rightarrow> bool" where
  "flag flags k \<longleftrightarrow> flags AND push_bit k 1 \<noteq> 0"

record checker =
  CheckSig :: "bytes \<Rightarrow> bytes \<Rightarrow> bytes \<Rightarrow> SigVersion \<Rightarrow> bool option"
  CheckLockTime :: "int \<Rightarrow> bool"
  CheckColdStake :: "bool \<Rightarrow> bytes \<Rightarrow> bytes list \<Rightarrow> nat \<Rightarrow> ScriptError + unit"
  CheckLowS :: "bytes \<Rightarrow> bool"

text \<open>The base class; its \<open>CheckColdStake\<close> leaves \<open>serror\<close> as \<open>EvalScript\<close> initialised it.\<close>

definition BaseSignatureChecker :: "(bytes \<Rightarrow> bool) \<Rightarrow> checker" where
  "BaseSignatureChecker lowS =
     \<lparr>CheckSig = (\<lambda>sig pk code sv. Some False), CheckLockTime = (\<lambda>n. False),
      CheckColdStake = (\<lambda>fr script stack flags. Inl SCRIPT_ERR_UNKNOWN_ERROR), CheckLowS = lowS\<rparr>"

section \<open>Encodings\<close>

fun CastToBool :: "bytes \<Rightarrow> bool" where
  "CastToBool [] = False"
| "CastToBool (b # vch) = (if b \<noteq> 0 then \<not> (vch = [] \<and> b = 0x80) else CastToBool vch)"

definition IsCompressedOrUncompressedPubKey :: "bytes \<Rightarrow> bool" where
  "IsCompressedOrUncompressedPubKey vchPubKey \<longleftrightarrow>
     (if length vchPubKey < 33 then False
      else if vchPubKey ! 0 = 0x04 then length vchPubKey = 65
      else if vchPubKey ! 0 = 0x02 \<or> vchPubKey ! 0 = 0x03 then length vchPubKey = 33
      else False)"

definition IsValidSignatureEncoding :: "bytes \<Rightarrow> bool" where
  "IsValidSignatureEncoding sig \<longleftrightarrow>
     (if length sig < 9 then False
      else if length sig > 73 then False
      else if sig ! 0 \<noteq> 0x30 then False
      else if unat (sig ! 1) \<noteq> length sig - 3 then False
      else let lenR = unat (sig ! 3)
      in if 5 + lenR \<ge> length sig then False
      else let lenS = unat (sig ! (5 + lenR))
      in if lenR + lenS + 7 \<noteq> length sig then False
      else if sig ! 2 \<noteq> 0x02 then False
      else if lenR = 0 then False
      else if sig ! 4 AND 0x80 \<noteq> 0 then False
      else if lenR > 1 \<and> sig ! 4 = 0x00 \<and> sig ! 5 AND 0x80 = 0 then False
      else if sig ! (lenR + 4) \<noteq> 0x02 then False
      else if lenS = 0 then False
      else if sig ! (lenR + 6) AND 0x80 \<noteq> 0 then False
      else if lenS > 1 \<and> sig ! (lenR + 6) = 0x00 \<and> sig ! (lenR + 7) AND 0x80 = 0 then False
      else True)"

definition IsLowDERSignature :: "checker \<Rightarrow> bytes \<Rightarrow> ScriptError + unit" where
  "IsLowDERSignature ck vchSig =
     (if \<not> IsValidSignatureEncoding vchSig then Inl SCRIPT_ERR_SIG_DER
      else if \<not> CheckLowS ck (butlast vchSig) then Inl SCRIPT_ERR_SIG_HIGH_S
      else Inr ())"

definition IsDefinedHashtypeSignature :: "bytes \<Rightarrow> bool" where
  "IsDefinedHashtypeSignature vchSig \<longleftrightarrow>
     (if vchSig = [] then False
      else let nHashType = unat (last vchSig AND NOT 0x80)
           in \<not> (nHashType < SIGHASH_ALL \<or> nHashType > SIGHASH_SINGLE))"

definition CheckSignatureEncoding :: "checker \<Rightarrow> bytes \<Rightarrow> nat \<Rightarrow> ScriptError + unit" where
  "CheckSignatureEncoding ck vchSig flags =
     (if vchSig = [] then Inr ()
      else if (flag flags SCRIPT_VERIFY_DERSIG \<or> flag flags SCRIPT_VERIFY_LOW_S \<or>
               flag flags SCRIPT_VERIFY_STRICTENC) \<and> \<not> IsValidSignatureEncoding vchSig
      then Inl SCRIPT_ERR_SIG_DER
      else if flag flags SCRIPT_VERIFY_LOW_S \<and> \<not> is_Inr (IsLowDERSignature ck vchSig)
      then IsLowDERSignature ck vchSig
      else if flag flags SCRIPT_VERIFY_STRICTENC \<and> \<not> IsDefinedHashtypeSignature vchSig
      then Inl SCRIPT_ERR_SIG_HASHTYPE
      else Inr ())"

definition CheckPubKeyEncoding :: "bytes \<Rightarrow> nat \<Rightarrow> ScriptError + unit" where
  "CheckPubKeyEncoding vchPubKey flags =
     (if flag flags SCRIPT_VERIFY_STRICTENC \<and> \<not> IsCompressedOrUncompressedPubKey vchPubKey
      then Inl SCRIPT_ERR_PUBKEYTYPE else Inr ())"

definition CheckMinimalPush :: "bytes \<Rightarrow> nat \<Rightarrow> bool" where
  "CheckMinimalPush data opcode \<longleftrightarrow>
     (if length data = 0 then opcode = OP_0
      else if length data = 1 \<and> unat (data ! 0) \<ge> 1 \<and> unat (data ! 0) \<le> 16
      then opcode = OP_1 + (unat (data ! 0) - 1)
      else if length data = 1 \<and> data ! 0 = 0x81 then opcode = OP_1NEGATE
      else if length data \<le> 75 then opcode = length data
      else if length data \<le> 255 then opcode = OP_PUSHDATA1
      else if length data \<le> 65535 then opcode = OP_PUSHDATA2
      else True)"

section \<open>State of an evaluation\<close>

record eval_env =
  ev_script :: bytes
  ev_flags :: nat
  ev_checker :: checker
  ev_sigversion :: SigVersion

record eval_state =
  e_stack :: "bytes list"
  e_altstack :: "bytes list"
  e_vfExec :: "bool list"
  e_nOpCount :: nat
  e_pbegincodehash :: bytes

definition fRequireMinimal :: "eval_env \<Rightarrow> bool" where
  "fRequireMinimal env \<longleftrightarrow> flag (ev_flags env) SCRIPT_VERIFY_MINIMALDATA"

definition vchFalse :: bytes where "vchFalse = []"
definition vchTrue :: bytes where "vchTrue = [1]"

abbreviation vchBool :: "bool \<Rightarrow> bytes" where
  "vchBool b \<equiv> if b then vchTrue else vchFalse"

definition bn_of_bool :: "bool \<Rightarrow> int" where "bn_of_bool b = (if b then 1 else 0)"

text \<open>A number read from the stack; \<open>scriptnum_error\<close> is caught by the interpreter.\<close>

definition script_num :: "eval_env \<Rightarrow> bytes \<Rightarrow> nat \<Rightarrow> ScriptError + int" where
  "script_num env vch nMaxNumSize =
     (case CScriptNum_vch vch (fRequireMinimal env) nMaxNumSize of
        Inl e \<Rightarrow> Inl SCRIPT_ERR_UNKNOWN_ERROR | Inr n \<Rightarrow> Inr n)"

section \<open>Opcodes\<close>

text \<open>
  One definition per group of case labels of the switch.  Those that only touch the main stack map a
  stack to a stack; the others map the state.
\<close>

abbreviation stack_err :: "ScriptError + 'a" where
  "stack_err \<equiv> Inl SCRIPT_ERR_INVALID_STACK_OPERATION"

definition op_push_value :: "nat \<Rightarrow> bytes list \<Rightarrow> bytes list" where
  "op_push_value opcode stack = CScriptNum_serialize (int opcode - (int OP_1 - 1)) # stack"

definition op_exchangeaddr :: "eval_env \<Rightarrow> bytes list \<Rightarrow> ScriptError + bytes list" where
  "op_exchangeaddr env stack =
     (if \<not> flag (ev_flags env) SCRIPT_VERIFY_EXCHANGEADDR then Inl SCRIPT_ERR_BAD_OPCODE
      else if \<not> IsPayToExchangeAddress (ev_script env) then Inl SCRIPT_ERR_EXCHANGEADDRVERIFY
      else Inr stack)"

definition op_checklocktimeverify :: "eval_env \<Rightarrow> bytes list \<Rightarrow> ScriptError + bytes list" where
  "op_checklocktimeverify env stack =
     (if \<not> flag (ev_flags env) SCRIPT_VERIFY_CHECKLOCKTIMEVERIFY then
        if flag (ev_flags env) SCRIPT_VERIFY_DISCOURAGE_UPGRADABLE_NOPS
        then Inl SCRIPT_ERR_DISCOURAGE_UPGRADABLE_NOPS
        else Inr stack
      else if length stack < 1 then stack_err
      else bindE (script_num env (stack ! 0) 5) (\<lambda>lockTime.
        if lockTime < 0 then Inl SCRIPT_ERR_NEGATIVE_LOCKTIME
        else if \<not> CheckLockTime (ev_checker env) lockTime then Inl SCRIPT_ERR_UNSATISFIED_LOCKTIME
        else Inr stack))"

definition op_upgradable_nop :: "eval_env \<Rightarrow> bytes list \<Rightarrow> ScriptError + bytes list" where
  "op_upgradable_nop env stack =
     (if flag (ev_flags env) SCRIPT_VERIFY_DISCOURAGE_UPGRADABLE_NOPS
      then Inl SCRIPT_ERR_DISCOURAGE_UPGRADABLE_NOPS else Inr stack)"

definition op_if :: "nat \<Rightarrow> bool \<Rightarrow> eval_state \<Rightarrow> ScriptError + eval_state" where
  "op_if opcode fExec st =
     (if fExec then
        (case e_stack st of
           [] \<Rightarrow> Inl SCRIPT_ERR_UNBALANCED_CONDITIONAL
         | vch # stack \<Rightarrow>
             let fValue = (if opcode = OP_NOTIF then \<not> CastToBool vch else CastToBool vch)
             in Inr (st\<lparr>e_stack := stack, e_vfExec := fValue # e_vfExec st\<rparr>))
      else Inr (st\<lparr>e_vfExec := False # e_vfExec st\<rparr>))"

definition op_else :: "eval_state \<Rightarrow> ScriptError + eval_state" where
  "op_else st =
     (case e_vfExec st of
        [] \<Rightarrow> Inl SCRIPT_ERR_UNBALANCED_CONDITIONAL
      | b # bs \<Rightarrow> Inr (st\<lparr>e_vfExec := (\<not> b) # bs\<rparr>))"

definition op_endif :: "eval_state \<Rightarrow> ScriptError + eval_state" where
  "op_endif st =
     (case e_vfExec st of
        [] \<Rightarrow> Inl SCRIPT_ERR_UNBALANCED_CONDITIONAL
      | b # bs \<Rightarrow> Inr (st\<lparr>e_vfExec := bs\<rparr>))"

definition op_verify :: "bytes list \<Rightarrow> ScriptError + bytes list" where
  "op_verify stack =
     (case stack of
        [] \<Rightarrow> stack_err
      | vch # stack' \<Rightarrow> if CastToBool vch then Inr stack' else Inl SCRIPT_ERR_VERIFY)"

definition op_toaltstack :: "eval_state \<Rightarrow> ScriptError + eval_state" where
  "op_toaltstack st =
     (case e_stack st of
        [] \<Rightarrow> stack_err
      | vch # stack \<Rightarrow> Inr (st\<lparr>e_altstack := vch # e_altstack st, e_stack := stack\<rparr>))"

definition op_fromaltstack :: "eval_state \<Rightarrow> ScriptError + eval_state" where
  "op_fromaltstack st =
     (case e_altstack st of
        [] \<Rightarrow> Inl SCRIPT_ERR_INVALID_ALTSTACK_OPERATION
      | vch # alt \<Rightarrow> Inr (st\<lparr>e_stack := vch # e_stack st, e_altstack := alt\<rparr>))"

text \<open>In the patterns \<open>x1\<close> is the deepest element named in the comment of the source, the top comes first.\<close>

definition op_2drop :: "bytes list \<Rightarrow> ScriptError + bytes list" where
  "op_2drop stack = (case stack of x2 # x1 # st \<Rightarrow> Inr st | _ \<Rightarrow> stack_err)"

definition op_2dup :: "bytes list \<Rightarrow> ScriptError + bytes list" where
  "op_2dup stack = (case stack of x2 # x1 # st \<Rightarrow> Inr (x2 # x1 # x2 # x1 # st) | _ \<Rightarrow> stack_err)"

definition op_3dup :: "bytes list \<Rightarrow> ScriptError + bytes list" where
  "op_3dup stack =
     (case stack of x3 # x2 # x1 # st \<Rightarrow> Inr (x3 # x2 # x1 # x3 # x2 # x1 # st) | _ \<Rightarrow> stack_err)"

definition op_2over :: "bytes list \<Rightarrow> ScriptError + bytes list" where
  "op_2over stack =
     (case stack of x4 # x3 # x2 # x1 # st \<Rightarrow> Inr (x2 # x1 # x4 # x3 # x2 # x1 # st) | _ \<Rightarrow> stack_err)"

definition op_2rot :: "bytes list \<Rightarrow> ScriptError + bytes list" where
  "op_2rot stack =
     (case stack of
        x6 # x5 # x4 # x3 # x2 # x1 # st \<Rightarrow> Inr (x2 # x1 # x6 # x5 # x4 # x3 # st)
      | _ \<Rightarrow> stack_err)"

definition op_2swap :: "bytes list \<Rightarrow> ScriptError + bytes list" where
  "op_2swap stack =
     (case stack of x4 # x3 # x2 # x1 # st \<Rightarrow> Inr (x2 # x1 # x4 # x3 # st) | _ \<Rightarrow> stack_err)"

definition op_ifdup :: "bytes list \<Rightarrow> ScriptError + bytes list" where
  "op_ifdup stack =
     (case stack of vch # st \<Rightarrow> Inr (if CastToBool vch then vch # stack else stack) | _ \<Rightarrow> stack_err)"

definition op_depth :: "bytes list \<Rightarrow> ScriptError + bytes list" where
  "op_depth stack = Inr (CScriptNum_serialize (int (length stack)) # stack)"

definition op_drop :: "bytes list \<Rightarrow> ScriptError + bytes list" where
  "op_drop stack = (case stack of vch # st \<Rightarrow> Inr st | _ \<Rightarrow> stack_err)"

definition op_dup :: "bytes list \<Rightarrow> ScriptError + bytes list" where
  "op_dup stack = (case stack of vch # st \<Rightarrow> Inr (vch # vch # st) | _ \<Rightarrow> stack_err)"

definition op_nip :: "bytes list \<Rightarrow> ScriptError + bytes list" where
  "op_nip stack = (case stack of x2 # x1 # st \<Rightarrow> Inr (x2 # st) | _ \<Rightarrow> stack_err)"

definition op_over :: "bytes list \<Rightarrow> ScriptError + bytes list" where
  "op_over stack = (case stack of x2 # x1 # st \<Rightarrow> Inr (x1 # x2 # x1 # st) | _ \<Rightarrow> stack_err)"

definition op_pick_roll :: "eval_env \<Rightarrow> nat \<Rightarrow> bytes list \<Rightarrow> ScriptError + bytes list" where
  "op_pick_roll env opcode stack0 =
     (if length stack0 < 2 then stack_err
      else bindE (script_num env (stack0 ! 0) nDefaultMaxNumSize) (\<lambda>bn.
        let n = getint bn; stack = tl stack0
        in if n < 0 \<or> n \<ge> int (length stack) then stack_err
           else let vch = stack ! nat n
                in Inr (vch # (if opcode = OP_ROLL then take (nat n) stack @ drop (Suc (nat n)) stack
                               else stack))))"

definition op_rot :: "bytes list \<Rightarrow> ScriptError + bytes list" where
  "op_rot stack = (case stack of x3 # x2 # x1 # st \<Rightarrow> Inr (x1 # x3 # x2 # st) | _ \<Rightarrow> stack_err)"

definition op_swap :: "bytes list \<Rightarrow> ScriptError + bytes list" where
  "op_swap stack = (case stack of x2 # x1 # st \<Rightarrow> Inr (x1 # x2 # st) | _ \<Rightarrow> stack_err)"

definition op_tuck :: "bytes list \<Rightarrow> ScriptError + bytes list" where
  "op_tuck stack = (case stack of x2 # x1 # st \<Rightarrow> Inr (x2 # x1 # x2 # st) | _ \<Rightarrow> stack_err)"

definition op_size :: "bytes list \<Rightarrow> ScriptError + bytes list" where
  "op_size stack =
     (case stack of vch # st \<Rightarrow> Inr (CScriptNum_serialize (int (length vch)) # stack) | _ \<Rightarrow> stack_err)"

definition op_equal :: "nat \<Rightarrow> bytes list \<Rightarrow> ScriptError + bytes list" where
  "op_equal opcode stack =
     (case stack of
        vch2 # vch1 # st \<Rightarrow>
          let fEqual = (vch1 = vch2)
          in if opcode = OP_EQUALVERIFY then (if fEqual then Inr st else Inl SCRIPT_ERR_EQUALVERIFY)
             else Inr (vchBool fEqual # st)
      | _ \<Rightarrow> stack_err)"

subsection \<open>Numbers\<close>

definition bn_unary :: "nat \<Rightarrow> int \<Rightarrow> int" where
  "bn_unary opcode bn =
     (if opcode = OP_1ADD then bn + 1
      else if opcode = OP_1SUB then bn - 1
      else if opcode = OP_NEGATE then - bn
      else if opcode = OP_ABS then (if bn < 0 then - bn else bn)
      else if opcode = OP_NOT then bn_of_bool (bn = 0)
      else bn_of_bool (bn \<noteq> 0))"

definition op_unary :: "eval_env \<Rightarrow> nat \<Rightarrow> bytes list \<Rightarrow> ScriptError + bytes list" where
  "op_unary env opcode stack =
     (case stack of
        vch # st \<Rightarrow>
          bindE (script_num env vch nDefaultMaxNumSize) (\<lambda>bn.
            Inr (CScriptNum_serialize (bn_unary opcode bn) # st))
      | _ \<Rightarrow> stack_err)"

definition bn_binary :: "nat \<Rightarrow> int \<Rightarrow> int \<Rightarrow> int" where
  "bn_binary opcode bn1 bn2 =
     (if opcode = OP_ADD then bn1 + bn2
      else if opcode = OP_SUB then bn1 - bn2
      else if opcode = OP_BOOLAND then bn_of_bool (bn1 \<noteq> 0 \<and> bn2 \<noteq> 0)
      else if opcode = OP_BOOLOR then bn_of_bool (bn1 \<noteq> 0 \<or> bn2 \<noteq> 0)
      else if opcode = OP_NUMEQUAL then bn_of_bool (bn1 = bn2)
      else if opcode = OP_NUMEQUALVERIFY then bn_of_bool (bn1 = bn2)
      else if opcode = OP_NUMNOTEQUAL then bn_of_bool (bn1 \<noteq> bn2)
      else if opcode = OP_LESSTHAN then bn_of_bool (bn1 < bn2)
      else if opcode = OP_GREATERTHAN then bn_of_bool (bn1 > bn2)
      else if opcode = OP_LESSTHANOREQUAL then bn_of_bool (bn1 \<le> bn2)
      else if opcode = OP_GREATERTHANOREQUAL then bn_of_bool (bn1 \<ge> bn2)
      else if opcode = OP_MIN then (if bn1 < bn2 then bn1 else bn2)
      else (if bn1 > bn2 then bn1 else bn2))"

definition op_binary :: "eval_env \<Rightarrow> nat \<Rightarrow> bytes list \<Rightarrow> ScriptError + bytes list" where
  "op_binary env opcode stack =
     (case stack of
        vch2 # vch1 # st \<Rightarrow>
          bindE (script_num env vch1 nDefaultMaxNumSize) (\<lambda>bn1.
          bindE (script_num env vch2 nDefaultMaxNumSize) (\<lambda>bn2.
            let vch = CScriptNum_serialize (bn_binary opcode bn1 bn2)
            in if opcode = OP_NUMEQUALVERIFY
               then (if CastToBool vch then Inr st else Inl SCRIPT_ERR_NUMEQUALVERIFY)
               else Inr (vch # st)))
      | _ \<Rightarrow> stack_err)"

definition op_within :: "eval_env \<Rightarrow> bytes list \<Rightarrow> ScriptError + bytes list" where
  "op_within env stack =
     (case stack of
        vch3 # vch2 # vch1 # st \<Rightarrow>
          bindE (script_num env vch1 nDefaultMaxNumSize) (\<lambda>bn1.
          bindE (script_num env vch2 nDefaultMaxNumSize) (\<lambda>bn2.
          bindE (script_num env vch3 nDefaultMaxNumSize) (\<lambda>bn3.
            Inr (vchBool (bn2 \<le> bn1 \<and> bn1 < bn3) # st))))
      | _ \<Rightarrow> stack_err)"

subsection \<open>Cryptography\<close>

definition op_hash :: "nat \<Rightarrow> bytes list \<Rightarrow> ScriptError + bytes list" where
  "op_hash opcode stack =
     (case stack of
        vch # st \<Rightarrow>
          Inr ((if opcode = OP_RIPEMD160 then RIPEMD160 vch
                else if opcode = OP_SHA1 then SHA1 vch
                else if opcode = OP_SHA256 then SHA256 vch
                else if opcode = OP_HASH160 then Hash160 vch
                else Hash vch) # st)
      | _ \<Rightarrow> stack_err)"

definition CheckEncodings :: "eval_env \<Rightarrow> bytes \<Rightarrow> bytes \<Rightarrow> ScriptError + unit" where
  "CheckEncodings env vchSig vchPubKey =
     bindE (CheckSignatureEncoding (ev_checker env) vchSig (ev_flags env)) (\<lambda>_.
       CheckPubKeyEncoding vchPubKey (ev_flags env))"

definition checker_CheckSig :: "eval_env \<Rightarrow> bytes \<Rightarrow> bytes \<Rightarrow> bytes \<Rightarrow> ScriptError + bool" where
  "checker_CheckSig env vchSig vchPubKey scriptCode =
     (case CheckSig (ev_checker env) vchSig vchPubKey scriptCode (ev_sigversion env) of
        None \<Rightarrow> Inl SCRIPT_ERR_UNKNOWN_ERROR | Some b \<Rightarrow> Inr b)"

definition op_checksig :: "eval_env \<Rightarrow> nat \<Rightarrow> eval_state \<Rightarrow> ScriptError + eval_state" where
  "op_checksig env opcode st =
     (case e_stack st of
        vchPubKey # vchSig # stack \<Rightarrow>
          let scriptCode = fst (FindAndDelete (e_pbegincodehash st) (push_vch vchSig))
          in bindE (CheckEncodings env vchSig vchPubKey) (\<lambda>_.
             bindE (checker_CheckSig env vchSig vchPubKey scriptCode) (\<lambda>fSuccess.
               if opcode = OP_CHECKSIGVERIFY then
                 (if fSuccess then Inr (st\<lparr>e_stack := stack\<rparr>) else Inl SCRIPT_ERR_CHECKSIGVERIFY)
               else Inr (st\<lparr>e_stack := vchBool fSuccess # stack\<rparr>)))
      | _ \<Rightarrow> stack_err)"

text \<open>
  The matching loop of \<open>OP_CHECKMULTISIG\<close>: \<open>sigs\<close> and \<open>keys\<close> are the stack elements from \<open>isig\<close> and
  \<open>ikey\<close> on, their lengths are \<open>nSigsCount\<close> and \<open>nKeysCount\<close>.  The guard keeps \<open>keys\<close> nonempty while
  signatures remain.
\<close>

fun checkmultisig_loop :: "eval_env \<Rightarrow> bytes \<Rightarrow> bytes list \<Rightarrow> bytes list \<Rightarrow> ScriptError + bool" where
  "checkmultisig_loop env scriptCode [] keys = Inr True"
| "checkmultisig_loop env scriptCode (vchSig # sigs) [] = Inr False"
| "checkmultisig_loop env scriptCode (vchSig # sigs) (vchPubKey # keys) =
     bindE (CheckEncodings env vchSig vchPubKey) (\<lambda>_.
     bindE (checker_CheckSig env vchSig vchPubKey scriptCode) (\<lambda>fOk.
       let sigs' = (if fOk then sigs else vchSig # sigs)
       in if length sigs' > length keys then Inr False
          else checkmultisig_loop env scriptCode sigs' keys))"

definition op_checkmultisig :: "eval_env \<Rightarrow> nat \<Rightarrow> eval_state \<Rightarrow> ScriptError + eval_state" where
  "op_checkmultisig env opcode st =
     (let stack = e_stack st
      in if length stack < 1 then stack_err
      else bindE (script_num env (stack ! 0) nDefaultMaxNumSize) (\<lambda>bnKeys.
        let keysCount = getint bnKeys
        in if keysCount < 0 \<or> keysCount > int MAX_PUBKEYS_PER_MULTISIG then Inl SCRIPT_ERR_PUBKEY_COUNT
        else let nKeysCount = nat keysCount; opCount = e_nOpCount st + nKeysCount
        in if opCount > 201 then Inl SCRIPT_ERR_OP_COUNT
        else if length stack < 2 + nKeysCount then stack_err
        else bindE (script_num env (stack ! (1 + nKeysCount)) nDefaultMaxNumSize) (\<lambda>bnSigs.
          let sigsCount = getint bnSigs
          in if sigsCount < 0 \<or> sigsCount > int nKeysCount then Inl SCRIPT_ERR_SIG_COUNT
          else let nSigsCount = nat sigsCount; i = 3 + nKeysCount + nSigsCount
          in if length stack < i then stack_err
          else let keys = take nKeysCount (drop 1 stack);
                   sigs = take nSigsCount (drop (2 + nKeysCount) stack);
                   scriptCode = foldl (\<lambda>code vchSig. fst (FindAndDelete code (push_vch vchSig)))
                                  (e_pbegincodehash st) sigs
          in bindE (checkmultisig_loop env scriptCode sigs keys) (\<lambda>fSuccess.
             let stack1 = drop (i - 1) stack
             in if length stack1 < 1 then stack_err
             else if flag (ev_flags env) SCRIPT_VERIFY_NULLDUMMY \<and> length (stack1 ! 0) \<noteq> 0
             then Inl SCRIPT_ERR_SIG_NULLDUMMY
             else let stack2 = tl stack1
             in if opcode = OP_CHECKMULTISIGVERIFY then
                  (if fSuccess then Inr (st\<lparr>e_stack := stack2, e_nOpCount := opCount\<rparr>)
                   else Inl SCRIPT_ERR_CHECKMULTISIGVERIFY)
                else Inr (st\<lparr>e_stack := vchBool fSuccess # stack2, e_nOpCount := opCount\<rparr>)))))"

definition op_checkcoldstakeverify :: "eval_env \<Rightarrow> bool \<Rightarrow> bytes list \<Rightarrow> ScriptError + bytes list" where
  "op_checkcoldstakeverify env fAllowLastOutputFree stack =
     bindE (CheckColdStake (ev_checker env) fAllowLastOutputFree (ev_script env) stack (ev_flags env))
       (\<lambda>_. Inr stack)"

section \<open>EvalScript\<close>

definition on_stack :: "eval_state \<Rightarrow> ScriptError + bytes list \<Rightarrow> ScriptError + eval_state" where
  "on_stack st r = bindE r (\<lambda>stack. Inr (st\<lparr>e_stack := stack\<rparr>))"

text \<open>The switch, its case labels in the order of the source; \<open>pc\<close> is behind the instruction.\<close>

definition EvalScript_switch ::
  "eval_env \<Rightarrow> nat \<Rightarrow> bool \<Rightarrow> bytes \<Rightarrow> eval_state \<Rightarrow> ScriptError + eval_state" where
  "EvalScript_switch env opcode fExec pc st =
     (let stack = e_stack st
      in if opcode = OP_1NEGATE \<or> OP_1 \<le> opcode \<and> opcode \<le> OP_16
         then on_stack st (Inr (op_push_value opcode stack))
      else if opcode = OP_NOP then Inr st
      else if opcode = OP_EXCHANGEADDR then on_stack st (op_exchangeaddr env stack)
      else if opcode = OP_CHECKLOCKTIMEVERIFY then on_stack st (op_checklocktimeverify env stack)
      else if opcode = OP_NOP1 \<or> OP_NOP3 \<le> opcode \<and> opcode \<le> OP_NOP10
           then on_stack st (op_upgradable_nop env stack)
      else if opcode = OP_IF \<or> opcode = OP_NOTIF then op_if opcode fExec st
      else if opcode = OP_ELSE then op_else st
      else if opcode = OP_ENDIF then op_endif st
      else if opcode = OP_VERIFY then on_stack st (op_verify stack)
      else if opcode = OP_RETURN then Inl SCRIPT_ERR_OP_RETURN
      else if opcode = OP_TOALTSTACK then op_toaltstack st
      else if opcode = OP_FROMALTSTACK then op_fromaltstack st
      else if opcode = OP_2DROP then on_stack st (op_2drop stack)
      else if opcode = OP_2DUP then on_stack st (op_2dup stack)
      else if opcode = OP_3DUP then on_stack st (op_3dup stack)
      else if opcode = OP_2OVER then on_stack st (op_2over stack)
      else if opcode = OP_2ROT then on_stack st (op_2rot stack)
      else if opcode = OP_2SWAP then on_stack st (op_2swap stack)
      else if opcode = OP_IFDUP then on_stack st (op_ifdup stack)
      else if opcode = OP_DEPTH then on_stack st (op_depth stack)
      else if opcode = OP_DROP then on_stack st (op_drop stack)
      else if opcode = OP_DUP then on_stack st (op_dup stack)
      else if opcode = OP_NIP then on_stack st (op_nip stack)
      else if opcode = OP_OVER then on_stack st (op_over stack)
      else if opcode = OP_PICK \<or> opcode = OP_ROLL then on_stack st (op_pick_roll env opcode stack)
      else if opcode = OP_ROT then on_stack st (op_rot stack)
      else if opcode = OP_SWAP then on_stack st (op_swap stack)
      else if opcode = OP_TUCK then on_stack st (op_tuck stack)
      else if opcode = OP_SIZE then on_stack st (op_size stack)
      else if opcode = OP_EQUAL \<or> opcode = OP_EQUALVERIFY then on_stack st (op_equal opcode stack)
      else if opcode \<in> {OP_1ADD, OP_1SUB, OP_NEGATE, OP_ABS, OP_NOT, OP_0NOTEQUAL}
           then on_stack st (op_unary env opcode stack)
      else if opcode \<in> {OP_ADD, OP_SUB, OP_BOOLAND, OP_BOOLOR, OP_NUMEQUAL, OP_NUMEQUALVERIFY,
                        OP_NUMNOTEQUAL, OP_LESSTHAN, OP_GREATERTHAN, OP_LESSTHANOREQUAL,
                        OP_GREATERTHANOREQUAL, OP_MIN, OP_MAX}
           then on_stack st (op_binary env opcode stack)
      else if opcode = OP_WITHIN then on_stack st (op_within env stack)
      else if opcode \<in> {OP_RIPEMD160, OP_SHA1, OP_SHA256, OP_HASH160, OP_HASH256}
           then on_stack st (op_hash opcode stack)
      else if opcode = OP_CODESEPARATOR then Inr (st\<lparr>e_pbegincodehash := pc\<rparr>)
      else if opcode = OP_CHECKSIG \<or> opcode = OP_CHECKSIGVERIFY then op_checksig env opcode st
      else if opcode = OP_CHECKMULTISIG \<or> opcode = OP_CHECKMULTISIGVERIFY
           then op_checkmultisig env opcode st
      else if opcode = OP_CHECKCOLDSTAKEVERIFY then on_stack st (op_checkcoldstakeverify env False stack)
      else if opcode = OP_CHECKCOLDSTAKEVERIFY_LOF then on_stack st (op_checkcoldstakeverify env True stack)
      else Inl SCRIPT_ERR_BAD_OPCODE)"

definition disabled_opcode :: "nat \<Rightarrow> bool" where
  "disabled_opcode opcode \<longleftrightarrow>
     opcode \<in> {OP_CAT, OP_SUBSTR, OP_LEFT, OP_RIGHT, OP_INVERT, OP_AND, OP_OR, OP_XOR, OP_2MUL,
               OP_2DIV, OP_MUL, OP_DIV, OP_MOD, OP_LSHIFT, OP_RSHIFT}"

definition stack_limit :: "eval_state \<Rightarrow> ScriptError + eval_state" where
  "stack_limit st =
     (if length (e_stack st) + length (e_altstack st) > 1000 then Inl SCRIPT_ERR_STACK_SIZE else Inr st)"

text \<open>The body of the loop, after \<open>GetOp\<close> delivered an instruction.\<close>

definition EvalScript_op ::
  "eval_env \<Rightarrow> nat \<Rightarrow> bytes \<Rightarrow> bytes \<Rightarrow> eval_state \<Rightarrow> ScriptError + eval_state" where
  "EvalScript_op env opcode vchPushValue pc st0 =
     (let fExec = (count_list (e_vfExec st0) False = 0)
      in if length vchPushValue > MAX_SCRIPT_ELEMENT_SIZE then Inl SCRIPT_ERR_PUSH_SIZE
      else let st = (if opcode > OP_16 then st0\<lparr>e_nOpCount := e_nOpCount st0 + 1\<rparr> else st0)
      in if opcode > OP_16 \<and> e_nOpCount st > 201 then Inl SCRIPT_ERR_OP_COUNT
      else if disabled_opcode opcode then Inl SCRIPT_ERR_DISABLED_OPCODE
      else bindE
        (if fExec \<and> opcode \<le> OP_PUSHDATA4 then
           (if fRequireMinimal env \<and> \<not> CheckMinimalPush vchPushValue opcode
            then Inl SCRIPT_ERR_MINIMALDATA
            else Inr (st\<lparr>e_stack := vchPushValue # e_stack st\<rparr>))
         else if fExec \<or> OP_IF \<le> opcode \<and> opcode \<le> OP_ENDIF
         then EvalScript_switch env opcode fExec pc st
         else Inr st)
        stack_limit)"

function EvalScript_loop :: "eval_env \<Rightarrow> bytes \<Rightarrow> eval_state \<Rightarrow> ScriptError + eval_state" where
  "EvalScript_loop env pc st =
     (if pc = [] then Inr st
      else case GetOp2 pc of
             GetOp_fail pc' \<Rightarrow> Inl SCRIPT_ERR_BAD_OPCODE
           | GetOp_ok opcode vchPushValue pc' \<Rightarrow>
               bindE (EvalScript_op env opcode vchPushValue pc' st) (EvalScript_loop env pc'))"
  by pat_completeness auto
termination by (relation "measure (\<lambda>(env, pc, st). length pc)") auto

declare EvalScript_loop.simps [simp del]

definition EvalScript ::
  "bytes list \<Rightarrow> bytes \<Rightarrow> nat \<Rightarrow> checker \<Rightarrow> SigVersion \<Rightarrow> ScriptError + bytes list" where
  "EvalScript stack script flags ck sigversion =
     (if length script > MAX_SCRIPT_SIZE then Inl SCRIPT_ERR_SCRIPT_SIZE
      else bindE (EvalScript_loop
              \<lparr>ev_script = script, ev_flags = flags, ev_checker = ck, ev_sigversion = sigversion\<rparr> script
              \<lparr>e_stack = stack, e_altstack = [], e_vfExec = [], e_nOpCount = 0, e_pbegincodehash = script\<rparr>)
        (\<lambda>st. if e_vfExec st \<noteq> [] then Inl SCRIPT_ERR_UNBALANCED_CONDITIONAL else Inr (e_stack st)))"

section \<open>Symbolic execution\<close>

text \<open>The loop over a script that was built with \<open>operator<<\<close>, one instruction at a time.\<close>

lemma EvalScript_loop_Nil [simp]: "EvalScript_loop env [] st = Inr st"
  by (simp add: EvalScript_loop.simps)

lemma EvalScript_loop_ok:
  "GetOp2 pc = GetOp_ok opcode v pc' \<Longrightarrow>
   EvalScript_loop env pc st = bindE (EvalScript_op env opcode v pc' st) (EvalScript_loop env pc')"
  by (cases "pc = []") (auto simp: EvalScript_loop.simps[of env pc])

lemma EvalScript_loop_fail:
  "pc \<noteq> [] \<Longrightarrow> GetOp2 pc = GetOp_fail pc' \<Longrightarrow> EvalScript_loop env pc st = Inl SCRIPT_ERR_BAD_OPCODE"
  by (simp add: EvalScript_loop.simps[of env pc])

lemma EvalScript_loop_op:
  "OP_PUSHDATA4 < op \<Longrightarrow> op < 256 \<Longrightarrow>
   EvalScript_loop env (push_op op @ rest) st = bindE (EvalScript_op env op [] rest st) (EvalScript_loop env rest)"
  by (rule EvalScript_loop_ok) (simp add: GetOp2_push_op)

text \<open>The opcode \<open>operator<<\<close> chooses for a push.\<close>

definition push_opcode :: "bytes \<Rightarrow> nat" where
  "push_opcode b = (if length b < OP_PUSHDATA1 then length b
     else if length b \<le> 0xff then OP_PUSHDATA1 else if length b \<le> 0xffff then OP_PUSHDATA2 else OP_PUSHDATA4)"

lemma hd_push_vch: "unat (hd (push_vch b)) = push_opcode b"
  by (simp add: push_vch_def push_opcode_def del: of_nat_numeral)

lemma push_opcode_le: "push_opcode b \<le> OP_PUSHDATA4"
  by (simp add: push_opcode_def)

lemma disabled_push [simp]: "opcode \<le> 96 \<Longrightarrow> \<not> disabled_opcode opcode"
  by (auto simp: disabled_opcode_def)

text \<open>Whether the minimality flag lets a push through.\<close>

definition push_allowed :: "eval_env \<Rightarrow> bytes \<Rightarrow> bool" where
  "push_allowed env b \<longleftrightarrow> length b \<le> MAX_SCRIPT_ELEMENT_SIZE \<and>
     (fRequireMinimal env \<longrightarrow> CheckMinimalPush b (push_opcode b))"

lemma EvalScript_loop_push:
  assumes "push_allowed env b" and "False \<notin> set (e_vfExec st)"
    and "length (e_stack st) + length (e_altstack st) < 1000"
  shows "EvalScript_loop env (push_vch b @ rest) st = EvalScript_loop env rest (st\<lparr>e_stack := b # e_stack st\<rparr>)"
proof -
  have "length b < 2 ^ 32" using assms(1) by (simp add: push_allowed_def)
  note step = EvalScript_loop_ok[OF GetOp2_push_vch[OF this, of rest]]
  show ?thesis
    using assms push_opcode_le[of b]
    by (auto simp: step hd_push_vch EvalScript_op_def Let_def push_allowed_def stack_limit_def)
qed

lemma CheckMinimalPush_long: "1 < length b \<Longrightarrow> length b \<le> 520 \<Longrightarrow> CheckMinimalPush b (push_opcode b)"
  by (auto simp: CheckMinimalPush_def push_opcode_def)

lemma push_allowed_long: "1 < length b \<Longrightarrow> length b \<le> 520 \<Longrightarrow> push_allowed env b"
  by (simp add: push_allowed_def CheckMinimalPush_long)

section \<open>Resource limits\<close>

lemma on_stack_eq_Inr:
  "on_stack st r = Inr st' \<longleftrightarrow> (\<exists>stack. r = Inr stack \<and> st' = st\<lparr>e_stack := stack\<rparr>)"
  by (auto simp: on_stack_def bindE_eq_Inr_iff)

definition small_elems :: "bytes list \<Rightarrow> bool" where
  "small_elems stack \<longleftrightarrow> (\<forall>v \<in> set stack. length v \<le> MAX_SCRIPT_ELEMENT_SIZE)"

lemma small_elems_simps [simp]:
  "small_elems []" "small_elems (v # st) \<longleftrightarrow> length v \<le> 520 \<and> small_elems st"
  "small_elems (xs @ ys) \<longleftrightarrow> small_elems xs \<and> small_elems ys"
  by (auto simp: small_elems_def)

lemma small_elems_subset: "set st' \<subseteq> set st \<Longrightarrow> small_elems st \<Longrightarrow> small_elems st'"
  by (auto simp: small_elems_def)

lemma small_elems_take_drop: "small_elems st \<Longrightarrow> small_elems (take n st)" "small_elems st \<Longrightarrow> small_elems (drop n st)"
  "small_elems st \<Longrightarrow> small_elems (tl st)"
  by (erule small_elems_subset[rotated], rule set_take_subset,
      erule small_elems_subset[rotated], rule set_drop_subset, cases st, simp_all)

lemma small_elems_nth: "small_elems st \<Longrightarrow> n < length st \<Longrightarrow> length (st ! n) \<le> 520"
  by (simp add: small_elems_def)

lemma serialize_small: "\<bar>n\<bar> < 2 ^ 39 \<Longrightarrow> length (CScriptNum_serialize n) \<le> 5"
  using CScriptNum_vch_serialize[of 5 n False] by (auto simp: CScriptNum_vch_def split: if_splits)

lemma script_num_val_range: "vch \<noteq> [] \<Longrightarrow> \<bar>script_num_val vch\<bar> < 128 * 256 ^ (length vch - 1)"
proof -
  assume "vch \<noteq> []"
  have "le_val (butlast vch) + 256 ^ (length vch - 1) * (unat (last vch) mod 128) < 256 ^ (length vch - 1) * 128"
    using le_val_less[of "butlast vch"] by (intro radix_part) simp_all
  then have "int (le_val (butlast vch) + 256 ^ (length vch - 1) * (unat (last vch) mod 128)) < 128 * 256 ^ (length vch - 1)"
    by (simp only: of_nat_less_iff[symmetric, where 'a = int] of_nat_mult of_nat_power of_nat_numeral mult.commute)
  then have "\<bar>int (le_val (butlast vch) + 256 ^ (length vch - 1) * (unat (last vch) mod 128))\<bar>
      < 128 * 256 ^ (length vch - 1)" by (simp only: abs_of_nat)
  then show ?thesis using \<open>vch \<noteq> []\<close> unfolding script_num_val_def Let_def by (simp only: if_False abs_minus_cancel split: if_split) simp
qed

lemma script_num_range:
  assumes "script_num env vch k = Inr n" and "0 < k" and "k \<le> 8"
  shows "\<bar>n\<bar> < 128 * 256 ^ (k - 1)"
proof -
  have len: "length vch \<le> k" and n: "n = script_num_val vch"
    using assms by (auto simp: script_num_def CScriptNum_vch_eq set_vch_eq split: if_splits)
  show ?thesis
  proof (cases "vch = []")
    case False
    have "(256 :: int) ^ (length vch - 1) \<le> 256 ^ (k - 1)" using len by (intro power_increasing) auto
    then show ?thesis using script_num_val_range[OF False] n by linarith
  qed (simp add: n script_num_val_def)
qed

lemma if_intro: "P a \<Longrightarrow> P b \<Longrightarrow> P (if c then a else b)"
  by simp

lemma bn_results_small:
  "\<bar>a\<bar> < 2 ^ 31 \<Longrightarrow> length (CScriptNum_serialize (bn_unary opcode a)) \<le> 520"
  "\<bar>a\<bar> < 2 ^ 31 \<Longrightarrow> \<bar>b\<bar> < 2 ^ 31 \<Longrightarrow> length (CScriptNum_serialize (bn_binary opcode a b)) \<le> 520"
proof -
  assume a: "\<bar>a\<bar> < 2 ^ 31"
  have "\<bar>bn_unary opcode a\<bar> < 2 ^ 39"
    unfolding bn_unary_def bn_of_bool_def
    by (intro if_intro[where P = "\<lambda>x. \<bar>x\<bar> < 2 ^ 39"]) (use a in auto)
  from serialize_small[OF this] show "length (CScriptNum_serialize (bn_unary opcode a)) \<le> 520" by simp
  assume b: "\<bar>b\<bar> < 2 ^ 31"
  have "\<bar>bn_binary opcode a b\<bar> < 2 ^ 39"
    unfolding bn_binary_def bn_of_bool_def
    by (intro if_intro[where P = "\<lambda>x. \<bar>x\<bar> < 2 ^ 39"]) (use a b in auto)
  from serialize_small[OF this] show "length (CScriptNum_serialize (bn_binary opcode a b)) \<le> 520" by simp
qed

lemma script_num_range4: "script_num env vch 4 = Inr n \<Longrightarrow> \<bar>n\<bar> < 2 ^ 31"
  using script_num_range[of env vch 4 n] by simp

lemma vchBool_small [simp]: "length (vchBool b) \<le> 520"
  by (simp add: vchTrue_def vchFalse_def)

named_theorems small_ops \<open>operations keep the element size limit\<close>

lemma simple_ops_small [small_ops]:
  "op_2drop st = Inr st' \<Longrightarrow> small_elems st \<Longrightarrow> small_elems st'"
  "op_2dup st = Inr st' \<Longrightarrow> small_elems st \<Longrightarrow> small_elems st'"
  "op_3dup st = Inr st' \<Longrightarrow> small_elems st \<Longrightarrow> small_elems st'"
  "op_2over st = Inr st' \<Longrightarrow> small_elems st \<Longrightarrow> small_elems st'"
  "op_2rot st = Inr st' \<Longrightarrow> small_elems st \<Longrightarrow> small_elems st'"
  "op_2swap st = Inr st' \<Longrightarrow> small_elems st \<Longrightarrow> small_elems st'"
  "op_ifdup st = Inr st' \<Longrightarrow> small_elems st \<Longrightarrow> small_elems st'"
  "op_drop st = Inr st' \<Longrightarrow> small_elems st \<Longrightarrow> small_elems st'"
  "op_dup st = Inr st' \<Longrightarrow> small_elems st \<Longrightarrow> small_elems st'"
  "op_nip st = Inr st' \<Longrightarrow> small_elems st \<Longrightarrow> small_elems st'"
  "op_over st = Inr st' \<Longrightarrow> small_elems st \<Longrightarrow> small_elems st'"
  "op_rot st = Inr st' \<Longrightarrow> small_elems st \<Longrightarrow> small_elems st'"
  "op_swap st = Inr st' \<Longrightarrow> small_elems st \<Longrightarrow> small_elems st'"
  "op_tuck st = Inr st' \<Longrightarrow> small_elems st \<Longrightarrow> small_elems st'"
  "op_verify st = Inr st' \<Longrightarrow> small_elems st \<Longrightarrow> small_elems st'"
  by (auto simp: op_2drop_def op_2dup_def op_3dup_def op_2over_def op_2rot_def op_2swap_def
      op_ifdup_def op_drop_def op_dup_def op_nip_def op_over_def op_rot_def op_swap_def op_tuck_def
      op_verify_def split: list.splits if_splits)

lemma env_ops_small [small_ops]:
  "op_exchangeaddr env st = Inr st' \<Longrightarrow> small_elems st \<Longrightarrow> small_elems st'"
  "op_checklocktimeverify env st = Inr st' \<Longrightarrow> small_elems st \<Longrightarrow> small_elems st'"
  "op_upgradable_nop env st = Inr st' \<Longrightarrow> small_elems st \<Longrightarrow> small_elems st'"
  "op_checkcoldstakeverify env fr st = Inr st' \<Longrightarrow> small_elems st \<Longrightarrow> small_elems st'"
  "op_equal opcode st = Inr st' \<Longrightarrow> small_elems st \<Longrightarrow> small_elems st'"
  "op_within env st = Inr st' \<Longrightarrow> small_elems st \<Longrightarrow> small_elems st'"
  by (auto simp: op_exchangeaddr_def op_checklocktimeverify_def op_upgradable_nop_def Let_def
      op_checkcoldstakeverify_def op_equal_def op_within_def bindE_eq_Inr_iff vchTrue_def vchFalse_def
      split: list.splits if_splits)

lemma number_ops_small [small_ops]:
  "op_unary env opcode st = Inr st' \<Longrightarrow> small_elems st \<Longrightarrow> small_elems st'"
  "op_binary env opcode st = Inr st' \<Longrightarrow> small_elems st \<Longrightarrow> small_elems st'"
  "op_depth st = Inr st' \<Longrightarrow> length st \<le> 1000 \<Longrightarrow> small_elems st \<Longrightarrow> small_elems st'"
  "op_size st = Inr st' \<Longrightarrow> small_elems st \<Longrightarrow> small_elems st'"
  "OP_1NEGATE \<le> opcode \<Longrightarrow> opcode \<le> OP_16 \<Longrightarrow> small_elems st \<Longrightarrow> small_elems (op_push_value opcode st)"
proof -
  have le: "\<bar>n\<bar> < 2 ^ 39 \<Longrightarrow> length (CScriptNum_serialize n) \<le> 520" for n
    using serialize_small[of n] by simp
  show "OP_1NEGATE \<le> opcode \<Longrightarrow> opcode \<le> OP_16 \<Longrightarrow> small_elems st \<Longrightarrow> small_elems (op_push_value opcode st)"
    using le[of "int opcode - 80"] by (simp add: op_push_value_def abs_less_iff)
qed (auto simp: op_unary_def op_binary_def op_depth_def op_size_def bindE_eq_Inr_iff Let_def
      bn_results_small order_trans[OF serialize_small] dest!: script_num_range4 split: list.splits if_splits)

lemma hash_op_small [small_ops]: "op_hash opcode st = Inr st' \<Longrightarrow> small_elems st \<Longrightarrow> small_elems st'"
  by (auto simp: op_hash_def split: list.splits)

lemma op_pick_roll_small [small_ops]: "op_pick_roll env opcode st = Inr st' \<Longrightarrow> small_elems st \<Longrightarrow> small_elems st'"
  by (auto simp: op_pick_roll_def bindE_eq_Inr_iff Let_def small_elems_take_drop small_elems_nth
      nat_less_iff split: if_splits intro!: small_elems_nth small_elems_take_drop)

definition limits :: "eval_state \<Rightarrow> bool" where
  "limits st \<longleftrightarrow> small_elems (e_stack st) \<and> small_elems (e_altstack st) \<and> e_nOpCount st \<le> 201"

lemma limits_update [simp]:
  "limits (st\<lparr>e_stack := s\<rparr>) \<longleftrightarrow> small_elems s \<and> small_elems (e_altstack st) \<and> e_nOpCount st \<le> 201"
  "limits (st\<lparr>e_vfExec := x\<rparr>) \<longleftrightarrow> limits st"
  "limits (st\<lparr>e_pbegincodehash := y\<rparr>) \<longleftrightarrow> limits st"
  by (simp_all add: limits_def)

lemma control_limits:
  "op_if opcode fExec st = Inr st' \<Longrightarrow> limits st \<Longrightarrow> limits st'"
  "op_else st = Inr st' \<Longrightarrow> limits st \<Longrightarrow> limits st'"
  "op_endif st = Inr st' \<Longrightarrow> limits st \<Longrightarrow> limits st'"
  "op_toaltstack st = Inr st' \<Longrightarrow> limits st \<Longrightarrow> limits st'"
  "op_fromaltstack st = Inr st' \<Longrightarrow> limits st \<Longrightarrow> limits st'"
  "op_checksig env opcode st = Inr st' \<Longrightarrow> limits st \<Longrightarrow> limits st'"
  by (auto simp: op_if_def op_else_def op_endif_def op_toaltstack_def op_fromaltstack_def op_checksig_def
      limits_def bindE_eq_Inr_iff Let_def vchTrue_def vchFalse_def split: list.splits if_splits)

lemma op_checkmultisig_limits: "op_checkmultisig env opcode st = Inr st' \<Longrightarrow> limits st \<Longrightarrow> limits st'"
  by (auto simp: op_checkmultisig_def limits_def bindE_eq_Inr_iff Let_def vchTrue_def vchFalse_def
      intro!: small_elems_take_drop split: if_splits)

lemma ensures_on_stack:
  "ensures small_elems r \<Longrightarrow> limits st \<Longrightarrow> ensures limits (on_stack st r)"
  by (auto simp: ensures_def on_stack_eq_Inr limits_def)

lemma push_value_small:
  "opcode = OP_1NEGATE \<or> OP_1 \<le> opcode \<and> opcode \<le> OP_16 \<Longrightarrow> small_elems st \<Longrightarrow>
   ensures small_elems (Inr (op_push_value opcode st))"
  using number_ops_small(5)[of opcode st] by auto

lemma EvalScript_switch_limits:
  assumes "limits st" and len: "length (e_stack st) \<le> 1000"
  shows "ensures limits (EvalScript_switch env opcode fExec pc st)"
proof -
  have s: "small_elems (e_stack st)" using assms(1) by (simp add: limits_def)
  have ret: "ensures limits (Inr st)" "ensures limits (Inr (st\<lparr>e_pbegincodehash := pc\<rparr>))"
    using assms(1) by simp_all
  show ?thesis
    unfolding EvalScript_switch_def Let_def
    by (intro ensures_if ensures_on_stack assms(1);
        (rule ensures_simps(1) ret | rule push_value_small[OF _ s], assumption
         | rule ensuresI, erule small_ops control_limits op_checkmultisig_limits, (rule s assms(1) len)+))
qed

definition within_limits :: "eval_state \<Rightarrow> bool" where
  "within_limits st \<longleftrightarrow> limits st \<and> length (e_stack st) + length (e_altstack st) \<le> 1000"

lemma stack_limit_ensures: "limits st \<Longrightarrow> ensures within_limits (stack_limit st)"
  by (simp add: stack_limit_def within_limits_def)

lemma EvalScript_op_limits:
  assumes "within_limits st"
  shows "ensures within_limits (EvalScript_op env opcode v pc st)"
proof -
  let ?st = "if opcode > OP_16 then st\<lparr>e_nOpCount := e_nOpCount st + 1\<rparr> else st"
  show ?thesis
    unfolding EvalScript_op_def Let_def
  proof (intro ensures_if ensures_simps(1) ensures_bindE[where Q = limits] stack_limit_ensures)
    assume v: "\<not> length v > MAX_SCRIPT_ELEMENT_SIZE" and c: "\<not> (opcode > OP_16 \<and> e_nOpCount ?st > 201)"
    have l: "limits ?st" "length (e_stack ?st) \<le> 1000"
      using assms c by (auto simp: within_limits_def limits_def split: if_splits)
    then show "ensures limits (EvalScript_switch env opcode (count_list (e_vfExec st) False = 0) pc ?st)"
      by (rule EvalScript_switch_limits)
    show "ensures limits (Inr ?st)" using l(1) by (simp only: ensures_simps)
    show "ensures limits (Inr (?st\<lparr>e_stack := v # e_stack ?st\<rparr>))"
      using l(1) v by (simp only: ensures_simps limits_update small_elems_simps not_less) (simp add: limits_def)
  qed
qed

lemma EvalScript_loop_limits:
  "within_limits st \<Longrightarrow> ensures within_limits (EvalScript_loop env pc st)"
proof (induction env pc st rule: EvalScript_loop.induct)
  case (1 env pc st)
  show ?case
  proof (cases "pc = []")
    case False
    show ?thesis
    proof (cases "GetOp2 pc")
      case (GetOp_ok opcode v pc')
      show ?thesis
        unfolding EvalScript_loop_ok[OF GetOp_ok]
        by (rule ensures_bindE[OF EvalScript_op_limits[OF "1.prems"]])
           (rule "1.IH"[OF False GetOp_ok], assumption+)
    qed (simp add: EvalScript_loop_fail[OF False])
  qed (simp add: 1)
qed

text \<open>The bounds that hold between instructions, for scripts started on an admissible stack.\<close>

lemma EvalScript_limits:
  assumes "EvalScript stack script flags ck sv = Inr stack'" and "small_elems stack" and "length stack \<le> 1000"
  shows "small_elems stack' \<and> length stack' \<le> 1000"
proof -
  let ?env = "\<lparr>ev_script = script, ev_flags = flags, ev_checker = ck, ev_sigversion = sv\<rparr>"
  let ?st = "\<lparr>e_stack = stack, e_altstack = [], e_vfExec = [], e_nOpCount = 0, e_pbegincodehash = script\<rparr>"
  have "within_limits ?st" using assms by (simp add: within_limits_def limits_def)
  from ensuresD[OF EvalScript_loop_limits[OF this]] show ?thesis
    using assms(1) by (fastforce simp: EvalScript_def bindE_eq_Inr_iff within_limits_def limits_def split: if_splits)
qed

section \<open>Unspendable outputs\<close>

lemma EvalScript_OP_RETURN:
  "unat c = OP_RETURN \<Longrightarrow> EvalScript stack (c # cs) flags ck sv \<in> {Inl SCRIPT_ERR_OP_RETURN, Inl SCRIPT_ERR_SCRIPT_SIZE}"
proof -
  assume c: "unat c = OP_RETURN"
  then have "GetOp2 (c # cs) = GetOp_ok OP_RETURN [] cs" by (simp add: GetOp2_def)
  from EvalScript_loop_ok[OF this] show ?thesis
    by (simp add: EvalScript_def EvalScript_op_def EvalScript_switch_def disabled_opcode_def)
qed

section \<open>Multisignature matching\<close>

lemma subseq_length: "subseq xs ys \<Longrightarrow> length xs \<le> length ys"
  by (simp add: list_emb_length)

lemma match_taken:
  "f s k \<Longrightarrow> (\<exists>js. subseq js (k # keys) \<and> list_all2 f (s # ss) js) \<longleftrightarrow> (\<exists>js. subseq js keys \<and> list_all2 f ss js)"
  by (auto simp: list_all2_Cons1 intro: subseq_Cons2 dest: subseq_Cons' subseq_Cons2_neq)
     (metis subseq_Cons2_iff subseq_Cons')

lemma match_skipped:
  "\<not> f s k \<Longrightarrow> (\<exists>js. subseq js (k # keys) \<and> list_all2 f (s # ss) js) \<longleftrightarrow> (\<exists>js. subseq js keys \<and> list_all2 f (s # ss) js)"
  by (auto simp: list_all2_Cons1 subseq_Cons2_iff split: if_splits)

text \<open>A signature that a key accepts: the encodings pass and the checker says yes.\<close>

abbreviation sig_accepts :: "eval_env \<Rightarrow> bytes \<Rightarrow> bytes \<Rightarrow> bytes \<Rightarrow> bool" where
  "sig_accepts env scriptCode vchSig vchPubKey \<equiv>
     CheckEncodings env vchSig vchPubKey = Inr () \<and> checker_CheckSig env vchSig vchPubKey scriptCode = Inr True"

text \<open>
  The single pass over the keys finds a match exactly when there is one: the signatures in order, each
  accepted by a key, the keys in order.
\<close>

lemma checkmultisig_loop_returns:
  assumes "checkmultisig_loop env scriptCode sigs keys = Inr b"
  shows "b = (\<exists>ks. subseq ks keys \<and> list_all2 (sig_accepts env scriptCode) sigs ks)"
  using assms
proof (induction env scriptCode sigs keys rule: checkmultisig_loop.induct)
  case (3 env scriptCode s ss k keys)
  let ?f = "sig_accepts env scriptCode"
  obtain fOk where ok: "CheckEncodings env s k = Inr ()" "checker_CheckSig env s k scriptCode = Inr fOk"
    using "3.prems" by (auto simp: bindE_eq_Inr_iff)
  let ?sigs = "if fOk then ss else s # ss"
  have f: "?f s k = fOk" using ok by simp
  have step: "(\<exists>ks. subseq ks (k # keys) \<and> list_all2 ?f (s # ss) ks) \<longleftrightarrow> (\<exists>ks. subseq ks keys \<and> list_all2 ?f ?sigs ks)"
    using match_taken[of ?f s k keys ss] match_skipped[of ?f s k keys ss] f by (cases fOk) simp_all
  show ?case
  proof (cases "length ?sigs > length keys")
    case True
    then have "\<not> b" using "3.prems" ok by simp
    moreover have "\<not> (\<exists>ks. subseq ks keys \<and> list_all2 ?f ?sigs ks)"
      using True by (auto dest!: subseq_length list_all2_lengthD)
    ultimately show ?thesis unfolding step by simp
  next
    case False
    then have "checkmultisig_loop env scriptCode ?sigs keys = Inr b" using "3.prems" ok by simp
    from "3.IH"[OF ok refl False this] show ?thesis unfolding step .
  qed
qed (auto simp: list_all2_Cons1)

lemma checkmultisig_loop_fails:
  assumes "checkmultisig_loop env scriptCode sigs keys = Inl e"
  shows "\<exists>s\<in>set sigs. \<exists>k\<in>set keys. CheckEncodings env s k = Inl e \<or>
    CheckEncodings env s k = Inr () \<and> checker_CheckSig env s k scriptCode = Inl e"
  using assms
proof (induction env scriptCode sigs keys rule: checkmultisig_loop.induct)
  case (3 env scriptCode s ss k keys)
  show ?case
  proof (cases "CheckEncodings env s k")
    case (Inl e')
    then show ?thesis using "3.prems" by simp
  next
    case enc: (Inr u)
    show ?thesis
    proof (cases "checker_CheckSig env s k scriptCode")
      case (Inl e')
      then show ?thesis using "3.prems" enc by simp
    next
      case (Inr fOk)
      let ?sigs = "if fOk then ss else s # ss"
      have "\<not> length ?sigs > length keys" "checkmultisig_loop env scriptCode ?sigs keys = Inl e"
        using "3.prems" enc Inr by (auto split: if_splits)
      from "3.IH"[OF enc Inr refl this] show ?thesis by (cases fOk) auto
    qed
  qed
qed auto

section \<open>Properties\<close>

text \<open>
  (C6) Resource limits.  Every executed instruction keeps the limits of the interpreter: no stack
  element above 520 bytes, at most 1000 elements on the two stacks together, at most 201 counted
  operations; an evaluation started within them that succeeds ends within them.
\<close>

theorem EvalScript_resource_limits:
  "(within_limits st \<and> EvalScript_op env opcode v pc st = Inr st' \<longrightarrow>
      (\<forall>x \<in> set (e_stack st') \<union> set (e_altstack st'). length x \<le> MAX_SCRIPT_ELEMENT_SIZE) \<and>
      length (e_stack st') + length (e_altstack st') \<le> 1000 \<and> e_nOpCount st' \<le> 201 \<and> within_limits st') \<and>
   ((\<forall>x \<in> set stack. length x \<le> MAX_SCRIPT_ELEMENT_SIZE) \<and> length stack \<le> 1000 \<and>
    EvalScript stack script flags ck sv = Inr stack' \<longrightarrow>
      (\<forall>x \<in> set stack'. length x \<le> MAX_SCRIPT_ELEMENT_SIZE) \<and> length stack' \<le> 1000)"
proof (intro conjI impI; elim conjE)
  assume "within_limits st" and op: "EvalScript_op env opcode v pc st = Inr st'"
  then have "within_limits st'" using ensuresD[OF EvalScript_op_limits op] by blast
  then show "\<forall>x \<in> set (e_stack st') \<union> set (e_altstack st'). length x \<le> MAX_SCRIPT_ELEMENT_SIZE"
    "length (e_stack st') + length (e_altstack st') \<le> 1000" "e_nOpCount st' \<le> 201" "within_limits st'"
    by (auto simp: within_limits_def limits_def small_elems_def)
next
  assume "\<forall>x \<in> set stack. length x \<le> MAX_SCRIPT_ELEMENT_SIZE" "length stack \<le> 1000"
    and ev: "EvalScript stack script flags ck sv = Inr stack'"
  then show "\<forall>x \<in> set stack'. length x \<le> MAX_SCRIPT_ELEMENT_SIZE" "length stack' \<le> 1000"
    using EvalScript_limits[OF ev] by (simp_all add: small_elems_def)
qed

theorem EvalScript_resource_limits_witness:
  "EvalScript [] [0x51, 0x76] 0 (BaseSignatureChecker (\<lambda>_. True)) SIGVERSION_BASE = Inr [[1], [1]] \<and>
   length [[1], [1 :: byte]] \<le> 1000"
proof -
  have "CScriptNum_serialize 1 = [1]" by code_simp
  then have "EvalScript [] [0x51, 0x76] 0 (BaseSignatureChecker (\<lambda>_. True)) SIGVERSION_BASE = Inr [[1], [1]]"
    by (simp add: EvalScript_def EvalScript_loop.simps GetOp2_def EvalScript_op_def EvalScript_switch_def
        disabled_opcode_def on_stack_def op_push_value_def op_dup_def stack_limit_def)
  then show ?thesis
    using EvalScript_resource_limits[where stack = "[]" and script = "[0x51, 0x76]" and flags = 0
        and ck = "BaseSignatureChecker (\<lambda>_. True)" and sv = SIGVERSION_BASE and stack' = "[[1], [1]]",
        THEN conjunct2] by simp
qed

text \<open>
  (C26) \<open>CScript::IsUnspendable\<close> is sound: an output it calls unspendable, and that is therefore never
  entered into the coin database, fails to evaluate whatever the stack, the flags and the checker.
\<close>

theorem IsUnspendable_sound:
  assumes "IsUnspendable script"
  shows "EvalScript stack script flags ck sv = Inl SCRIPT_ERR_OP_RETURN \<or>
         EvalScript stack script flags ck sv = Inl SCRIPT_ERR_SCRIPT_SIZE"
proof (cases "length script > MAX_SCRIPT_SIZE")
  case False
  then obtain c cs where "script = c # cs" "unat c = OP_RETURN"
    using assms by (cases script) (auto simp: IsUnspendable_def)
  then show ?thesis using EvalScript_OP_RETURN[of c stack cs flags ck sv] by auto
qed (simp add: EvalScript_def)

theorem IsUnspendable_sound_witness:
  "IsUnspendable [0x6a, 0x01, 0x02] \<and>
   (EvalScript [[1]] [0x6a, 0x01, 0x02] 0 (BaseSignatureChecker (\<lambda>_. True)) SIGVERSION_BASE = Inl SCRIPT_ERR_OP_RETURN \<or>
    EvalScript [[1]] [0x6a, 0x01, 0x02] 0 (BaseSignatureChecker (\<lambda>_. True)) SIGVERSION_BASE = Inl SCRIPT_ERR_SCRIPT_SIZE)"
proof -
  have u: "IsUnspendable [0x6a, 0x01, 0x02]" by (simp add: IsUnspendable_def)
  show ?thesis using IsUnspendable_sound[OF u] u by blast
qed

text \<open>
  (C11) What the one-pass loop of \<open>OP_CHECKMULTISIG\<close> decides.  Whatever the flags, encodings and checker: when the loop
  returns, it reports success exactly if the signatures can be assigned, in order, to a subsequence of
  the keys such that each pair has valid encodings and the checker accepts it; when it fails instead, the
  error is that of the encodings or of the checker on some pair.
\<close>

theorem checkmultisig_matches:
  "case checkmultisig_loop env scriptCode sigs keys of
     Inr b \<Rightarrow> b = (\<exists>ks. subseq ks keys \<and>
       list_all2 (\<lambda>s k. CheckEncodings env s k = Inr () \<and> checker_CheckSig env s k scriptCode = Inr True) sigs ks)
   | Inl e \<Rightarrow> (\<exists>s\<in>set sigs. \<exists>k\<in>set keys. CheckEncodings env s k = Inl e \<or>
       CheckEncodings env s k = Inr () \<and> checker_CheckSig env s k scriptCode = Inl e)"
  using checkmultisig_loop_returns[of env scriptCode sigs keys] checkmultisig_loop_fails[of env scriptCode sigs keys]
  by (cases "checkmultisig_loop env scriptCode sigs keys") simp_all

theorem checkmultisig_matches_witness:
  "\<exists>env. checkmultisig_loop env [] [[1], [3]] [[1], [2], [3]] = Inr True \<and>
     (\<exists>ks. subseq ks [[1], [2], [3]] \<and>
       list_all2 (\<lambda>s k. CheckEncodings env s k = Inr () \<and> checker_CheckSig env s k [] = Inr True) [[1], [3]] ks)"
proof -
  let ?ck = "(BaseSignatureChecker (\<lambda>_. True))\<lparr>CheckSig := \<lambda>s k c v. Some (s = k)\<rparr>"
  let ?env = "\<lparr>ev_script = [], ev_flags = 0, ev_checker = ?ck, ev_sigversion = SIGVERSION_BASE\<rparr>"
  have enc: "CheckEncodings ?env s k = Inr ()" for s k
    by (simp add: CheckEncodings_def CheckSignatureEncoding_def CheckPubKeyEncoding_def flag_def)
  have sig: "checker_CheckSig ?env s k [] = Inr (s = k)" for s k
    by (simp add: checker_CheckSig_def)
  have run: "checkmultisig_loop ?env [] [[1], [3]] [[1], [2], [3]] = Inr True" by (simp add: enc sig)
  show ?thesis
    using checkmultisig_matches[where env = ?env and scriptCode = "[]" and sigs = "[[1], [3]]" and keys = "[[1], [2], [3]]"] run by (intro exI[of _ ?env]) simp
qed

end
