(* ===== verification/SigChecker.thy ===== *)
theory SigChecker
  imports Interpreter
begin

text \<open>
  The rest of \<open>script/interpreter.cpp\<close>: signature hashes, \<open>TransactionSignatureChecker\<close> and
  \<open>VerifyScript\<close>.  The record \<open>crypto\<close> stands for the code outside the repository's own sources:
  libsodium's BLAKE2b with a personalization, and the elliptic curve library behind
  \<open>CPubKey::Verify\<close> and \<open>CPubKey::CheckLowS\<close>.
\<close>

record crypto =
  c_blake2b :: "bytes \<Rightarrow> bytes \<Rightarrow> uint256"
  c_verify :: "bytes \<Rightarrow> uint256 \<Rightarrow> bytes \<Rightarrow> bool"
  c_lowS :: "bytes \<Rightarrow> bool"

section \<open>Public keys\<close>

definition CPubKey_GetLen :: "byte \<Rightarrow> nat" where
  "CPubKey_GetLen chHeader =
     (if chHeader = 2 \<or> chHeader = 3 then 33
      else if chHeader = 4 \<or> chHeader = 6 \<or> chHeader = 7 then 65
      else 0)"

text \<open>The key a byte vector constructs, \<open>None\<close> for an invalidated one (whose \<open>size()\<close> is zero).\<close>

definition CPubKey_Set :: "bytes \<Rightarrow> bytes option" where
  "CPubKey_Set vch =
     (let len = (if vch = [] then 0 else CPubKey_GetLen (vch ! 0))
      in if len \<noteq> 0 \<and> len = length vch then Some vch else None)"

section \<open>The legacy signature hash\<close>

abbreviation (input) NOT_AN_INPUT :: nat where "NOT_AN_INPUT \<equiv> 0xffffffff"

abbreviation UINT256_ONE :: uint256 where "UINT256_ONE \<equiv> 1 # replicate 31 0"

function count_CodeSeparators :: "bytes \<Rightarrow> nat \<Rightarrow> nat" where
  "count_CodeSeparators it n =
     (case GetOp2 it of
        GetOp_fail it' \<Rightarrow> n
      | GetOp_ok opcode v it' \<Rightarrow> count_CodeSeparators it' (if opcode = OP_CODESEPARATOR then n + 1 else n))"
  by pat_completeness auto
termination by (relation "measure (\<lambda>(it, n). length it)") auto

declare count_CodeSeparators.simps [simp del]

text \<open>
  The writing loop: \<open>itBegin\<close> is the start of the part not yet written.  Behind the loop \<open>it\<close> is where
  the failing \<open>GetOp\<close> left it.
\<close>

function SerializeScriptCode_loop :: "bytes \<Rightarrow> bytes \<Rightarrow> bytes" where
  "SerializeScriptCode_loop itBegin it =
     (case GetOp2 it of
        GetOp_ok opcode v it' \<Rightarrow>
          if opcode = OP_CODESEPARATOR
          then take (length itBegin - length it' - 1) itBegin @ SerializeScriptCode_loop it' it'
          else SerializeScriptCode_loop itBegin it'
      | GetOp_fail it' \<Rightarrow> if itBegin \<noteq> [] then take (length itBegin - length it') itBegin else [])"
  by pat_completeness auto
termination by (relation "measure (\<lambda>(itBegin, it). length it)") auto

declare SerializeScriptCode_loop.simps [simp del]

definition SerializeScriptCode :: "bytes \<Rightarrow> bytes" where
  "SerializeScriptCode scriptCode =
     WriteCompactSize (length scriptCode - count_CodeSeparators scriptCode 0) @
     SerializeScriptCode_loop scriptCode scriptCode"

record sig_serializer =
  ss_txTo :: CTransaction
  ss_scriptCode :: bytes
  ss_nIn :: nat
  ss_fAnyoneCanPay :: bool
  ss_fHashSingle :: bool
  ss_fHashNone :: bool

definition CTransactionSignatureSerializer :: "CTransaction \<Rightarrow> bytes \<Rightarrow> nat \<Rightarrow> nat \<Rightarrow> sig_serializer" where
  "CTransactionSignatureSerializer txTo scriptCode nIn nHashType =
     \<lparr>ss_txTo = txTo, ss_scriptCode = scriptCode, ss_nIn = nIn,
      ss_fAnyoneCanPay = (nHashType AND SIGHASH_ANYONECANPAY \<noteq> 0),
      ss_fHashSingle = (nHashType AND 0x1f = SIGHASH_SINGLE),
      ss_fHashNone = (nHashType AND 0x1f = SIGHASH_NONE)\<rparr>"

definition SerializeInput :: "sig_serializer \<Rightarrow> nat \<Rightarrow> bytes" where
  "SerializeInput ss nInput0 =
     (let nInput = (if ss_fAnyoneCanPay ss then ss_nIn ss else nInput0);
          txin = vin (ss_txTo ss) ! nInput
      in ser_COutPoint (prevout txin) @
         (if nInput \<noteq> ss_nIn ss then Serialize_bytes [] else SerializeScriptCode (ss_scriptCode ss)) @
         (if nInput \<noteq> ss_nIn ss \<and> (ss_fHashSingle ss \<or> ss_fHashNone ss)
          then ser_writedata32 0 else ser_writedata32 (nSequence txin)))"

definition SerializeOutput :: "sig_serializer \<Rightarrow> nat \<Rightarrow> bytes" where
  "SerializeOutput ss nOutput =
     (if ss_fHashSingle ss \<and> nOutput \<noteq> ss_nIn ss then ser_CTxOut CTxOut_SetNull
      else ser_CTxOut (vout (ss_txTo ss) ! nOutput))"

definition sig_Serialize :: "sig_serializer \<Rightarrow> bytes" where
  "sig_Serialize ss =
     (let txTo = ss_txTo ss;
          nInputs = (if ss_fAnyoneCanPay ss then 1 else length (vin txTo));
          nOutputs = (if ss_fHashNone ss then 0
                      else if ss_fHashSingle ss then ss_nIn ss + 1 else length (vout txTo))
      in ser_int16 (nVersion txTo) @ ser_int16 (nType txTo) @
         WriteCompactSize nInputs @ concat (map (SerializeInput ss) [0..<nInputs]) @
         WriteCompactSize nOutputs @ concat (map (SerializeOutput ss) [0..<nOutputs]) @
         ser_writedata32 (nLockTime txTo))"

section \<open>The Sapling signature hash\<close>

definition PREVOUTS_HASH_PERSONALIZATION :: bytes where
  "PREVOUTS_HASH_PERSONALIZATION = [80, 73, 86, 88, 80, 114, 101, 118, 111, 117, 116, 72, 97, 115, 104, 0]"
definition SEQUENCE_HASH_PERSONALIZATION :: bytes where
  "SEQUENCE_HASH_PERSONALIZATION = [80, 73, 86, 88, 83, 101, 113, 117, 101, 110, 99, 72, 97, 115, 104, 0]"
definition OUTPUTS_HASH_PERSONALIZATION :: bytes where
  "OUTPUTS_HASH_PERSONALIZATION = [80, 73, 86, 88, 79, 117, 116, 112, 117, 116, 115, 72, 97, 115, 104, 0]"
definition SHIELDED_SPENDS_HASH_PERSONALIZATION :: bytes where
  "SHIELDED_SPENDS_HASH_PERSONALIZATION = [80, 73, 86, 88, 83, 83, 112, 101, 110, 100, 115, 72, 97, 115, 104, 0]"
definition SHIELDED_OUTPUTS_HASH_PERSONALIZATION :: bytes where
  "SHIELDED_OUTPUTS_HASH_PERSONALIZATION = [80, 73, 86, 88, 83, 79, 117, 116, 112, 117, 116, 72, 97, 115, 104, 0]"

text \<open>The first twelve bytes of \<open>KROVACOINSigHash\<close> and the branch id, which is zero.\<close>

definition SIGHASH_PERSONALIZATION :: bytes where
  "SIGHASH_PERSONALIZATION = [75, 82, 79, 86, 65, 67, 79, 73, 78, 83, 105, 103, 0, 0, 0, 0]"

definition GetPrevoutHash :: "crypto \<Rightarrow> CTransaction \<Rightarrow> uint256" where
  "GetPrevoutHash c txTo =
     c_blake2b c PREVOUTS_HASH_PERSONALIZATION (concat (map (\<lambda>i. ser_COutPoint (prevout i)) (vin txTo)))"

definition GetSequenceHash :: "crypto \<Rightarrow> CTransaction \<Rightarrow> uint256" where
  "GetSequenceHash c txTo =
     c_blake2b c SEQUENCE_HASH_PERSONALIZATION (concat (map (\<lambda>i. ser_writedata32 (nSequence i)) (vin txTo)))"

definition GetOutputsHash :: "crypto \<Rightarrow> CTransaction \<Rightarrow> uint256" where
  "GetOutputsHash c txTo = c_blake2b c OUTPUTS_HASH_PERSONALIZATION (concat (map ser_CTxOut (vout txTo)))"

text \<open>The signature \<open>spendAuthSig\<close> is not hashed.\<close>

definition GetShieldedSpendsHash :: "crypto \<Rightarrow> SaplingTxData \<Rightarrow> uint256" where
  "GetShieldedSpendsHash c sap =
     c_blake2b c SHIELDED_SPENDS_HASH_PERSONALIZATION
       (concat (map (\<lambda>n. sd_cv n @ sd_anchor n @ sd_nullifier n @ sd_rk n @ sd_zkproof n) (vShieldedSpend sap)))"

definition GetShieldedOutputsHash :: "crypto \<Rightarrow> SaplingTxData \<Rightarrow> uint256" where
  "GetShieldedOutputsHash c sap =
     c_blake2b c SHIELDED_OUTPUTS_HASH_PERSONALIZATION (concat (map ser_OutputDescription (vShieldedOutput sap)))"

record PrecomputedTransactionData =
  hashPrevouts :: uint256
  hashSequence :: uint256
  hashOutputs :: uint256
  hashShieldedSpends :: uint256
  hashShieldedOutputs :: uint256

definition mk_PrecomputedTransactionData :: "crypto \<Rightarrow> CTransaction \<Rightarrow> PrecomputedTransactionData" where
  "mk_PrecomputedTransactionData c txTo =
     \<lparr>hashPrevouts = GetPrevoutHash c txTo, hashSequence = GetSequenceHash c txTo,
      hashOutputs = GetOutputsHash c txTo,
      hashShieldedSpends = (case sapData txTo of None \<Rightarrow> null_hash | Some sap \<Rightarrow> GetShieldedSpendsHash c sap),
      hashShieldedOutputs = (case sapData txTo of None \<Rightarrow> null_hash | Some sap \<Rightarrow> GetShieldedOutputsHash c sap)\<rparr>"

definition cached :: "'b option \<Rightarrow> ('b \<Rightarrow> uint256) \<Rightarrow> uint256 \<Rightarrow> uint256" where
  "cached cache field computed = (case cache of Some d \<Rightarrow> field d | None \<Rightarrow> computed)"

text \<open>The bytes hashed for \<open>SIGVERSION_SAPLING\<close>.\<close>

definition SaplingSigMessage ::
  "crypto \<Rightarrow> bytes \<Rightarrow> CTransaction \<Rightarrow> nat \<Rightarrow> nat \<Rightarrow> CAmount \<Rightarrow> PrecomputedTransactionData option \<Rightarrow> bytes" where
  "SaplingSigMessage c scriptCode txTo nIn nHashType amount cache =
     (let anyone = (nHashType AND SIGHASH_ANYONECANPAY \<noteq> 0);
          single = (nHashType AND 0x1f = SIGHASH_SINGLE);
          none = (nHashType AND 0x1f = SIGHASH_NONE);
          hPrevouts = (if \<not> anyone then cached cache hashPrevouts (GetPrevoutHash c txTo) else null_hash);
          hSequence = (if \<not> anyone \<and> \<not> single \<and> \<not> none
                       then cached cache hashSequence (GetSequenceHash c txTo) else null_hash);
          hOutputs = (if \<not> single \<and> \<not> none then cached cache hashOutputs (GetOutputsHash c txTo)
                      else if single \<and> nIn < length (vout txTo)
                      then c_blake2b c OUTPUTS_HASH_PERSONALIZATION (ser_CTxOut (vout txTo ! nIn))
                      else null_hash);
          sapling = (case sapData txTo of
             None \<Rightarrow> []
           | Some sap \<Rightarrow>
               let spends = vShieldedSpend sap \<noteq> []; outs = vShieldedOutput sap \<noteq> [];
                   hSpends = (if spends then cached cache hashShieldedSpends (GetShieldedSpendsHash c sap)
                              else null_hash);
                   hOuts = (if outs then cached cache hashShieldedOutputs (GetShieldedOutputsHash c sap)
                            else null_hash)
               in if spends \<or> outs then hSpends @ hOuts @ ser_int64 (valueBalance sap) else []);
          input = (if nIn \<noteq> NOT_AN_INPUT
                   then ser_COutPoint (prevout (vin txTo ! nIn)) @ Serialize_bytes scriptCode @
                        ser_int64 amount @ ser_writedata32 (nSequence (vin txTo ! nIn))
                   else []);
          payload = (if IsSpecialTx txTo then Serialize_bytes (the (extraPayload txTo)) else [])
      in ser_int16 (nVersion txTo) @ ser_int16 (nType txTo) @ hPrevouts @ hSequence @ hOutputs @
         sapling @ input @ payload @ ser_writedata32 (nLockTime txTo) @ ser_writedata32 nHashType)"

text \<open>\<open>None\<close> is the exception for a Sapling transaction that is hashed with the old version.\<close>

definition SignatureHash ::
  "crypto \<Rightarrow> bytes \<Rightarrow> CTransaction \<Rightarrow> nat \<Rightarrow> nat \<Rightarrow> CAmount \<Rightarrow> SigVersion \<Rightarrow>
   PrecomputedTransactionData option \<Rightarrow> uint256 option" where
  "SignatureHash c scriptCode txTo nIn nHashType amount sigversion cache =
     (if nIn \<ge> length (vin txTo) \<and> nIn \<noteq> NOT_AN_INPUT then Some UINT256_ONE
      else if isSaplingVersion txTo \<and> sigversion \<noteq> SIGVERSION_SAPLING then None
      else if sigversion = SIGVERSION_SAPLING then
        Some (c_blake2b c SIGHASH_PERSONALIZATION
                (SaplingSigMessage c scriptCode txTo nIn nHashType amount cache))
      else if nHashType AND 0x1f = SIGHASH_SINGLE \<and> nIn \<ge> length (vout txTo) then Some UINT256_ONE
      else Some (Hash (sig_Serialize (CTransactionSignatureSerializer txTo scriptCode nIn nHashType) @
                       ser_writedata32 nHashType)))"

section \<open>TransactionSignatureChecker\<close>

definition Checker_CheckSig ::
  "crypto \<Rightarrow> CTransaction \<Rightarrow> nat \<Rightarrow> CAmount \<Rightarrow> PrecomputedTransactionData option \<Rightarrow>
   bytes \<Rightarrow> bytes \<Rightarrow> bytes \<Rightarrow> SigVersion \<Rightarrow> bool option" where
  "Checker_CheckSig c txTo nIn amount cache vchSigIn vchPubKey scriptCode sigversion =
     (case CPubKey_Set vchPubKey of
        None \<Rightarrow> Some False
      | Some pubkey \<Rightarrow>
          if vchSigIn = [] then Some False
          else let nHashType = unat (last vchSigIn); vchSig = butlast vchSigIn
               in (case SignatureHash c scriptCode txTo nIn nHashType amount sigversion cache of
                     None \<Rightarrow> None
                   | Some sighash \<Rightarrow> Some (c_verify c pubkey sighash vchSig)))"

definition Checker_CheckLockTime :: "CTransaction \<Rightarrow> nat \<Rightarrow> int \<Rightarrow> bool" where
  "Checker_CheckLockTime txTo nIn lockTime \<longleftrightarrow>
     (if \<not> (nLockTime txTo < LOCKTIME_THRESHOLD \<and> lockTime < int LOCKTIME_THRESHOLD \<or>
            nLockTime txTo \<ge> LOCKTIME_THRESHOLD \<and> lockTime \<ge> int LOCKTIME_THRESHOLD)
      then False
      else if lockTime > int (nLockTime txTo) then False
      else if CTxIn_IsFinal (vin txTo ! nIn) then False
      else True)"

text \<open>The loop over the outputs of a cold stake, from index \<open>i\<close> on; \<open>None\<close> is the failed check.\<close>

fun coldstake_loop :: "bool \<Rightarrow> bytes \<Rightarrow> nat \<Rightarrow> nat \<Rightarrow> CTxOut list \<Rightarrow> CAmount \<Rightarrow> CAmount option" where
  "coldstake_loop fAllowLastOutputFree prevoutScript nOuts i [] outValue = Some outValue"
| "coldstake_loop fAllowLastOutputFree prevoutScript nOuts i (out # outs) outValue =
     (if scriptPubKey out \<noteq> prevoutScript then
        (if \<not> fAllowLastOutputFree \<or> i \<noteq> nOuts - 1 \<or> nOuts < 3 then None
         else coldstake_loop fAllowLastOutputFree prevoutScript nOuts (i + 1) outs outValue)
      else coldstake_loop fAllowLastOutputFree prevoutScript nOuts (i + 1) outs
             (wrap64 (outValue + nValue out)))"

definition Checker_CheckColdStake ::
  "crypto \<Rightarrow> CTransaction \<Rightarrow> CAmount \<Rightarrow> bool \<Rightarrow> bytes \<Rightarrow> bytes list \<Rightarrow> nat \<Rightarrow> ScriptError + unit" where
  "Checker_CheckColdStake c txTo amount fAllowLastOutputFree prevoutScript stack flags =
     (case stack of
        [vchPubKeyHash, vchPubKey, vchSig] \<Rightarrow>
          bindE (CheckSignatureEncoding (BaseSignatureChecker (c_lowS c)) vchSig flags) (\<lambda>_.
          bindE (CheckPubKeyEncoding vchPubKey flags) (\<lambda>_.
            if length vchPubKeyHash \<noteq> 20 then Inl SCRIPT_ERR_SCRIPT_SIZE
            else if \<not> IsCoinStake txTo then Inl SCRIPT_ERR_CHECKCOLDSTAKEVERIFY
            else if length (vin txTo) \<noteq> 1 then Inl SCRIPT_ERR_CHECKCOLDSTAKEVERIFY
            else case coldstake_loop fAllowLastOutputFree prevoutScript (length (vout txTo)) 1
                        (tl (vout txTo)) 0 of
                   None \<Rightarrow> Inl SCRIPT_ERR_CHECKCOLDSTAKEVERIFY
                 | Some outValue \<Rightarrow>
                     if outValue < amount then Inl SCRIPT_ERR_CHECKCOLDSTAKEVERIFY else Inr ()))
      | _ \<Rightarrow> Inl SCRIPT_ERR_INVALID_STACK_OPERATION)"

definition TransactionSignatureChecker ::
  "crypto \<Rightarrow> CTransaction \<Rightarrow> nat \<Rightarrow> CAmount \<Rightarrow> PrecomputedTransactionData option \<Rightarrow> checker" where
  "TransactionSignatureChecker c txTo nIn amount cache =
     \<lparr>CheckSig = Checker_CheckSig c txTo nIn amount cache,
      CheckLockTime = Checker_CheckLockTime txTo nIn,
      CheckColdStake = Checker_CheckColdStake c txTo amount,
      CheckLowS = c_lowS c\<rparr>"

section \<open>VerifyScript\<close>

text \<open>
  \<open>None\<close> is a failed assertion.  The first component of the flow is the stack that the \<open>CLEANSTACK\<close>
  check looks at: the one left by the redeem script when there is one.
\<close>

definition stack_true :: "bytes list \<Rightarrow> ScriptError + bytes list" where
  "stack_true stack =
     (case stack of
        [] \<Rightarrow> Inl SCRIPT_ERR_EVAL_FALSE
      | x # st \<Rightarrow> if CastToBool x then Inr stack else Inl SCRIPT_ERR_EVAL_FALSE)"

definition VerifyScript_P2SH ::
  "bytes \<Rightarrow> bytes \<Rightarrow> nat \<Rightarrow> checker \<Rightarrow> SigVersion \<Rightarrow> bytes list \<Rightarrow> bytes list \<Rightarrow>
   (ScriptError + bytes list) option" where
  "VerifyScript_P2SH scrSig scrPubKey flags ck sigversion stackCopy stack =
     (if flag flags SCRIPT_VERIFY_P2SH \<and> IsPayToScriptHash scrPubKey then
        if \<not> IsPushOnly scrSig then Some (Inl SCRIPT_ERR_SIG_PUSHONLY)
        else case stackCopy of
               [] \<Rightarrow> None
             | pubKey2 # st \<Rightarrow> Some (bindE (EvalScript st pubKey2 flags ck sigversion) stack_true)
      else Some (Inr stack))"

definition VerifyScript ::
  "bytes \<Rightarrow> bytes \<Rightarrow> nat \<Rightarrow> checker \<Rightarrow> SigVersion \<Rightarrow> (ScriptError + unit) option" where
  "VerifyScript scrSig scrPubKey flags ck sigversion =
     (if flag flags SCRIPT_VERIFY_SIGPUSHONLY \<and> \<not> IsPushOnly scrSig then Some (Inl SCRIPT_ERR_SIG_PUSHONLY)
      else case EvalScript [] scrSig flags ck sigversion of
        Inl e \<Rightarrow> Some (Inl e)
      | Inr stack1 \<Rightarrow>
          (case bindE (EvalScript stack1 scrPubKey flags ck sigversion) stack_true of
             Inl e \<Rightarrow> Some (Inl e)
           | Inr stack2 \<Rightarrow>
               (case VerifyScript_P2SH scrSig scrPubKey flags ck sigversion
                       (if flag flags SCRIPT_VERIFY_P2SH then stack1 else []) stack2 of
                  None \<Rightarrow> None
                | Some (Inl e) \<Rightarrow> Some (Inl e)
                | Some (Inr stack3) \<Rightarrow>
                    if flag flags SCRIPT_VERIFY_CLEANSTACK then
                      if \<not> flag flags SCRIPT_VERIFY_P2SH then None
                      else if length stack3 \<noteq> 1 then Some (Inl SCRIPT_ERR_CLEANSTACK)
                      else Some (Inr ())
                    else Some (Inr ()))))"

section \<open>Properties\<close>

lemma cached_None [simp]: "cached None field computed = computed"
  by (simp add: cached_def)

lemma cached_Some [simp]: "cached (Some d) field computed = field d"
  by (simp add: cached_def)

lemma SaplingSigMessage_cache:
  "SaplingSigMessage c scriptCode txTo nIn nHashType amount (Some (mk_PrecomputedTransactionData c txTo)) =
   SaplingSigMessage c scriptCode txTo nIn nHashType amount None"
  unfolding SaplingSigMessage_def mk_PrecomputedTransactionData_def
  by (cases "sapData txTo") (simp_all only: cached_None cached_Some select_convs option.case Let_def)

lemma EvalScript_P2SH_empty:
  assumes "IsPayToScriptHash s"
  shows "EvalScript [] s flags ck sigversion = Inl SCRIPT_ERR_INVALID_STACK_OPERATION"
proof -
  obtain h where h: "length h = 20" and s: "s = push_op OP_HASH160 @ push_vch h @ push_op OP_EQUAL"
    using assms by (auto simp: IsPayToScriptHash_iff)
  then have "length s = 23" by (simp add: push_op_def push_vch_def)
  then show ?thesis
    by (simp add: EvalScript_def)
      (simp add: s EvalScript_loop_op EvalScript_op_def disabled_opcode_def EvalScript_switch_def
        on_stack_def op_hash_def)
qed

text \<open>
  (C28) The per-transaction cache of hashes does not change any signature hash: for every script
  code, input, hash type, amount and signature version, \<open>SignatureHash\<close> returns with the cache that
  \<open>PrecomputedTransactionData\<close> computes for the transaction what it returns without one.
\<close>

theorem SignatureHash_cache:
  "SignatureHash c scriptCode txTo nIn nHashType amount sigversion (Some (mk_PrecomputedTransactionData c txTo)) =
   SignatureHash c scriptCode txTo nIn nHashType amount sigversion None"
  by (simp add: SignatureHash_def SaplingSigMessage_cache)

text \<open>
  (C27) No assertion of \<open>VerifyScript\<close> can fail: if the flags do not ask for \<open>CLEANSTACK\<close> without
  \<open>P2SH\<close>, the stack that is restored for a redeem script is never empty, whatever the two scripts
  are.
\<close>

theorem VerifyScript_no_assertion:
  assumes "flag flags SCRIPT_VERIFY_CLEANSTACK \<longrightarrow> flag flags SCRIPT_VERIFY_P2SH"
  shows "VerifyScript scrSig scrPubKey flags ck sigversion \<noteq> None"
  using assms
  by (auto simp: VerifyScript_def VerifyScript_P2SH_def EvalScript_P2SH_empty bindE_def
      split: sum.splits if_splits option.splits list.splits)

theorem VerifyScript_no_assertion_witness:
  "VerifyScript [] [] 257 (BaseSignatureChecker (\<lambda>_. True)) SIGVERSION_BASE \<noteq> None"
  by (rule VerifyScript_no_assertion) (simp add: flag_def)

end
