(* ===== verification/Standard.thy ===== *)
theory Standard
  imports SigChecker
begin

text \<open>
  \<open>script/standard.cpp\<close>: the standard output scripts, their recognition by \<open>Solver\<close>, the
  destinations they pay to, and what spending them takes.
\<close>

section \<open>Recognition\<close>

datatype txnouttype =
    TX_NONSTANDARD | TX_PUBKEY | TX_PUBKEYHASH | TX_SCRIPTHASH | TX_MULTISIG | TX_NULL_DATA
  | TX_COLDSTAKE | TX_EXCHANGEADDR

datatype CTxDestination =
    CNoDestination | CKeyID bytes | CScriptID bytes | CExchangeKeyID bytes

definition GetTxnOutputType :: "txnouttype \<Rightarrow> string" where
  "GetTxnOutputType t =
     (case t of
        TX_NONSTANDARD \<Rightarrow> ''nonstandard''
      | TX_PUBKEY \<Rightarrow> ''pubkey''
      | TX_PUBKEYHASH \<Rightarrow> ''pubkeyhash''
      | TX_EXCHANGEADDR \<Rightarrow> ''exchangeaddress''
      | TX_SCRIPTHASH \<Rightarrow> ''scripthash''
      | TX_MULTISIG \<Rightarrow> ''multisig''
      | TX_COLDSTAKE \<Rightarrow> ''coldstake''
      | TX_NULL_DATA \<Rightarrow> ''nulldata'')"

definition CPubKey_ValidSize :: "bytes \<Rightarrow> bool" where
  "CPubKey_ValidSize vch \<longleftrightarrow> length vch > 0 \<and> CPubKey_GetLen (vch ! 0) = length vch"

definition CPubKey_GetID :: "bytes \<Rightarrow> bytes" where
  "CPubKey_GetID vch = Hash160 vch"

text \<open>The matchers return the data they extract, \<open>None\<close> when they return false.\<close>

definition MatchPayToPubkey :: "bytes \<Rightarrow> bytes option" where
  "MatchPayToPubkey script =
     (if length script = 67 \<and> script ! 0 = 65 \<and> unat (last script) = OP_CHECKSIG then
        (let pubkey = take 65 (drop 1 script) in if CPubKey_ValidSize pubkey then Some pubkey else None)
      else if length script = 35 \<and> script ! 0 = 33 \<and> unat (last script) = OP_CHECKSIG then
        (let pubkey = take 33 (drop 1 script) in if CPubKey_ValidSize pubkey then Some pubkey else None)
      else None)"

definition MatchPayToPubkeyHash :: "bytes \<Rightarrow> bytes option" where
  "MatchPayToPubkeyHash script =
     (if length script = 25 \<and> unat (script ! 0) = OP_DUP \<and> unat (script ! 1) = OP_HASH160 \<and>
         script ! 2 = 20 \<and> unat (script ! 23) = OP_EQUALVERIFY \<and> unat (script ! 24) = OP_CHECKSIG
      then Some (take 20 (drop 3 script)) else None)"

definition MatchPayToColdStaking :: "bytes \<Rightarrow> (bytes \<times> bytes) option" where
  "MatchPayToColdStaking script =
     (if IsPayToColdStaking script then Some (take 20 (drop 6 script), take 20 (drop 28 script)) else None)"

definition IsSmallInteger :: "nat \<Rightarrow> bool" where
  "IsSmallInteger opcode \<longleftrightarrow> OP_1 \<le> opcode \<and> opcode \<le> OP_16"

text \<open>The loop of \<open>MatchMultisig\<close>: the last opcode read, the keys collected and the iterator.\<close>

function MatchMultisig_loop :: "bytes \<Rightarrow> bytes list \<Rightarrow> nat \<times> bytes list \<times> bytes" where
  "MatchMultisig_loop it pubkeys =
     (case GetOp2 it of
        GetOp_fail it' \<Rightarrow> (OP_INVALIDOPCODE, pubkeys, it')
      | GetOp_ok opcode vch it' \<Rightarrow>
          if CPubKey_ValidSize vch then MatchMultisig_loop it' (pubkeys @ [vch])
          else (opcode, pubkeys, it'))"
  by pat_completeness auto
termination by (relation "measure (\<lambda>(it, pubkeys). length it)") auto

declare MatchMultisig_loop.simps [simp del]

definition MatchMultisig :: "bytes \<Rightarrow> (nat \<times> bytes list) option" where
  "MatchMultisig script =
     (if length script < 1 \<or> unat (last script) \<noteq> OP_CHECKMULTISIG then None
      else case GetOp2 script of
        GetOp_fail it \<Rightarrow> None
      | GetOp_ok opcode vch it \<Rightarrow>
          if \<not> IsSmallInteger opcode then None
          else let required = the (DecodeOP_N opcode);
                   (opcode', pubkeys, it') = MatchMultisig_loop it []
               in if \<not> IsSmallInteger opcode' then None
               else let keys = the (DecodeOP_N opcode')
               in if length pubkeys \<noteq> keys \<or> keys < required then None
               else if length it' = 1 then Some (required, pubkeys)
               else None)"

text \<open>\<open>Solver\<close>: the type and the solutions, \<open>None\<close> when it returns false.\<close>

definition Solver :: "bytes \<Rightarrow> (txnouttype \<times> bytes list) option" where
  "Solver spk =
     (if spk = [] then None
      else if IsPayToScriptHash spk then Some (TX_SCRIPTHASH, [take 20 (drop 2 spk)])
      else if unat (spk ! 0) = OP_RETURN \<and> IsPushOnly (drop 1 spk) then Some (TX_NULL_DATA, [])
      else case MatchPayToPubkey spk of
        Some k \<Rightarrow> Some (TX_PUBKEY, [k])
      | None \<Rightarrow>
      (case MatchPayToPubkeyHash spk of
        Some h \<Rightarrow> Some (TX_PUBKEYHASH, [h])
      | None \<Rightarrow>
      if IsPayToExchangeAddress spk then Some (TX_EXCHANGEADDR, [take 20 (drop 4 spk)])
      else case MatchPayToColdStaking spk of
        Some (staker, owner) \<Rightarrow> Some (TX_COLDSTAKE, [staker, owner])
      | None \<Rightarrow>
      (case MatchMultisig spk of
        Some (required, keys) \<Rightarrow>
          Some (TX_MULTISIG, [[of_nat required]] @ keys @ [[of_nat (length keys)]])
      | None \<Rightarrow> None)))"

definition ExtractDestination :: "bytes \<Rightarrow> bool \<Rightarrow> CTxDestination option" where
  "ExtractDestination spk fColdStake =
     (case Solver spk of
        None \<Rightarrow> None
      | Some (whichType, vSolutions) \<Rightarrow>
          if whichType = TX_PUBKEY then
            (case CPubKey_Set (vSolutions ! 0) of
               None \<Rightarrow> None | Some pubKey \<Rightarrow> Some (CKeyID (CPubKey_GetID pubKey)))
          else if whichType = TX_PUBKEYHASH then Some (CKeyID (vSolutions ! 0))
          else if whichType = TX_SCRIPTHASH then Some (CScriptID (vSolutions ! 0))
          else if whichType = TX_EXCHANGEADDR then Some (CExchangeKeyID (vSolutions ! 0))
          else if whichType = TX_COLDSTAKE then Some (CKeyID (vSolutions ! (if fColdStake then 0 else 1)))
          else None)"

definition ExtractDestinations :: "bytes \<Rightarrow> (txnouttype \<times> CTxDestination list \<times> nat) option" where
  "ExtractDestinations spk =
     (case Solver spk of
        None \<Rightarrow> None
      | Some (typeRet, vSolutions) \<Rightarrow>
          if typeRet = TX_NULL_DATA then None
          else if typeRet = TX_MULTISIG then
            (let nRequired = unat (hd vSolutions ! 0);
                 addrs = map (CKeyID \<circ> CPubKey_GetID)
                   (List.map_filter CPubKey_Set (butlast (tl vSolutions)))
             in if addrs = [] then None else Some (typeRet, addrs, nRequired))
          else if typeRet = TX_COLDSTAKE then
            (if length vSolutions < 2 then None
             else Some (typeRet, [CKeyID (vSolutions ! 0), CKeyID (vSolutions ! 1)], 2))
          else (case ExtractDestination spk False of
                  None \<Rightarrow> None | Some address \<Rightarrow> Some (typeRet, [address], 1)))"

section \<open>Construction\<close>

definition GetScriptForDestination :: "CTxDestination \<Rightarrow> bytes" where
  "GetScriptForDestination dest =
     (case dest of
        CNoDestination \<Rightarrow> []
      | CKeyID keyID \<Rightarrow> push_op OP_DUP @ push_op OP_HASH160 @ push_vch keyID @ push_op OP_EQUALVERIFY @ push_op OP_CHECKSIG
      | CExchangeKeyID keyID \<Rightarrow> push_op OP_EXCHANGEADDR @ push_op OP_DUP @ push_op OP_HASH160 @ push_vch keyID @
          push_op OP_EQUALVERIFY @ push_op OP_CHECKSIG
      | CScriptID scriptID \<Rightarrow> push_op OP_HASH160 @ push_vch scriptID @ push_op OP_EQUAL)"

definition GetScriptForRawPubKey :: "bytes \<Rightarrow> bytes" where
  "GetScriptForRawPubKey pubKey = push_vch pubKey @ push_op OP_CHECKSIG"

definition GetScriptForStakeDelegation :: "bytes \<Rightarrow> bytes \<Rightarrow> bytes" where
  "GetScriptForStakeDelegation stakingKey spendingKey =
     push_op OP_DUP @ push_op OP_HASH160 @ push_op OP_ROT @
     push_op OP_IF @ push_op OP_CHECKCOLDSTAKEVERIFY @ push_vch stakingKey @
     push_op OP_ELSE @ push_vch spendingKey @ push_op OP_ENDIF @
     push_op OP_EQUALVERIFY @ push_op OP_CHECKSIG"

definition GetScriptForStakeDelegationLOF :: "bytes \<Rightarrow> bytes \<Rightarrow> bytes" where
  "GetScriptForStakeDelegationLOF stakingKey spendingKey =
     push_op OP_DUP @ push_op OP_HASH160 @ push_op OP_ROT @
     push_op OP_IF @ push_op OP_CHECKCOLDSTAKEVERIFY_LOF @ push_vch stakingKey @
     push_op OP_ELSE @ push_vch spendingKey @ push_op OP_ENDIF @
     push_op OP_EQUALVERIFY @ push_op OP_CHECKSIG"

text \<open>\<open>None\<close> is the failed assertion of \<open>EncodeOP_N\<close>.\<close>

definition GetScriptForMultisig :: "int \<Rightarrow> bytes list \<Rightarrow> bytes option" where
  "GetScriptForMultisig nRequired keys =
     (case (EncodeOP_N nRequired, EncodeOP_N (int (length keys))) of
        (Some m, Some n) \<Rightarrow>
          Some (push_op m @ concat (map push_vch keys) @ push_op n @ push_op OP_CHECKMULTISIG)
      | _ \<Rightarrow> None)"

definition GetScriptForOpReturn :: "uint256 \<Rightarrow> bytes" where
  "GetScriptForOpReturn message = push_op OP_RETURN @ push_vch message"

definition IsValidDestination :: "CTxDestination \<Rightarrow> bool" where
  "IsValidDestination dest \<longleftrightarrow> dest \<noteq> CNoDestination"

section \<open>Recognition of the constructed scripts\<close>

lemmas script_bytes = push_op_def push_vch_def nth_append nth_Cons'

lemma Solver_destinations:
  assumes "length h = 20"
  shows "Solver (GetScriptForDestination (CKeyID h)) = Some (TX_PUBKEYHASH, [h])"
    and "Solver (GetScriptForDestination (CScriptID h)) = Some (TX_SCRIPTHASH, [h])"
    and "Solver (GetScriptForDestination (CExchangeKeyID h)) = Some (TX_EXCHANGEADDR, [h])"
proof -
  show "Solver (GetScriptForDestination (CKeyID h)) = Some (TX_PUBKEYHASH, [h])"
    using assms
    by (simp add: Solver_def IsPayToScriptHash_def MatchPayToPubkey_def MatchPayToPubkeyHash_def
        GetScriptForDestination_def script_bytes)
  show "Solver (GetScriptForDestination (CScriptID h)) = Some (TX_SCRIPTHASH, [h])"
    using assms
    by (simp add: Solver_def IsPayToScriptHash_def GetScriptForDestination_def script_bytes)
  show "Solver (GetScriptForDestination (CExchangeKeyID h)) = Some (TX_EXCHANGEADDR, [h])"
    using assms
    by (simp add: Solver_def IsPayToScriptHash_def MatchPayToPubkey_def MatchPayToPubkeyHash_def
        IsPayToExchangeAddress_def GetScriptForDestination_def script_bytes)
qed

lemma Solver_StakeDelegation:
  assumes "length s = 20" "length w = 20"
  shows "Solver (GetScriptForStakeDelegation s w) = Some (TX_COLDSTAKE, [s, w])"
    and "Solver (GetScriptForStakeDelegationLOF s w) = Some (TX_COLDSTAKE, [s, w])"
  using assms
  by (simp_all add: Solver_def IsPayToScriptHash_def MatchPayToPubkey_def MatchPayToPubkeyHash_def
        IsPayToExchangeAddress_def MatchPayToColdStaking_def IsPayToColdStaking_def
        GetScriptForStakeDelegation_def GetScriptForStakeDelegationLOF_def script_bytes)

lemma MatchMultisig_loop_keys:
  assumes "\<forall>k \<in> set keys. CPubKey_ValidSize k" and "OP_1 \<le> n" "n \<le> OP_16"
  shows "MatchMultisig_loop (concat (map push_vch keys) @ push_op n @ rest) acc = (n, acc @ keys, rest)"
  using assms(1)
proof (induction keys arbitrary: acc)
  case Nil
  then show ?case
    using assms(2,3) by (simp add: MatchMultisig_loop.simps[of "push_op n @ rest"] GetOp2_push_op CPubKey_ValidSize_def)
next
  case (Cons k keys)
  have "length k < 2 ^ 32"
    using Cons.prems by (auto simp: CPubKey_ValidSize_def CPubKey_GetLen_def split: if_splits)
  note op = GetOp2_push_vch[OF this, of "concat (map push_vch keys) @ push_op n @ rest"]
  show ?case
    using Cons by (simp add: MatchMultisig_loop.simps[of "push_vch k @ _"] op)
qed

lemma DecodeOP_N_small: "1 \<le> m \<Longrightarrow> m \<le> 16 \<Longrightarrow> DecodeOP_N (80 + m) = Some m"
  by (simp add: DecodeOP_N_def)

lemma Solver_Multisig:
  assumes "1 \<le> m" "m \<le> length keys" "length keys \<le> 16" "\<forall>k \<in> set keys. CPubKey_ValidSize k"
    and "GetScriptForMultisig (int m) keys = Some script"
  shows "Solver script = Some (TX_MULTISIG, [[of_nat m]] @ keys @ [[of_nat (length keys)]])"
proof -
  let ?n = "length keys"
  have keys: "1 \<le> ?n" using assms by linarith
  have s: "script = push_op (80 + m) @ concat (map push_vch keys) @ push_op (80 + ?n) @ push_op OP_CHECKMULTISIG"
    using assms keys by (auto simp: GetScriptForMultisig_def EncodeOP_N_def split: if_splits)
  have first: "unat (script ! 0) = 80 + m" "script \<noteq> []"
    using assms(2,3) unat_of_nat[where 'a = 8, of "80 + m"] by (simp_all add: s push_op_def del: of_nat_add)
  have bytes: "script ! 0 \<noteq> 65" "script ! 0 \<noteq> 33"
    using first(1) assms(1) by auto
  have op: "GetOp2 script = GetOp_ok (80 + m) [] (concat (map push_vch keys) @ push_op (80 + ?n) @ push_op OP_CHECKMULTISIG)"
    using assms(1-3) by (simp add: s GetOp2_push_op)
  have loop: "MatchMultisig_loop (concat (map push_vch keys) @ push_op (80 + ?n) @ push_op OP_CHECKMULTISIG) [] =
      (80 + ?n, keys, push_op OP_CHECKMULTISIG)"
    using MatchMultisig_loop_keys[OF assms(4), of "80 + ?n"] assms(3) keys by simp
  have last: "unat (last script) = OP_CHECKMULTISIG" by (simp add: s push_op_def)
  have "MatchMultisig script = Some (m, keys)"
    using assms(1-3) keys op loop last first(2)
    by (simp add: MatchMultisig_def IsSmallInteger_def DecodeOP_N_small) (simp add: push_op_def Suc_le_eq)
  then show ?thesis
    using first bytes assms(2,3)
    by (simp add: Solver_def IsPayToScriptHash_def MatchPayToPubkey_def MatchPayToPubkeyHash_def
        IsPayToExchangeAddress_def MatchPayToColdStaking_def IsPayToColdStaking_def)
qed

lemma MatchPayToPubkeyHash_iff:
  "MatchPayToPubkeyHash s = Some h \<longleftrightarrow> length h = 20 \<and> s = GetScriptForDestination (CKeyID h)"
proof
  assume m: "MatchPayToPubkeyHash s = Some h"
  then have "IsPayToPublicKeyHash s"
    by (auto simp: MatchPayToPubkeyHash_def IsPayToPublicKeyHash_def split: if_splits)
  then obtain h' where h': "length h' = 20" "s = GetScriptForDestination (CKeyID h')"
    by (auto simp: IsPayToPublicKeyHash_iff GetScriptForDestination_def)
  then have "h = h'"
    using m by (simp add: MatchPayToPubkeyHash_def GetScriptForDestination_def script_bytes)
  then show "length h = 20 \<and> s = GetScriptForDestination (CKeyID h)" using h' by simp
qed (auto simp: MatchPayToPubkeyHash_def GetScriptForDestination_def script_bytes)

lemma Solver_PUBKEYHASH:
  "Solver s = Some (TX_PUBKEYHASH, v) \<longleftrightarrow> (\<exists>h. length h = 20 \<and> s = GetScriptForDestination (CKeyID h) \<and> v = [h])"
proof
  assume "Solver s = Some (TX_PUBKEYHASH, v)"
  then have "\<exists>h. MatchPayToPubkeyHash s = Some h \<and> v = [h]"
    by (auto simp: Solver_def split: if_splits option.splits)
  then show "\<exists>h. length h = 20 \<and> s = GetScriptForDestination (CKeyID h) \<and> v = [h]"
    by (auto simp: MatchPayToPubkeyHash_iff)
qed (auto simp: Solver_destinations)

lemma Solver_SCRIPTHASH:
  "Solver s = Some (TX_SCRIPTHASH, v) \<longleftrightarrow> (\<exists>h. length h = 20 \<and> s = GetScriptForDestination (CScriptID h) \<and> v = [h])"
proof
  assume s: "Solver s = Some (TX_SCRIPTHASH, v)"
  then have "IsPayToScriptHash s"
    by (auto simp: Solver_def split: if_splits option.splits)
  then obtain h where "length h = 20" "s = GetScriptForDestination (CScriptID h)"
    by (auto simp: IsPayToScriptHash_iff GetScriptForDestination_def)
  then show "\<exists>h. length h = 20 \<and> s = GetScriptForDestination (CScriptID h) \<and> v = [h]"
    using s by (auto simp: Solver_destinations)
qed (auto simp: Solver_destinations)

definition ok_dest :: "CTxDestination \<Rightarrow> bool" where
  "ok_dest dest \<longleftrightarrow> (case dest of CNoDestination \<Rightarrow> False | CKeyID h \<Rightarrow> length h = 20 | CScriptID h \<Rightarrow> length h = 20
     | CExchangeKeyID h \<Rightarrow> length h = 20)"

section \<open>Properties\<close>

text \<open>
  Standard scripts are recognised.  The script built for a destination is one that
  \<open>ExtractDestination\<close> maps back to it; a stake delegation yields the staker or the owner as asked; an
  m-of-n multisig script built from valid keys is recognised as such with the same keys; and \<open>Solver\<close>
  reports a key hash or a script hash only for exactly the constructed scripts.
\<close>

theorem standard_scripts_recognised:
  "(ok_dest dest \<longrightarrow> ExtractDestination (GetScriptForDestination dest) fColdStake = Some dest) \<and>
   (length s = 20 \<and> length w = 20 \<longrightarrow>
      ExtractDestination (GetScriptForStakeDelegation s w) fColdStake = Some (CKeyID (if fColdStake then s else w)) \<and>
      ExtractDestination (GetScriptForStakeDelegationLOF s w) fColdStake = Some (CKeyID (if fColdStake then s else w))) \<and>
   (1 \<le> m \<and> m \<le> length keys \<and> length keys \<le> 16 \<and> (\<forall>k \<in> set keys. CPubKey_ValidSize k) \<longrightarrow>
      (\<exists>script. GetScriptForMultisig (int m) keys = Some script \<and>
        Solver script = Some (TX_MULTISIG, [[of_nat m]] @ keys @ [[of_nat (length keys)]]))) \<and>
   (Solver script = Some (TX_PUBKEYHASH, v) \<longleftrightarrow>
      (\<exists>h. length h = 20 \<and> script = GetScriptForDestination (CKeyID h) \<and> v = [h])) \<and>
   (Solver script = Some (TX_SCRIPTHASH, v) \<longleftrightarrow>
      (\<exists>h. length h = 20 \<and> script = GetScriptForDestination (CScriptID h) \<and> v = [h]))"
proof (intro conjI impI; (elim conjE)?)
  show "ok_dest dest \<Longrightarrow> ExtractDestination (GetScriptForDestination dest) fColdStake = Some dest"
    by (cases dest) (simp_all add: ok_dest_def ExtractDestination_def Solver_destinations)
next
  assume k: "1 \<le> m" "m \<le> length keys" "length keys \<le> 16" "\<forall>k \<in> set keys. CPubKey_ValidSize k"
  then obtain script where "GetScriptForMultisig (int m) keys = Some script"
    by (cases "keys = []") (auto simp: GetScriptForMultisig_def EncodeOP_N_def)
  then show "\<exists>script. GetScriptForMultisig (int m) keys = Some script \<and>
        Solver script = Some (TX_MULTISIG, [[of_nat m]] @ keys @ [[of_nat (length keys)]])"
    using Solver_Multisig[OF k] by blast
qed (simp_all add: ExtractDestination_def Solver_StakeDelegation Solver_PUBKEYHASH Solver_SCRIPTHASH)

theorem standard_scripts_recognised_witness:
  "ExtractDestination (GetScriptForDestination (CKeyID (replicate 20 7))) False = Some (CKeyID (replicate 20 7)) \<and>
   ExtractDestination (GetScriptForStakeDelegation (replicate 20 7) (replicate 20 8)) True = Some (CKeyID (replicate 20 7)) \<and>
   (\<exists>script. GetScriptForMultisig 1 [2 # replicate 32 0] = Some script \<and>
      Solver script = Some (TX_MULTISIG, [[1], 2 # replicate 32 0, [1]]))"
  using standard_scripts_recognised[of "CKeyID (replicate 20 7)" False "[]" "[]" 0 "[]" "[]" "[]"]
    standard_scripts_recognised[of CNoDestination True "replicate 20 7" "replicate 20 8" 1 "[2 # replicate 32 0]" "[]" "[]"]
  by (simp add: ok_dest_def CPubKey_ValidSize_def CPubKey_GetLen_def)

end
