(* ===== verification/Spending.thy ===== *)
theory Spending
  imports Standard
begin

text \<open>
  What it takes to spend the outputs that \<open>script/standard.cpp\<close> constructs: symbolic execution of the
  standard scripts by \<open>EvalScript\<close>, and the resulting characterisations of \<open>VerifyScript\<close> for
  pay-to-public-key-hash, pay-to-script-hash and cold-staking outputs.
\<close>

section \<open>Running the standard scripts\<close>

lemmas run_simps = EvalScript_loop_op EvalScript_op_def disabled_opcode_def EvalScript_switch_def
  on_stack_def bindE_eq_Inr_iff

lemma EvalScript_loop_push20:
  assumes "length b = 20"
  shows "EvalScript_loop env (push_vch b @ rest) st =
    (if False \<in> set (e_vfExec st) then bindE (stack_limit st) (EvalScript_loop env rest)
     else bindE (stack_limit (st\<lparr>e_stack := b # e_stack st\<rparr>)) (EvalScript_loop env rest))"
proof -
  have b: "length b < 2 ^ 32" using assms by simp
  show ?thesis
    using assms push_opcode_le[of b]
    by (simp add: EvalScript_loop_ok[OF GetOp2_push_vch[OF b, of rest]] hd_push_vch EvalScript_op_def
        Let_def CheckMinimalPush_long count_list_0_iff)
qed

lemma stack_limit_eq_Inr: "stack_limit st = Inr st' \<longleftrightarrow> st' = st \<and> length (e_stack st) + length (e_altstack st) \<le> 1000"
  by (auto simp: stack_limit_def)

lemma run_op:
  assumes "96 < op" "op < 256" "\<not> disabled_opcode op" "e_nOpCount st \<le> 200" "False \<notin> set (e_vfExec st)"
  shows "EvalScript_loop env (push_op op @ rest) st =
    bindE (bindE (EvalScript_switch env op True rest (st\<lparr>e_nOpCount := e_nOpCount st + 1\<rparr>)) stack_limit)
      (EvalScript_loop env rest)"
  using assms by (simp add: EvalScript_loop_op EvalScript_op_def count_list_0_iff)

lemma run_last_op:
  assumes "96 < op" "op < 256" "\<not> disabled_opcode op" "e_nOpCount st \<le> 200" "False \<notin> set (e_vfExec st)"
  shows "EvalScript_loop env (push_op op) st =
    bindE (EvalScript_switch env op True [] (st\<lparr>e_nOpCount := e_nOpCount st + 1\<rparr>)) stack_limit"
  using run_op[OF assms, of env "[]"] by (simp add: bindE_def split: sum.splits)

lemma run_skipped_op:
  assumes "104 < op" "op < 256" "\<not> disabled_opcode op" "e_nOpCount st \<le> 200" "False \<in> set (e_vfExec st)"
  shows "EvalScript_loop env (push_op op @ rest) st =
    bindE (stack_limit (st\<lparr>e_nOpCount := e_nOpCount st + 1\<rparr>)) (EvalScript_loop env rest)"
  using assms by (simp add: EvalScript_loop_op EvalScript_op_def count_list_0_iff)

lemma run_skipped_cond:
  assumes "99 \<le> op" "op \<le> 104" "e_nOpCount st \<le> 200" "False \<in> set (e_vfExec st)"
  shows "EvalScript_loop env (push_op op @ rest) st =
    bindE (bindE (EvalScript_switch env op False rest (st\<lparr>e_nOpCount := e_nOpCount st + 1\<rparr>)) stack_limit)
      (EvalScript_loop env rest)"
  using assms by (simp add: EvalScript_loop_op EvalScript_op_def count_list_0_iff disabled_opcode_def)

lemmas run_switch = EvalScript_switch_def on_stack_def disabled_opcode_def stack_limit_eq_Inr bindE_eq_Inr_iff

text \<open>\<open>OP_EQUALVERIFY OP_CHECKSIG\<close>, the common end of the scripts that pay to a key hash.\<close>

definition checksig_tail :: bytes where
  "checksig_tail = push_op OP_EQUALVERIFY @ push_op OP_CHECKSIG"

lemma standard_tails:
  "GetScriptForDestination (CKeyID h) = push_op OP_DUP @ push_op OP_HASH160 @ push_vch h @ checksig_tail"
  "GetScriptForStakeDelegation stakingKey spendingKey =
     push_op OP_DUP @ push_op OP_HASH160 @ push_op OP_ROT @
     push_op OP_IF @ push_op OP_CHECKCOLDSTAKEVERIFY @ push_vch stakingKey @
     push_op OP_ELSE @ push_vch spendingKey @ push_op OP_ENDIF @ checksig_tail"
  "GetScriptForStakeDelegationLOF stakingKey spendingKey =
     push_op OP_DUP @ push_op OP_HASH160 @ push_op OP_ROT @
     push_op OP_IF @ push_op OP_CHECKCOLDSTAKEVERIFY_LOF @ push_vch stakingKey @
     push_op OP_ELSE @ push_vch spendingKey @ push_op OP_ENDIF @ checksig_tail"
  by (simp_all add: checksig_tail_def GetScriptForDestination_def GetScriptForStakeDelegation_def
      GetScriptForStakeDelegationLOF_def)

text \<open>A successful check of the signature \<open>sig\<close> under \<open>pk\<close> in a running script with code \<open>code\<close>.\<close>

definition sig_checked :: "eval_env \<Rightarrow> bytes \<Rightarrow> bytes \<Rightarrow> bytes \<Rightarrow> bool \<Rightarrow> bool" where
  "sig_checked env code pk sig b \<longleftrightarrow>
     CheckEncodings env sig pk = Inr () \<and>
     checker_CheckSig env sig pk (fst (FindAndDelete code (push_vch sig))) = Inr b"

lemma run_checksig_tail:
  assumes "n \<le> 199"
  shows "EvalScript_loop env checksig_tail
      \<lparr>e_stack = stk, e_altstack = [], e_vfExec = [], e_nOpCount = n, e_pbegincodehash = code\<rparr> = Inr st' \<longleftrightarrow>
    (\<exists>h pk sig rest b. stk = h # h # pk # sig # rest \<and> length rest \<le> 998 \<and> sig_checked env code pk sig b \<and>
       st' = \<lparr>e_stack = vchBool b # rest, e_altstack = [], e_vfExec = [], e_nOpCount = n + 2, e_pbegincodehash = code\<rparr>)"
  using assms
  by (auto simp: checksig_tail_def sig_checked_def run_op run_last_op run_switch op_equal_def op_checksig_def Let_def
      split: list.splits)

lemma run_P2PKH:
  assumes h: "length h = 20"
  shows "EvalScript_loop env (GetScriptForDestination (CKeyID h))
      \<lparr>e_stack = stk, e_altstack = [], e_vfExec = [], e_nOpCount = 0, e_pbegincodehash = code\<rparr> = Inr st' \<longleftrightarrow>
    (\<exists>pk sig rest b. stk = pk # sig # rest \<and> length rest \<le> 996 \<and> Hash160 pk = h \<and> sig_checked env code pk sig b \<and>
       st' = \<lparr>e_stack = vchBool b # rest, e_altstack = [], e_vfExec = [], e_nOpCount = 4, e_pbegincodehash = code\<rparr>)"
proof (cases stk)
  case (Cons pk stk1)
  then show ?thesis
    using h
    by (auto simp: standard_tails run_op run_switch op_dup_def op_hash_def EvalScript_loop_push20 run_checksig_tail
        split del: if_split)
qed (simp add: standard_tails run_op run_switch op_dup_def)

lemma EvalScript_eq_Inr:
  "EvalScript stk script flags ck sv = Inr stk' \<longleftrightarrow> length script \<le> 10000 \<and>
    (\<exists>st'. EvalScript_loop \<lparr>ev_script = script, ev_flags = flags, ev_checker = ck, ev_sigversion = sv\<rparr> script
       \<lparr>e_stack = stk, e_altstack = [], e_vfExec = [], e_nOpCount = 0, e_pbegincodehash = script\<rparr> = Inr st' \<and>
      e_vfExec st' = [] \<and> e_stack st' = stk')"
  by (auto simp: EvalScript_def bindE_eq_Inr_iff split: if_splits)

lemma EvalScript_P2PKH:
  fixes h flags ck sv
  assumes h: "length h = 20"
  defines "script \<equiv> GetScriptForDestination (CKeyID h)"
  defines "env \<equiv> \<lparr>ev_script = script, ev_flags = flags, ev_checker = ck, ev_sigversion = sv\<rparr>"
  shows "EvalScript stk script flags ck sv = Inr stk' \<longleftrightarrow>
    (\<exists>pk sig rest b. stk = pk # sig # rest \<and> length rest \<le> 996 \<and> Hash160 pk = h \<and>
       sig_checked env script pk sig b \<and> stk' = vchBool b # rest)"
proof -
  have "length script \<le> 10000" using h by (simp add: script_def GetScriptForDestination_def push_op_def push_vch_def)
  then show ?thesis
    unfolding EvalScript_eq_Inr env_def script_def run_P2PKH[OF h]
    by (intro iffI; elim exE conjE; intro exI conjI) (assumption | rule refl | simp split del: if_split)+
qed

text \<open>The cold staking scripts: \<open>lof\<close> selects the variant whose last output is free.\<close>

definition P2CS :: "bool \<Rightarrow> bytes \<Rightarrow> bytes \<Rightarrow> bytes" where
  "P2CS lof stakingKey spendingKey =
     (if lof then GetScriptForStakeDelegationLOF stakingKey spendingKey
      else GetScriptForStakeDelegation stakingKey spendingKey)"

lemma length_P2CS [simp]: "length staker = 20 \<Longrightarrow> length owner = 20 \<Longrightarrow> length (P2CS lof staker owner) = 51"
  by (simp add: P2CS_def GetScriptForStakeDelegation_def GetScriptForStakeDelegationLOF_def push_op_def push_vch_def)

abbreviation machine :: "bytes list \<Rightarrow> bool list \<Rightarrow> nat \<Rightarrow> bytes \<Rightarrow> eval_state" where
  "machine stk vf n code \<equiv>
     \<lparr>e_stack = stk, e_altstack = [], e_vfExec = vf, e_nOpCount = n, e_pbegincodehash = code\<rparr>"

lemma run_P2CS_head:
  "EvalScript_loop env (push_op OP_DUP @ push_op OP_HASH160 @ push_op OP_ROT @ push_op OP_IF @ body)
      (machine stk [] 0 code) = Inr st' \<longleftrightarrow>
   (\<exists>pk sel rest. stk = pk # sel # rest \<and> length rest \<le> 997 \<and>
      EvalScript_loop env body (machine (Hash160 pk # pk # rest) [CastToBool sel] (Suc (Suc (Suc (Suc 0)))) code) = Inr st')"
proof -
  consider "stk = []" | pk where "stk = [pk]" | pk sel rest where "stk = pk # sel # rest"
    by (metis list.exhaust)
  then show ?thesis
    by cases (auto simp: run_op run_switch op_dup_def op_hash_def op_rot_def op_if_def Let_def)
qed

lemma run_P2CS_owner:
  assumes "length staker = 20" "length owner = 20" "cop \<in> {OP_CHECKCOLDSTAKEVERIFY, OP_CHECKCOLDSTAKEVERIFY_LOF}"
    and "n \<le> 10"
  shows "EvalScript_loop env (push_op cop @ push_vch staker @ push_op OP_ELSE @ push_vch owner @ push_op OP_ENDIF @ tail)
     (machine stk [False] n code) = Inr st' \<longleftrightarrow>
    length stk < 1000 \<and> EvalScript_loop env tail (machine (owner # stk) [] (Suc (Suc (Suc n))) code) = Inr st'"
  using assms
  by (auto simp: run_op run_skipped_op run_skipped_cond run_switch op_else_def op_endif_def EvalScript_loop_push20)

lemma run_P2CS_staker:
  assumes "length staker = 20" "length owner = 20" "n \<le> 10"
  shows "EvalScript_loop env (push_op (if lof then OP_CHECKCOLDSTAKEVERIFY_LOF else OP_CHECKCOLDSTAKEVERIFY) @
      push_vch staker @ push_op OP_ELSE @ push_vch owner @ push_op OP_ENDIF @ tail)
     (machine stk [True] n code) = Inr st' \<longleftrightarrow>
    CheckColdStake (ev_checker env) lof (ev_script env) stk (ev_flags env) = Inr () \<and> length stk < 1000 \<and>
    EvalScript_loop env tail (machine (staker # stk) [] (Suc (Suc (Suc n))) code) = Inr st'"
  using assms
  by (cases lof) (auto simp: run_op run_skipped_op run_skipped_cond run_switch op_else_def op_endif_def
      EvalScript_loop_push20 op_checkcoldstakeverify_def)

lemma run_P2CS:
  assumes len: "length staker = 20" "length owner = 20"
    and run: "EvalScript_loop env (P2CS lof staker owner) (machine stk [] 0 code) = Inr st'"
  shows "\<exists>pk sig sel rest b. stk = pk # sel # sig # rest \<and> sig_checked env code pk sig b \<and>
     e_stack st' = vchBool b # rest \<and>
     (if CastToBool sel
      then Hash160 pk = staker \<and>
        CheckColdStake (ev_checker env) lof (ev_script env) (Hash160 pk # pk # sig # rest) (ev_flags env) = Inr ()
      else Hash160 pk = owner)"
proof -
  define cop where "cop = (if lof then OP_CHECKCOLDSTAKEVERIFY_LOF else OP_CHECKCOLDSTAKEVERIFY)"
  have cop: "cop \<in> {OP_CHECKCOLDSTAKEVERIFY, OP_CHECKCOLDSTAKEVERIFY_LOF}" by (simp add: cop_def)
  have P2CS: "P2CS lof staker owner = push_op OP_DUP @ push_op OP_HASH160 @ push_op OP_ROT @ push_op OP_IF @
      push_op cop @ push_vch staker @ push_op OP_ELSE @ push_vch owner @ push_op OP_ENDIF @ checksig_tail"
    by (simp add: P2CS_def standard_tails cop_def)
  obtain pk sel rest where stk: "stk = pk # sel # rest"
    and body: "EvalScript_loop env (push_op cop @ push_vch staker @ push_op OP_ELSE @ push_vch owner @
        push_op OP_ENDIF @ checksig_tail)
      (machine (Hash160 pk # pk # rest) [CastToBool sel] (Suc (Suc (Suc (Suc 0)))) code) = Inr st'"
    using run unfolding P2CS run_P2CS_head by blast
  show ?thesis
  proof (cases "CastToBool sel")
    case True
    then show ?thesis
      using body stk unfolding cop_def True
      by (auto simp: run_P2CS_staker[OF len] run_checksig_tail split del: if_split)
  next
    case False
    then show ?thesis
      using body stk
      by (auto simp: run_P2CS_owner[OF len cop] run_checksig_tail split del: if_split)
  qed
qed

subsection \<open>Signatures do not occur in the standard scripts\<close>

lemma FindAndDelete_none:
  assumes "\<And>p. boundary s p \<Longrightarrow> p \<noteq> [] \<Longrightarrow> hd p \<noteq> hd b" and "b \<noteq> []"
  shows "FindAndDelete s b = (s, 0)"
proof -
  have "\<not> (length b \<le> length p \<and> take (length b) p = b)" if "boundary s p" for p
    using assms(1)[OF that] assms(2) by (cases p; cases b) auto
  then have "snd (snd (FindAndDelete_loop b [] [] s 0)) = 0"
    using FindAndDelete_loop_zero[OF assms(2)] by blast
  then show ?thesis
    using assms(2) by (auto simp: FindAndDelete_def split: prod.splits)
qed

lemma boundary_Nil [simp]: "boundary [] p \<longleftrightarrow> p = []"
  by (subst boundary_iff) (auto simp: GetOp2_def)

lemma boundary_push_op:
  assumes "OP_PUSHDATA4 < op" "op < 256"
  shows "boundary (push_op op @ rest) p \<longleftrightarrow> p = push_op op @ rest \<or> boundary rest p"
  by (subst boundary_iff) (auto simp: GetOp2_push_op[OF assms])

lemma boundary_push_vch:
  assumes "length b < 2 ^ 32"
  shows "boundary (push_vch b @ rest) p \<longleftrightarrow> p = push_vch b @ rest \<or> boundary rest p"
  by (subst boundary_iff) (auto simp: GetOp2_push_vch[OF assms])

lemma unat_hd_push_op: "op < 256 \<Longrightarrow> unat (hd (push_op op @ rest)) = op"
  by (simp add: push_op_def unat_of_nat)

lemma push_vch_not_Nil [simp]: "push_vch b \<noteq> []"
  by (simp add: push_vch_def)

lemma boundary_P2PKH:
  assumes "length h = 20" "boundary (GetScriptForDestination (CKeyID h)) p" "p \<noteq> []"
  shows "unat (hd p) \<in> {OP_DUP, OP_HASH160, 20, OP_EQUALVERIFY, OP_CHECKSIG}"
proof -
  have last: "boundary (push_op OP_CHECKSIG) p \<longleftrightarrow> p = push_op OP_CHECKSIG @ [] \<or> p = []"
    using boundary_push_op[of OP_CHECKSIG "[]" p] by simp
  show ?thesis
    using assms
    by (auto simp: GetScriptForDestination_def boundary_push_op boundary_push_vch last unat_hd_push_op
        hd_push_vch push_opcode_def simp del: append_Nil2)
qed

lemma P2PKH_no_signature:
  assumes "length h = 20" "length sig \<noteq> 20"
  shows "FindAndDelete (GetScriptForDestination (CKeyID h)) (push_vch sig) = (GetScriptForDestination (CKeyID h), 0)"
proof (rule FindAndDelete_none)
  fix p assume "boundary (GetScriptForDestination (CKeyID h)) p" "p \<noteq> []"
  then have "unat (hd p) \<in> {OP_DUP, OP_HASH160, 20, OP_EQUALVERIFY, OP_CHECKSIG}"
    using assms(1) by (rule boundary_P2PKH[rotated])
  moreover have "unat (hd (push_vch sig)) = push_opcode sig" by (rule hd_push_vch)
  moreover have "push_opcode sig \<le> 78" "push_opcode sig \<noteq> 20"
    using assms(2) by (auto simp: push_opcode_def)
  ultimately show "hd p \<noteq> hd (push_vch sig)" by auto
qed simp

subsection \<open>Success of VerifyScript\<close>

lemma stack_true_eq_Inr: "stack_true st = Inr st' \<longleftrightarrow> st' = st \<and> (\<exists>x r. st = x # r \<and> CastToBool x)"
  by (auto simp: stack_true_def split: list.splits)

lemma VerifyScript_success:
  "VerifyScript scrSig scrPubKey flags ck sv = Some (Inr ()) \<longleftrightarrow>
    (flag flags SCRIPT_VERIFY_SIGPUSHONLY \<longrightarrow> IsPushOnly scrSig) \<and>
    (\<exists>st1 x st2. EvalScript [] scrSig flags ck sv = Inr st1 \<and>
       EvalScript st1 scrPubKey flags ck sv = Inr (x # st2) \<and> CastToBool x \<and>
       (\<exists>st3. VerifyScript_P2SH scrSig scrPubKey flags ck sv
                (if flag flags SCRIPT_VERIFY_P2SH then st1 else []) (x # st2) = Some (Inr st3) \<and>
          (flag flags SCRIPT_VERIFY_CLEANSTACK \<longrightarrow> flag flags SCRIPT_VERIFY_P2SH \<and> length st3 = 1)))"
proof (cases "EvalScript [] scrSig flags ck sv")
  case (Inr st1)
  note sig = Inr
  show ?thesis
  proof (cases "bindE (EvalScript st1 scrPubKey flags ck sv) stack_true")
    case (Inr st2)
    then obtain x r where st2: "st2 = x # r" "CastToBool x" "EvalScript st1 scrPubKey flags ck sv = Inr (x # r)"
      by (auto simp: bindE_eq_Inr_iff stack_true_eq_Inr)
    define p where "p = VerifyScript_P2SH scrSig scrPubKey flags ck sv
      (if flag flags SCRIPT_VERIFY_P2SH then st1 else []) (x # r)"
    have "VerifyScript scrSig scrPubKey flags ck sv =
      (if flag flags SCRIPT_VERIFY_SIGPUSHONLY \<and> \<not> IsPushOnly scrSig then Some (Inl SCRIPT_ERR_SIG_PUSHONLY)
       else case p of
            None \<Rightarrow> None
          | Some (Inl e) \<Rightarrow> Some (Inl e)
          | Some (Inr st3) \<Rightarrow>
              if flag flags SCRIPT_VERIFY_CLEANSTACK then
                if \<not> flag flags SCRIPT_VERIFY_P2SH then None
                else if length st3 \<noteq> 1 then Some (Inl SCRIPT_ERR_CLEANSTACK)
                else Some (Inr ())
              else Some (Inr ()))"
      unfolding VerifyScript_def sig Inr sum.case st2(1) p_def by (rule refl)
    then show ?thesis
      using sig st2 p_def[symmetric] by (cases p) (auto split: sum.splits)
  next
    case (Inl e)
    then have "\<not> (\<exists>x r. EvalScript st1 scrPubKey flags ck sv = Inr (x # r) \<and> CastToBool x)"
      by (auto simp: stack_true_def)
    then show ?thesis using sig Inl by (auto simp: VerifyScript_def)
  qed
qed (simp add: VerifyScript_def)

lemma VerifyScript_not_P2SH:
  assumes "\<not> IsPayToScriptHash scrPubKey"
  shows "VerifyScript scrSig scrPubKey flags ck sv = Some (Inr ()) \<longleftrightarrow>
    (flag flags SCRIPT_VERIFY_SIGPUSHONLY \<longrightarrow> IsPushOnly scrSig) \<and>
    (\<exists>st1 x st2. EvalScript [] scrSig flags ck sv = Inr st1 \<and>
       EvalScript st1 scrPubKey flags ck sv = Inr (x # st2) \<and> CastToBool x \<and>
       (flag flags SCRIPT_VERIFY_CLEANSTACK \<longrightarrow> flag flags SCRIPT_VERIFY_P2SH \<and> st2 = []))"
  using assms unfolding VerifyScript_success by (simp add: VerifyScript_P2SH_def split del: if_split)

lemma EvalScript_sig_key:
  assumes "1 < length sig" "length sig \<le> 520" "1 < length pk" "length pk \<le> 520"
  shows "EvalScript [] (push_vch sig @ push_vch pk) flags ck sv = Inr [pk, sig]"
proof -
  have len: "length (push_vch sig @ push_vch pk) \<le> 10000" using assms by (simp add: push_vch_def le_simps)
  have "EvalScript_loop env (push_vch pk) st = EvalScript_loop env [] (st\<lparr>e_stack := pk # e_stack st\<rparr>)"
    if "e_vfExec st = []" "e_altstack st = []" "length (e_stack st) < 1000" for env st
    using EvalScript_loop_push[of env pk st "[]"] that push_allowed_long[of pk env] assms by simp
  then show ?thesis
    using len assms by (simp add: EvalScript_def EvalScript_loop_push push_allowed_long)
qed

lemma CastToBool_vchBool [simp]: "CastToBool (vchBool b) = b" "CastToBool vchTrue" "\<not> CastToBool vchFalse"
  by (simp_all add: vchTrue_def vchFalse_def)

lemma ex_vchBool_true:
  "(\<exists>x st. (\<exists>b. P b \<and> x = vchBool b \<and> st = r) \<and> CastToBool x \<and> Q st) \<longleftrightarrow> P True \<and> Q r" (is "?L \<longleftrightarrow> ?R")
proof
  assume ?R
  then have "(\<exists>b. P b \<and> vchTrue = vchBool b \<and> r = r) \<and> CastToBool vchTrue \<and> Q r" by (auto intro: exI[of _ True])
  then show ?L by blast
qed (auto split: if_splits)

lemma sig_checked_True:
  fixes c flags script sv txTo nIn amount cache
  defines "env \<equiv> \<lparr>ev_script = script, ev_flags = flags,
    ev_checker = TransactionSignatureChecker c txTo nIn amount cache, ev_sigversion = sv\<rparr>"
  shows "sig_checked env code pk sig True \<longleftrightarrow>
    CheckSignatureEncoding (BaseSignatureChecker (c_lowS c)) sig flags = Inr () \<and> CheckPubKeyEncoding pk flags = Inr () \<and>
    Checker_CheckSig c txTo nIn amount cache sig pk (fst (FindAndDelete code (push_vch sig))) sv = Some True"
  by (auto simp: sig_checked_def env_def CheckEncodings_def checker_CheckSig_def TransactionSignatureChecker_def
      bindE_eq_Inr_iff CheckSignatureEncoding_def IsLowDERSignature_def BaseSignatureChecker_def
      split: option.splits)

lemma Checker_CheckSig_True:
  "sig \<noteq> [] \<Longrightarrow> Checker_CheckSig c txTo nIn amount cache sig pk code sv = Some True \<longleftrightarrow>
    CPubKey_ValidSize pk \<and>
    (\<exists>sighash. SignatureHash c code txTo nIn (unat (last sig)) amount sv cache = Some sighash \<and>
       c_verify c pk sighash (butlast sig))"
  by (auto simp: Checker_CheckSig_def CPubKey_Set_def CPubKey_ValidSize_def Let_def split: option.splits)

lemma P2PKH_not_P2SH: "length h = 20 \<Longrightarrow> \<not> IsPayToScriptHash (GetScriptForDestination (CKeyID h))"
  by (simp add: IsPayToScriptHash_def GetScriptForDestination_def push_op_def push_vch_def)

text \<open>
  (C15) What it takes to spend a pay-to-public-key-hash output.  With a signature script that pushes
  a signature and a key, \<open>VerifyScript\<close> accepts exactly when the key hashes to the hash in the output,
  both encodings pass the checks that the flags ask for, the key has a valid size, and the signature
  without its last byte verifies under the key for the signature hash of the spending transaction,
  with the output script as script code and that byte as hash type.
\<close>

theorem P2PKH_spending:
  assumes "length h = 20" "1 < length sig" "length sig \<noteq> 20" "length sig \<le> 520" "1 < length pk" "length pk \<le> 520"
    and "flag flags SCRIPT_VERIFY_CLEANSTACK \<longrightarrow> flag flags SCRIPT_VERIFY_P2SH"
  shows "VerifyScript (push_vch sig @ push_vch pk) (GetScriptForDestination (CKeyID h)) flags
      (TransactionSignatureChecker c txTo nIn amount cache) sv = Some (Inr ()) \<longleftrightarrow>
    Hash160 pk = h \<and>
    CheckSignatureEncoding (BaseSignatureChecker (c_lowS c)) sig flags = Inr () \<and>
    CheckPubKeyEncoding pk flags = Inr () \<and> CPubKey_ValidSize pk \<and>
    (\<exists>sighash. SignatureHash c (GetScriptForDestination (CKeyID h)) txTo nIn (unat (last sig)) amount sv cache = Some sighash \<and>
       c_verify c pk sighash (butlast sig))" (is "?V \<longleftrightarrow> ?R")
proof -
  have only: "IsPushOnly (push_vch sig @ push_vch pk)"
    using IsPushOnly_push_vch[of sig "push_vch pk"] IsPushOnly_push_vch[of pk "[]"] assms by simp
  have "sig \<noteq> []" using assms by auto
  have "?V \<longleftrightarrow> Hash160 pk = h \<and> sig_checked \<lparr>ev_script = GetScriptForDestination (CKeyID h), ev_flags = flags,
    ev_checker = TransactionSignatureChecker c txTo nIn amount cache, ev_sigversion = sv\<rparr>
      (GetScriptForDestination (CKeyID h)) pk sig True"
    using assms only
    by (simp add: VerifyScript_not_P2SH P2PKH_not_P2SH EvalScript_sig_key EvalScript_P2PKH ex_vchBool_true split del: if_split)
  also have "\<dots> \<longleftrightarrow> ?R"
    using \<open>sig \<noteq> []\<close> assms by (auto simp: sig_checked_True Checker_CheckSig_True P2PKH_no_signature)
  finally show ?thesis .
qed

definition example_tx :: CTransaction where
  "example_tx = CMutableTransaction\<lparr>
     vin := [\<lparr>prevout = \<lparr>out_hash = replicate 32 1, out_n = 0\<rparr>, scriptSig = [], nSequence = 0\<rparr>],
     vout := [\<lparr>nValue = 5, scriptPubKey = []\<rparr>]\<rparr>"

definition example_crypto :: crypto where
  "example_crypto = \<lparr>c_blake2b = (\<lambda>p m. replicate 32 0), c_verify = (\<lambda>k h s. True), c_lowS = (\<lambda>s. True)\<rparr>"

theorem P2PKH_spending_witness:
  "VerifyScript (push_vch (replicate 71 1) @ push_vch (2 # replicate 32 0))
     (GetScriptForDestination (CKeyID (Hash160 (2 # replicate 32 0)))) 0
     (TransactionSignatureChecker example_crypto example_tx 0 7 None) SIGVERSION_BASE = Some (Inr ())"
  by (subst P2PKH_spending)
    (auto simp: length_Hash160 CheckSignatureEncoding_def CheckPubKeyEncoding_def flag_def CPubKey_ValidSize_def CPubKey_GetLen_def
      SignatureHash_def example_tx_def CMutableTransaction_def isSaplingVersion_def example_crypto_def)

subsection \<open>Cold staking\<close>

lemma coldstake_loop_sound:
  assumes "coldstake_loop lof script n i outs v = Some v'"
    and "\<forall>out \<in> set outs. 0 \<le> nValue out" and "0 \<le> v" and "v + sum_list (map nValue outs) < 2 ^ 63"
  shows "v' = v + sum_list (map nValue (filter (\<lambda>out. scriptPubKey out = script) outs)) \<and>
    (\<forall>k < length outs. scriptPubKey (outs ! k) = script \<or> lof \<and> i + k = n - 1 \<and> 3 \<le> n)"
  using assms
proof (induction outs arbitrary: i v)
  case (Cons out outs)
  have nn: "0 \<le> sum_list (map nValue outs)" using Cons.prems by (intro sum_list_nonneg) auto
  have "wrap64 (v + nValue out) = v + nValue out"
    using Cons.prems nn by (intro wrap64_id) (auto simp: in_i64_def)
  note w = this
  have val: "0 \<le> nValue out" "\<forall>out \<in> set outs. 0 \<le> nValue out" using Cons.prems(2) by auto
  show ?case
  proof (cases "scriptPubKey out = script")
    case True
    then have "coldstake_loop lof script n (i + 1) outs (v + nValue out) = Some v'" using Cons.prems(1) w by simp
    from Cons.IH[OF this val(2)] Cons.prems(3,4) val(1) True show ?thesis
      by (auto simp: less_Suc_eq_0_disj)
  next
    case False
    then have l: "coldstake_loop lof script n (i + 1) outs v = Some v'" and last: "lof" "i = n - 1" "3 \<le> n"
      using Cons.prems(1) by (auto split: if_splits)
    from Cons.IH[OF l val(2) Cons.prems(3)] Cons.prems(4) val(1) False last show ?thesis
      by (auto simp: less_Suc_eq_0_disj)
  qed
qed simp

lemma IsCoinStake_outputs: "IsCoinStake tx \<Longrightarrow> 2 \<le> length (vout tx)"
  by (auto simp: IsCoinStake_def Let_def split: if_splits)

lemma Checker_CheckColdStake_sound:
  assumes "Checker_CheckColdStake c tx amount lof script (pkh # pk # sig # rest) flags = Inr ()"
    and "\<forall>out \<in> set (vout tx). 0 \<le> nValue out" and "sum_list (map nValue (vout tx)) < 2 ^ 63"
  shows "IsCoinStake tx \<and> length (vin tx) = 1 \<and>
    (\<forall>k. 1 \<le> k \<and> k < length (vout tx) \<longrightarrow>
       scriptPubKey (vout tx ! k) = script \<or> lof \<and> k = length (vout tx) - 1 \<and> 3 \<le> length (vout tx)) \<and>
    amount \<le> sum_list (map nValue (filter (\<lambda>out. scriptPubKey out = script) (tl (vout tx))))"
proof -
  obtain v where loop: "coldstake_loop lof script (length (vout tx)) 1 (tl (vout tx)) 0 = Some v"
    and cs: "IsCoinStake tx" "length (vin tx) = 1" "amount \<le> v"
    using assms(1)
    by (auto simp: Checker_CheckColdStake_def bindE_eq_Inr_iff split: list.splits if_splits option.splits)
  obtain o1 os where vout: "vout tx = o1 # os" using IsCoinStake_outputs[OF cs(1)] by (cases "vout tx") auto
  have pos: "\<forall>out \<in> set os. 0 \<le> nValue out" "0 + sum_list (map nValue os) < 2 ^ 63"
    using assms vout by auto
  have "v = 0 + sum_list (map nValue (filter (\<lambda>out. scriptPubKey out = script) os)) \<and>
    (\<forall>k < length os. scriptPubKey (os ! k) = script \<or> lof \<and> 1 + k = length (vout tx) - 1 \<and> 3 \<le> length (vout tx))"
    using coldstake_loop_sound[OF loop[unfolded vout list.sel] pos(1) _ pos(2)] vout by simp
  then show ?thesis using cs vout by (auto simp: nth_Cons' less_Suc_eq_0_disj)
qed

lemma P2CS_not_P2SH: "length staker = 20 \<Longrightarrow> length owner = 20 \<Longrightarrow> \<not> IsPayToScriptHash (P2CS lof staker owner)"
  by (simp add: IsPayToScriptHash_def)

text \<open>
  (C5) A cold-staking output cannot be stolen by the staker.  Whatever the signature script is, if
  \<open>VerifyScript\<close> accepts the spending of a pay-to-cold-staking output, then either a key that hashes
  to the owner's hash signed the transaction, or a key that hashes to the staker's did and the
  transaction is a coinstake with a single input that pays at least the spent amount back to the very
  same script, all of whose outputs behind the first have that script, except that the variant with a
  free last output lets the last of at least three outputs differ.
\<close>

theorem cold_staking_safety:
  assumes "length staker = 20" "length owner = 20"
    and "VerifyScript scrSig (P2CS lof staker owner) flags (TransactionSignatureChecker c tx nIn amount cache) sv
      = Some (Inr ())"
    and "\<forall>out \<in> set (vout tx). 0 \<le> nValue out" and "sum_list (map nValue (vout tx)) < 2 ^ 63"
  shows "\<exists>pk sig. Checker_CheckSig c tx nIn amount cache sig pk
       (fst (FindAndDelete (P2CS lof staker owner) (push_vch sig))) sv = Some True \<and>
     (Hash160 pk = owner \<or>
      Hash160 pk = staker \<and> IsCoinStake tx \<and> length (vin tx) = 1 \<and>
      (\<forall>k. 1 \<le> k \<and> k < length (vout tx) \<longrightarrow>
         scriptPubKey (vout tx ! k) = P2CS lof staker owner \<or>
         lof \<and> k = length (vout tx) - 1 \<and> 3 \<le> length (vout tx)) \<and>
      amount \<le> sum_list (map nValue (filter (\<lambda>out. scriptPubKey out = P2CS lof staker owner) (tl (vout tx)))))"
proof -
  define env where "env = \<lparr>ev_script = P2CS lof staker owner, ev_flags = flags,
    ev_checker = TransactionSignatureChecker c tx nIn amount cache, ev_sigversion = sv\<rparr>"
  obtain st1 x st' where "EvalScript_loop env (P2CS lof staker owner) (machine st1 [] 0 (P2CS lof staker owner)) = Inr st'"
    and top: "e_stack st' = x" "\<exists>t r. x = t # r \<and> CastToBool t"
    using assms unfolding VerifyScript_not_P2SH[OF P2CS_not_P2SH[OF assms(1,2)]] EvalScript_eq_Inr env_def by blast
  from run_P2CS[OF assms(1,2) this(1)] obtain pk sig sel rest b
    where chk: "sig_checked env (P2CS lof staker owner) pk sig b" and e: "e_stack st' = vchBool b # rest"
      and br: "if CastToBool sel
        then Hash160 pk = staker \<and>
          CheckColdStake (ev_checker env) lof (ev_script env) (Hash160 pk # pk # sig # rest) (ev_flags env) = Inr ()
        else Hash160 pk = owner"
    by blast
  have b: "b" using top e by (auto split: if_splits)
  have "Checker_CheckSig c tx nIn amount cache sig pk
      (fst (FindAndDelete (P2CS lof staker owner) (push_vch sig))) sv = Some True"
    using chk b unfolding env_def by (simp add: sig_checked_True)
  moreover have "Checker_CheckColdStake c tx amount lof (P2CS lof staker owner) (Hash160 pk # pk # sig # rest) flags = Inr ()"
    if "CastToBool sel"
    using br that by (auto simp: env_def TransactionSignatureChecker_def)
  note Checker_CheckColdStake_sound[OF this assms(4,5)]
  ultimately show ?thesis using br by (cases "CastToBool sel") auto
qed

lemma EvalScript_P2CS_owner:
  fixes staker owner flags ck sv lof
  defines "script \<equiv> P2CS lof staker owner"
  defines "env \<equiv> \<lparr>ev_script = script, ev_flags = flags, ev_checker = ck, ev_sigversion = sv\<rparr>"
  assumes len: "length staker = 20" "length owner = 20"
    and pk: "Hash160 pk = owner" and chk: "sig_checked env script pk sig b"
  shows "EvalScript [pk, [], sig] script flags ck sv = Inr [vchBool b]"
proof -
  define cop where "cop = (if lof then OP_CHECKCOLDSTAKEVERIFY_LOF else OP_CHECKCOLDSTAKEVERIFY)"
  have cop: "cop \<in> {OP_CHECKCOLDSTAKEVERIFY, OP_CHECKCOLDSTAKEVERIFY_LOF}" by (simp add: cop_def)
  have script: "script = push_op OP_DUP @ push_op OP_HASH160 @ push_op OP_ROT @ push_op OP_IF @
      push_op cop @ push_vch staker @ push_op OP_ELSE @ push_vch owner @ push_op OP_ENDIF @ checksig_tail"
    by (simp add: script_def P2CS_def standard_tails cop_def)
  let ?n = "Suc (Suc (Suc (Suc 0)))"
  have "EvalScript_loop env checksig_tail (machine [owner, owner, pk, sig] [] (Suc (Suc (Suc ?n))) script) =
      Inr (machine [vchBool b] [] (Suc (Suc (Suc ?n)) + 2) script)"
    using chk by (subst run_checksig_tail) (auto split del: if_split)
  then have "EvalScript_loop env (push_op cop @ push_vch staker @ push_op OP_ELSE @ push_vch owner @ push_op OP_ENDIF @ checksig_tail)
      (machine [owner, pk, sig] [False] ?n script) = Inr (machine [vchBool b] [] (Suc (Suc (Suc ?n)) + 2) script)"
    by (subst run_P2CS_owner[OF len cop]) (simp_all split del: if_split)
  then have "EvalScript_loop env script (machine [pk, [], sig] [] 0 script) =
      Inr (machine [vchBool b] [] (Suc (Suc (Suc ?n)) + 2) script)"
    using pk by (subst (1) script, subst run_P2CS_head) (simp split del: if_split)
  then show ?thesis
    using len unfolding EvalScript_eq_Inr env_def by (auto simp: script_def)
qed

theorem cold_staking_safety_witness:
  "\<exists>pk sig. Checker_CheckSig example_crypto example_tx 0 7 None sig pk
       (fst (FindAndDelete (P2CS False (replicate 20 0) (Hash160 (2 # replicate 32 0))) (push_vch sig))) SIGVERSION_BASE = Some True"
proof -
  define pk sig :: bytes where "pk = 2 # replicate 32 0" and "sig = replicate 71 1"
  let ?s = "P2CS False (replicate 20 0) (Hash160 pk)"
  let ?ck = "TransactionSignatureChecker example_crypto example_tx 0 7 None"
  have allowed: "push_allowed \<lparr>ev_script = s, ev_flags = 0, ev_checker = ?ck, ev_sigversion = SIGVERSION_BASE\<rparr> b"
    if "length b \<le> 520" for s b
    using that by (simp add: push_allowed_def fRequireMinimal_def flag_def)
  have "EvalScript [] (push_vch sig @ push_vch [] @ push_vch pk @ []) 0 ?ck SIGVERSION_BASE = Inr [pk, [], sig]"
    unfolding EvalScript_def pk_def sig_def
    by (simp add: EvalScript_loop_push[OF allowed] del: append_Nil2) (simp add: push_vch_def)
  moreover have "sig_checked \<lparr>ev_script = ?s, ev_flags = 0, ev_checker = ?ck, ev_sigversion = SIGVERSION_BASE\<rparr> ?s pk sig True"
    unfolding sig_checked_True
    by (auto simp: Checker_CheckSig_True pk_def sig_def CheckSignatureEncoding_def CheckPubKeyEncoding_def flag_def
        CPubKey_ValidSize_def CPubKey_GetLen_def SignatureHash_def example_tx_def CMutableTransaction_def
        isSaplingVersion_def example_crypto_def)
  then have "EvalScript [pk, [], sig] ?s 0 ?ck SIGVERSION_BASE = Inr [vchTrue]"
    using EvalScript_P2CS_owner[of "replicate 20 0" "Hash160 pk" pk False 0 ?ck SIGVERSION_BASE sig True]
    by (simp add: length_Hash160)
  ultimately have "VerifyScript (push_vch sig @ push_vch [] @ push_vch pk @ []) ?s 0 ?ck SIGVERSION_BASE = Some (Inr ())"
    by (subst VerifyScript_not_P2SH[OF P2CS_not_P2SH]) (auto simp: length_Hash160 flag_def)
  from cold_staking_safety[OF _ _ this] show ?thesis
    by (auto simp: pk_def length_Hash160 example_tx_def CMutableTransaction_def)
qed

subsection \<open>Pay to script hash\<close>

lemma EvalScript_P2SH_iff:
  assumes h: "length h = 20"
  shows "EvalScript stk (GetScriptForDestination (CScriptID h)) flags ck sv = Inr stk' \<longleftrightarrow>
    (\<exists>redeem st. stk = redeem # st \<and> length st \<le> 998 \<and> stk' = vchBool (Hash160 redeem = h) # st)"
proof -
  let ?s = "GetScriptForDestination (CScriptID h)"
  have s: "?s = push_op OP_HASH160 @ push_vch h @ push_op OP_EQUAL" by (simp add: GetScriptForDestination_def)
  have len: "length ?s \<le> 10000" using h by (simp add: s push_op_def push_vch_def)
  show ?thesis
    using len
    unfolding EvalScript_eq_Inr
    by (cases stk) (auto simp: s run_op run_last_op run_switch op_hash_def op_equal_def EvalScript_loop_push20[OF h] Let_def
        split del: if_split)
qed

text \<open>
  (C16) What it takes to spend a pay-to-script-hash output, when the flag \<open>P2SH\<close> is set: the
  signature script consists of pushes only, the last push is a script that hashes to the hash in the
  output, and that script, run on the stack of the earlier pushes, succeeds with a true value on top
  (and nothing else, if \<open>CLEANSTACK\<close> is set).
\<close>

theorem P2SH_spending:
  assumes "length h = 20" and "flag flags SCRIPT_VERIFY_P2SH"
  shows "VerifyScript scrSig (GetScriptForDestination (CScriptID h)) flags ck sv = Some (Inr ()) \<longleftrightarrow>
    IsPushOnly scrSig \<and>
    (\<exists>redeem st x st'. EvalScript [] scrSig flags ck sv = Inr (redeem # st) \<and> length st \<le> 998 \<and> Hash160 redeem = h \<and>
       EvalScript st redeem flags ck sv = Inr (x # st') \<and> CastToBool x \<and>
       (flag flags SCRIPT_VERIFY_CLEANSTACK \<longrightarrow> st' = []))"
proof -
  have p2sh: "IsPayToScriptHash (GetScriptForDestination (CScriptID h))"
    using assms(1) by (auto simp: IsPayToScriptHash_iff GetScriptForDestination_def)
  have flow: "(\<exists>st1 x st2. EvalScript [] scrSig flags ck sv = Inr st1 \<and>
       EvalScript st1 (GetScriptForDestination (CScriptID h)) flags ck sv = Inr (x # st2) \<and> CastToBool x \<and> R st1) \<longleftrightarrow>
     (\<exists>redeem st. EvalScript [] scrSig flags ck sv = Inr (redeem # st) \<and> length st \<le> 998 \<and> Hash160 redeem = h \<and>
        R (redeem # st))" for R
    unfolding EvalScript_P2SH_iff[OF assms(1)]
    by (intro iffI; elim exE conjE) (force split: if_splits, force intro: exI[of _ vchTrue])
  define R where "R st1 \<longleftrightarrow> IsPushOnly scrSig \<and> (\<exists>redeem st x st'. st1 = redeem # st \<and>
      EvalScript st redeem flags ck sv = Inr (x # st') \<and> CastToBool x \<and> (flag flags SCRIPT_VERIFY_CLEANSTACK \<longrightarrow> st' = []))"
    for st1
  have "(\<exists>st3. VerifyScript_P2SH scrSig (GetScriptForDestination (CScriptID h)) flags ck sv st1 stk = Some (Inr st3) \<and>
      (flag flags SCRIPT_VERIFY_CLEANSTACK \<longrightarrow> flag flags SCRIPT_VERIFY_P2SH \<and> length st3 = 1)) \<longleftrightarrow> R st1" for st1 stk
    using p2sh assms(2) by (cases st1) (auto simp: R_def VerifyScript_P2SH_def bindE_eq_Inr_iff stack_true_eq_Inr)
  then have "VerifyScript scrSig (GetScriptForDestination (CScriptID h)) flags ck sv = Some (Inr ()) \<longleftrightarrow>
    (flag flags SCRIPT_VERIFY_SIGPUSHONLY \<longrightarrow> IsPushOnly scrSig) \<and>
    (\<exists>redeem st. EvalScript [] scrSig flags ck sv = Inr (redeem # st) \<and> length st \<le> 998 \<and> Hash160 redeem = h \<and>
        R (redeem # st))"
    unfolding VerifyScript_success flow[symmetric] using assms(2) by (simp del: ex_simps)
  then show ?thesis unfolding R_def by blast
qed

theorem P2SH_spending_witness:
  "VerifyScript (push_vch [0x51]) (GetScriptForDestination (CScriptID (Hash160 [0x51]))) 1
     (BaseSignatureChecker (\<lambda>_. True)) SIGVERSION_BASE = Some (Inr ())"
proof -
  have a: "push_allowed \<lparr>ev_script = s, ev_flags = Suc 0, ev_checker = ck, ev_sigversion = sv\<rparr> [0x51]" for s ck sv
    by (simp add: push_allowed_def fRequireMinimal_def flag_def)
  have "EvalScript [] (push_vch [0x51] @ []) 1 (BaseSignatureChecker (\<lambda>_. True)) SIGVERSION_BASE = Inr [[0x51]]"
    unfolding EvalScript_def by (simp add: EvalScript_loop_push[OF a] del: append_Nil2) (simp add: push_vch_def)
  moreover have "EvalScript [] [0x51] 1 (BaseSignatureChecker (\<lambda>_. True)) SIGVERSION_BASE = Inr [CScriptNum_serialize 1]"
    by (simp add: EvalScript_def EvalScript_loop.simps GetOp2_def EvalScript_op_def EvalScript_switch_def
        disabled_opcode_def on_stack_def op_push_value_def stack_limit_def)
  moreover have "CScriptNum_serialize 1 = [1]" by code_simp
  moreover have "IsPushOnly (push_vch [0x51] @ [])" by (subst IsPushOnly_push_vch) simp_all
  ultimately show ?thesis
    by (subst P2SH_spending) (auto simp: length_Hash160 flag_def)
qed

end
