(* ===== verification/StrEncodings.thy ===== *)
theory StrEncodings
  imports Transaction
begin

text \<open>
  \<open>utilstrencodings.cpp\<close> and \<open>utilmoneystr.cpp\<close>: hexadecimal, base 32 and base 64 text, fixed-point
  numbers and amounts.  A C string ends at its first zero byte; reading at or behind the end of the
  list gives that byte.
\<close>

section \<open>Characters\<close>

definition isspace :: "char \<Rightarrow> bool" where
  "isspace c \<longleftrightarrow> of_char c = (32 :: nat) \<or> 9 \<le> (of_char c :: nat) \<and> of_char c \<le> (13 :: nat)"

definition IsDigit :: "char \<Rightarrow> bool" where
  "IsDigit c \<longleftrightarrow> 48 \<le> (of_char c :: nat) \<and> of_char c \<le> (57 :: nat)"

definition digit_val :: "char \<Rightarrow> int" where
  "digit_val c = int (of_char c) - 48"

definition ToLower :: "char \<Rightarrow> char" where
  "ToLower c = (if 65 \<le> (of_char c :: nat) \<and> of_char c \<le> (90 :: nat) then char_of (of_char c + 32 :: nat) else c)"

definition ToUpper :: "char \<Rightarrow> char" where
  "ToUpper c = (if 97 \<le> (of_char c :: nat) \<and> of_char c \<le> (122 :: nat) then char_of (of_char c - 32 :: nat) else c)"

section \<open>Hexadecimal\<close>

definition p_util_hexdigit :: "int list" where
  "p_util_hexdigit =
  [
   -1, -1, -1, -1, -1, -1, -1, -1, -1, -1, -1, -1, -1, -1, -1, -1, -1, -1, -1, -1, -1, -1, -1, -1, -1, -1, -1, -1, -1, -1, -1, -1,
   -1, -1, -1, -1, -1, -1, -1, -1, -1, -1, -1, -1, -1, -1, -1, -1, 0, 1, 2, 3, 4, 5, 6, 7, 8, 9, -1, -1, -1, -1, -1, -1,
   -1, 10, 11, 12, 13, 14, 15, -1, -1, -1, -1, -1, -1, -1, -1, -1, -1, -1, -1, -1, -1, -1, -1, -1, -1, -1, -1, -1, -1, -1, -1, -1,
   -1, 10, 11, 12, 13, 14, 15, -1, -1, -1, -1, -1, -1, -1, -1, -1, -1, -1, -1, -1, -1, -1, -1, -1, -1, -1, -1, -1, -1, -1, -1, -1,
   -1, -1, -1, -1, -1, -1, -1, -1, -1, -1, -1, -1, -1, -1, -1, -1, -1, -1, -1, -1, -1, -1, -1, -1, -1, -1, -1, -1, -1, -1, -1, -1,
   -1, -1, -1, -1, -1, -1, -1, -1, -1, -1, -1, -1, -1, -1, -1, -1, -1, -1, -1, -1, -1, -1, -1, -1, -1, -1, -1, -1, -1, -1, -1, -1,
   -1, -1, -1, -1, -1, -1, -1, -1, -1, -1, -1, -1, -1, -1, -1, -1, -1, -1, -1, -1, -1, -1, -1, -1, -1, -1, -1, -1, -1, -1, -1, -1,
   -1, -1, -1, -1, -1, -1, -1, -1, -1, -1, -1, -1, -1, -1, -1, -1, -1, -1, -1, -1, -1, -1, -1, -1, -1, -1, -1, -1, -1, -1, -1, -1]"

definition HexDigit :: "char \<Rightarrow> int" where
  "HexDigit c = p_util_hexdigit ! of_char c"

definition IsHex :: "string \<Rightarrow> bool" where
  "IsHex str \<longleftrightarrow> (\<forall>c \<in> set str. \<not> HexDigit c < 0) \<and> length str > 0 \<and> length str mod 2 = 0"

fun ParseHex :: "string \<Rightarrow> bytes" where
  "ParseHex [] = []"
| "ParseHex (x # psz) =
     (if isspace x then ParseHex psz
      else if HexDigit x = -1 then []
      else case psz of
             [] \<Rightarrow> []
           | y # psz' \<Rightarrow>
               if HexDigit y = -1 then []
               else (push_bit 4 (word_of_int (HexDigit x)) OR word_of_int (HexDigit y)) # ParseHex psz')"

definition hexmap :: string where
  "hexmap = ''0123456789abcdef''"

definition HexStr :: "bytes \<Rightarrow> string" where
  "HexStr s = concat (map (\<lambda>v. [hexmap ! unat (drop_bit 4 v), hexmap ! unat (v AND 15)]) s)"

section \<open>Regrouping bits\<close>

text \<open>The inner loop of \<open>ConvertBits\<close>: the groups it emits and the number of bits it leaves.\<close>

function ConvertBits_emit :: "nat \<Rightarrow> nat \<Rightarrow> nat \<Rightarrow> nat list \<times> nat" where
  "ConvertBits_emit tobits acc bits =
     (if tobits = 0 \<or> bits < tobits then ([], bits)
      else let bits' = bits - tobits; (out, rest) = ConvertBits_emit tobits acc bits'
           in ((drop_bit bits' acc AND mask tobits) # out, rest))"
  by pat_completeness auto
termination by (relation "measure (\<lambda>(t, a, b). b)") auto

declare ConvertBits_emit.simps [simp del]

fun ConvertBits_loop :: "nat \<Rightarrow> nat \<Rightarrow> nat \<Rightarrow> nat \<Rightarrow> nat list \<Rightarrow> nat list \<times> nat \<times> nat" where
  "ConvertBits_loop frombits tobits acc bits [] = ([], acc, bits)"
| "ConvertBits_loop frombits tobits acc bits (v # vs) =
     (let acc' = (push_bit frombits acc OR v) AND mask (frombits + tobits - 1);
          (out, bits') = ConvertBits_emit tobits acc' (bits + frombits);
          (out', acc'', bits'') = ConvertBits_loop frombits tobits acc' bits' vs
      in (out @ out', acc'', bits''))"

text \<open>The values passed to \<open>outfn\<close> and the returned flag.\<close>

definition ConvertBits :: "nat \<Rightarrow> nat \<Rightarrow> bool \<Rightarrow> nat list \<Rightarrow> nat list \<times> bool" where
  "ConvertBits frombits tobits fPad vs =
     (let (out, acc, bits) = ConvertBits_loop frombits tobits 0 0 vs
      in if fPad then
           (if bits \<noteq> 0 then out @ [push_bit (tobits - bits) acc AND mask tobits] else out, True)
         else (out, \<not> (bits \<ge> frombits \<or> push_bit (tobits - bits) acc AND mask tobits \<noteq> 0)))"

section \<open>Base 64 and base 32\<close>

definition pad_string :: "nat \<Rightarrow> string \<Rightarrow> string" where
  "pad_string k str = str @ replicate ((k - length str mod k) mod k) CHR ''=''"

definition pbase64 :: string where
  "pbase64 = ''ABCDEFGHIJKLMNOPQRSTUVWXYZabcdefghijklmnopqrstuvwxyz0123456789+/''"

definition EncodeBase64 :: "bytes \<Rightarrow> string" where
  "EncodeBase64 input =
     pad_string 4 (map (\<lambda>v. pbase64 ! v) (fst (ConvertBits 8 6 True (map unat input))))"

definition decode64_table :: "int list" where
  "decode64_table =
  [
   -1, -1, -1, -1, -1, -1, -1, -1, -1, -1, -1, -1, -1, -1, -1, -1, -1, -1, -1, -1, -1, -1, -1, -1, -1, -1, -1, -1, -1, -1, -1, -1,
   -1, -1, -1, -1, -1, -1, -1, -1, -1, -1, -1, 62, -1, -1, -1, 63, 52, 53, 54, 55, 56, 57, 58, 59, 60, 61, -1, -1, -1, -1, -1, -1,
   -1, 0, 1, 2, 3, 4, 5, 6, 7, 8, 9, 10, 11, 12, 13, 14, 15, 16, 17, 18, 19, 20, 21, 22, 23, 24, 25, -1, -1, -1, -1, -1,
   -1, 26, 27, 28, 29, 30, 31, 32, 33, 34, 35, 36, 37, 38, 39, 40, 41, 42, 43, 44, 45, 46, 47, 48, 49, 50, 51, -1, -1, -1, -1, -1,
   -1, -1, -1, -1, -1, -1, -1, -1, -1, -1, -1, -1, -1, -1, -1, -1, -1, -1, -1, -1, -1, -1, -1, -1, -1, -1, -1, -1, -1, -1, -1, -1,
   -1, -1, -1, -1, -1, -1, -1, -1, -1, -1, -1, -1, -1, -1, -1, -1, -1, -1, -1, -1, -1, -1, -1, -1, -1, -1, -1, -1, -1, -1, -1, -1,
   -1, -1, -1, -1, -1, -1, -1, -1, -1, -1, -1, -1, -1, -1, -1, -1, -1, -1, -1, -1, -1, -1, -1, -1, -1, -1, -1, -1, -1, -1, -1, -1,
   -1, -1, -1, -1, -1, -1, -1, -1, -1, -1, -1, -1, -1, -1, -1, -1, -1, -1, -1, -1, -1, -1, -1, -1, -1, -1, -1, -1, -1, -1, -1, -1]"

text \<open>
  The body shared by \<open>DecodeBase64\<close> and \<open>DecodeBase32\<close>: the longest prefix of table characters, the
  bytes regrouped from it, and the flag \<open>valid\<close>.
\<close>

definition decode_table :: "int list \<Rightarrow> nat \<Rightarrow> nat \<Rightarrow> string \<Rightarrow> bytes \<times> bool" where
  "decode_table table bits grp str =
     (let p = takeWhile (\<lambda>c. c \<noteq> CHR 0x00) str;
          good = takeWhile (\<lambda>c. table ! of_char c \<noteq> -1) p;
          rest = drop (length good) p;
          (out, valid) = ConvertBits bits 8 False (map (\<lambda>c. nat (table ! of_char c)) good)
      in (map of_nat out,
          valid \<and> (\<forall>c \<in> set rest. c = CHR ''='') \<and> length p mod grp = 0 \<and> length rest < grp))"

definition DecodeBase64 :: "string \<Rightarrow> bytes \<times> bool" where
  "DecodeBase64 str = decode_table decode64_table 6 4 str"

definition pbase32 :: string where
  "pbase32 = ''abcdefghijklmnopqrstuvwxyz234567''"

definition EncodeBase32 :: "bytes \<Rightarrow> bool \<Rightarrow> string" where
  "EncodeBase32 input fPad =
     (let str = map (\<lambda>v. pbase32 ! v) (fst (ConvertBits 8 5 True (map unat input)))
      in if fPad then pad_string 8 str else str)"

definition decode32_table :: "int list" where
  "decode32_table =
  [
   -1, -1, -1, -1, -1, -1, -1, -1, -1, -1, -1, -1, -1, -1, -1, -1, -1, -1, -1, -1, -1, -1, -1, -1, -1, -1, -1, -1, -1, -1, -1, -1,
   -1, -1, -1, -1, -1, -1, -1, -1, -1, -1, -1, -1, -1, -1, -1, -1, -1, -1, 26, 27, 28, 29, 30, 31, -1, -1, -1, -1, -1, -1, -1, -1,
   -1, 0, 1, 2, 3, 4, 5, 6, 7, 8, 9, 10, 11, 12, 13, 14, 15, 16, 17, 18, 19, 20, 21, 22, 23, 24, 25, -1, -1, -1, -1, -1,
   -1, 0, 1, 2, 3, 4, 5, 6, 7, 8, 9, 10, 11, 12, 13, 14, 15, 16, 17, 18, 19, 20, 21, 22, 23, 24, 25, -1, -1, -1, -1, -1,
   -1, -1, -1, -1, -1, -1, -1, -1, -1, -1, -1, -1, -1, -1, -1, -1, -1, -1, -1, -1, -1, -1, -1, -1, -1, -1, -1, -1, -1, -1, -1, -1,
   -1, -1, -1, -1, -1, -1, -1, -1, -1, -1, -1, -1, -1, -1, -1, -1, -1, -1, -1, -1, -1, -1, -1, -1, -1, -1, -1, -1, -1, -1, -1, -1,
   -1, -1, -1, -1, -1, -1, -1, -1, -1, -1, -1, -1, -1, -1, -1, -1, -1, -1, -1, -1, -1, -1, -1, -1, -1, -1, -1, -1, -1, -1, -1, -1,
   -1, -1, -1, -1, -1, -1, -1, -1, -1, -1, -1, -1, -1, -1, -1, -1, -1, -1, -1, -1, -1, -1, -1, -1, -1, -1, -1, -1, -1, -1, -1, -1]"

definition DecodeBase32 :: "string \<Rightarrow> bytes \<times> bool" where
  "DecodeBase32 str = decode_table decode32_table 5 8 str"

section \<open>Fixed-point numbers\<close>

abbreviation (input) UPPER_BOUND :: int where "UPPER_BOUND \<equiv> 9000000000000000000"

text \<open>The loop of \<open>ProcessMantissaDigit\<close>: \<open>k\<close> multiplications by ten with the overflow check.\<close>

fun scale10 :: "nat \<Rightarrow> int \<Rightarrow> int option" where
  "scale10 0 mantissa = Some mantissa"
| "scale10 (Suc k) mantissa =
     (if mantissa > UPPER_BOUND div 10 then None else scale10 k (wrap64 (mantissa * 10)))"

definition ProcessMantissaDigit :: "char \<Rightarrow> int \<times> nat \<Rightarrow> (int \<times> nat) option" where
  "ProcessMantissaDigit ch st =
     (let (mantissa, mantissa_tzeros) = st
      in if ch = CHR ''0'' then Some (mantissa, mantissa_tzeros + 1)
         else case scale10 (mantissa_tzeros + 1) mantissa of
                None \<Rightarrow> None
              | Some m \<Rightarrow> Some (wrap64 (m + digit_val ch), 0))"

text \<open>A run of mantissa digits: the state, the number of digits and the rest of the string.\<close>

fun mantissa_digits :: "string \<Rightarrow> int \<times> nat \<Rightarrow> nat \<Rightarrow> ((int \<times> nat) \<times> nat \<times> string) option" where
  "mantissa_digits [] st n = Some (st, n, [])"
| "mantissa_digits (c # cs) st n =
     (if IsDigit c then
        (case ProcessMantissaDigit c st of
           None \<Rightarrow> None | Some st' \<Rightarrow> mantissa_digits cs st' (n + 1))
      else Some (st, n, c # cs))"

fun exponent_digits :: "string \<Rightarrow> int \<Rightarrow> (int \<times> string) option" where
  "exponent_digits [] e = Some (e, [])"
| "exponent_digits (c # cs) e =
     (if IsDigit c then
        (if e > UPPER_BOUND div 10 then None else exponent_digits cs (wrap64 (e * 10 + digit_val c)))
      else Some (e, c # cs))"

definition starts_digit :: "string \<Rightarrow> bool" where
  "starts_digit s \<longleftrightarrow> s \<noteq> [] \<and> IsDigit (hd s)"

text \<open>The integer part, the fraction and the exponent, in the order in which they are read.\<close>

definition fixed_integer :: "string \<Rightarrow> ((int \<times> nat) \<times> string) option" where
  "fixed_integer s =
     (case s of
        [] \<Rightarrow> None
      | c # cs \<Rightarrow>
          if c = CHR ''0'' then Some ((0, 0), cs)
          else if IsDigit c then
            map_option (\<lambda>(st, n, r). (st, r)) (mantissa_digits s (0, 0) 0)
          else None)"

definition fixed_fraction :: "(int \<times> nat) \<Rightarrow> string \<Rightarrow> ((int \<times> nat) \<times> nat \<times> string) option" where
  "fixed_fraction st s =
     (if s \<noteq> [] \<and> hd s = CHR ''.'' then
        (if starts_digit (tl s) then mantissa_digits (tl s) st 0 else None)
      else Some (st, 0, s))"

definition fixed_exponent :: "string \<Rightarrow> (int \<times> string) option" where
  "fixed_exponent s =
     (if s \<noteq> [] \<and> (hd s = CHR ''e'' \<or> hd s = CHR ''E'') then
        (let t = tl s;
             neg = (t \<noteq> [] \<and> hd t = CHR ''-'');
             u = (if t \<noteq> [] \<and> (hd t = CHR ''+'' \<or> hd t = CHR ''-'') then tl t else t)
         in if starts_digit u
            then map_option (\<lambda>(e, r). (if neg then - e else e, r)) (exponent_digits u 0)
            else None)
      else Some (0, s))"

text \<open>The final scaling: \<open>k\<close> multiplications by ten of the signed mantissa.\<close>

fun scale10_signed :: "nat \<Rightarrow> int \<Rightarrow> int option" where
  "scale10_signed 0 mantissa = Some mantissa"
| "scale10_signed (Suc k) mantissa =
     (if mantissa > UPPER_BOUND div 10 \<or> mantissa < - (UPPER_BOUND div 10) then None
      else scale10_signed k (wrap64 (mantissa * 10)))"

definition ParseFixedPoint :: "string \<Rightarrow> int \<Rightarrow> int option" where
  "ParseFixedPoint val decimals =
     (let mantissa_sign = (val \<noteq> [] \<and> hd val = CHR ''-'');
          s0 = (if mantissa_sign then tl val else val)
      in Option.bind (fixed_integer s0) (\<lambda>(st1, s1).
         Option.bind (fixed_fraction st1 s1) (\<lambda>((mantissa, mantissa_tzeros), point_ofs, s2).
         Option.bind (fixed_exponent s2) (\<lambda>(exponent, s3).
           if s3 \<noteq> [] then None
           else let e = wrap64 (wrap64 (exponent - int point_ofs + int mantissa_tzeros) + decimals);
                    m = (if mantissa_sign then - mantissa else mantissa)
                in if e < 0 then None
                else if e \<ge> 19 then None
                else Option.bind (scale10_signed (nat e) m) (\<lambda>m'.
                  if m' > UPPER_BOUND \<or> m' < - UPPER_BOUND then None else Some m')))))"

section \<open>Amounts\<close>

fun digits_rev :: "nat \<Rightarrow> string" where
  "digits_rev n =
     char_of (48 + n mod 10) # (if n < 10 then [] else digits_rev (n div 10))"

declare digits_rev.simps [simp del]

text \<open>The conversions \<open>%d\<close> and \<open>%08d\<close> of a nonnegative number.\<close>

definition format_d :: "nat \<Rightarrow> string" where
  "format_d n = rev (digits_rev n)"

definition format_08d :: "nat \<Rightarrow> string" where
  "format_08d n = (let s = format_d n in replicate (8 - length s) CHR ''0'' @ s)"

text \<open>
  The trimming loop, on the reversed string: \<open>str[i]\<close> is a zero and \<open>str[i - 2]\<close> a digit.  The decimal
  point keeps \<open>i\<close> at least two.
\<close>

fun trim_zeros :: "string \<Rightarrow> string" where
  "trim_zeros (c # d # e # r) = (if c = CHR ''0'' \<and> IsDigit e then trim_zeros (d # e # r) else c # d # e # r)"
| "trim_zeros s = s"

text \<open>\<open>n\<close> is not the least 64-bit integer, whose negation is undefined.\<close>

definition FormatMoney :: "CAmount \<Rightarrow> bool \<Rightarrow> string" where
  "FormatMoney n fPlus =
     (let n_abs = nat \<bar>n\<bar>;
          str = format_d (n_abs div 100000000) @ ''.'' @ format_08d (n_abs mod 100000000);
          str' = rev (trim_zeros (rev str))
      in if n < 0 then CHR ''-'' # str'
         else if fPlus \<and> n > 0 then CHR ''+'' # str'
         else str')"

text \<open>The digits behind the decimal point, and the rest of the string.\<close>

fun money_units :: "string \<Rightarrow> int \<Rightarrow> int \<Rightarrow> int \<times> string" where
  "money_units [] nMult nUnits = (nUnits, [])"
| "money_units (c # p) nMult nUnits =
     (if IsDigit c \<and> nMult > 0 then money_units p (nMult div 10) (nUnits + nMult * digit_val c)
      else (nUnits, c # p))"

text \<open>The main loop: the digits before the point, the units and the unread rest; \<open>None\<close> is \<open>return false\<close>.\<close>

fun money_whole :: "string \<Rightarrow> string \<Rightarrow> (string \<times> int \<times> string) option" where
  "money_whole [] strWhole = Some (strWhole, 0, [])"
| "money_whole (c # p) strWhole =
     (if c = CHR ''.'' then
        (let (nUnits, r) = money_units p 10000000 0 in Some (strWhole, nUnits, r))
      else if isspace c then Some (strWhole, 0, c # p)
      else if \<not> IsDigit c then None
      else money_whole p (strWhole @ [c]))"

fun digits_value :: "string \<Rightarrow> int \<Rightarrow> int" where
  "digits_value [] n = n"
| "digits_value (c # cs) n = digits_value cs (n * 10 + digit_val c)"

definition ParseMoney :: "string \<Rightarrow> CAmount option" where
  "ParseMoney str =
     (let p = dropWhile isspace (takeWhile (\<lambda>c. c \<noteq> CHR 0x00) str)
      in case money_whole p [] of
           None \<Rightarrow> None
         | Some (strWhole, nUnits, r) \<Rightarrow>
             if \<exists>c \<in> set r. \<not> isspace c then None
             else if length strWhole > 10 then None
             else if nUnits < 0 \<or> nUnits > 100000000 then None
             else Some (wrap64 (digits_value strWhole 0 * 100000000 + nUnits)))"

section \<open>Hexadecimal round trip\<close>

lemma hex_digits: "list_all (\<lambda>v. HexDigit (hexmap ! v) = int v \<and> \<not> isspace (hexmap ! v)) [0..<16]"
  by code_simp

lemma HexDigit_hexmap [simp]: "v < 16 \<Longrightarrow> HexDigit (hexmap ! v) = int v" "v < 16 \<Longrightarrow> \<not> isspace (hexmap ! v)"
  using hex_digits by (simp_all add: list_all_iff)

lemma unat_nibbles [simp]: "unat (drop_bit 4 (v :: byte)) < 16" "unat (v AND 15) < 16"
proof -
  show "unat (v AND 15) < 16" using word_and_le1[of v 15] by (simp add: word_le_nat_alt)
  have "unat v div 16 < 16" using unat_byte_less[of v] by (simp add: less_mult_imp_div_less)
  then show "unat (drop_bit 4 v) < 16" by (simp only: unat_drop_bit_eq drop_bit_nat_def) simp
qed

lemma join_nibbles: "push_bit 4 (drop_bit 4 v) OR (v AND 15) = (v :: byte)"
proof -
  have 15: "(15 :: byte) = mask 4" by (simp add: mask_eq_decr_exp)
  show ?thesis unfolding 15 by (rule bit_word_eqI) (auto simp: bit_simps)
qed

lemma uint_not_minus_one [simp]: "uint (w :: byte) \<noteq> - 1"
  using uint_nonnegative[of w] by linarith

lemma ParseHex_HexStr: "ParseHex (HexStr s) = s"
  by (induction s) (simp_all add: HexStr_def join_nibbles)

lemma IsHex_HexStr: "s \<noteq> [] \<Longrightarrow> IsHex (HexStr s)"
proof -
  have "(\<forall>c \<in> set (HexStr s). \<not> HexDigit c < 0) \<and> length (HexStr s) = 2 * length s"
    by (induction s) (auto simp: HexStr_def)
  then show "s \<noteq> [] \<Longrightarrow> IsHex (HexStr s)" by (simp add: IsHex_def)
qed

section \<open>Regrouping bits\<close>

text \<open>The \<open>k\<close> low bits of a number, most significant first.\<close>

definition bits_of :: "nat \<Rightarrow> nat \<Rightarrow> bool list" where
  "bits_of k v = map (\<lambda>i. bit v (k - Suc i)) [0..<k]"

lemma length_bits_of [simp]: "length (bits_of k v) = k"
  by (simp add: bits_of_def)

lemma bits_of_0 [simp]: "bits_of 0 v = []"
  by (simp add: bits_of_def)

lemma bits_of_eq: "\<lbrakk>\<And>i. i < k \<Longrightarrow> bit v i = bit w i\<rbrakk> \<Longrightarrow> bits_of k v = bits_of k w"
  by (auto simp: bits_of_def)

lemma bits_of_mask: "k \<le> m \<Longrightarrow> bits_of k (v AND mask m) = bits_of k v"
  by (rule bits_of_eq) (simp add: bit_simps)

lemma bits_of_append: "bits_of (j + k) v = bits_of j (drop_bit k v) @ bits_of k v"
  by (rule nth_equalityI) (auto simp: bits_of_def nth_append bit_simps algebra_simps intro!: arg_cong[where f = "bit v"])

lemma bits_of_push: "bits_of (j + k) (push_bit k v OR w) = bits_of j v @ bits_of k w" if "w < 2 ^ k"
proof -
  have w: "\<not> bit w i" if "k \<le> i" for i
    using \<open>w < 2 ^ k\<close> that
    by (metis bit_take_bit_iff linorder_not_le take_bit_nat_eq_self)
  show ?thesis
    unfolding bits_of_append
    by (intro arg_cong2[where f = append] bits_of_eq) (auto simp: bit_simps w)
qed

lemma ConvertBits_emit_bits:
  assumes "ConvertBits_emit t acc bits = (out, rest)" and "0 < t"
  shows "concat (map (bits_of t) out) @ bits_of rest acc = bits_of bits acc \<and> rest < t \<and> (\<forall>v \<in> set out. v < 2 ^ t)"
  using assms
proof (induction t acc bits arbitrary: out rest rule: ConvertBits_emit.induct)
  case (1 t acc bits)
  show ?case
  proof (cases "bits < t")
    case False
    obtain o' r' where r: "ConvertBits_emit t acc (bits - t) = (o', r')" by fastforce
    have out: "out = (drop_bit (bits - t) acc AND mask t) # o'" "rest = r'"
      using "1.prems" False r by (auto simp: ConvertBits_emit.simps[of t acc bits] Let_def)
    have ih: "concat (map (bits_of t) o') @ bits_of r' acc = bits_of (bits - t) acc \<and> r' < t \<and> (\<forall>v \<in> set o'. v < 2 ^ t)"
      using "1.IH"[OF _ refl r] False "1.prems" by simp
    have "bits_of t (drop_bit (bits - t) acc AND mask t) @ bits_of (bits - t) acc = bits_of bits acc"
      using bits_of_append[of t "bits - t" acc] False by (simp add: bits_of_mask)
    moreover have "drop_bit (bits - t) acc AND mask t < 2 ^ t"
      by (simp add: take_bit_eq_mask[symmetric])
    ultimately show ?thesis using ih out by auto
  qed (use "1.prems" in \<open>auto simp: ConvertBits_emit.simps[of t acc bits]\<close>)
qed

lemma ConvertBits_loop_bits:
  assumes "ConvertBits_loop f t acc bits vs = (out, acc', bits')" and "0 < f" "0 < t" and "bits < t"
    and "\<forall>v \<in> set vs. v < 2 ^ f"
  shows "concat (map (bits_of t) out) @ bits_of bits' acc' = bits_of bits acc @ concat (map (bits_of f) vs) \<and>
    bits' < t \<and> (\<forall>v \<in> set out. v < 2 ^ t)"
  using assms
proof (induction vs arbitrary: acc bits out)
  case (Cons v vs)
  define a where "a = (push_bit f acc OR v) AND mask (f + t - 1)"
  obtain o1 b1 where e: "ConvertBits_emit t a (bits + f) = (o1, b1)" by fastforce
  obtain o2 where l: "ConvertBits_loop f t a b1 vs = (o2, acc', bits')" and out: "out = o1 @ o2"
    using Cons.prems(1) e by (auto simp: a_def Let_def split: prod.splits)
  have em: "concat (map (bits_of t) o1) @ bits_of b1 a = bits_of (bits + f) a" "b1 < t" "\<forall>v \<in> set o1. v < 2 ^ t"
    using ConvertBits_emit_bits[OF e \<open>0 < t\<close>] by auto
  have "bits_of (bits + f) a = bits_of bits acc @ bits_of f v"
    unfolding a_def using bits_of_push[of v f bits acc] Cons.prems(4,5) by (subst bits_of_mask) auto
  moreover have "concat (map (bits_of t) o2) @ bits_of bits' acc' = bits_of b1 a @ concat (map (bits_of f) vs)"
    "bits' < t" "\<forall>v \<in> set o2. v < 2 ^ t"
    using Cons.IH[OF l Cons.prems(2,3) em(2)] Cons.prems(5) by auto
  ultimately show ?case
    using em out by (simp add: ball_Un)
qed auto

lemma bits_of_inj:
  assumes "v < 2 ^ k" "w < 2 ^ k" "bits_of k v = bits_of k w"
  shows "v = w"
proof (rule bit_eqI)
  fix i
  have small: "\<not> bit x i" if "k \<le> i" "x < 2 ^ k" for x :: nat
    using that by (metis bit_take_bit_iff linorder_not_le take_bit_nat_eq_self)
  show "bit v i = bit w i"
  proof (cases "i < k")
    case True
    then have "bits_of k v ! (k - Suc i) = bits_of k w ! (k - Suc i)" using assms(3) by simp
    with True show ?thesis by (simp add: bits_of_def Suc_diff_Suc)
  qed (use small assms in auto)
qed

lemma concat_bits_inj:
  assumes "length vs = length ws" "\<forall>v \<in> set vs. v < 2 ^ k" "\<forall>v \<in> set ws. v < 2 ^ k"
    and "concat (map (bits_of k) vs) @ xs = concat (map (bits_of k) ws) @ ys"
  shows "vs = ws \<and> xs = ys"
  using assms by (induction vs ws rule: list_induct2) (auto dest: bits_of_inj)

lemma length_concat_bits [simp]: "length (concat (map (bits_of k) vs)) = k * length vs"
  by (induction vs) auto

lemma bits_of_shift:
  assumes "b \<le> t"
  shows "bits_of t (push_bit (t - b) acc AND mask t) = bits_of b acc @ replicate (t - b) False"
proof -
  have zero: "bits_of k 0 = replicate k False" for k by (auto simp: bits_of_def intro: nth_equalityI)
  have "bits_of t (push_bit (t - b) acc AND mask t) = bits_of (b + (t - b)) (push_bit (t - b) acc OR 0)"
    using assms by (simp add: bits_of_mask)
  then show ?thesis using bits_of_push[of 0 "t - b" b acc] by (simp add: zero)
qed

text \<open>Padding to whole groups: fewer than \<open>t\<close> zero bits are added.\<close>

lemma ConvertBits_pad:
  assumes "0 < f" "0 < t" and "\<forall>v \<in> set vs. v < 2 ^ f"
  obtains p where "ConvertBits f t True vs = (fst (ConvertBits f t True vs), True)" "p < t"
    and "concat (map (bits_of t) (fst (ConvertBits f t True vs))) = concat (map (bits_of f) vs) @ replicate p False"
    and "\<forall>v \<in> set (fst (ConvertBits f t True vs)). v < 2 ^ t"
proof -
  obtain out acc b where l: "ConvertBits_loop f t 0 0 vs = (out, acc, b)" by (metis prod.exhaust)
  have *: "concat (map (bits_of t) out) @ bits_of b acc = concat (map (bits_of f) vs)" "b < t" "\<forall>v \<in> set out. v < 2 ^ t"
    using ConvertBits_loop_bits[OF l assms(1,2)] assms(2,3) by auto
  have m: "push_bit (t - b) acc AND mask t < 2 ^ t" by (simp add: take_bit_eq_mask[symmetric])
  show thesis
  proof (cases "b = 0")
    case True
    with * l show ?thesis by (intro that[of 0]) (auto simp: ConvertBits_def)
  next
    case False
    with * l m show ?thesis
      by (intro that[of "t - b"]) (auto simp: ConvertBits_def bits_of_shift simp flip: append_assoc)
  qed
qed

lemma div_mod_unique_nat: "(f :: nat) * a + b = f * c + d \<Longrightarrow> b < f \<Longrightarrow> d < f \<Longrightarrow> a = c \<and> b = d"
  by (metis add.commute div_mult_self2 less_nat_zero_code div_less add_cancel_right_left mod_less mod_mult_self2 mult_not_zero)

lemma bits_of_zeros:
  assumes "bits_of b acc = replicate b False" "b \<le> t"
  shows "push_bit (t - b) acc AND mask t = 0"
proof (rule bits_of_inj)
  show "bits_of t (push_bit (t - b) acc AND mask t) = bits_of t 0"
    using assms by (simp add: bits_of_shift) (auto simp: bits_of_def intro: nth_equalityI simp flip: replicate_add)
qed (simp_all add: take_bit_eq_mask[symmetric])

lemma ConvertBits_roundtrip:
  assumes "0 < t" "t \<le> f" and vs: "\<forall>v \<in> set vs. v < 2 ^ f"
  shows "ConvertBits t f False (fst (ConvertBits f t True vs)) = (vs, True)"
proof -
  obtain p where p: "p < t" "concat (map (bits_of t) (fst (ConvertBits f t True vs))) = concat (map (bits_of f) vs) @ replicate p False"
    "\<forall>v \<in> set (fst (ConvertBits f t True vs)). v < 2 ^ t"
    using ConvertBits_pad[OF _ assms(1) vs] assms by (metis order_less_le_trans)
  obtain out acc b where l: "ConvertBits_loop t f 0 0 (fst (ConvertBits f t True vs)) = (out, acc, b)" by (metis prod.exhaust)
  have *: "concat (map (bits_of f) out) @ bits_of b acc = concat (map (bits_of f) vs) @ replicate p False"
    "b < f" "\<forall>v \<in> set out. v < 2 ^ f"
    using ConvertBits_loop_bits[OF l assms(1)] assms(1,2) p by auto
  have "f * length out + b = f * length vs + p"
    using arg_cong[OF *(1), of length] by simp
  then have len: "length out = length vs" "b = p"
    using div_mod_unique_nat[of f "length out" b "length vs" p] *(2) p(1) assms(2) by auto
  have "out = vs" "bits_of b acc = replicate p False"
    using concat_bits_inj[OF len(1) *(3) vs *(1)] by auto
  with len p(1) l assms(2) show ?thesis
    by (auto simp: ConvertBits_def bits_of_zeros)
qed

lemma decode_table_pad_string:
  assumes alph: "\<And>v. v < 2 ^ bits \<Longrightarrow> table ! of_char (alph ! v) = int v \<and> alph ! v \<noteq> CHR 0x00"
    and eq: "table ! of_char (CHR ''='') = -1" and "0 < grp" and vals: "\<forall>v \<in> set vals. v < 2 ^ bits"
  shows "decode_table table bits grp (pad_string grp (map (\<lambda>v. alph ! v) vals)) =
    (map of_nat (fst (ConvertBits bits 8 False vals)), snd (ConvertBits bits 8 False vals))"
proof -
  let ?s = "map (\<lambda>v. alph ! v) vals"
  define k where "k = (grp - length vals mod grp) mod grp"
  have pad: "pad_string grp ?s = ?s @ replicate k CHR ''=''" by (simp add: pad_string_def k_def)
  have k: "k < grp" using \<open>0 < grp\<close> by (simp add: k_def)
  have len: "(length vals + k) mod grp = 0"
  proof -
    have "(length vals + k) mod grp = (length vals mod grp + (grp - length vals mod grp)) mod grp"
      unfolding k_def by (simp add: mod_simps)
    then show ?thesis using \<open>0 < grp\<close> by (simp add: less_imp_le)
  qed
  have nul: "takeWhile (\<lambda>c. c \<noteq> CHR 0x00) (?s @ replicate k CHR ''='') = ?s @ replicate k CHR ''=''"
    using alph vals by (fastforce simp: takeWhile_eq_all_conv)
  have "takeWhile (\<lambda>c. table ! of_char c \<noteq> -1) ?s = ?s"
    using alph vals by (auto simp: takeWhile_eq_all_conv)
  moreover have "takeWhile (\<lambda>c. table ! of_char c \<noteq> -1) (replicate k CHR ''='') = []"
    using eq by (cases k) auto
  ultimately have good: "takeWhile (\<lambda>c. table ! of_char c \<noteq> -1) (?s @ replicate k CHR ''='') = ?s"
    using alph vals by (subst takeWhile_append2) auto
  have m: "map (\<lambda>c. nat (table ! of_char c)) ?s = vals"
    using alph vals by (auto intro: map_idI)
  show ?thesis
    unfolding pad decode_table_def Let_def nul good m
    using k len by (auto simp: split: prod.splits)
qed

lemma base64_table: "list_all (\<lambda>v. decode64_table ! of_char (pbase64 ! v) = int v \<and> pbase64 ! v \<noteq> CHR 0x00) [0..<64]"
  by code_simp

lemma base32_table: "list_all (\<lambda>v. decode32_table ! of_char (pbase32 ! v) = int v \<and> pbase32 ! v \<noteq> CHR 0x00) [0..<32]"
  by code_simp

lemma base_pad_chars: "decode64_table ! 61 = -1" "decode32_table ! 61 = -1"
  by code_simp+

lemma map_of_nat_unat: "map (of_nat \<circ> unat) bs = (bs :: bytes)"
  by (induction bs) auto

lemma base_roundtrips:
  "DecodeBase64 (EncodeBase64 bs) = (bs, True)" "DecodeBase32 (EncodeBase32 bs True) = (bs, True)"
proof -
  have bytes: "\<forall>v \<in> set (map unat bs). v < 2 ^ 8" by auto
  have small: "\<forall>v \<in> set (fst (ConvertBits 8 t True (map unat bs))). v < 2 ^ t" if "0 < t" for t
    using ConvertBits_pad[OF _ that bytes] by (metis zero_less_numeral)
  show "DecodeBase64 (EncodeBase64 bs) = (bs, True)"
    unfolding DecodeBase64_def EncodeBase64_def
    by (subst decode_table_pad_string)
      (use base64_table small[of 6] in \<open>auto simp: base_pad_chars list_all_iff ConvertBits_roundtrip map_of_nat_unat[unfolded o_def] o_def\<close>)
  show "DecodeBase32 (EncodeBase32 bs True) = (bs, True)"
    unfolding DecodeBase32_def EncodeBase32_def Let_def if_True
    by (subst decode_table_pad_string)
      (use base32_table small[of 5] in \<open>auto simp: base_pad_chars list_all_iff ConvertBits_roundtrip map_of_nat_unat[unfolded o_def] o_def\<close>)
qed

section \<open>Fixed-point numbers\<close>

definition digits :: "string \<Rightarrow> bool" where
  "digits ds \<longleftrightarrow> (\<forall>c \<in> set ds. IsDigit c)"

lemma digits_simps [simp]: "digits []" "digits (c # cs) \<longleftrightarrow> IsDigit c \<and> digits cs" "digits (xs @ ys) \<longleftrightarrow> digits xs \<and> digits ys"
  by (auto simp: digits_def)

lemma digit_val_range: "IsDigit c \<Longrightarrow> 0 \<le> digit_val c \<and> digit_val c \<le> 9"
  by (auto simp: IsDigit_def digit_val_def)

lemma digit_val_zero: "IsDigit c \<Longrightarrow> c \<noteq> CHR ''0'' \<Longrightarrow> 1 \<le> digit_val c"
proof -
  assume c: "IsDigit c" "c \<noteq> CHR ''0''"
  have "(of_char c :: nat) \<noteq> of_char CHR ''0''" using c(2) by (simp only: of_char_eq_iff not_False_eq_True)
  then have "(of_char c :: nat) \<noteq> 48" by simp
  then show ?thesis using c(1) by (simp add: IsDigit_def digit_val_def)
qed

lemma digits_value_shift: "digits_value ds n = n * 10 ^ length ds + digits_value ds 0"
proof (induction ds arbitrary: n)
  case (Cons c cs)
  show ?case using Cons[of "n * 10 + digit_val c"] Cons[of "digit_val c"] by (simp add: algebra_simps)
qed simp

lemma digits_value_nonneg: "digits ds \<Longrightarrow> 0 \<le> n \<Longrightarrow> 0 \<le> digits_value ds n"
  by (induction ds arbitrary: n) (auto simp: digit_val_range)

lemma digits_value_mono: "digits ds \<Longrightarrow> 0 \<le> n \<Longrightarrow> n \<le> digits_value ds n"
  using digits_value_shift[of ds n] digits_value_nonneg[of ds 0]
  by (simp add: mult_le_cancel_left1 add_increasing2)

lemma digits_value_pos: "digits ds \<Longrightarrow> 0 < n \<Longrightarrow> 0 < digits_value ds n"
  using digits_value_mono[of ds n] by simp

lemma digits_value_append: "digits_value (xs @ ys) n = digits_value ys (digits_value xs n)"
  by (induction xs arbitrary: n) auto

lemma scale10_eq: "0 \<le> m \<Longrightarrow> scale10 (Suc k) m = (if m * 10 ^ Suc k \<le> UPPER_BOUND then Some (m * 10 ^ Suc k) else None)"
proof (induction k arbitrary: m)
  case (Suc k)
  show ?case
  proof (cases "m > UPPER_BOUND div 10")
    case True
    have "(1 :: int) \<le> 10 ^ Suc k" by (rule one_le_power) simp
    then have "m * 10 * 1 \<le> m * 10 * 10 ^ Suc k" using Suc.prems by (intro mult_left_mono) auto
    then have "m * 10 \<le> m * 10 ^ Suc (Suc k)" by (simp add: mult.assoc)
    then have "\<not> m * 10 ^ Suc (Suc k) \<le> UPPER_BOUND" using True by linarith
    then show ?thesis using True by (simp only: scale10.simps if_True if_False)
  next
    case False
    then have "wrap64 (m * 10) = m * 10" using Suc.prems by (intro wrap64_id) (auto simp: in_i64_def)
    then show ?thesis
      using Suc.IH[of "m * 10"] Suc.prems False by (simp only: scale10.simps) (simp add: mult.assoc)
  qed
qed (auto simp: in_i64_def)

lemma ProcessMantissaDigit_eq:
  assumes "IsDigit c" "0 \<le> m"
  shows "ProcessMantissaDigit c (m, tz) =
    (if c = CHR ''0'' then Some (m, tz + 1)
     else if m * 10 ^ Suc tz \<le> UPPER_BOUND then Some (m * 10 ^ Suc tz + digit_val c, 0) else None)"
proof -
  have "wrap64 (x + digit_val c) = x + digit_val c" if "0 \<le> x" "x \<le> UPPER_BOUND" for x
    using digit_val_range[OF assms(1)] that by (intro wrap64_id) (auto simp: in_i64_def)
  then show ?thesis
    using assms(2) scale10_eq[OF assms(2), of tz] by (simp add: ProcessMantissaDigit_def)
qed

lemma mantissa_digits_eq:
  assumes "digits ds" "r = [] \<or> \<not> IsDigit (hd r)" "0 \<le> m"
  shows "case mantissa_digits (ds @ r) (m, tz) n of
      None \<Rightarrow> UPPER_BOUND < digits_value ds (m * 10 ^ tz)
    | Some ((m', tz'), n', r') \<Rightarrow> r' = r \<and> n' = n + length ds \<and> 0 \<le> m' \<and> m' * 10 ^ tz' = digits_value ds (m * 10 ^ tz) \<and>
        tz' \<le> tz + length ds \<and> (m' = 0 \<longrightarrow> tz' = tz + length ds)"
  using assms
proof (induction ds arbitrary: m tz n)
  case Nil
  then show ?case by (cases r) auto
next
  case (Cons c cs)
  show ?case
  proof (cases "c = CHR ''0''")
    case True
    then have "ProcessMantissaDigit c (m, tz) = Some (m, tz + 1)" "digit_val c = 0" "IsDigit c"
      by (auto simp: ProcessMantissaDigit_def digit_val_def IsDigit_def)
    then show ?thesis
      using Cons.IH[of m "tz + 1" "n + 1"] Cons.prems by (auto split: option.splits simp: ac_simps)
  next
    case False
    note v = digit_val_zero[OF _ False] digit_val_range
    show ?thesis
    proof (cases "m * 10 ^ Suc tz \<le> UPPER_BOUND")
      case True
      have "0 < digits_value cs (digit_val c + m * (10 * 10 ^ tz))"
        using Cons.prems v(1) by (intro digits_value_pos add_pos_nonneg) auto
      with True show ?thesis
        using False Cons.IH[of "m * 10 ^ Suc tz + digit_val c" 0 "n + 1"] Cons.prems v(1)
        by (auto simp: ProcessMantissaDigit_eq ac_simps split: option.splits)
    next
      case big: False
      have "0 \<le> m * 10 ^ tz * 10 + digit_val c" using Cons.prems digit_val_range[of c] by simp
      then have "m * 10 ^ tz * 10 + digit_val c \<le> digits_value cs (m * 10 ^ tz * 10 + digit_val c)"
        using Cons.prems by (intro digits_value_mono) auto
      then show ?thesis
        using False big Cons.prems digit_val_range[of c] by (simp add: ProcessMantissaDigit_eq algebra_simps)
    qed
  qed
qed

lemma scale10_signed_eq:
  "Option.bind (scale10_signed k m) (\<lambda>m'. if m' > UPPER_BOUND \<or> m' < - UPPER_BOUND then None else Some m') =
    (if \<bar>m\<bar> * 10 ^ k \<le> UPPER_BOUND then Some (m * 10 ^ k) else None)"
proof (induction k arbitrary: m)
  case (Suc k)
  show ?case
  proof (cases "m > UPPER_BOUND div 10 \<or> m < - (UPPER_BOUND div 10)")
    case True
    have "(1 :: int) \<le> 10 ^ k" by (rule one_le_power) simp
    then have "\<bar>m\<bar> * 10 * 1 \<le> \<bar>m\<bar> * 10 * 10 ^ k" by (intro mult_left_mono) auto
    then have "\<bar>m\<bar> * 10 \<le> \<bar>m\<bar> * 10 ^ Suc k" by (simp add: mult.assoc)
    then have "\<not> \<bar>m\<bar> * 10 ^ Suc k \<le> UPPER_BOUND" using True by linarith
    then show ?thesis using True by (simp only: scale10_signed.simps if_True if_False bind.simps)
  next
    case False
    then have "wrap64 (m * 10) = m * 10" by (intro wrap64_id) (auto simp: in_i64_def)
    then show ?thesis
      using Suc.IH[of "m * 10"] False
      by (simp only: scale10_signed.simps if_False power_Suc mult.assoc abs_mult) simp
  qed
qed auto

definition plain_decimal :: "bool \<Rightarrow> string \<Rightarrow> string \<Rightarrow> string" where
  "plain_decimal neg ip fp = (if neg then ''-'' else []) @ ip @ (if fp = [] then [] else CHR ''.'' # fp)"

lemma fixed_exponent_Nil [simp]: "fixed_exponent [] = Some (0, [])"
  by (simp add: fixed_exponent_def)

lemma fixed_integer_eq:
  assumes ip: "digits ip" "ip = ''0'' \<or> ip \<noteq> [] \<and> hd ip \<noteq> CHR ''0''" and r: "r = [] \<or> \<not> IsDigit (hd r)"
  shows "case fixed_integer (ip @ r) of
      None \<Rightarrow> UPPER_BOUND < digits_value ip 0
    | Some ((m, tz), r') \<Rightarrow> r' = r \<and> 0 \<le> m \<and> m * 10 ^ tz = digits_value ip 0 \<and> tz \<le> length ip \<and>
        (m = 0 \<longrightarrow> tz = 0)"
proof (cases "ip = ''0''")
  case True
  then show ?thesis by (simp add: fixed_integer_def digit_val_def)
next
  case False
  then obtain c cs where c: "ip = c # cs" "c \<noteq> CHR ''0''" "IsDigit c" using ip by (cases ip) auto
  moreover have "0 < digits_value cs (digit_val c)"
    using c ip(1) digit_val_zero[of c] by (intro digits_value_pos) auto
  ultimately show ?thesis
    using mantissa_digits_eq[OF ip(1) r, of 0 0 0]
    by (auto simp: fixed_integer_def simp del: mantissa_digits.simps split: option.splits prod.splits)
qed

lemma fixed_fraction_eq:
  assumes "digits fp" "0 \<le> m"
  shows "case fixed_fraction (m, tz) (if fp = [] then [] else CHR ''.'' # fp) of
      None \<Rightarrow> UPPER_BOUND < digits_value fp (m * 10 ^ tz)
    | Some ((m', tz'), n, r') \<Rightarrow> r' = [] \<and> n = length fp \<and> 0 \<le> m' \<and> m' * 10 ^ tz' = digits_value fp (m * 10 ^ tz) \<and>
        tz' \<le> tz + length fp \<and> (m' = 0 \<longrightarrow> tz' = tz + length fp)"
proof (cases "fp = []")
  case False
  then have "fixed_fraction (m, tz) (CHR ''.'' # fp) = mantissa_digits (fp @ []) (m, tz) 0"
    using assms by (cases fp) (auto simp: fixed_fraction_def starts_digit_def)
  then show ?thesis
    using mantissa_digits_eq[of fp "[]" m tz 0] assms False by (auto split: option.splits)
qed (use assms in \<open>simp add: fixed_fraction_def\<close>)

lemma ParseFixedPoint_decimal:
  assumes ip: "digits ip" "ip = ''0'' \<or> ip \<noteq> [] \<and> hd ip \<noteq> CHR ''0''" and fp: "digits fp"
    and d: "int (length fp) \<le> d" "d \<le> 18" and len: "length ip + length fp < 2 ^ 31"
  defines "v \<equiv> digits_value (ip @ fp) 0 * 10 ^ (nat d - length fp)"
  shows "ParseFixedPoint (plain_decimal neg ip fp) d =
    (if v \<le> UPPER_BOUND then Some (if neg then - v else v) else None)"
proof -
  let ?r = "if fp = [] then [] else CHR ''.'' # fp"
  have r: "?r = [] \<or> \<not> IsDigit (hd ?r)" by (simp add: IsDigit_def)
  have hd: "ip @ ?r \<noteq> []" "hd (ip @ ?r) \<noteq> CHR ''-''"
    using ip by (cases ip; auto simp: digits_def IsDigit_def)+
  have N: "digits_value (ip @ fp) 0 = digits_value fp (digits_value ip 0)" by (rule digits_value_append)
  have ge: "digits_value ip 0 \<le> v" "digits_value (ip @ fp) 0 \<le> v"
  proof -
    have "0 \<le> digits_value (ip @ fp) 0" using ip(1) fp by (intro digits_value_nonneg) auto
    moreover have "(1 :: int) \<le> 10 ^ (nat d - length fp)" by (rule one_le_power) simp
    ultimately show "digits_value (ip @ fp) 0 \<le> v"
      unfolding v_def using mult_left_mono[of 1 "10 ^ (nat d - length fp)" "digits_value (ip @ fp) 0"] by simp
    moreover have "digits_value ip 0 \<le> digits_value (ip @ fp) 0"
      unfolding N using fp ip(1) by (intro digits_value_mono digits_value_nonneg) auto
    ultimately show "digits_value ip 0 \<le> v" by linarith
  qed
  have strip: "ParseFixedPoint (plain_decimal neg ip fp) d =
      Option.bind (fixed_integer (ip @ ?r)) (\<lambda>(st1, s1).
         Option.bind (fixed_fraction st1 s1) (\<lambda>((mantissa, mantissa_tzeros), point_ofs, s2).
         Option.bind (fixed_exponent s2) (\<lambda>(exponent, s3).
           if s3 \<noteq> [] then None
           else let e = wrap64 (wrap64 (exponent - int point_ofs + int mantissa_tzeros) + d);
                    m = (if neg then - mantissa else mantissa)
                in if e < 0 then None
                else if e \<ge> 19 then None
                else Option.bind (scale10_signed (nat e) m) (\<lambda>m'.
                  if m' > UPPER_BOUND \<or> m' < - UPPER_BOUND then None else Some m'))))"
  proof -
    let ?val = "plain_decimal neg ip fp"
    have sign: "(?val \<noteq> [] \<and> hd ?val = CHR ''-'') = neg" using hd by (cases neg) (simp_all add: plain_decimal_def)
    have s0: "(if neg then tl ?val else ?val) = ip @ ?r" by (cases neg) (simp_all add: plain_decimal_def)
    show ?thesis unfolding ParseFixedPoint_def Let_def sign s0 by (rule refl)
  qed
  show ?thesis
  proof (cases "fixed_integer (ip @ ?r)")
    case None
    then have "UPPER_BOUND < v" using fixed_integer_eq[OF ip r] ge by simp
    then show ?thesis using None by (simp add: strip)
  next
    case (Some x)
    then obtain m tz where I: "fixed_integer (ip @ ?r) = Some ((m, tz), ?r)"
      and i: "0 \<le> m" "m * 10 ^ tz = digits_value ip 0" "tz \<le> length ip" "m = 0 \<longrightarrow> tz = 0"
      using fixed_integer_eq[OF ip r] by (cases x) auto
    show ?thesis
    proof (cases "fixed_fraction (m, tz) ?r")
      case None
      then have "UPPER_BOUND < v" using fixed_fraction_eq[OF fp i(1), of tz] ge i(2) N by simp
      then show ?thesis using I None by (simp add: strip)
    next
      case (Some y)
      then obtain m' tz' where F: "fixed_fraction (m, tz) ?r = Some ((m', tz'), length fp, [])"
        and f: "0 \<le> m'" "m' * 10 ^ tz' = digits_value (ip @ fp) 0" "tz' \<le> tz + length fp" "m' = 0 \<longrightarrow> tz' = tz + length fp"
        using fixed_fraction_eq[OF fp i(1), of tz] i(2) N by (cases y) auto
      define E where "E = tz' + (nat d - length fp)"
      have v: "v = m' * 10 ^ E" using f(2) by (simp add: v_def E_def power_add mult.assoc[symmetric])
      have "wrap64 (wrap64 (0 - int (length fp) + int tz') + d) = int E"
        using d len f(3) i(3) by (simp add: E_def in_i64_def)
      then have P: "ParseFixedPoint (plain_decimal neg ip fp) d =
          (if E \<ge> 19 then None else if \<bar>m'\<bar> * 10 ^ E \<le> UPPER_BOUND then Some ((if neg then - m' else m') * 10 ^ E) else None)"
        using scale10_signed_eq[of E "if neg then - m' else m'"] by (simp add: strip I F Let_def)
      show ?thesis
      proof (cases "E \<ge> 19")
        case True
        have "m' \<noteq> 0"
        proof
          assume 0: "m' = 0"
          then have "m * 10 ^ tz = 0" using f(2) i(1,2) ip(1) fp digits_value_mono[of fp "digits_value ip 0"] N
            digits_value_nonneg[of ip 0] by simp
          then have "E = nat d" using 0 f(4) i(4) d by (simp add: E_def)
          then show False using True d(2) by simp
        qed
        moreover have "(10 :: int) ^ 19 \<le> 10 ^ E" using True by (intro power_increasing) auto
        ultimately have "1 * 10 ^ 19 \<le> v" unfolding v using f(1) by (intro mult_mono) auto
        then have "\<not> v \<le> UPPER_BOUND" by simp
        then show ?thesis using True by (simp add: P)
      qed (use f(1) in \<open>simp add: P v\<close>)
    qed
  qed
qed

section \<open>Amounts\<close>

lemma IsDigit_char_of: "n < 10 \<Longrightarrow> IsDigit (char_of (48 + n :: nat))" "n < 10 \<Longrightarrow> digit_val (char_of (48 + n :: nat)) = int n"
  by (simp_all add: IsDigit_def digit_val_def)

lemma digits_rev_value:
  "digits (digits_rev n) \<and> digits_rev n \<noteq> [] \<and> digits_value (rev (digits_rev n)) 0 = int n"
proof (induction n rule: digits_rev.induct)
  case (1 n)
  then show ?case
    by (cases "n < 10")
      (simp_all add: digits_rev.simps[of n] IsDigit_char_of digits_value_append zdiv_int zmod_int)
qed

lemma digits_rev_length: "length (digits_rev n) \<le> Suc k \<longleftrightarrow> n < 10 ^ Suc k"
proof (induction n arbitrary: k rule: digits_rev.induct)
  case (1 n)
  note s = digits_rev.simps[of n]
  show ?case
  proof (cases "n < 10")
    case True
    then have "n < 10 * 10 ^ k" using one_le_power[of "10 :: nat" k] by linarith
    then show ?thesis using True by (simp add: s)
  next
    case False
    have "0 < length (digits_rev (n div 10))" using digits_rev_value[of "n div 10"] by simp
    moreover have "n div 10 < 10 ^ k \<longleftrightarrow> n < 10 ^ Suc k"
      by (simp add: div_less_iff_less_mult mult.commute)
    ultimately show ?thesis using 1[OF False, of "k - 1"] False by (cases k) (auto simp: s)
  qed
qed

lemma format_d_props:
  "digits (format_d n)" "format_d n \<noteq> []" "digits_value (format_d n) 0 = int n"
  "length (format_d n) \<le> Suc k \<longleftrightarrow> n < 10 ^ Suc k"
  using digits_rev_value[of n] digits_rev_length[of n] by (auto simp: format_d_def digits_def)

lemma digits_value_zeros: "digits_value (replicate k CHR ''0'') n = n * 10 ^ k"
  by (induction k arbitrary: n) (auto simp: digit_val_def)

lemma format_08d_props:
  assumes "r < 10 ^ 8"
  shows "digits (format_08d r)" "length (format_08d r) = 8" "digits_value (format_08d r) 0 = int r"
proof -
  have "length (format_d r) \<le> 8" using format_d_props(4)[of r 7] assms by simp
  then show "length (format_08d r) = 8" by (simp add: format_08d_def Let_def)
  show "digits (format_08d r)" using format_d_props(1)[of r] by (auto simp: format_08d_def Let_def digits_def IsDigit_def)
  show "digits_value (format_08d r) 0 = int r"
    by (simp add: format_08d_def Let_def digits_value_append digits_value_zeros format_d_props)
qed

lemma trim_zeros_point:
  assumes "2 \<le> length xs"
  shows "\<exists>k. k + 2 \<le> length xs \<and> take k xs = replicate k CHR ''0'' \<and> trim_zeros (xs @ CHR ''.'' # ys) = drop k xs @ CHR ''.'' # ys"
  using assms
proof (induction xs)
  case (Cons x xs)
  show ?case
  proof (cases "2 \<le> length xs")
    case True
    then obtain y z zs where xs: "xs = y # z # zs" by (cases xs; cases "tl xs") auto
    show ?thesis
    proof (cases "x = CHR ''0'' \<and> IsDigit z")
      case True
      obtain k where "k + 2 \<le> length xs" "take k xs = replicate k CHR ''0''" "trim_zeros (xs @ CHR ''.'' # ys) = drop k xs @ CHR ''.'' # ys"
        using Cons.IH \<open>2 \<le> length xs\<close> by blast
      then show ?thesis using True xs by (intro exI[of _ "Suc k"]) auto
    qed (use xs in \<open>auto intro!: exI[of _ 0]\<close>)
  next
    case False
    then obtain y where "xs = [y]" using Cons.prems by (cases xs; cases "tl xs") auto
    then show ?thesis by (intro exI[of _ 0]) (auto simp: IsDigit_def)
  qed
qed simp

lemma money_units_eq:
  "digits ds \<Longrightarrow> length ds \<le> j \<Longrightarrow>
   money_units ds (if j = 0 then 0 else 10 ^ (j - 1)) u = (u + digits_value ds 0 * 10 ^ (j - length ds), [])"
proof (induction ds arbitrary: j u)
  case (Cons c cs)
  then obtain i where j: "j = Suc i" by (cases j) auto
  have "(10 :: int) ^ i div 10 = (if i = 0 then 0 else 10 ^ (i - 1))" by (cases i) auto
  then show ?case
    using Cons.IH[of i "u + 10 ^ i * digit_val c"] Cons.prems digits_value_shift[of cs "digit_val c"]
    by (simp add: j algebra_simps power_add[symmetric])
qed simp

lemma money_whole_eq:
  "digits q \<Longrightarrow> money_whole (q @ CHR ''.'' # fs) w = (let (u, r) = money_units fs 10000000 0 in Some (w @ q, u, r))"
proof (induction q arbitrary: w)
  case (Cons c q)
  have "c \<noteq> CHR ''.''" "\<not> isspace c" using Cons.prems by (auto simp: IsDigit_def isspace_def)
  then show ?case using Cons by simp
qed simp

lemma ParseMoney_FormatMoney:
  assumes "0 \<le> n" "n < 2 ^ 63"
  shows "ParseMoney (FormatMoney n False) = (if n < 10 ^ 10 * 100000000 then Some n else None)"
proof -
  define q where "q = nat n div 100000000"
  define r where "r = nat n mod 100000000"
  have r: "r < 10 ^ 8" by (simp add: r_def)
  have n: "n = int q * 100000000 + int r" using assms by (simp add: q_def r_def zdiv_int zmod_int)
  have len: "length (rev (format_08d r)) = 8" using format_08d_props(2)[OF r] by simp
  obtain k where k: "k + 2 \<le> 8" "take k (rev (format_08d r)) = replicate k CHR ''0''"
    and trim: "trim_zeros (rev (format_08d r) @ CHR ''.'' # rev (format_d q)) = drop k (rev (format_08d r)) @ CHR ''.'' # rev (format_d q)"
    using trim_zeros_point[of "rev (format_08d r)" "rev (format_d q)"] len by auto
  define fs where "fs = rev (drop k (rev (format_08d r)))"
  have split: "format_08d r = fs @ replicate k CHR ''0''"
    using k(2) append_take_drop_id[of k "rev (format_08d r)"] unfolding fs_def
    by (metis rev_append rev_replicate rev_rev_ident)
  have fs: "digits fs" "length fs = 8 - k"
    using format_08d_props(1,2)[OF r] split k(1) by auto
  have val: "digits_value fs 0 * 10 ^ k = int r"
    using format_08d_props(3)[OF r] by (simp add: split digits_value_append digits_value_zeros)
  have F: "FormatMoney n False = format_d q @ CHR ''.'' # fs"
    using assms trim by (simp add: FormatMoney_def Let_def q_def[symmetric] r_def[symmetric] fs_def)
  have U: "money_units fs 10000000 0 = (int r, [])"
    using money_units_eq[of fs 8 0] fs k(1) val by simp
  have d: "digits (format_d q @ fs)" using fs format_d_props by simp
  have nul: "takeWhile (\<lambda>c. c \<noteq> CHR 0x00) (format_d q @ CHR ''.'' # fs) = format_d q @ CHR ''.'' # fs"
  proof -
    have "\<not> IsDigit (CHR 0x00)" by (simp add: IsDigit_def)
    then have "CHR 0x00 \<notin> set (format_d q @ fs)" using d by (auto simp: digits_def)
    then show ?thesis by (auto simp: takeWhile_eq_all_conv)
  qed
  have sp: "dropWhile isspace (format_d q @ CHR ''.'' # fs) = format_d q @ CHR ''.'' # fs"
    using format_d_props(1,2)[of q] by (cases "format_d q") (auto simp: digits_def IsDigit_def isspace_def)
  have "length (format_d q) > 10 \<longleftrightarrow> \<not> n < 10 ^ 10 * 100000000"
    using format_d_props(4)[of q 9] r n by auto
  then show ?thesis
    unfolding ParseMoney_def F nul sp Let_def money_whole_eq[OF format_d_props(1)] U
    using r assms n by (simp add: format_d_props in_i64_def)
qed

section \<open>Properties\<close>

text \<open>
  (C33) Hexadecimal, Base64 and Base32 text decode to the bytes that were encoded, whatever the
  bytes: the decoders accept every output of the encoders, padding included.
\<close>

theorem encodings_roundtrip:
  "ParseHex (HexStr bs) = bs \<and> DecodeBase64 (EncodeBase64 bs) = (bs, True) \<and> DecodeBase32 (EncodeBase32 bs True) = (bs, True)"
  by (simp add: ParseHex_HexStr base_roundtrips)

text \<open>
  \<open>ParseFixedPoint\<close> is exact on plain decimals.  For an optional sign, an integer part
  without a superfluous leading zero and at most \<open>d \<le> 18\<close> decimals, the result is the decimal
  scaled by \<open>10 ^ d\<close> whenever its magnitude is within \<open>UPPER_BOUND\<close>, and a failure otherwise: no
  intermediate overflow ever yields another number or a needless rejection.
\<close>

theorem ParseFixedPoint_exact:
  assumes "digits ip" "ip = ''0'' \<or> ip \<noteq> [] \<and> hd ip \<noteq> CHR ''0''" "digits fp"
    "int (length fp) \<le> d" "d \<le> 18" "length ip + length fp < 2 ^ 31"
  shows "ParseFixedPoint (plain_decimal neg ip fp) d =
    (if digits_value (ip @ fp) 0 * 10 ^ (nat d - length fp) \<le> UPPER_BOUND
     then Some ((if neg then - 1 else 1) * (digits_value (ip @ fp) 0 * 10 ^ (nat d - length fp))) else None)"
  using ParseFixedPoint_decimal[OF assms, of neg] by simp

lemma pool_digits: "digits ''25200000000''" "digits ''00''" "digits_value ''2520000000000'' 0 = 2520000000000"
  by (simp_all add: IsDigit_def digit_val_def)

theorem ParseFixedPoint_exact_witness: "ParseFixedPoint ''-25200000000.00'' 8 = Some (- 2520000000000000000)"
  using ParseFixedPoint_exact[OF pool_digits(1) _ pool_digits(2), of 8 True] pool_digits(3)
  by (simp add: plain_decimal_def)

lemma money_whole_sign: "money_whole (CHR ''-'' # p) w = None" "money_whole (CHR ''+'' # p) w = None"
  by (simp_all add: isspace_def IsDigit_def)

lemma ParseMoney_sign: "ParseMoney (CHR ''-'' # s) = None" "ParseMoney (CHR ''+'' # s) = None"
proof -
  have "\<not> isspace CHR ''-''" "\<not> isspace CHR ''+''" by (simp_all add: isspace_def)
  then show "ParseMoney (CHR ''-'' # s) = None" "ParseMoney (CHR ''+'' # s) = None"
    by (simp_all add: ParseMoney_def Let_def money_whole_sign del: money_whole.simps)
qed

text \<open>
  (C32) Reading back a printed amount.  For every 64-bit amount but the least one, whose negation is undefined,
  \<open>ParseMoney\<close> gives back the amount that \<open>FormatMoney\<close> printed exactly if the amount is not negative, is printed
  without a sign and is below ten billion coins.  It rejects negative amounts, amounts printed with a plus sign and
  amounts from ten billion coins on, although the latter stay within the money range of this chain.
\<close>

theorem ParseMoney_FormatMoney_exact:
  assumes "- (2 ^ 63) < n" "n < 2 ^ 63"
  shows "ParseMoney (FormatMoney n fPlus) =
    (if n < 0 \<or> fPlus \<and> 0 < n \<or> 10 ^ 10 * 100000000 \<le> n then None else Some n)"
proof (cases "n < 0 \<or> fPlus \<and> 0 < n")
  case True
  then obtain s where "FormatMoney n fPlus = CHR ''-'' # s \<or> FormatMoney n fPlus = CHR ''+'' # s"
    unfolding FormatMoney_def Let_def by (auto split: if_splits)
  then have "ParseMoney (FormatMoney n fPlus) = None" using ParseMoney_sign by metis
  then show ?thesis using True by auto
next
  case False
  then have "FormatMoney n fPlus = FormatMoney n False" unfolding FormatMoney_def Let_def by simp
  then show ?thesis using False ParseMoney_FormatMoney[of n] assms(2) by (simp add: not_le)
qed

theorem ParseMoney_FormatMoney_exact_witness:
  "ParseMoney (FormatMoney 123456789 False) = Some 123456789 \<and> ParseMoney (FormatMoney (25200000000 * 100000000) False) = None \<and>
   ParseMoney (FormatMoney (- 100000000) False) = None \<and> ParseMoney (FormatMoney 5 True) = None"
  using ParseMoney_FormatMoney_exact[of 123456789 False] ParseMoney_FormatMoney_exact[of "25200000000 * 100000000" False]
    ParseMoney_FormatMoney_exact[of "- 100000000" False] ParseMoney_FormatMoney_exact[of 5 True] by simp

end
