(* ===== verification/Block.thy ===== *)
theory Block
  imports StrEncodings Standard
begin

text \<open>
  Blocks (\<open>primitives/block.h\<close>, \<open>primitives/block.cpp\<close>) and the textual form of 256-bit hashes
  (\<open>uint256.cpp\<close>).

  A \<open>CBlock\<close> extends \<open>CBlockHeader\<close>, as the class does.  The hash of a header below version 4 is the
  Quark chain of the \<open>sph_*\<close> functions, which is a parameter here; from version 4 on it is the double
  SHA-256 of the serialization.  Which of the two optional 32-byte fields are part of a header
  depends on its version, and whether a block carries a signature depends on its second transaction.
\<close>

section \<open>Hashes as text\<close>

text \<open>
  \<open>SetHex\<close> reads hexadecimal digits from the right end of the longest run of digits, two per byte,
  and fills the 32 bytes from the first one on, so the text shows the number big-endian.
\<close>

fun SetHex_digits :: "string \<Rightarrow> bytes" where
  "SetHex_digits [] = []"
| "SetHex_digits [c] = [of_int (HexDigit c)]"
| "SetHex_digits (c # d # cs) = (of_int (HexDigit c) OR push_bit 4 (of_int (HexDigit d))) # SetHex_digits cs"

definition SetHex :: "string \<Rightarrow> uint256" where
  "SetHex psz =
     (let s = dropWhile isspace (takeWhile (\<lambda>c. c \<noteq> CHR 0x00) psz);
          t = (if length s \<ge> 2 \<and> s ! 0 = CHR ''0'' \<and> ToLower (s ! 1) = CHR ''x'' then drop 2 s else s);
          ds = take 32 (SetHex_digits (rev (takeWhile (\<lambda>c. HexDigit c \<noteq> - 1) t)))
      in ds @ replicate (32 - length ds) 0)"

definition uint256S :: "string \<Rightarrow> uint256" where
  "uint256S str = SetHex str"

definition GetHex :: "uint256 \<Rightarrow> string" where
  "GetHex h = HexStr (rev h)"

section \<open>Block headers\<close>

record CBlockHeader =
  bh_nVersion :: int
  hashPrevBlock :: uint256
  hashMerkleRoot :: uint256
  bh_nTime :: nat
  bh_nBits :: nat
  bh_nNonce :: nat
  nAccumulatorCheckpoint :: uint256
  hashFinalSaplingRoot :: uint256

definition CBlockHeader_SetNull :: CBlockHeader where
  "CBlockHeader_SetNull = \<lparr>bh_nVersion = 11, hashPrevBlock = null_hash, hashMerkleRoot = null_hash,
     bh_nTime = 0, bh_nBits = 0, bh_nNonce = 0, nAccumulatorCheckpoint = null_hash, hashFinalSaplingRoot = null_hash\<rparr>"

definition CBlockHeader_IsNull :: "'a CBlockHeader_scheme \<Rightarrow> bool" where
  "CBlockHeader_IsNull h \<longleftrightarrow> bh_nBits h = 0"

definition ser_int32 :: "int \<Rightarrow> bytes" where
  "ser_int32 x = ser_writedata32 (u_of_int 32 x)"

definition unser_int32 :: "int reader" where
  "unser_int32 s = bindE (ser_readdata32 s) (\<lambda>(n, s). Inr (int_of_u 32 n, s))"

definition SerializeHeader :: "'a CBlockHeader_scheme \<Rightarrow> bytes" where
  "SerializeHeader h =
     ser_int32 (bh_nVersion h) @ hashPrevBlock h @ hashMerkleRoot h @
     ser_writedata32 (bh_nTime h) @ ser_writedata32 (bh_nBits h) @ ser_writedata32 (bh_nNonce h) @
     (if bh_nVersion h > 3 \<and> bh_nVersion h < 7 then nAccumulatorCheckpoint h else []) @
     (if bh_nVersion h \<ge> 8 then hashFinalSaplingRoot h else [])"

definition UnserializeHeader :: "CBlockHeader reader" where
  "UnserializeHeader s =
     bindE (unser_int32 s) (\<lambda>(ver, s).
     bindE (stream_read 32 s) (\<lambda>(prev, s).
     bindE (stream_read 32 s) (\<lambda>(root, s).
     bindE (ser_readdata32 s) (\<lambda>(time, s).
     bindE (ser_readdata32 s) (\<lambda>(bits, s).
     bindE (ser_readdata32 s) (\<lambda>(nonce, s).
     bindE (if ver > 3 \<and> ver < 7 then stream_read 32 s else Inr (null_hash, s)) (\<lambda>(acc, s).
     bindE (if ver \<ge> 8 then stream_read 32 s else Inr (null_hash, s)) (\<lambda>(sap, s).
       Inr (\<lparr>bh_nVersion = ver, hashPrevBlock = prev, hashMerkleRoot = root, bh_nTime = time, bh_nBits = bits,
             bh_nNonce = nonce, nAccumulatorCheckpoint = acc, hashFinalSaplingRoot = sap\<rparr>, s)))))))))"

definition GetBlockHash :: "(bytes \<Rightarrow> uint256) \<Rightarrow> 'a CBlockHeader_scheme \<Rightarrow> uint256" where
  "GetBlockHash HashQuark h =
     (if bh_nVersion h < 4
      then HashQuark (ser_int32 (bh_nVersion h) @ hashPrevBlock h @ hashMerkleRoot h @
             ser_writedata32 (bh_nTime h) @ ser_writedata32 (bh_nBits h) @ ser_writedata32 (bh_nNonce h))
      else Hash (SerializeHeader h))"

section \<open>Blocks\<close>

record CBlock = CBlockHeader +
  vtx :: "CTransaction list"
  vchBlockSig :: bytes

definition GetBlockHeader :: "'a CBlockHeader_scheme \<Rightarrow> CBlockHeader" where
  "GetBlockHeader b =
     CBlockHeader_SetNull\<lparr>bh_nVersion := bh_nVersion b, hashPrevBlock := hashPrevBlock b, hashMerkleRoot := hashMerkleRoot b,
       bh_nTime := bh_nTime b, bh_nBits := bh_nBits b, bh_nNonce := bh_nNonce b,
       nAccumulatorCheckpoint := (if bh_nVersion b > 3 \<and> bh_nVersion b < 7 then nAccumulatorCheckpoint b else null_hash),
       hashFinalSaplingRoot := (if bh_nVersion b \<ge> 8 then hashFinalSaplingRoot b else null_hash)\<rparr>"

definition CBlock_of_header :: "CBlockHeader \<Rightarrow> CBlock" where
  "CBlock_of_header h = CBlockHeader.extend h \<lparr>vtx = [], vchBlockSig = []\<rparr>"

definition IsProofOfStake :: "CBlock \<Rightarrow> bool" where
  "IsProofOfStake b \<longleftrightarrow> length (vtx b) > 1 \<and> IsCoinStake (vtx b ! 1)"

definition IsProofOfWork :: "CBlock \<Rightarrow> bool" where
  "IsProofOfWork b \<longleftrightarrow> \<not> IsProofOfStake b"

definition SerializeBlock :: "CBlock \<Rightarrow> bytes" where
  "SerializeBlock b =
     SerializeHeader b @ VectorSer SerializeTransaction (vtx b) @
     (if length (vtx b) > 1 \<and> IsCoinStake (vtx b ! 1) then Serialize_bytes (vchBlockSig b) else [])"

definition UnserializeBlock :: "CBlock reader" where
  "UnserializeBlock s =
     bindE (UnserializeHeader s) (\<lambda>(h, s).
     bindE (VectorUnser UnserializeTransaction s) (\<lambda>(txs, s).
     bindE (if length txs > 1 \<and> IsCoinStake (txs ! 1) then Unserialize_bytes s else Inr ([], s)) (\<lambda>(sig, s).
       Inr (CBlockHeader.extend h \<lparr>vtx = txs, vchBlockSig = sig\<rparr>, s))))"

section \<open>The codec of blocks\<close>

definition ok_int32 :: "int \<Rightarrow> bool" where
  "ok_int32 x \<longleftrightarrow> - (2 ^ 31) \<le> x \<and> x < 2 ^ 31"

definition ok_CBlockHeader :: "'a CBlockHeader_scheme \<Rightarrow> bool" where
  "ok_CBlockHeader h \<longleftrightarrow>
     ok_int32 (bh_nVersion h) \<and> length (hashPrevBlock h) = 32 \<and> length (hashMerkleRoot h) = 32 \<and>
     bh_nTime h < 2 ^ 32 \<and> bh_nBits h < 2 ^ 32 \<and> bh_nNonce h < 2 ^ 32 \<and>
     (if bh_nVersion h > 3 \<and> bh_nVersion h < 7 then length (nAccumulatorCheckpoint h) = 32 else nAccumulatorCheckpoint h = null_hash) \<and>
     (if bh_nVersion h \<ge> 8 then length (hashFinalSaplingRoot h) = 32 else hashFinalSaplingRoot h = null_hash)"

definition ok_CBlock :: "CBlock \<Rightarrow> bool" where
  "ok_CBlock b \<longleftrightarrow> ok_CBlockHeader b \<and> ok_vec ok_CTransaction (vtx b) \<and>
     (if IsProofOfStake b then length (vchBlockSig b) \<le> MAX_SIZE else vchBlockSig b = [])"

interpretation i32: canonical_codec ser_int32 unser_int32 ok_int32
proof
  fix x :: int and rest s :: bytes
  show "unser_int32 (ser_int32 x @ rest) = Inr (x, rest)" if "ok_int32 x"
    using that u_of_int_less[of 32 x] int_of_u_of_int[of 32 x]
    by (simp add: unser_int32_def ser_int32_def ok_int32_def le32.unser_ser)
  show "s = ser_int32 x @ rest \<and> ok_int32 x" if "unser_int32 s = Inr (x, rest)"
    using that u_of_int_of_u[of _ 32] int_of_u_range[of 32]
    by (auto simp: unser_int32_def ser_int32_def ok_int32_def bindE_eq_Inr_iff le32.unser_iff)
qed

interpretation header: canonical_codec SerializeHeader UnserializeHeader ok_CBlockHeader
proof
  fix h :: CBlockHeader and rest s :: bytes
  show "UnserializeHeader (SerializeHeader h @ rest) = Inr (h, rest)" if "ok_CBlockHeader h"
    using that by (cases h) (auto simp: UnserializeHeader_def SerializeHeader_def ok_CBlockHeader_def i32.unser_ser le32.unser_ser)
  show "s = SerializeHeader h @ rest \<and> ok_CBlockHeader h" if "UnserializeHeader s = Inr (h, rest)"
    using that
    by (auto simp: UnserializeHeader_def SerializeHeader_def ok_CBlockHeader_def bindE_eq_Inr_iff
        i32.unser_iff le32.unser_iff stream_read_eq_Inr split: if_splits)
qed

interpretation vtxs: codec "VectorSer SerializeTransaction" "VectorUnser UnserializeTransaction" "ok_vec ok_CTransaction"
  by (rule txcodec.codec_vector)

interpretation blocks: codec SerializeBlock UnserializeBlock ok_CBlock
proof
  fix b :: CBlock and rest :: bytes
  assume ok: "ok_CBlock b"
  have ser: "SerializeHeader b = SerializeHeader (CBlockHeader.truncate b)"
    by (simp add: SerializeHeader_def CBlockHeader.truncate_def)
  have "ok_CBlockHeader (CBlockHeader.truncate b)"
    using ok by (simp add: ok_CBlock_def ok_CBlockHeader_def CBlockHeader.truncate_def)
  moreover have "CBlockHeader.extend (CBlockHeader.truncate b) \<lparr>vtx = vtx b, vchBlockSig = sig\<rparr> = b" if "vchBlockSig b = sig" for sig
    using that by (simp add: CBlockHeader.extend_def CBlockHeader.truncate_def CBlock.equality)
  ultimately show "UnserializeBlock (SerializeBlock b @ rest) = Inr (b, rest)"
    using ok by (auto simp: UnserializeBlock_def SerializeBlock_def ok_CBlock_def IsProofOfStake_def ser
        header.unser_ser vtxs.unser_ser bytevec.unser_ser)
qed

end
