(* ===== verification/Merkle.thy ===== *)
theory Merkle
  imports Block
begin

text \<open>
  Merkle trees (\<open>consensus/merkle.cpp\<close>) and partial Merkle trees (\<open>merkleblock.cpp\<close>).

  \<open>MerkleComputation\<close> is the constant-space calculator of the root, of the flag for repeated hashes and
  of the branch of one leaf: a binary counter of subtree hashes.  \<open>CalcHash\<close> is the recursive
  definition that the partial tree uses, and serves as the reference.  The out-parameters of
  \<open>MerkleComputation\<close> are always computed; a null pointer only drops the value.  Levels stay below
  32, the width of the counter.
\<close>

section \<open>The constant-space calculator\<close>

record merkle_state =
  m_inner :: "uint256 list"
  m_matchlevel :: int
  m_mutated :: bool
  m_branch :: "uint256 list"

definition merkle_branch_step :: "merkle_state \<Rightarrow> nat \<Rightarrow> uint256 \<Rightarrow> bool \<Rightarrow> merkle_state \<times> bool" where
  "merkle_branch_step st level h matchh =
     (if matchh then (st\<lparr>m_branch := m_branch st @ [m_inner st ! level]\<rparr>, True)
      else if m_matchlevel st = int level then (st\<lparr>m_branch := m_branch st @ [h]\<rparr>, True)
      else (st, False))"

function merkle_combine :: "nat \<Rightarrow> nat \<Rightarrow> uint256 \<Rightarrow> bool \<Rightarrow> merkle_state \<Rightarrow> nat \<times> uint256 \<times> bool \<times> merkle_state" where
  "merkle_combine count level h matchh st =
     (if level < 32 \<and> \<not> bit count level
      then let (st1, matchh1) = merkle_branch_step st level h matchh
           in merkle_combine count (level + 1) (Hash_2 (m_inner st ! level) h) matchh1
                (st1\<lparr>m_mutated := m_mutated st1 \<or> m_inner st ! level = h\<rparr>)
      else (level, h, matchh, st))"
  by pat_completeness auto
termination by (relation "measure (\<lambda>(count, level, _). 32 - level)") auto

fun merkle_leaves :: "nat \<Rightarrow> nat \<Rightarrow> uint256 list \<Rightarrow> merkle_state \<Rightarrow> merkle_state" where
  "merkle_leaves branchpos count [] st = st"
| "merkle_leaves branchpos count (leaf # leaves) st =
     (let (level, h, matchh, st1) = merkle_combine (count + 1) 0 leaf (count = branchpos) st
      in merkle_leaves branchpos (count + 1) leaves
           (st1\<lparr>m_inner := (m_inner st1)[level := h],
                m_matchlevel := (if matchh then int level else m_matchlevel st1)\<rparr>))"

function merkle_skip :: "nat \<Rightarrow> nat \<Rightarrow> nat" where
  "merkle_skip count level = (if level < 32 \<and> \<not> bit count level then merkle_skip count (level + 1) else level)"
  by pat_completeness auto
termination by (relation "measure (\<lambda>(count, level). 32 - level)") auto

declare merkle_combine.simps [simp del] merkle_skip.simps [simp del]

lemma merkle_combine_level: "merkle_combine count level h matchh st = (level', r) \<Longrightarrow> level \<le> level'"
proof (induction count level h matchh st rule: merkle_combine.induct)
  case (1 count level h matchh st)
  show ?case
  proof (cases "level < 32 \<and> \<not> bit count level")
    case True
    then show ?thesis
      using 1(1)[OF True refl surjective_pairing[symmetric]] 1(2)
      by (simp add: merkle_combine.simps[of count level] case_prod_unfold Let_def)
  next
    case False
    then show ?thesis using 1(2) by (subst (asm) merkle_combine.simps) auto
  qed
qed

function merkle_sweep :: "nat \<Rightarrow> nat \<Rightarrow> uint256 \<Rightarrow> bool \<Rightarrow> merkle_state \<Rightarrow> uint256 \<times> merkle_state" where
  "merkle_sweep count level h matchh st =
     (if level < 32 \<and> count \<noteq> 2 ^ level
      then let st1 = (if matchh then st\<lparr>m_branch := m_branch st @ [h]\<rparr> else st);
               (level2, h2, matchh2, st2) = merkle_combine (count + 2 ^ level) (level + 1) (Hash_2 h h) matchh st1
           in merkle_sweep (count + 2 ^ level) level2 h2 matchh2 (st2\<lparr>m_mutated := m_mutated st1\<rparr>)
      else (h, st))"
  by pat_completeness auto
termination
  by (relation "measure (\<lambda>(count, level, _). 32 - level)") (auto dest!: merkle_combine_level[OF sym])

declare merkle_sweep.simps [simp del]

definition MerkleComputation :: "uint256 list \<Rightarrow> nat \<Rightarrow> uint256 \<times> bool \<times> uint256 list" where
  "MerkleComputation leaves branchpos =
     (if leaves = [] then (null_hash, False, [])
      else let st = merkle_leaves branchpos 0 leaves
                      \<lparr>m_inner = replicate 32 null_hash, m_matchlevel = - 1, m_mutated = False, m_branch = []\<rparr>;
               level = merkle_skip (length leaves) 0;
               (root, st') = merkle_sweep (length leaves) level (m_inner st ! level) (m_matchlevel st = int level) st
           in (root, m_mutated st', m_branch st'))"

definition ComputeMerkleRoot :: "uint256 list \<Rightarrow> uint256 \<times> bool" where
  "ComputeMerkleRoot leaves = (let (root, mutated, _) = MerkleComputation leaves (2 ^ 32 - 1) in (root, mutated))"

definition ComputeMerkleBranch :: "uint256 list \<Rightarrow> nat \<Rightarrow> uint256 list" where
  "ComputeMerkleBranch leaves position = (let (_, _, branch) = MerkleComputation leaves position in branch)"

fun ComputeMerkleRootFromBranch :: "uint256 \<Rightarrow> uint256 list \<Rightarrow> nat \<Rightarrow> uint256" where
  "ComputeMerkleRootFromBranch hash [] nIndex = hash"
| "ComputeMerkleRootFromBranch hash (b # vMerkleBranch) nIndex =
     ComputeMerkleRootFromBranch (if odd nIndex then Hash_2 b hash else Hash_2 hash b) vMerkleBranch (nIndex div 2)"

definition BlockMerkleRoot :: "CBlock \<Rightarrow> uint256 \<times> bool" where
  "BlockMerkleRoot block = ComputeMerkleRoot (map GetHash (vtx block))"

definition BlockMerkleBranch :: "CBlock \<Rightarrow> nat \<Rightarrow> uint256 list" where
  "BlockMerkleBranch block position = ComputeMerkleBranch (map GetHash (vtx block)) position"

section \<open>Partial Merkle trees\<close>

definition CalcTreeWidth :: "nat \<Rightarrow> nat \<Rightarrow> nat" where
  "CalcTreeWidth nTransactions height = (nTransactions + 2 ^ height - 1) div 2 ^ height"

fun CalcHash :: "uint256 list \<Rightarrow> nat \<Rightarrow> nat \<Rightarrow> uint256" where
  "CalcHash vTxid 0 pos = vTxid ! pos"
| "CalcHash vTxid (Suc height) pos =
     (let left = CalcHash vTxid height (pos * 2);
          right = (if pos * 2 + 1 < CalcTreeWidth (length vTxid) height then CalcHash vTxid height (pos * 2 + 1) else left)
      in Hash_2 left right)"

definition fParentOfMatch :: "bool list \<Rightarrow> nat \<Rightarrow> nat \<Rightarrow> bool" where
  "fParentOfMatch vMatch height pos = list_ex (\<lambda>p. vMatch ! p) [pos * 2 ^ height ..< min ((pos + 1) * 2 ^ height) (length vMatch)]"

fun TraverseAndBuild :: "uint256 list \<Rightarrow> bool list \<Rightarrow> nat \<Rightarrow> nat \<Rightarrow> bool list \<times> uint256 list" where
  "TraverseAndBuild vTxid vMatch 0 pos = ([fParentOfMatch vMatch 0 pos], [CalcHash vTxid 0 pos])"
| "TraverseAndBuild vTxid vMatch (Suc height) pos =
     (if \<not> fParentOfMatch vMatch (Suc height) pos then ([False], [CalcHash vTxid (Suc height) pos])
      else let (b1, h1) = TraverseAndBuild vTxid vMatch height (pos * 2);
               (b2, h2) = (if pos * 2 + 1 < CalcTreeWidth (length vTxid) height
                           then TraverseAndBuild vTxid vMatch height (pos * 2 + 1) else ([], []))
           in (True # b1 @ b2, h1 @ h2))"

lemma CalcTreeWidth_pos: "0 < n \<Longrightarrow> CalcTreeWidth n k = Suc ((n - 1) div 2 ^ k)"
proof -
  assume "0 < n"
  then have "n + 2 ^ k - 1 = (n - 1) + 2 ^ k" by simp
  then have "CalcTreeWidth n k = ((n - 1) + 2 ^ k) div 2 ^ k" by (simp only: CalcTreeWidth_def)
  also have "\<dots> = Suc ((n - 1) div 2 ^ k)" by (subst div_add_self2) simp_all
  finally show ?thesis .
qed

lemma CalcTreeWidth_0: "CalcTreeWidth 0 k \<le> 1"
  by (simp add: CalcTreeWidth_def)

function tree_height :: "nat \<Rightarrow> nat \<Rightarrow> nat" where
  "tree_height nTransactions nHeight =
     (if CalcTreeWidth nTransactions nHeight > 1 then tree_height nTransactions (nHeight + 1) else nHeight)"
  by pat_completeness auto
termination
proof (relation "measure (\<lambda>(n, k). CalcTreeWidth n k)", goal_cases)
  case (2 n k)
  then have "0 < n" using CalcTreeWidth_0[of k] by (cases n) auto
  moreover have "(n - 1) div 2 ^ Suc k = (n - 1) div 2 ^ k div 2" by (simp only: power_Suc2 div_mult2_eq)
  ultimately show ?case using 2 by (simp add: CalcTreeWidth_pos)
qed simp

declare tree_height.simps [simp del]

record CPartialMerkleTree =
  nTransactions :: nat
  vBits :: "bool list"
  vHash :: "uint256 list"
  fBad :: bool

definition mk_CPartialMerkleTree :: "uint256 list \<Rightarrow> bool list \<Rightarrow> CPartialMerkleTree" where
  "mk_CPartialMerkleTree vTxid vMatch =
     (let (bits, hashes) = TraverseAndBuild vTxid vMatch (tree_height (length vTxid) 0) 0
      in \<lparr>nTransactions = length vTxid, vBits = bits, vHash = hashes, fBad = False\<rparr>)"

text \<open>
  The extraction threads the two read positions, the matches found so far and \<open>fBad\<close>.
\<close>

record extract_state =
  nBitsUsed :: nat
  nHashUsed :: nat
  ex_match :: "uint256 list"
  ex_bad :: bool

definition extract_stored :: "CPartialMerkleTree \<Rightarrow> bool \<Rightarrow> extract_state \<Rightarrow> uint256 \<times> extract_state" where
  "extract_stored t matched st =
     (if nHashUsed st \<ge> length (vHash t) then (null_hash, st\<lparr>ex_bad := True\<rparr>)
      else let hash = vHash t ! nHashUsed st
           in (hash, st\<lparr>nHashUsed := nHashUsed st + 1, ex_match := ex_match st @ (if matched then [hash] else [])\<rparr>))"

fun TraverseAndExtract :: "CPartialMerkleTree \<Rightarrow> nat \<Rightarrow> nat \<Rightarrow> extract_state \<Rightarrow> uint256 \<times> extract_state" where
  "TraverseAndExtract t 0 pos st =
     (if nBitsUsed st \<ge> length (vBits t) then (null_hash, st\<lparr>ex_bad := True\<rparr>)
      else extract_stored t (vBits t ! nBitsUsed st) (st\<lparr>nBitsUsed := nBitsUsed st + 1\<rparr>))"
| "TraverseAndExtract t (Suc height) pos st =
     (if nBitsUsed st \<ge> length (vBits t) then (null_hash, st\<lparr>ex_bad := True\<rparr>)
      else let st = st\<lparr>nBitsUsed := nBitsUsed st + 1\<rparr>
           in if \<not> vBits t ! (nBitsUsed st - 1) then extract_stored t False st
              else let (left, st) = TraverseAndExtract t height (pos * 2) st;
                       (right, st) = (if pos * 2 + 1 < CalcTreeWidth (nTransactions t) height
                                      then TraverseAndExtract t height (pos * 2 + 1) st else (left, st))
                   in (Hash_2 left right, st))"

abbreviation (input) MAX_BLOCK_SIZE_CURRENT :: nat where "MAX_BLOCK_SIZE_CURRENT \<equiv> 2000000"

definition ExtractMatches :: "CPartialMerkleTree \<Rightarrow> uint256 \<times> uint256 list" where
  "ExtractMatches t =
     (if nTransactions t = 0 then (null_hash, [])
      else if nTransactions t > MAX_BLOCK_SIZE_CURRENT div 60 then (null_hash, [])
      else if length (vHash t) > nTransactions t then (null_hash, [])
      else if length (vBits t) < length (vHash t) then (null_hash, [])
      else let (root, st) = TraverseAndExtract t (tree_height (nTransactions t) 0) 0
                              \<lparr>nBitsUsed = 0, nHashUsed = 0, ex_match = [], ex_bad = fBad t\<rparr>
           in if ex_bad st then (null_hash, ex_match st)
              else if (nBitsUsed st + 7) div 8 \<noteq> (length (vBits t) + 7) div 8 then (null_hash, ex_match st)
              else if nHashUsed st \<noteq> length (vHash t) then (null_hash, ex_match st)
              else (root, ex_match st))"

text \<open>Flag bits travel packed into bytes, least significant bit first.\<close>

definition BitsToBytes :: "bool list \<Rightarrow> bytes" where
  "BitsToBytes bits =
     fold (\<lambda>p ret. ret[p div 8 := ret ! (p div 8) OR push_bit (p mod 8) (if bits ! p then 1 else 0)])
       [0..<length bits] (replicate ((length bits + 7) div 8) 0)"

definition BytesToBits :: "bytes \<Rightarrow> bool list" where
  "BytesToBits bs = map (\<lambda>p. (bs ! (p div 8)) AND push_bit (p mod 8) 1 \<noteq> 0) [0 ..< length bs * 8]"

definition ser_CPartialMerkleTree :: "CPartialMerkleTree \<Rightarrow> bytes" where
  "ser_CPartialMerkleTree t = ser_writedata32 (nTransactions t) @ VectorSer id (vHash t) @ Serialize_bytes (BitsToBytes (vBits t))"

definition unser_CPartialMerkleTree :: "CPartialMerkleTree reader" where
  "unser_CPartialMerkleTree s =
     bindE (ser_readdata32 s) (\<lambda>(n, s).
     bindE (VectorUnser (stream_read 32) s) (\<lambda>(hs, s).
     bindE (Unserialize_bytes s) (\<lambda>(bs, s).
       Inr (\<lparr>nTransactions = n, vBits = BytesToBits bs, vHash = hs, fBad = False\<rparr>, s))))"

text \<open>A filtered block holds the header and the partial tree of the transactions in a set.\<close>

record CMerkleBlock =
  mb_header :: CBlockHeader
  mb_txn :: CPartialMerkleTree

definition mk_CMerkleBlock :: "CBlock \<Rightarrow> uint256 list \<Rightarrow> CMerkleBlock" where
  "mk_CMerkleBlock block txids =
     (let vHashes = map GetHash (vtx block);
          vMatch = map (\<lambda>hash. hash \<in> set txids) vHashes
      in \<lparr>mb_header = GetBlockHeader block, mb_txn = mk_CPartialMerkleTree vHashes vMatch\<rparr>)"

section \<open>The calculator computes the tree\<close>

text \<open>
  Node \<open>p\<close> at height \<open>k\<close> covers the leaves from \<open>p * 2 ^ k\<close> on; it exists when it covers a leaf.
\<close>

lemma width_iff: "p < CalcTreeWidth n k \<longleftrightarrow> p * 2 ^ k < n"
proof (cases n)
  case 0
  then show ?thesis by (simp add: CalcTreeWidth_def)
next
  case (Suc m)
  have "p < Suc (m div 2 ^ k) \<longleftrightarrow> p * 2 ^ k \<le> m"
    by (simp add: less_Suc_eq_le less_eq_div_iff_mult_less_eq)
  then show ?thesis using Suc by (simp add: CalcTreeWidth_pos less_Suc_eq_le)
qed

lemma CalcHash_pair: "(2 * p + 1) * 2 ^ k < length xs \<Longrightarrow> CalcHash xs (Suc k) p = Hash_2 (CalcHash xs k (2 * p)) (CalcHash xs k (2 * p + 1))"
  by (simp add: Let_def width_iff mult.commute)

lemma CalcHash_single: "length xs \<le> (2 * p + 1) * 2 ^ k \<Longrightarrow> CalcHash xs (Suc k) p = Hash_2 (CalcHash xs k (2 * p)) (CalcHash xs k (2 * p))"
  by (simp add: Let_def width_iff mult.commute not_less)

lemma bit_nat_iff_odd: "bit (m :: nat) k \<longleftrightarrow> odd (m div 2 ^ k)"
  by (simp add: bit_iff_odd)

lemma merkle_combine_stop: "bit count level \<Longrightarrow> merkle_combine count level h matchh st = (level, h, matchh, st)"
  by (simp add: merkle_combine.simps)

lemma merkle_branch_step_keeps [simp]:
  "m_inner (fst (merkle_branch_step st level h matchh)) = m_inner st"
  "m_mutated (fst (merkle_branch_step st level h matchh)) = m_mutated st"
  "m_matchlevel (fst (merkle_branch_step st level h matchh)) = m_matchlevel st"
  by (simp_all add: merkle_branch_step_def)

text \<open>
  The branch of leaf \<open>bp\<close> consists of the siblings of its ancestors; a missing sibling is replaced by the
  node itself.
\<close>

definition sib :: "uint256 list \<Rightarrow> nat \<Rightarrow> nat \<Rightarrow> uint256" where
  "sib xs bp k =
     (let p = bp div 2 ^ k
      in if odd p then CalcHash xs k (p - 1)
         else if (p + 1) * 2 ^ k < length xs then CalcHash xs k (p + 1) else CalcHash xs k p)"

definition sibs :: "uint256 list \<Rightarrow> nat \<Rightarrow> nat \<Rightarrow> uint256 list" where
  "sibs xs bp k = map (sib xs bp) [0..<k]"

lemma sibs_Suc: "sibs xs bp (Suc k) = sibs xs bp k @ [sib xs bp k]"
  by (simp add: sibs_def)

text \<open>
  One run of the combining loop: from a node at \<open>level\<close> that ends the first \<open>count\<close> leaves, with the
  left siblings in \<open>inner\<close>, to the node at the lowest set bit of \<open>count\<close>.
\<close>

definition zeros :: "nat \<Rightarrow> nat \<Rightarrow> nat \<Rightarrow> bool" where
  "zeros count level k \<longleftrightarrow> level \<le> k \<and> (\<forall>j. level \<le> j \<and> j \<le> k \<longrightarrow> \<not> bit count j)"

lemma zeros_Suc: "zeros count (Suc level) k \<Longrightarrow> \<not> bit count level \<Longrightarrow> zeros count level k"
  unfolding zeros_def by (metis Suc_leD le_antisym not_less_eq_eq)

lemma zeros_refl [simp]: "zeros count level level \<longleftrightarrow> \<not> bit count level"
  by (auto simp: zeros_def)

definition left_ready :: "uint256 list \<Rightarrow> nat \<Rightarrow> nat \<Rightarrow> uint256 list \<Rightarrow> bool" where
  "left_ready xs count level inner \<longleftrightarrow> (\<forall>k. zeros count level k \<longrightarrow> inner ! k = CalcHash xs k (count div 2 ^ k - 2))"

lemma left_ready_Suc: "left_ready xs count level inner \<Longrightarrow> \<not> bit count level \<Longrightarrow> left_ready xs count (Suc level) inner"
  by (simp add: left_ready_def zeros_Suc)

definition branch_ready :: "uint256 list \<Rightarrow> nat \<Rightarrow> nat \<Rightarrow> nat \<Rightarrow> bool \<Rightarrow> merkle_state \<Rightarrow> bool" where
  "branch_ready xs bp count level matchh st \<longleftrightarrow>
     (if matchh then bp div 2 ^ level = count div 2 ^ level - 1 \<and> m_branch st = sibs xs bp level
      else \<forall>k. zeros count level k \<longrightarrow> m_matchlevel st = int k \<longrightarrow> bp div 2 ^ k = count div 2 ^ k - 2 \<and> m_branch st = sibs xs bp k)"

lemma combine_node:
  assumes "2 ^ level dvd count" "0 < count" "\<not> bit count level" "count - 2 ^ level < length xs"
  shows "Hash_2 (CalcHash xs level (count div 2 ^ level - 2)) (CalcHash xs level (count div 2 ^ level - 1)) =
      CalcHash xs (Suc level) (count div 2 ^ Suc level - 1)"
    and "2 ^ Suc level dvd count" and "count - 2 ^ Suc level < length xs" and "2 ^ level < length xs"
    and "bp div 2 ^ level = count div 2 ^ level - 1 \<Longrightarrow> sib xs bp level = CalcHash xs level (count div 2 ^ level - 2)"
    and "bp div 2 ^ level = count div 2 ^ level - 2 \<Longrightarrow> sib xs bp level = CalcHash xs level (count div 2 ^ level - 1)"
    and "bp div 2 ^ level = count div 2 ^ level - 1 \<or> bp div 2 ^ level = count div 2 ^ level - 2 \<Longrightarrow>
      bp div 2 ^ Suc level = count div 2 ^ Suc level - 1"
proof -
  obtain m where m: "count = 2 ^ level * m" using assms(1) by (auto simp: dvd_def)
  then have "even m" using assms(3) by (simp add: bit_nat_iff_odd)
  then obtain q where q: "m = 2 * q" by (auto simp: dvd_def)
  then have "0 < q" using m assms(2) by simp
  then obtain p where p: "q = Suc p" by (cases q) auto
  have c: "count = 2 ^ Suc level * Suc p" using m q p by simp
  then show "2 ^ Suc level dvd count" by simp
  show "count - 2 ^ Suc level < length xs" using assms(4) by simp
  have l: "(2 * p + 1) * 2 ^ level < length xs" using assms(4) m q p by (simp add: algebra_simps)
  then show "2 ^ level < length xs" by (simp add: algebra_simps)
  have d: "count div 2 ^ level = 2 * p + 2" "count div 2 ^ Suc level = Suc p"
    using m q p c by (simp, metis mult.commute nonzero_mult_div_cancel_left power_not_zero zero_neq_numeral)
  show "Hash_2 (CalcHash xs level (count div 2 ^ level - 2)) (CalcHash xs level (count div 2 ^ level - 1)) =
    CalcHash xs (Suc level) (count div 2 ^ Suc level - 1)"
    using CalcHash_pair[of p level xs] l d by simp
  show "sib xs bp level = CalcHash xs level (count div 2 ^ level - 2)" if "bp div 2 ^ level = count div 2 ^ level - 1"
    using that d by (simp add: sib_def Let_def)
  show "sib xs bp level = CalcHash xs level (count div 2 ^ level - 1)" if "bp div 2 ^ level = count div 2 ^ level - 2"
    using that d l by (simp add: sib_def Let_def)
  have "bp div 2 ^ Suc level = bp div 2 ^ level div 2" by (simp only: power_Suc2 div_mult2_eq)
  then show "bp div 2 ^ Suc level = count div 2 ^ Suc level - 1"
    if "bp div 2 ^ level = count div 2 ^ level - 1 \<or> bp div 2 ^ level = count div 2 ^ level - 2"
    using that d by auto
qed

lemma branch_ready_Suc:
  assumes "2 ^ level dvd count" "0 < count" "\<not> bit count level" "count - 2 ^ level < length xs"
    and "m_inner st ! level = CalcHash xs level (count div 2 ^ level - 2)"
    and "h = CalcHash xs level (count div 2 ^ level - 1)"
    and "branch_ready xs bp count level matchh st"
    and "merkle_branch_step st level h matchh = (st1, matchh1)"
  shows "branch_ready xs bp count (Suc level) matchh1 st1"
    and "\<not> matchh1 \<Longrightarrow> \<not> matchh \<and> m_branch st1 = m_branch st \<and> m_matchlevel st \<noteq> int level"
    and "m_inner st1 = m_inner st" and "m_matchlevel st1 = m_matchlevel st" and "m_mutated st1 = m_mutated st"
  using assms(3,5-) combine_node(5-7)[OF assms(1-4), of bp] zeros_Suc[OF _ assms(3)]
  by (auto simp: merkle_branch_step_def branch_ready_def sibs_Suc split: if_splits simp del: power_Suc)

lemma ex_from_split:
  fixes l l' :: nat
  assumes "l < l'"
  shows "(\<exists>j. l \<le> j \<and> j < l' \<and> P j) \<longleftrightarrow> P l \<or> (\<exists>j. Suc l \<le> j \<and> j < l' \<and> P j)" (is "?L \<longleftrightarrow> ?R")
proof
  assume ?L
  then obtain j where "l \<le> j" "j < l'" "P j" by blast
  then show ?R by (cases "j = l") auto
next
  assume ?R
  then show ?L using assms by (meson Suc_leD order_refl)
qed

lemma merkle_combine_spec:
  assumes "2 ^ level dvd count" "0 < count" "count < 2 ^ 32" "count - 2 ^ level < length xs"
    and "left_ready xs count level (m_inner st)"
    and "h = CalcHash xs level (count div 2 ^ level - 1)"
    and "branch_ready xs bp count level matchh st"
    and "merkle_combine count level h matchh st = (level', h', matchh', st')"
  shows "level \<le> level' \<and> level' < 32 \<and> bit count level' \<and> 2 ^ level' dvd count \<and> count - 2 ^ level' < length xs \<and>
    (\<forall>j. level \<le> j \<and> j < level' \<longrightarrow> \<not> bit count j \<and> 2 ^ j < length xs \<and> (matchh' \<or> m_matchlevel st \<noteq> int j)) \<and>
    h' = CalcHash xs level' (count div 2 ^ level' - 1) \<and> m_inner st' = m_inner st \<and> m_matchlevel st' = m_matchlevel st \<and>
    branch_ready xs bp count level' matchh' st' \<and> (\<not> matchh' \<longrightarrow> \<not> matchh \<and> m_branch st' = m_branch st) \<and>
    (m_mutated st' \<longleftrightarrow> m_mutated st \<or>
       (\<exists>j. level \<le> j \<and> j < level' \<and> CalcHash xs j (count div 2 ^ j - 2) = CalcHash xs j (count div 2 ^ j - 1)))"
  using assms
proof (induction count level h matchh st arbitrary: level' h' matchh' st' rule: merkle_combine.induct)
  case (1 count level h matchh st)
  have "2 ^ level \<le> count" using 1(2,3) by (rule dvd_imp_le)
  then have l32: "level < 32" using 1(4) by (metis le_less_trans power_less_imp_less_exp one_less_numeral_iff semiring_norm(76))
  show ?case
  proof (cases "bit count level")
    case True
    then show ?thesis using 1(2,5,7,8,9) l32 by (auto simp: merkle_combine_stop)
  next
    case False
    then have c: "level < 32 \<and> \<not> bit count level" using l32 by simp
    obtain st1 matchh1 where b: "merkle_branch_step st level h matchh = (st1, matchh1)" by (cases "merkle_branch_step st level h matchh")
    let ?st1 = "st1\<lparr>m_mutated := m_mutated st1 \<or> m_inner st ! level = h\<rparr>"
    have i: "m_inner st ! level = CalcHash xs level (count div 2 ^ level - 2)" using 1(6) False by (simp add: left_ready_def)
    note B = branch_ready_Suc[OF 1(2,3) False 1(5) i 1(7,8) b]
    note N = combine_node[OF 1(2,3) False 1(5)]
    have h: "Hash_2 (m_inner st ! level) h = CalcHash xs (level + 1) (count div 2 ^ (level + 1) - 1)"
      using N(1) 1(7) i by simp
    have r: "left_ready xs count (level + 1) (m_inner ?st1)" "branch_ready xs bp count (level + 1) matchh1 ?st1"
      using left_ready_Suc[OF 1(6) False] B(1,3) by (simp_all add: branch_ready_def del: power_Suc)
    have "merkle_combine count (level + 1) (Hash_2 (m_inner st ! level) h) matchh1 ?st1 = (level', h', matchh', st')"
      using 1(9) c b by (simp add: merkle_combine.simps[of count level])
    note IH = 1(1)[OF c refl b[symmetric] _ 1(3,4) _ r(1) h r(2) this, unfolded Suc_eq_plus1[symmetric], OF N(2,3)]
    note I = IH[THEN conjunct1] IH[THEN conjunct2, THEN conjunct2, THEN conjunct2, THEN conjunct2, THEN conjunct2, THEN conjunct1] IH[THEN conjunct2, THEN conjunct2, THEN conjunct2, THEN conjunct2, THEN conjunct2, THEN conjunct2, THEN conjunct2, THEN conjunct1] IH[THEN conjunct2, THEN conjunct2, THEN conjunct2, THEN conjunct2, THEN conjunct2, THEN conjunct2, THEN conjunct2, THEN conjunct2, THEN conjunct1] IH[THEN conjunct2, THEN conjunct2, THEN conjunct2, THEN conjunct2, THEN conjunct2, THEN conjunct2, THEN conjunct2, THEN conjunct2, THEN conjunct2, THEN conjunct2, THEN conjunct1]
      IH[THEN conjunct2, THEN conjunct2, THEN conjunct2, THEN conjunct2, THEN conjunct2, THEN conjunct2, THEN conjunct2, THEN conjunct2, THEN conjunct2, THEN conjunct2, THEN conjunct2]
    note rest = IH[THEN conjunct2, THEN conjunct1] IH[THEN conjunct2, THEN conjunct2, THEN conjunct1] IH[THEN conjunct2, THEN conjunct2, THEN conjunct2, THEN conjunct1] IH[THEN conjunct2, THEN conjunct2, THEN conjunct2, THEN conjunct2, THEN conjunct1] IH[THEN conjunct2, THEN conjunct2, THEN conjunct2, THEN conjunct2, THEN conjunct2, THEN conjunct2, THEN conjunct1] IH[THEN conjunct2, THEN conjunct2, THEN conjunct2, THEN conjunct2, THEN conjunct2, THEN conjunct2, THEN conjunct2, THEN conjunct2, THEN conjunct2, THEN conjunct1]
    have J: "\<not> bit count j \<and> 2 ^ j < length xs \<and> (matchh' \<or> m_matchlevel st \<noteq> int j)" if "level \<le> j" "j < level'" for j
    proof (cases "j = level")
      case True
      have "m_matchlevel st \<noteq> int level" if "\<not> matchh'" using I(5) B(2) that by blast
      then show ?thesis using True False N(4) by blast
    next
      case False
      then have "Suc level \<le> j" using \<open>level \<le> j\<close> by simp
      then show ?thesis using I(2) \<open>j < level'\<close> B(4) by simp
    qed
    note ex_from_split[OF I(1)[THEN Suc_le_lessD], of "\<lambda>j. CalcHash xs j (count div 2 ^ j - 2) = CalcHash xs j (count div 2 ^ j - 1)"]
    moreover have "m_mutated ?st1 \<longleftrightarrow> m_mutated st \<or> CalcHash xs level (count div 2 ^ level - 2) = CalcHash xs level (count div 2 ^ level - 1)"
      using B(5) i 1(7) by simp
    ultimately have M: "m_mutated st' \<longleftrightarrow> m_mutated st \<or>
       (\<exists>j. level \<le> j \<and> j < level' \<and> CalcHash xs j (count div 2 ^ j - 2) = CalcHash xs j (count div 2 ^ j - 1))"
      using I(6) by blast
    have K: "level \<le> level'" using I(1) by linarith
    have L: "m_inner st' = m_inner st" "m_matchlevel st' = m_matchlevel st" "\<not> matchh' \<longrightarrow> \<not> matchh \<and> m_branch st' = m_branch st"
      using I(3,4,5) B(2,3,4) by simp_all
    show ?thesis using rest J M K L by (intro conjI allI impI) blast+
  qed
qed

text \<open>After \<open>c\<close> leaves, \<open>inner\<close> holds one complete subtree per set bit of \<open>c\<close>.\<close>

definition inner_ok :: "uint256 list \<Rightarrow> nat \<Rightarrow> uint256 list \<Rightarrow> bool" where
  "inner_ok xs c inner \<longleftrightarrow> length inner = 32 \<and> (\<forall>k < 32. bit c k \<longrightarrow> inner ! k = CalcHash xs k (c div 2 ^ k - 1))"

definition branch_ok :: "uint256 list \<Rightarrow> nat \<Rightarrow> nat \<Rightarrow> merkle_state \<Rightarrow> bool" where
  "branch_ok xs bp c st \<longleftrightarrow>
     (if bp < c
      then \<exists>k. bit c k \<and> bp div 2 ^ k = c div 2 ^ k - 1 \<and> m_matchlevel st = int k \<and> m_branch st = sibs xs bp k
      else m_matchlevel st = - 1 \<and> m_branch st = [])"

definition repeated :: "uint256 list \<Rightarrow> nat \<Rightarrow> bool" where
  "repeated xs c \<longleftrightarrow> (\<exists>k p. (p + 1) * 2 ^ Suc k \<le> c \<and> CalcHash xs k (2 * p) = CalcHash xs k (2 * p + 1))"

lemma zeros_dvd: "zeros m level k \<Longrightarrow> 2 ^ level dvd m \<Longrightarrow> 2 ^ Suc k dvd m"
proof (induction k)
  case 0
  then show ?case by (simp add: zeros_def bit_nat_iff_odd)
next
  case (Suc k)
  have "2 ^ Suc k dvd m"
  proof (cases "level \<le> k")
    case True
    then show ?thesis using Suc by (simp add: zeros_def)
  next
    case False
    then have "level = Suc k" using Suc(2) by (simp add: zeros_def)
    then show ?thesis using Suc(3) by simp
  qed
  then obtain q where q: "m = 2 ^ Suc k * q" by (auto simp: dvd_def)
  moreover have "even q"
  proof -
    have "\<not> bit m (Suc k)" using Suc(2) by (simp add: zeros_def)
    then show ?thesis using q by (simp add: bit_nat_iff_odd del: power_Suc)
  qed
  ultimately show ?case by (auto simp: dvd_def)
qed

lemma bit_below: "bit (m :: nat) k \<Longrightarrow> 2 ^ k \<le> m"
  by (rule ccontr) (simp add: bit_nat_iff_odd not_le)

lemma dvd_pow_bits: "2 ^ l dvd (m :: nat) \<Longrightarrow> j < l \<Longrightarrow> \<not> bit m j"
proof
  assume "2 ^ l dvd m" "j < l" "bit m j"
  then obtain q where "m = 2 ^ l * q" by (auto simp: dvd_def)
  moreover have "(2 :: nat) ^ l = 2 ^ j * 2 ^ (l - j)" using \<open>j < l\<close> by (simp add: power_add[symmetric])
  ultimately have "m div 2 ^ j = 2 ^ (l - j) * q" by simp
  then show False using \<open>bit m j\<close> \<open>j < l\<close> by (simp add: bit_nat_iff_odd)
qed

lemma Suc_div_pow: "Suc c div 2 ^ k = (if 2 ^ k dvd Suc c then Suc (c div 2 ^ k) else c div 2 ^ k)"
  by (simp add: div_Suc dvd_eq_mod_eq_0)

lemma leaf_left_ready:
  assumes "inner_ok xs c (m_inner st)" "Suc c < 2 ^ 32"
  shows "left_ready xs (Suc c) 0 (m_inner st)"
  unfolding left_ready_def
proof (intro allI impI)
  fix k
  assume z: "zeros (Suc c) 0 k"
  then have d: "2 ^ Suc k dvd Suc c" by (rule zeros_dvd) simp
  then have "2 ^ Suc k \<le> Suc c" by (rule dvd_imp_le) simp
  then have "(2 :: nat) ^ k < 2 ^ 32" using assms(2) by simp
  then have "k < 32" by (metis power_less_imp_less_exp one_less_numeral_iff semiring_norm(76))
  moreover have k: "Suc c div 2 ^ k = Suc (c div 2 ^ k)" using d by (auto simp: Suc_div_pow dest: dvd_mult_right)
  moreover have "bit c k" using z k by (auto simp: zeros_def bit_nat_iff_odd)
  ultimately show "m_inner st ! k = CalcHash xs k (Suc c div 2 ^ k - 2)" using assms(1) by (simp add: inner_ok_def)
qed

lemma leaf_branch_ready:
  assumes "branch_ok xs bp c st"
  shows "branch_ready xs bp (Suc c) 0 (c = bp) st"
proof (cases "c = bp")
  case True
  then show ?thesis using assms by (simp add: branch_ready_def branch_ok_def sibs_def)
next
  case False
  have "bp div 2 ^ k = Suc c div 2 ^ k - 2 \<and> m_branch st = sibs xs bp k" if z: "zeros (Suc c) 0 k" and k: "m_matchlevel st = int k" for k
  proof -
    have "bp < c" using k assms by (auto simp: branch_ok_def split: if_splits)
    moreover have "2 ^ Suc k dvd Suc c" using z by (rule zeros_dvd) simp
    then have "Suc c div 2 ^ k = Suc (c div 2 ^ k)" by (auto simp: Suc_div_pow dest: dvd_mult_right)
    ultimately show ?thesis using assms k by (auto simp: branch_ok_def)
  qed
  then show ?thesis using False by (simp add: branch_ready_def)
qed

text \<open>Adding one leaf: the counter moves from \<open>c\<close> to \<open>Suc c\<close>, whose lowest set bit is \<open>l\<close>.\<close>

lemma leaf_bits:
  assumes "2 ^ l dvd Suc c" "bit (Suc c) l"
  shows "k < l \<Longrightarrow> bit c k" "\<not> bit c l" "l < k \<Longrightarrow> Suc c div 2 ^ k = c div 2 ^ k"
proof -
  show "bit c k" if "k < l"
  proof -
    have "2 ^ k dvd Suc c" using assms(1) that by (metis dvd_trans le_imp_power_dvd less_imp_le)
    moreover have "\<not> bit (Suc c) k" using dvd_pow_bits[OF assms(1) that] .
    ultimately show ?thesis by (auto simp: bit_nat_iff_odd Suc_div_pow)
  qed
  show "\<not> bit c l" using assms by (auto simp: bit_nat_iff_odd Suc_div_pow)
  show "Suc c div 2 ^ k = c div 2 ^ k" if "l < k"
    using dvd_pow_bits[of k "Suc c" l] assms(2) that by (auto simp: Suc_div_pow)
qed

lemma repeated_Suc:
  assumes "2 ^ l dvd Suc c" "bit (Suc c) l"
  shows "repeated xs (Suc c) \<longleftrightarrow> repeated xs c \<or>
    (\<exists>j. 0 \<le> j \<and> j < l \<and> CalcHash xs j (Suc c div 2 ^ j - 2) = CalcHash xs j (Suc c div 2 ^ j - 1))" (is "_ \<longleftrightarrow> _ \<or> ?N")
proof
  assume "repeated xs (Suc c)"
  then obtain k p where p: "(p + 1) * 2 ^ Suc k \<le> Suc c" "CalcHash xs k (2 * p) = CalcHash xs k (2 * p + 1)"
    by (auto simp: repeated_def simp del: power_Suc)
  show "repeated xs c \<or> ?N"
  proof (cases "(p + 1) * 2 ^ Suc k = Suc c")
    case True
    have "2 ^ Suc k dvd Suc c" unfolding True[symmetric] by (rule dvd_triv_right)
    then have "\<not> bit (Suc c) j" if "j \<le> k" for j using dvd_pow_bits that by (metis le_imp_less_Suc)
    then have "k < l" using assms(2) by (meson not_le)
    moreover have "Suc c div 2 ^ k = 2 * p + 2"
    proof -
      have "Suc c = 2 ^ k * (2 * p + 2)" using True by (simp add: algebra_simps)
      then show ?thesis by (metis nonzero_mult_div_cancel_left power_not_zero zero_neq_numeral)
    qed
    ultimately show ?thesis using p(2) by auto
  next
    case False
    then show ?thesis using p by (auto simp: repeated_def simp del: power_Suc)
  qed
next
  have "repeated xs (Suc c)" if "j < l" "CalcHash xs j (Suc c div 2 ^ j - 2) = CalcHash xs j (Suc c div 2 ^ j - 1)" for j
  proof -
    have "2 ^ Suc j dvd Suc c" using assms(1) that(1) by (metis Suc_leI dvd_trans le_imp_power_dvd)
    then obtain q where q: "Suc c = 2 ^ Suc j * q" by (auto simp: dvd_def)
    then obtain p where p: "q = Suc p" by (cases q) auto
    have "Suc c div 2 ^ j = 2 * p + 2" using q p by (simp del: mult_Suc)
    then show ?thesis
      using that(2) q p unfolding repeated_def by (intro exI[of _ j] exI[of _ p]) (simp add: mult.commute del: power_Suc mult_Suc)
  qed
  then show "repeated xs c \<or> ?N \<Longrightarrow> repeated xs (Suc c)"
    by (auto simp: repeated_def simp del: power_Suc) (meson le_SucI)
qed

definition leaves_ok :: "uint256 list \<Rightarrow> nat \<Rightarrow> nat \<Rightarrow> merkle_state \<Rightarrow> bool" where
  "leaves_ok xs bp c st \<longleftrightarrow> inner_ok xs c (m_inner st) \<and> branch_ok xs bp c st \<and> (m_mutated st \<longleftrightarrow> repeated xs c)"

lemma merkle_leaf:
  assumes ok: "leaves_ok xs bp c st" and c: "c < length xs" "Suc c < 2 ^ 32"
    and m: "merkle_combine (Suc c) 0 (xs ! c) (c = bp) st = (l, h, matchh, st1)"
  shows "leaves_ok xs bp (Suc c)
    (st1\<lparr>m_inner := (m_inner st1)[l := h], m_matchlevel := (if matchh then int l else m_matchlevel st1)\<rparr>)"
proof -
  have i: "inner_ok xs c (m_inner st)" and b: "branch_ok xs bp c st" and r: "m_mutated st \<longleftrightarrow> repeated xs c"
    using ok by (auto simp: leaves_ok_def)
  note S = merkle_combine_spec[OF _ _ c(2) _ leaf_left_ready[OF i c(2)] _ leaf_branch_ready[OF b] m]
  have "l < 32" and l: "2 ^ l dvd Suc c" "bit (Suc c) l" and h: "h = CalcHash xs l (Suc c div 2 ^ l - 1)"
    and keep: "m_inner st1 = m_inner st" "m_matchlevel st1 = m_matchlevel st" "\<not> matchh \<longrightarrow> c \<noteq> bp \<and> m_branch st1 = m_branch st"
    and br: "branch_ready xs bp (Suc c) l matchh st1" and ml: "\<forall>j < l. matchh \<or> m_matchlevel st \<noteq> int j"
    and mu': "m_mutated st1 \<longleftrightarrow> repeated xs c \<or>
      (\<exists>j. 0 \<le> j \<and> j < l \<and> CalcHash xs j (Suc c div 2 ^ j - 2) = CalcHash xs j (Suc c div 2 ^ j - 1))"
    using S c(1) r by simp_all
  have mu: "m_mutated st1 \<longleftrightarrow> repeated xs (Suc c)" using mu' repeated_Suc[OF l] by blast
  note B = leaf_bits[OF l]
  have low: "\<not> bit (Suc c) k" if "k < l" for k using dvd_pow_bits[OF l(1) that] .
  have same: "bit (Suc c) k = bit c k" if "l < k" for k using B(3)[OF that] by (simp add: bit_nat_iff_odd)
  have "inner_ok xs (Suc c) ((m_inner st1)[l := h])"
    using i h low same B(3) \<open>l < 32\<close> by (auto simp: inner_ok_def keep nth_list_update neq_iff)
  moreover have "branch_ok xs bp (Suc c) (st1\<lparr>m_inner := (m_inner st1)[l := h], m_matchlevel := (if matchh then int l else m_matchlevel st1)\<rparr>)"
  proof (cases matchh)
    case True
    then have *: "bp div 2 ^ l = Suc c div 2 ^ l - 1" "m_branch st1 = sibs xs bp l" using br by (simp_all add: branch_ready_def)
    have "Suc c div 2 ^ l \<noteq> 0" using l(2) by (metis bit_nat_iff_odd even_zero)
    then have "bp div 2 ^ l < Suc c div 2 ^ l" using *(1) by linarith
    then have "bp < Suc c" by (metis div_le_mono leD leI)
    then show ?thesis using True * l by (auto simp: branch_ok_def)
  next
    case False
    show ?thesis
    proof (cases "bp < c")
      case True
      then obtain k where k: "bit c k" "bp div 2 ^ k = c div 2 ^ k - 1" "m_matchlevel st = int k" "m_branch st = sibs xs bp k"
        using b by (auto simp: branch_ok_def)
      have "l < k" using ml k(1,3) B(2) False by (metis linorder_neqE_nat)
      then show ?thesis using k same B(3) False keep True by (auto simp: branch_ok_def)
    next
      case *: False
      then show ?thesis using False keep b by (auto simp: branch_ok_def)
    qed
  qed
  ultimately show ?thesis using mu by (simp add: leaves_ok_def)
qed

lemma merkle_leaves_ok:
  "leaves_ok xs bp c st \<Longrightarrow> ys = drop c xs \<Longrightarrow> c \<le> length xs \<Longrightarrow> length xs < 2 ^ 32 \<Longrightarrow> leaves_ok xs bp (length xs) (merkle_leaves bp c ys st)"
proof (induction ys arbitrary: c st)
  case (Cons y ys)
  have c: "c < length xs" using Cons.prems(2) by (metis drop_all list.distinct(1) not_le)
  then have y: "y = xs ! c" "ys = drop (Suc c) xs" using Cons.prems(2) by (simp_all add: Cons_nth_drop_Suc[symmetric])
  obtain l h matchh st1 where m: "merkle_combine (Suc c) 0 (xs ! c) (c = bp) st = (l, h, matchh, st1)" by (metis prod_cases4)
  have "Suc c < 2 ^ 32" using c Cons.prems(4) by linarith
  from Cons.IH[OF merkle_leaf[OF Cons.prems(1) c this m] y(2) _ Cons.prems(4)]
  show ?case using c m by (simp add: y(1))
qed simp

text \<open>
  The final sweep over the rightmost branch.  Its \<open>count\<close> is the number of leaves rounded up to a
  multiple of \<open>2 ^ level\<close>.
\<close>

definition sweep_ok :: "uint256 list \<Rightarrow> nat \<Rightarrow> nat \<Rightarrow> nat \<Rightarrow> uint256 \<Rightarrow> bool \<Rightarrow> merkle_state \<Rightarrow> bool" where
  "sweep_ok xs bp m l h matchh st \<longleftrightarrow>
     2 ^ l dvd m \<and> bit m l \<and> m - 2 ^ l < length xs \<and> length xs \<le> m \<and> m \<le> 2 ^ 31 \<and>
     h = CalcHash xs l (m div 2 ^ l - 1) \<and> inner_ok xs (length xs) (m_inner st) \<and> (\<forall>k < l. 2 ^ k < length xs) \<and>
     (if matchh then bp div 2 ^ l = m div 2 ^ l - 1 \<and> m_branch st = sibs xs bp l
      else if bp < length xs
      then \<exists>k > l. bit (length xs) k \<and> bp div 2 ^ k = length xs div 2 ^ k - 1 \<and> m_matchlevel st = int k \<and> m_branch st = sibs xs bp k
      else m_matchlevel st = - 1)"

lemma div_between: "2 ^ k dvd m \<Longrightarrow> m - 2 ^ k \<le> n \<Longrightarrow> n < m \<Longrightarrow> n div 2 ^ k = m div 2 ^ k - 1" for m n k :: nat
proof -
  assume "2 ^ k dvd m" "m - 2 ^ k \<le> n" "n < m"
  then obtain q where q: "m = 2 ^ k * q" by (auto simp: dvd_def)
  then obtain p where p: "q = Suc p" using \<open>n < m\<close> by (cases q) auto
  have "n div 2 ^ k = p" using \<open>m - 2 ^ k \<le> n\<close> \<open>n < m\<close> q p by (intro div_nat_eqI) (simp_all add: algebra_simps)
  then show ?thesis using q p by simp
qed

lemma sweep_arith:
  fixes m n :: nat
  assumes "2 ^ l dvd m" "bit m l" "m \<le> 2 ^ 31" "m \<noteq> 2 ^ l" and n: "m - 2 ^ l < n" "n \<le> m"
  obtains q where "m = (2 * q + 1) * 2 ^ l" "m + 2 ^ l = (q + 1) * 2 ^ (l + 1)" "m div 2 ^ l = 2 * q + 1" "(m + 2 ^ l) div 2 ^ (l + 1) = q + 1"
    "0 < q" "m + 2 ^ l \<le> 2 ^ 31" "2 ^ l < n" "m + 2 ^ l - 2 ^ (l + 1) < n"
proof -
  obtain r where r: "m = 2 ^ l * r" using assms(1) by (auto simp: dvd_def)
  then have "odd r" using assms(2) by (simp add: bit_nat_iff_odd)
  then obtain q where q: "r = 2 * q + 1" by (auto elim: oddE)
  have m: "m = (2 * q + 1) * 2 ^ l" using r q by simp
  then have "0 < q" using assms(4) by (cases q) auto
  have "(2 :: nat) ^ l < 2 ^ 31" using assms(3) m \<open>0 < q\<close> by (cases q) (auto simp: algebra_simps)
  then have l: "l < 31" by (metis power_less_imp_less_exp one_less_numeral_iff semiring_norm(76))
  then have e: "(2 :: nat) ^ 31 = 2 * 2 ^ (30 - l) * 2 ^ l" by (simp add: power_add[symmetric] power_Suc[symmetric] Suc_diff_Suc del: power_Suc)
  have "2 * q + 1 \<le> 2 * 2 ^ (30 - l)" using assms(3) unfolding m e by (simp only: mult_le_cancel2) simp
  then have "q + 1 \<le> 2 ^ (30 - l)" by presburger
  then have "(2 * q + 2) * 2 ^ l \<le> 2 * 2 ^ (30 - l) * 2 ^ l" by (intro mult_right_mono) simp_all
  then have "m + 2 ^ l \<le> 2 ^ 31" unfolding e using m by (simp add: algebra_simps)
  moreover have s: "m + 2 ^ l = (q + 1) * 2 ^ (l + 1)" using m by (simp add: algebra_simps)
  moreover have "(m + 2 ^ l) div 2 ^ (l + 1) = q + 1" unfolding s by simp
  moreover have "m div 2 ^ l = 2 * q + 1" using m by simp
  moreover have "2 ^ l < n" using n(1) m \<open>0 < q\<close> by (cases q) (auto simp: algebra_simps)
  moreover have "m + 2 ^ l - 2 ^ (l + 1) < n" using n(1) by simp
  ultimately show ?thesis using that m \<open>0 < q\<close> by blast
qed

lemma tree_height_eq: "(\<And>k. k < l \<Longrightarrow> 2 ^ k < n) \<Longrightarrow> n \<le> 2 ^ l \<Longrightarrow> j \<le> l \<Longrightarrow> tree_height n j = l"
proof (induction "l - j" arbitrary: j)
  case 0
  then have "\<not> 1 < CalcTreeWidth n l" by (simp add: width_iff not_less)
  then show ?case using 0 by (simp add: tree_height.simps)
next
  case (Suc d)
  then have "1 < CalcTreeWidth n j" by (simp add: width_iff)
  then show ?case using Suc by (subst tree_height.simps) simp
qed

lemma sweep_left_ready:
  assumes "sweep_ok xs bp m l h matchh st" "m \<noteq> 2 ^ l"
  shows "left_ready xs (m + 2 ^ l) (l + 1) (m_inner st)"
    and "zeros (m + 2 ^ l) (l + 1) k \<Longrightarrow> length xs div 2 ^ k - 1 = (m + 2 ^ l) div 2 ^ k - 2"
proof -
  let ?n = "length xs" and ?m = "m + 2 ^ l"
  have s: "2 ^ l dvd m" "bit m l" "m \<le> 2 ^ 31" "m - 2 ^ l < ?n" "?n \<le> m" "inner_ok xs ?n (m_inner st)"
    using assms(1) by (simp_all add: sweep_ok_def)
  obtain q where q: "?m = (q + 1) * 2 ^ (l + 1)" "?m \<le> 2 ^ 31" "?m - 2 ^ (l + 1) < ?n"
    using sweep_arith[OF s(1-3) assms(2) s(4,5)] by metis
  have d: "?n div 2 ^ k = ?m div 2 ^ k - 1 \<and> k < 32 \<and> bit ?n k" if z: "zeros ?m (l + 1) k" for k
  proof -
    have dvd: "2 ^ Suc k dvd ?m" using z by (rule zeros_dvd) (simp add: q(1))
    then have "2 ^ Suc k \<le> ?m" by (rule dvd_imp_le) simp
    then have "(2 :: nat) ^ k < 2 ^ 32" using q(2) by simp
    then have "k < 32" by (metis power_less_imp_less_exp one_less_numeral_iff semiring_norm(76))
    have "(2 :: nat) ^ (l + 1) \<le> 2 ^ k" using z by (intro power_increasing) (auto simp: zeros_def)
    then have e: "?n div 2 ^ k = ?m div 2 ^ k - 1" using q(3) s(5) dvd by (intro div_between) (auto dest: dvd_mult_right)
    have "even (?m div 2 ^ k)" using z by (simp add: zeros_def bit_nat_iff_odd)
    moreover have "0 < ?m div 2 ^ k" using \<open>2 ^ Suc k \<le> ?m\<close> by (simp add: div_greater_zero_iff)
    ultimately have "odd (?n div 2 ^ k)" using e by simp
    then show ?thesis using e \<open>k < 32\<close> by (simp add: bit_nat_iff_odd)
  qed
  then show e: "length xs div 2 ^ k - 1 = ?m div 2 ^ k - 2" if "zeros ?m (l + 1) k" for k using that by simp
  show "left_ready xs ?m (l + 1) (m_inner st)"
    unfolding left_ready_def using d e[symmetric] s(6) by (auto simp: inner_ok_def)
qed

lemma sweep_branch_ready:
  assumes ok: "sweep_ok xs bp m l h matchh st" and ne: "m \<noteq> 2 ^ l"
  shows "branch_ready xs bp (m + 2 ^ l) (l + 1) matchh (if matchh then st\<lparr>m_branch := m_branch st @ [h]\<rparr> else st)"
    and "Hash_2 h h = CalcHash xs (l + 1) ((m + 2 ^ l) div 2 ^ (l + 1) - 1)"
proof -
  have s: "2 ^ l dvd m" "bit m l" "m \<le> 2 ^ 31" "m - 2 ^ l < length xs" "length xs \<le> m" and h: "h = CalcHash xs l (m div 2 ^ l - 1)"
    using ok by (simp_all add: sweep_ok_def)
  obtain q where q: "m = (2 * q + 1) * 2 ^ l" "m div 2 ^ l = 2 * q + 1" "(m + 2 ^ l) div 2 ^ (l + 1) = q + 1"
    using sweep_arith[OF s(1-3) ne s(4,5)] by metis
  show "Hash_2 h h = CalcHash xs (l + 1) ((m + 2 ^ l) div 2 ^ (l + 1) - 1)"
    using CalcHash_single[of xs q l] s(5) q h by simp
  show "branch_ready xs bp (m + 2 ^ l) (l + 1) matchh (if matchh then st\<lparr>m_branch := m_branch st @ [h]\<rparr> else st)"
  proof (cases matchh)
    case True
    then have b: "bp div 2 ^ l = 2 * q" "m_branch st = sibs xs bp l" using ok q(2) by (simp_all add: sweep_ok_def)
    have "sib xs bp l = h" using b(1) s(5) q(1,2) h by (simp add: sib_def Let_def)
    moreover have "bp div 2 ^ (l + 1) = bp div 2 ^ l div 2" by (simp only: Suc_eq_plus1[symmetric] power_Suc2 div_mult2_eq)
    ultimately show ?thesis using True b q(3) by (simp add: branch_ready_def sibs_Suc)
  next
    case False
    have "bp div 2 ^ k = (m + 2 ^ l) div 2 ^ k - 2 \<and> m_branch st = sibs xs bp k" if "zeros (m + 2 ^ l) (l + 1) k" "m_matchlevel st = int k" for k
      using ok False that sweep_left_ready(2)[OF ok ne that(1)] by (auto simp: sweep_ok_def split: if_splits)
    then show ?thesis using False by (simp add: branch_ready_def)
  qed
qed

lemma sweep_unmatched:
  "sweep_ok xs bp m l h matchh st \<Longrightarrow> \<not> matchh \<Longrightarrow> bp < length xs \<Longrightarrow>
    \<exists>k > l. bit (length xs) k \<and> bp div 2 ^ k = length xs div 2 ^ k - 1 \<and> m_matchlevel st = int k \<and> m_branch st = sibs xs bp k"
  by (simp add: sweep_ok_def)

lemma sweep_step:
  assumes ok: "sweep_ok xs bp m l h matchh st" and ne: "m \<noteq> 2 ^ l"
    and st1: "st1 = (if matchh then st\<lparr>m_branch := m_branch st @ [h]\<rparr> else st)"
    and c: "merkle_combine (m + 2 ^ l) (l + 1) (Hash_2 h h) matchh st1 = (l2, h2, mh2, st2)"
  shows "sweep_ok xs bp (m + 2 ^ l) l2 h2 mh2 (st2\<lparr>m_mutated := m_mutated st1\<rparr>)"
proof -
  let ?n = "length xs" and ?m = "m + 2 ^ l"
  have s: "2 ^ l dvd m" "bit m l" "m \<le> 2 ^ 31" "m - 2 ^ l < ?n" "?n \<le> m" "inner_ok xs ?n (m_inner st)"
    and low: "\<And>k. k < l \<Longrightarrow> 2 ^ k < ?n"
    using ok by (simp_all add: sweep_ok_def)
  obtain q where q: "?m = (q + 1) * 2 ^ (l + 1)" "?m \<le> 2 ^ 31" "2 ^ l < ?n" "?m - 2 ^ (l + 1) < ?n"
    using sweep_arith[OF s(1-3) ne s(4,5)] by metis
  have keep1: "m_inner st1 = m_inner st" "m_matchlevel st1 = m_matchlevel st" by (simp_all add: st1)
  have "?m < 2 ^ 32" using q(2) by simp
  note S = merkle_combine_spec[OF _ _ this q(4) _ sweep_branch_ready(2)[OF ok ne] sweep_branch_ready(1)[OF ok ne, folded st1] c]
  have r: "l + 1 \<le> l2" "bit ?m l2" "2 ^ l2 dvd ?m" "?m - 2 ^ l2 < ?n" "h2 = CalcHash xs l2 (?m div 2 ^ l2 - 1)"
    and j: "\<forall>j. l + 1 \<le> j \<and> j < l2 \<longrightarrow> 2 ^ j < ?n \<and> (mh2 \<or> m_matchlevel st \<noteq> int j)"
    and keep: "m_inner st2 = m_inner st" "m_matchlevel st2 = m_matchlevel st" "\<not> mh2 \<longrightarrow> \<not> matchh \<and> m_branch st2 = m_branch st1"
    and br: "branch_ready xs bp ?m l2 mh2 st2"
    using S sweep_left_ready(1)[OF ok ne] q(1) by (simp_all add: keep1)
  have low2: "2 ^ k < ?n" if "k < l2" for k
    using low[of k] q(3) j that by (cases k l rule: linorder_cases) auto
  have "?n < ?m" using s(5) by (rule le_less_trans) simp
  then have "?n div 2 ^ l2 = ?m div 2 ^ l2 - 1" using r(3,4) by (intro div_between) simp_all
  then have nb: "\<not> bit ?n l2" using r(2) by (auto simp: bit_nat_iff_odd)
  have "\<exists>k > l2. bit ?n k \<and> bp div 2 ^ k = ?n div 2 ^ k - 1 \<and> m_matchlevel st2 = int k \<and> m_branch st2 = sibs xs bp k"
    if F: "\<not> mh2" "bp < ?n"
  proof -
    have "\<not> matchh" using keep(3) F by simp
    then obtain k where k: "l < k" "bit ?n k" "bp div 2 ^ k = ?n div 2 ^ k - 1" "m_matchlevel st = int k" "m_branch st = sibs xs bp k"
      using sweep_unmatched[OF ok _ F(2)] by blast
    moreover have "l2 < k" using j k(1,2,4) F(1) nb by (metis Suc_eq_plus1 Suc_leI linorder_neqE_nat)
    ultimately show ?thesis using keep F(1) \<open>\<not> matchh\<close> st1 by auto
  qed
  moreover have "m_matchlevel st2 = - 1" if "\<not> mh2" "\<not> bp < ?n" using ok that keep by (simp add: sweep_ok_def)
  moreover have "bp div 2 ^ l2 = ?m div 2 ^ l2 - 1 \<and> m_branch st2 = sibs xs bp l2" if mh2 using br that by (simp add: branch_ready_def)
  ultimately show ?thesis using r q(2) s(5,6) keep low2 by (simp add: sweep_ok_def)
qed

lemma merkle_sweep_spec:
  assumes "sweep_ok xs bp m l h matchh st" and "merkle_sweep m l h matchh st = (root, st')"
  shows "root = CalcHash xs (tree_height (length xs) 0) 0 \<and> m_mutated st' = m_mutated st \<and>
    (bp < length xs \<longrightarrow> m_branch st' = sibs xs bp (tree_height (length xs) 0))"
  using assms
proof (induction m l h matchh st rule: merkle_sweep.induct)
  case (1 m l h matchh st)
  let ?n = "length xs"
  have s: "bit m l" "m \<le> 2 ^ 31" "?n \<le> m" and h: "h = CalcHash xs l (m div 2 ^ l - 1)" and low: "\<And>k. k < l \<Longrightarrow> 2 ^ k < ?n"
    using 1(2) unfolding sweep_ok_def by blast+
  have "2 ^ l \<le> m" using bit_below[OF s(1)] .
  then have "(2 :: nat) ^ l < 2 ^ 32" using s(2) by simp
  then have l32: "l < 32" by (metis power_less_imp_less_exp one_less_numeral_iff semiring_norm(76))
  show ?case
  proof (cases "m = 2 ^ l")
    case True
    then have th: "tree_height ?n 0 = l" using s(3) by (intro tree_height_eq low) simp_all
    have matchh if bp: "bp < ?n"
    proof (rule ccontr)
      assume "\<not> matchh"
      then obtain k where "l < k" "bit ?n k" using sweep_unmatched[OF 1(2) _ bp] by blast
      have "2 ^ k \<le> ?n" using bit_below[OF \<open>bit ?n k\<close>] .
      also have "?n \<le> 2 ^ l" using s(3) True by simp
      finally show False using \<open>l < k\<close> by simp
    qed
    then have "bp < ?n \<longrightarrow> m_branch st = sibs xs bp l" using 1(2) by (simp add: sweep_ok_def)
    moreover have "(root, st') = (h, st)" using 1(3) True by (simp add: merkle_sweep.simps[of "2 ^ l" l])
    moreover have "h = CalcHash xs l 0" using h True by simp
    ultimately show ?thesis by (simp add: th)
  next
    case False
    obtain l2 h2 mh2 st2 where c: "merkle_combine (m + 2 ^ l) (l + 1) (Hash_2 h h) matchh
        (if matchh then st\<lparr>m_branch := m_branch st @ [h]\<rparr> else st) = (l2, h2, mh2, st2)" by (metis prod_cases4)
    let ?st1 = "if matchh then st\<lparr>m_branch := m_branch st @ [h]\<rparr> else st"
    have g: "l < 32 \<and> m \<noteq> 2 ^ l" using l32 False by simp
    have "merkle_sweep (m + 2 ^ l) l2 h2 mh2 (st2\<lparr>m_mutated := m_mutated ?st1\<rparr>) = (root, st')"
      using 1(3) unfolding merkle_sweep.simps[of m l] Let_def c if_P[OF g] by (simp only: case_prod_conv)
    note IH = 1(1)[OF g refl c[symmetric] refl refl refl sweep_step[OF 1(2) False refl c] this]
    have "m_mutated (st2\<lparr>m_mutated := m_mutated ?st1\<rparr>) = m_mutated st" by simp
    then show ?thesis using IH by (simp only:) blast
  qed
qed

lemma merkle_skip_spec:
  "0 < n \<Longrightarrow> n < 2 ^ 32 \<Longrightarrow> 2 ^ l dvd n \<Longrightarrow> bit n (merkle_skip n l) \<and> 2 ^ merkle_skip n l dvd n"
proof (induction n l rule: merkle_skip.induct)
  case (1 n l)
  have "2 ^ l \<le> n" using 1(4,2) by (rule dvd_imp_le)
  then have "(2 :: nat) ^ l < 2 ^ 32" using 1(3) by linarith
  then have l32: "l < 32" by (metis power_less_imp_less_exp one_less_numeral_iff semiring_norm(76))
  show ?case
  proof (cases "bit n l")
    case True
    then show ?thesis using 1(4) by (simp add: merkle_skip.simps[of n l])
  next
    case False
    then have "2 ^ (l + 1) dvd n" using zeros_dvd[of n l l] 1(4) by simp
    then show ?thesis using 1(1)[OF _ 1(2,3)] l32 False by (simp add: merkle_skip.simps[of n l])
  qed
qed

lemma MerkleComputation_spec:
  assumes "xs \<noteq> []" "length xs \<le> 2 ^ 31" and m: "MerkleComputation xs bp = (root, mutated, branch)"
  shows "root = CalcHash xs (tree_height (length xs) 0) 0" and "mutated \<longleftrightarrow> repeated xs (length xs)"
    and "bp < length xs \<Longrightarrow> branch = sibs xs bp (tree_height (length xs) 0)"
proof -
  let ?n = "length xs"
  let ?st0 = "\<lparr>m_inner = replicate 32 null_hash, m_matchlevel = - 1, m_mutated = False, m_branch = []\<rparr>"
  define st where "st = merkle_leaves bp 0 xs ?st0"
  define l where "l = merkle_skip ?n 0"
  have n: "0 < ?n" "?n < 2 ^ 32" using assms(1,2) by auto
  have "leaves_ok xs bp 0 ?st0" by (simp add: leaves_ok_def inner_ok_def branch_ok_def repeated_def)
  then have ok: "leaves_ok xs bp ?n st" unfolding st_def by (rule merkle_leaves_ok) (use n in simp_all)
  have l: "bit ?n l" "2 ^ l dvd ?n" using merkle_skip_spec[OF n, of 0] by (simp_all add: l_def)
  have low: "2 ^ k < ?n" if "k < l" for k
    using bit_below[OF l(1)] power_strict_increasing[OF that, of "2 :: nat"] by linarith
  have "(2 :: nat) ^ l < 2 ^ 32" using bit_below[OF l(1)] n(2) by linarith
  then have l32: "l < 32" by (metis power_less_imp_less_exp one_less_numeral_iff semiring_norm(76))
  have k: "k = l \<or> l < k" if "bit ?n k" for k using dvd_pow_bits[OF l(2)] that by (metis linorder_neqE_nat)
  have "sweep_ok xs bp ?n l (m_inner st ! l) (m_matchlevel st = int l) st"
    using ok l l32 low assms(2) k n(1) unfolding sweep_ok_def leaves_ok_def inner_ok_def branch_ok_def by (auto split: if_splits)
  moreover obtain r st' where r: "merkle_sweep ?n l (m_inner st ! l) (m_matchlevel st = int l) st = (r, st')" by (metis prod.exhaust)
  ultimately have S: "r = CalcHash xs (tree_height ?n 0) 0 \<and> m_mutated st' = m_mutated st \<and>
    (bp < ?n \<longrightarrow> m_branch st' = sibs xs bp (tree_height ?n 0))"
    by (rule merkle_sweep_spec)
  have M: "root = r" "mutated = m_mutated st'" "branch = m_branch st'"
    using m assms(1) r by (simp_all add: MerkleComputation_def st_def[symmetric] l_def[symmetric])
  show "root = CalcHash xs (tree_height ?n 0) 0" "mutated \<longleftrightarrow> repeated xs ?n"
    "bp < ?n \<Longrightarrow> branch = sibs xs bp (tree_height ?n 0)"
    using S M ok by (simp_all add: leaves_ok_def)
qed

lemma branch_leads_to_root:
  assumes "bp < length xs" and "k \<le> l"
  shows "ComputeMerkleRootFromBranch (CalcHash xs k (bp div 2 ^ k)) (map (sib xs bp) [k..<l]) (bp div 2 ^ k) = CalcHash xs l (bp div 2 ^ l)"
  using assms(2)
proof (induction "l - k" arbitrary: k)
  case (Suc d)
  define p where "p = bp div 2 ^ k"
  have p: "p * 2 ^ k < length xs" using assms(1) unfolding p_def by (meson div_times_less_eq_dividend le_less_trans)
  have up: "(if odd p then Hash_2 (sib xs bp k) (CalcHash xs k p) else Hash_2 (CalcHash xs k p) (sib xs bp k)) = CalcHash xs (Suc k) (p div 2)"
  proof (cases "odd p")
    case True
    then obtain q where q: "p = 2 * q + 1" by (auto elim: oddE)
    then show ?thesis using CalcHash_pair[of q k xs] p by (simp add: sib_def p_def[symmetric])
  next
    case False
    then obtain q where q: "p = 2 * q" by (auto elim: evenE)
    then show ?thesis using CalcHash_pair[of q k xs] CalcHash_single[of xs q k]
      by (cases "(2 * q + 1) * 2 ^ k < length xs") (simp_all add: sib_def p_def[symmetric] not_less)
  qed
  have "bp div 2 ^ Suc k = p div 2" unfolding p_def by (simp only: power_Suc2 div_mult2_eq)
  moreover have "[k..<l] = k # [Suc k..<l]" using Suc(2) by (simp add: upt_conv_Cons)
  moreover have "d = l - Suc k" "Suc k \<le> l" using Suc(2) by simp_all
  ultimately show ?case using Suc(1)[of "Suc k"] up by (simp add: p_def[symmetric] del: CalcHash.simps power_Suc)
qed simp

section \<open>The root commits to the list\<close>

text \<open>
  The byte strings that are hashed in the tree of a list, below its root and at it.
\<close>

definition tree_inputs :: "uint256 list \<Rightarrow> bytes set" where
  "tree_inputs xs = {CalcHash xs k (2 * p) @ (if (2 * p + 1) * 2 ^ k < length xs then CalcHash xs k (2 * p + 1) else CalcHash xs k (2 * p)) | k p.
     p * 2 ^ Suc k < length xs}"

definition all32 :: "uint256 list \<Rightarrow> bool" where
  "all32 xs \<longleftrightarrow> (\<forall>x \<in> set xs. length x = 32)"

lemma length_Hash_2 [simp]: "length (Hash_2 a b) = 32"
  by (simp add: Hash_2_eq)

lemma length_CalcHash: "all32 xs \<Longrightarrow> p * 2 ^ k < length xs \<Longrightarrow> length (CalcHash xs k p) = 32"
  by (cases k) (auto simp: all32_def Let_def)

definition no_collision :: "uint256 list \<Rightarrow> uint256 list \<Rightarrow> bool" where
  "no_collision xs ys \<longleftrightarrow> (\<forall>a \<in> tree_inputs xs. \<forall>b \<in> tree_inputs ys. Hash a = Hash b \<longrightarrow> a = b)"

lemma no_collision_sym: "no_collision xs ys \<Longrightarrow> no_collision ys xs"
  by (simp add: no_collision_def) metis

text \<open>Two nodes with the same hash have the same children.\<close>

lemma same_children:
  assumes nc: "no_collision xs ys" and w: "all32 xs" "all32 ys"
    and p: "p * 2 ^ Suc k < length xs" and p': "p' * 2 ^ Suc k < length ys"
    and e: "CalcHash xs (Suc k) p = CalcHash ys (Suc k) p'"
  shows "CalcHash xs k (2 * p) = CalcHash ys k (2 * p')"
    and "(if (2 * p + 1) * 2 ^ k < length xs then CalcHash xs k (2 * p + 1) else CalcHash xs k (2 * p)) =
         (if (2 * p' + 1) * 2 ^ k < length ys then CalcHash ys k (2 * p' + 1) else CalcHash ys k (2 * p'))"
proof -
  define I where "I zs q = (if (2 * q + 1) * 2 ^ k < length zs then CalcHash zs k (2 * q + 1) else CalcHash zs k (2 * q))" for zs q
  have H: "CalcHash zs (Suc k) q = Hash (CalcHash zs k (2 * q) @ I zs q)" for zs q
    by (simp add: I_def Let_def width_iff mult.commute Hash_2_eq)
  have "CalcHash xs k (2 * p) @ I xs p \<in> tree_inputs xs" "CalcHash ys k (2 * p') @ I ys p' \<in> tree_inputs ys"
    using p p' unfolding tree_inputs_def I_def by blast+
  then have "CalcHash xs k (2 * p) @ I xs p = CalcHash ys k (2 * p') @ I ys p'"
    using nc e unfolding no_collision_def H by blast
  moreover have "length (CalcHash xs k (2 * p)) = 32" "length (CalcHash ys k (2 * p')) = 32"
    using p p' by (simp_all add: length_CalcHash w mult.assoc mult.left_commute)
  ultimately show "CalcHash xs k (2 * p) = CalcHash ys k (2 * p')"
    "(if (2 * p + 1) * 2 ^ k < length xs then CalcHash xs k (2 * p + 1) else CalcHash xs k (2 * p)) =
     (if (2 * p' + 1) * 2 ^ k < length ys then CalcHash ys k (2 * p' + 1) else CalcHash ys k (2 * p'))"
    by (simp_all add: I_def)
qed

text \<open>A complete subtree that hashes like an incomplete one contains a repeated pair.\<close>

lemma complete_like_incomplete:
  assumes nc: "no_collision xs ys" and w: "all32 xs" "all32 ys"
  shows "CalcHash xs k p = CalcHash ys k p' \<Longrightarrow> (p + 1) * 2 ^ k \<le> length xs \<Longrightarrow>
    p' * 2 ^ k < length ys \<Longrightarrow> length ys < (p' + 1) * 2 ^ k \<Longrightarrow> repeated xs (length xs)"
proof (induction k arbitrary: p p')
  case (Suc k)
  have px: "p * 2 ^ Suc k < length xs" using Suc(3) by (rule less_le_trans[rotated]) simp
  note E = same_children[OF nc w px Suc(4,2)]
  have x: "(2 * p + 1) * 2 ^ k < length xs" by (rule less_le_trans[OF _ Suc(3)]) simp
  show ?case
  proof (cases "(2 * p' + 1) * 2 ^ k < length ys")
    case True
    then have "CalcHash xs k (2 * p + 1) = CalcHash ys k (2 * p' + 1)" using E(2) x by simp
    from Suc(1)[OF this] show ?thesis using True Suc(3,5) by (simp add: algebra_simps)
  next
    case False
    then have "CalcHash xs k (2 * p + 1) = CalcHash xs k (2 * p)" using E x by simp
    then show ?thesis using Suc(3) unfolding repeated_def by metis
  qed
qed simp

lemma same_leaves:
  assumes nc: "no_collision xs ys" and w: "all32 xs" "all32 ys"
    and fresh: "\<not> repeated xs (length xs)" "\<not> repeated ys (length ys)"
  shows "CalcHash xs k p = CalcHash ys k p \<Longrightarrow> p * 2 ^ k < length xs \<Longrightarrow> p * 2 ^ k < length ys \<Longrightarrow>
    p * 2 ^ k \<le> i \<Longrightarrow> i < (p + 1) * 2 ^ k \<Longrightarrow> (i < length xs \<longleftrightarrow> i < length ys) \<and> (i < length xs \<longrightarrow> xs ! i = ys ! i)"
proof (induction k arbitrary: p i)
  case (Suc k)
  note E = same_children[OF nc w Suc(3,4,2)]
  let ?l = "2 * p" and ?r = "2 * p + 1"
  have lx: "?l * 2 ^ k < length xs" and ly: "?l * 2 ^ k < length ys" using Suc(3,4) by (simp_all add: mult.assoc mult.left_commute)
  note L = Suc(1)[OF E(1) lx ly]
  have one_sided: False
    if nc': "no_collision as bs" and w': "all32 as" "all32 bs" and f: "\<not> repeated as (length as)" "\<not> repeated bs (length bs)"
      and r: "length as \<le> ?r * 2 ^ k" "?r * 2 ^ k < length bs"
      and e: "CalcHash as k ?l = CalcHash bs k ?l" "CalcHash as k ?l = CalcHash bs k ?r"
      and full: "?r * 2 ^ k \<le> length as" for as bs
  proof (cases "(?r + 1) * 2 ^ k \<le> length bs")
    case True
    then have "repeated bs (length bs)" using e unfolding repeated_def
      by (intro exI[of _ k] exI[of _ p]) (simp add: algebra_simps)
    then show False using f by simp
  next
    case False
    then show False using complete_like_incomplete[OF nc' w' e(2)] full r f by simp
  qed
  show ?case
  proof (cases "i < ?r * 2 ^ k")
    case True
    then show ?thesis using L[of i] Suc(5) by (simp add: algebra_simps)
  next
    case False
    have full: "?r * 2 ^ k \<le> length xs \<longleftrightarrow> ?r * 2 ^ k \<le> length ys"
    proof -
      obtain c where c: "(2 :: nat) ^ k = Suc c" by (cases "(2 :: nat) ^ k") auto
      then have "?l * 2 ^ k + c < (?l + 1) * 2 ^ k" "Suc (?l * 2 ^ k + c) = ?r * 2 ^ k" by simp_all
      then show ?thesis using L[of "?l * 2 ^ k + c"] by (metis Suc_le_eq le_add1)
    qed
    consider "?r * 2 ^ k < length xs" "?r * 2 ^ k < length ys" | "length xs \<le> ?r * 2 ^ k" "length ys \<le> ?r * 2 ^ k"
      | "length xs \<le> ?r * 2 ^ k" "?r * 2 ^ k < length ys" | "?r * 2 ^ k < length xs" "length ys \<le> ?r * 2 ^ k"
      by linarith
    then show ?thesis
    proof cases
      case 1
      then have "CalcHash xs k ?r = CalcHash ys k ?r" using E(2) by simp
      from Suc(1)[OF this 1, of i] show ?thesis using False Suc(6) by (simp add: algebra_simps)
    next
      case 2
      then show ?thesis using False by simp
    next
      case 3
      then show ?thesis using one_sided[OF nc w fresh 3] E full by simp
    next
      case 4
      then show ?thesis using one_sided[OF no_collision_sym[OF nc] w(2,1) fresh(2,1) 4(2,1)] E full by simp
    qed
  qed
qed (simp add: le_less_Suc_eq)


lemma tree_height_bounds: "n \<le> 2 ^ tree_height n j"
proof (induction n j rule: tree_height.induct)
  case (1 n j)
  show ?case
  proof (cases "1 < CalcTreeWidth n j")
    case True
    then show ?thesis using 1 by (simp add: tree_height.simps[of n j])
  next
    case False
    then show ?thesis by (simp add: tree_height.simps[of n j] width_iff not_less)
  qed
qed

lemma ComputeMerkleRoot_spec:
  assumes "xs \<noteq> []" "length xs \<le> 2 ^ 31"
  shows "ComputeMerkleRoot xs = (CalcHash xs (tree_height (length xs) 0) 0, repeated xs (length xs))"
proof -
  obtain root mutated branch where m: "MerkleComputation xs (2 ^ 32 - 1) = (root, mutated, branch)" by (metis prod_cases3)
  show ?thesis using MerkleComputation_spec(1,2)[OF assms m] m by (simp add: ComputeMerkleRoot_def)
qed

section \<open>Partial trees\<close>

definition matched :: "uint256 list \<Rightarrow> bool list \<Rightarrow> nat \<Rightarrow> nat \<Rightarrow> uint256 list" where
  "matched xs ms k p = map (nth xs) (filter (nth ms) [p * 2 ^ k ..< min ((p + 1) * 2 ^ k) (length ms)])"

lemma matched_Suc:
  "matched xs ms (Suc k) p = matched xs ms k (2 * p) @ (if (2 * p + 1) * 2 ^ k < length ms then matched xs ms k (2 * p + 1) else [])"
proof -
  let ?a = "p * 2 ^ Suc k" and ?b = "(2 * p + 1) * 2 ^ k" and ?c = "(p + 1) * 2 ^ Suc k"
  have e: "2 * p * 2 ^ k = ?a" "(2 * p + 1 + 1) * 2 ^ k = ?c" by (simp_all add: algebra_simps)
  have o: "?a \<le> ?b" "?b \<le> ?c" by (simp_all add: algebra_simps)
  have "[?a ..< min ?c (length ms)] = [?a ..< min ?b (length ms)] @ (if ?b < length ms then [?b ..< min ?c (length ms)] else [])"
  proof (cases "?b < length ms")
    case True
    then have "?b \<le> min ?c (length ms)" using o by simp
    then have "[?a ..< min ?c (length ms)] = [?a ..< ?b] @ [?b ..< min ?c (length ms)]"
      using upt_add_eq_append[OF o(1), of "min ?c (length ms) - ?b"] by simp
    then show ?thesis using True by (simp only: min_absorb1 less_imp_le if_True)
  next
    case False
    then have "min ?c (length ms) = min ?b (length ms)" using o by linarith
    then show ?thesis using False by (simp only: if_False append_Nil2)
  qed
  then show ?thesis unfolding matched_def e by simp
qed

lemma not_parent_matched: "\<not> fParentOfMatch ms k p \<Longrightarrow> matched xs ms k p = []"
  by (simp add: fParentOfMatch_def matched_def list_ex_iff filter_empty_conv)

text \<open>Extraction reads exactly what the construction wrote for a node, and rebuilds its hash.\<close>

lemma extract_built:
  assumes "TraverseAndBuild xs ms k p = (bs, hs)" and len: "length ms = length xs" and "p * 2 ^ k < length xs"
    and t: "vBits t = b0 @ bs @ b1" "vHash t = h0 @ hs @ h1" "nTransactions t = length xs"
    and st: "nBitsUsed st = length b0" "nHashUsed st = length h0"
  shows "TraverseAndExtract t k p st =
    (CalcHash xs k p, st\<lparr>nBitsUsed := length b0 + length bs, nHashUsed := length h0 + length hs, ex_match := ex_match st @ matched xs ms k p\<rparr>)"
  using assms
proof (induction k arbitrary: p bs hs b0 b1 h0 h1 st)
  case 0
  then have "min (Suc p) (length ms) = Suc p" by simp
  then show ?case using 0 by (auto simp: extract_stored_def Let_def fParentOfMatch_def matched_def)
next
  case (Suc k)
  show ?case
  proof (cases "fParentOfMatch ms (Suc k) p")
    case False
    then show ?thesis using Suc.prems by (auto simp: extract_stored_def Let_def not_parent_matched simp del: CalcHash.simps)
  next
    case True
    obtain bl hl where l: "TraverseAndBuild xs ms k (p * 2) = (bl, hl)" by (metis prod.exhaust)
    obtain br hr where r: "(if p * 2 + 1 < CalcTreeWidth (length xs) k then TraverseAndBuild xs ms k (p * 2 + 1) else ([], [])) = (br, hr)"
      by (metis prod.exhaust)
    have b: "bs = True # bl @ br" "hs = hl @ hr" using Suc.prems(1) True l r by simp_all
    have "p * 2 * 2 ^ k < length xs" using Suc.prems(3) by (simp add: mult.assoc)
    note L = Suc.IH[OF l len this, of "b0 @ [True]" "br @ b1" h0 "hr @ h1" "st\<lparr>nBitsUsed := Suc (length b0)\<rparr>"]
    show ?thesis
    proof (cases "p * 2 + 1 < CalcTreeWidth (length xs) k")
      case True
      then have "TraverseAndBuild xs ms k (p * 2 + 1) = (br, hr)" "(p * 2 + 1) * 2 ^ k < length xs" using r by (simp_all only: width_iff if_True)
      note R = Suc.IH[OF this(1) len this(2), of "b0 @ True # bl" b1 "h0 @ hl" h1]
      show ?thesis using L R Suc.prems True b by (simp add: matched_Suc width_iff mult.commute len Let_def)
    next
      case False
      then have "br = []" "hr = []" using r by simp_all
      then show ?thesis using L Suc.prems False b by (simp add: matched_Suc width_iff mult.commute len Let_def)
    qed
  qed
qed

lemma built_sizes:
  "TraverseAndBuild xs ms k p = (bs, hs) \<Longrightarrow> p * 2 ^ k < length xs \<Longrightarrow>
   length hs \<le> length bs \<and> length hs \<le> min ((p + 1) * 2 ^ k) (length xs) - p * 2 ^ k"
proof (induction k arbitrary: p bs hs)
  case (Suc k)
  show ?case
  proof (cases "fParentOfMatch ms (Suc k) p")
    case False
    moreover have "p * 2 ^ Suc k < min ((p + 1) * 2 ^ Suc k) (length xs)" using Suc.prems(2) by simp
    ultimately show ?thesis using Suc.prems by (auto simp: Suc_le_eq simp del: CalcHash.simps power_Suc)
  next
    case True
    obtain bl hl where l: "TraverseAndBuild xs ms k (p * 2) = (bl, hl)" by (metis prod.exhaust)
    obtain br hr where r: "(if p * 2 + 1 < CalcTreeWidth (length xs) k then TraverseAndBuild xs ms k (p * 2 + 1) else ([], [])) = (br, hr)"
      by (metis prod.exhaust)
    have b: "bs = True # bl @ br" "hs = hl @ hr" using Suc.prems(1) True l r by simp_all
    have L: "length hl \<le> length bl \<and> length hl \<le> min ((p * 2 + 1) * 2 ^ k) (length xs) - p * 2 * 2 ^ k"
      using Suc.IH[OF l] Suc.prems(2) by (simp add: mult.assoc)
    have R: "length hr \<le> length br \<and> length hr \<le> min ((p * 2 + 1 + 1) * 2 ^ k) (length xs) - (p * 2 + 1) * 2 ^ k"
      using r Suc.IH[of "p * 2 + 1" br hr] by (auto simp: width_iff split: if_splits)
    have e: "p * 2 * 2 ^ k = p * 2 ^ Suc k" "(p * 2 + 1 + 1) * 2 ^ k = (p + 1) * 2 ^ Suc k" "p * 2 ^ Suc k \<le> (p * 2 + 1) * 2 ^ k"
      "(p * 2 + 1) * 2 ^ k \<le> (p + 1) * 2 ^ Suc k"
      by (simp_all add: algebra_simps)
    have "length hl + length hr \<le> min ((p + 1) * 2 ^ Suc k) (length xs) - p * 2 ^ Suc k"
      using L R e(3,4) unfolding e(1,2) by linarith
    then show ?thesis using L R b by simp
  qed
qed auto

lemma built_bits: "TraverseAndBuild xs ms k p = (bs, hs) \<Longrightarrow> length bs < 2 ^ Suc k"
proof (induction k arbitrary: p bs hs)
  case (Suc k)
  obtain bl hl where l: "TraverseAndBuild xs ms k (p * 2) = (bl, hl)" by (metis prod.exhaust)
  obtain br hr where r: "(if p * 2 + 1 < CalcTreeWidth (length xs) k then TraverseAndBuild xs ms k (p * 2 + 1) else ([], [])) = (br, hr)"
    by (metis prod.exhaust)
  have "length br < 2 ^ Suc k" using r Suc.IH[of "p * 2 + 1" br hr] by (auto split: if_splits)
  then show ?case using Suc.prems Suc.IH[OF l] l r by (auto split: if_splits simp del: CalcHash.simps)
qed auto

lemma tree_height_le: "n \<le> 2 ^ l \<Longrightarrow> j \<le> l \<Longrightarrow> tree_height n j \<le> l"
proof (induction "l - j" arbitrary: j)
  case 0
  then have "\<not> 1 < CalcTreeWidth n l" by (simp add: width_iff not_less)
  then show ?case using 0 by (simp add: tree_height.simps)
next
  case (Suc d)
  then show ?case by (subst tree_height.simps) simp
qed

text \<open>Packing bits into bytes pads with zeros up to a multiple of eight.\<close>

lemma length_BitsToBytes: "length (BitsToBytes bits) = (length bits + 7) div 8"
proof -
  have "length (fold (\<lambda>p ret. ret[p div 8 := ret ! (p div 8) OR push_bit (p mod 8) (if bits ! p then 1 else 0)]) ps (rs :: bytes)) = length rs"
    for ps rs by (induction ps arbitrary: rs) auto
  then show ?thesis by (simp add: BitsToBytes_def)
qed

lemma BitsToBytes_loop:
  "m \<le> length bits \<Longrightarrow> q < (length bits + 7) div 8 \<Longrightarrow> i < 8 \<Longrightarrow>
   bit (fold (\<lambda>p ret. ret[p div 8 := ret ! (p div 8) OR push_bit (p mod 8) (if bits ! p then 1 else 0)])
       [0..<m] (replicate ((length bits + 7) div 8) (0 :: byte)) ! q) i \<longleftrightarrow> 8 * q + i < m \<and> bits ! (8 * q + i)"
proof (induction m)
  case (Suc m)
  let ?R = "fold (\<lambda>p ret. ret[p div 8 := ret ! (p div 8) OR push_bit (p mod 8) (if bits ! p then 1 else 0)])
       [0..<m] (replicate ((length bits + 7) div 8) (0 :: byte))"
  have len: "length (fold (\<lambda>p ret. ret[p div 8 := ret ! (p div 8) OR push_bit (p mod 8) (if bits ! p then 1 else 0)]) ps (rs :: bytes)) = length rs"
    for ps rs by (induction ps arbitrary: rs) auto
  have IH: "bit (?R ! q) i \<longleftrightarrow> 8 * q + i < m \<and> bits ! (8 * q + i)" using Suc by simp
  show ?case
  proof (cases "m div 8 = q")
    case True
    have "m = 8 * q + i \<longleftrightarrow> m mod 8 = i" using True Suc.prems(3) by (metis add_diff_cancel_left' div_mult_mod_eq mult.commute mod_mult_self4 mod_less)
    moreover have "bit (push_bit (m mod 8) (if bits ! m then 1 else 0 :: byte)) i \<longleftrightarrow> bits ! m \<and> m mod 8 = i"
      using Suc.prems(3) by (auto simp: bit_push_bit_iff bit_1_iff)
    ultimately show ?thesis using IH True Suc.prems(2) by (auto simp: len bit_or_iff less_Suc_eq)
  next
    case False
    then have "8 * q + i \<noteq> m" using Suc.prems(3) by auto
    then show ?thesis using IH False by (simp add: less_Suc_eq)
  qed
qed simp

lemma BytesToBits_BitsToBytes:
  "BytesToBits (BitsToBytes bits) = bits @ replicate (8 * ((length bits + 7) div 8) - length bits) False"
proof (rule nth_equalityI)
  let ?w = "(length bits + 7) div 8"
  have le: "length bits \<le> 8 * ?w" by presburger
  note w = length_BitsToBytes[of bits]
  show "length (BytesToBits (BitsToBytes bits)) = length (bits @ replicate (8 * ?w - length bits) False)"
    using le by (simp add: BytesToBits_def w)
  fix i
  assume "i < length (BytesToBits (BitsToBytes bits))"
  then have i: "i < 8 * ?w" by (simp add: BytesToBits_def w)
  have and_bit: "(v AND 2 ^ k \<noteq> 0) = bit v k" for v :: byte and k
    by (simp add: and_exp_eq_0_iff_not_bit)
  have "BytesToBits (BitsToBytes bits) ! i = bit (BitsToBytes bits ! (i div 8)) (i mod 8)"
    using i by (simp add: BytesToBits_def w and_bit)
  also have "\<dots> \<longleftrightarrow> i < length bits \<and> bits ! i"
    using BitsToBytes_loop[of "length bits" bits "i div 8" "i mod 8"] i by (simp add: BitsToBytes_def less_mult_imp_div_less mult.commute)
  finally show "BytesToBits (BitsToBytes bits) ! i = (bits @ replicate (8 * ?w - length bits) False) ! i"
    using i by (simp add: nth_append)
qed


interpretation hash32: canonical_codec id "stream_read 32" "\<lambda>h. length h = 32"
  by unfold_locales (auto simp: stream_read_eq_Inr)

interpretation hashes32: canonical_codec "VectorSer id" "VectorUnser (stream_read 32)" "ok_vec (\<lambda>h. length h = 32)"
  by (rule hash32.canonical_codec_vector)

lemma built_hashes_32:
  "TraverseAndBuild xs ms k p = (bs, hs) \<Longrightarrow> all32 xs \<Longrightarrow> p * 2 ^ k < length xs \<Longrightarrow> \<forall>h \<in> set hs. length h = 32"
proof (induction k arbitrary: p bs hs)
  case 0
  then show ?case using length_CalcHash[of xs p 0] by auto
next
  case (Suc k)
  then show ?case
    using length_CalcHash[of xs p "Suc k"] Suc.IH[of "p * 2"] Suc.IH[of "p * 2 + 1"]
    by (force simp: width_iff mult.assoc split: if_splits prod.splits simp del: CalcHash.simps)
qed

lemma ExtractMatches_built:
  assumes b: "TraverseAndBuild xs ms (tree_height (length xs) 0) 0 = (bs, hs)"
    and len: "length ms = length xs" "0 < length xs" "length xs \<le> 33333"
    and z: "(length bs + z + 7) div 8 = (length bs + 7) div 8"
  shows "ExtractMatches \<lparr>nTransactions = length xs, vBits = bs @ replicate z False, vHash = hs, fBad = False\<rparr> =
    (fst (ComputeMerkleRoot xs), map (nth xs) (filter (nth ms) [0..<length xs]))"
proof -
  let ?h = "tree_height (length xs) 0"
  have "length xs \<le> 2 ^ ?h" by (rule tree_height_bounds)
  then have m: "matched xs ms ?h 0 = map (nth xs) (filter (nth ms) [0..<length xs])"
    using len by (simp add: matched_def min_def)
  have s: "length hs \<le> length bs" "length hs \<le> length xs" using built_sizes[OF b] len by auto
  have "TraverseAndExtract \<lparr>nTransactions = length xs, vBits = bs @ replicate z False, vHash = hs, fBad = False\<rparr> ?h 0
      \<lparr>nBitsUsed = 0, nHashUsed = 0, ex_match = [], ex_bad = False\<rparr> =
    (CalcHash xs ?h 0, \<lparr>nBitsUsed = length bs, nHashUsed = length hs, ex_match = matched xs ms ?h 0, ex_bad = False\<rparr>)"
    using extract_built[OF b len(1), of _ "[]" "replicate z False" "[]" "[]"] len by simp
  moreover have "fst (ComputeMerkleRoot xs) = CalcHash xs ?h 0" using ComputeMerkleRoot_spec[of xs] len by simp
  ultimately show ?thesis using s len z m by (simp add: ExtractMatches_def)
qed

section \<open>Properties\<close>

text \<open>
  (C19) The Merkle root calculator is correct.  For up to \<open>2 ^ 31\<close> leaves, the constant-space
  calculator returns the hash of the tree defined level by level, where a missing right child is
  replaced by the left one, and the branch it returns for any leaf leads from that leaf to the same
  root.
\<close>

theorem merkle_root_and_branch:
  assumes "length xs \<le> 2 ^ 31" and "i < length xs"
  shows "fst (ComputeMerkleRoot xs) = CalcHash xs (tree_height (length xs) 0) 0 \<and>
    ComputeMerkleRootFromBranch (xs ! i) (ComputeMerkleBranch xs i) i = fst (ComputeMerkleRoot xs)"
proof -
  have ne: "xs \<noteq> []" using assms(2) by auto
  obtain root mutated branch where m: "MerkleComputation xs i = (root, mutated, branch)" by (metis prod_cases3)
  let ?h = "tree_height (length xs) 0"
  have "ComputeMerkleBranch xs i = sibs xs i ?h"
    using MerkleComputation_spec(3)[OF ne assms(1) m assms(2)] m by (simp add: ComputeMerkleBranch_def)
  moreover have "i div 2 ^ ?h = 0" using assms(2) tree_height_bounds[of "length xs" 0] by simp
  ultimately show ?thesis
    using branch_leads_to_root[OF assms(2), of 0 ?h] ComputeMerkleRoot_spec[OF ne assms(1)] by (simp add: sibs_def)
qed

theorem merkle_root_and_branch_witness:
  "ComputeMerkleRootFromBranch (replicate 32 3) (ComputeMerkleBranch [replicate 32 1, replicate 32 2, replicate 32 3] 2) 2 =
   fst (ComputeMerkleRoot [replicate 32 1, replicate 32 2, replicate 32 3])"
  using merkle_root_and_branch[of "[replicate 32 1, replicate 32 2, replicate 32 3]" 2] by simp

text \<open>
  (C8) The root commits to the list of transactions.  Two lists of hashes whose trees have the same
  height and the same root are equal, unless one of them is reported as mutated or two different
  strings that are hashed in the two trees collide.  The duplication of odd nodes, which lets
  different lists share a root, is thus always reported.
\<close>

theorem merkle_root_commits:
  assumes "xs \<noteq> []" "ys \<noteq> []" "length xs \<le> 2 ^ 31" "length ys \<le> 2 ^ 31"
    and "\<forall>x \<in> set xs \<union> set ys. length x = 32"
    and "tree_height (length xs) 0 = tree_height (length ys) 0"
    and "fst (ComputeMerkleRoot xs) = fst (ComputeMerkleRoot ys)"
  shows "xs = ys \<or> snd (ComputeMerkleRoot xs) \<or> snd (ComputeMerkleRoot ys) \<or>
    (\<exists>a \<in> tree_inputs xs. \<exists>b \<in> tree_inputs ys. a \<noteq> b \<and> Hash a = Hash b)"
proof (rule ccontr)
  let ?h = "tree_height (length xs) 0"
  assume n: "\<not> ?thesis"
  then have nc: "no_collision xs ys" and f: "\<not> repeated xs (length xs)" "\<not> repeated ys (length ys)"
    using assms by (auto simp: no_collision_def ComputeMerkleRoot_spec)
  have w: "all32 xs" "all32 ys" using assms(5) by (auto simp: all32_def)
  have "CalcHash xs ?h 0 = CalcHash ys ?h 0" using assms by (simp add: ComputeMerkleRoot_spec)
  note L = same_leaves[OF nc w f this]
  have b: "length xs \<le> 2 ^ ?h" "length ys \<le> 2 ^ ?h"
    using tree_height_bounds[of "length xs" 0] tree_height_bounds[of "length ys" 0] assms(6) by simp_all
  have l: "(i < length xs \<longleftrightarrow> i < length ys) \<and> (i < length xs \<longrightarrow> xs ! i = ys ! i)" if "i < 2 ^ ?h" for i
    using L[of i] that assms(1,2) by simp
  have "length xs = length ys" using l[of "length xs"] l[of "length ys"] b by (meson le_neq_implies_less linorder_neqE_nat order.strict_trans2 less_irrefl)
  then have "xs = ys" using l b(1) by (intro nth_equalityI) (auto dest: less_le_trans)
  then show False using n by simp
qed

lemma example_heights:
  "tree_height (Suc (Suc (Suc 0))) 0 = Suc (Suc 0)" "tree_height (Suc (Suc (Suc (Suc 0)))) 0 = Suc (Suc 0)"
  by (rule tree_height_eq; auto simp: less_Suc_eq)+

theorem merkle_root_commits_witness:
  "(let a = replicate 32 1; b = replicate 32 2; c = replicate 32 3; xs = [a, b, c]; ys = [a, b, c, c]
    in fst (ComputeMerkleRoot xs) = fst (ComputeMerkleRoot ys) \<and>
      (snd (ComputeMerkleRoot xs) \<or> snd (ComputeMerkleRoot ys) \<or>
       (\<exists>a \<in> tree_inputs xs. \<exists>b \<in> tree_inputs ys. a \<noteq> b \<and> Hash a = Hash b)))"
proof -
  define a b c :: uint256 where abc: "a = replicate 32 1" "b = replicate 32 2" "c = replicate 32 3"
  have "fst (ComputeMerkleRoot [a, b, c]) = fst (ComputeMerkleRoot [a, b, c, c])"
    using ComputeMerkleRoot_spec[of "[a, b, c]"] ComputeMerkleRoot_spec[of "[a, b, c, c]"] example_heights
    by (simp add: width_iff Let_def)
  then show ?thesis
    using merkle_root_commits[of "[a, b, c]" "[a, b, c, c]"] example_heights by (simp add: abc Let_def)
qed

text \<open>
  (C34) A partial Merkle tree tells the root and the selected transactions.  For every block of up to
  33333 transactions and every selection, the tree that is built, sent and read back extracts to the
  Merkle root of the block and to the selected transaction hashes in block order.
\<close>

theorem partial_tree_roundtrip:
  assumes "0 < length xs" "length xs \<le> 33333" "length ms = length xs" "\<forall>x \<in> set xs. length x = 32"
  shows "\<exists>t. unser_CPartialMerkleTree (ser_CPartialMerkleTree (mk_CPartialMerkleTree xs ms) @ rest) = Inr (t, rest) \<and>
    ExtractMatches t = (fst (ComputeMerkleRoot xs), map (nth xs) (filter (nth ms) [0..<length xs]))"
proof -
  let ?h = "tree_height (length xs) 0"
  obtain bs hs where b: "TraverseAndBuild xs ms ?h 0 = (bs, hs)" by (metis prod.exhaust)
  have w: "all32 xs" using assms(4) by (simp add: all32_def)
  have h: "\<forall>h \<in> set hs. length h = 32" "length hs \<le> length xs"
    using built_hashes_32[OF b w] built_sizes[OF b] assms(1) by auto
  have "(2 :: nat) ^ Suc ?h \<le> 2 ^ 17"
    using tree_height_le[of "length xs" 16 0] assms(2) by (intro power_increasing) simp_all
  then have bb: "length bs < 2 ^ 17" using built_bits[OF b] by linarith
  have "length hs \<le> MAX_SIZE" using h(2) assms(2) by linarith
  then have H: "VectorUnser (stream_read 32) (VectorSer id hs @ r) = Inr (hs, r)" for r
    using h(1) by (intro hashes32.unser_ser) (simp add: list_all_iff)
  let ?z = "8 * ((length bs + 7) div 8) - length bs"
  have z: "(length bs + ?z + 7) div 8 = (length bs + 7) div 8" by presburger
  have "unser_CPartialMerkleTree (ser_CPartialMerkleTree (mk_CPartialMerkleTree xs ms) @ rest) =
    Inr (\<lparr>nTransactions = length xs, vBits = bs @ replicate ?z False, vHash = hs, fBad = False\<rparr>, rest)"
    using assms(2) bb
    by (simp add: unser_CPartialMerkleTree_def ser_CPartialMerkleTree_def mk_CPartialMerkleTree_def b le32.unser_ser
        H bytevec.unser_ser BytesToBits_BitsToBytes length_BitsToBytes)
  then show ?thesis using ExtractMatches_built[OF b assms(3,1,2) z] by blast
qed

theorem partial_tree_roundtrip_witness:
  "\<exists>t. unser_CPartialMerkleTree (ser_CPartialMerkleTree
      (mk_CPartialMerkleTree [replicate 32 1, replicate 32 2, replicate 32 3] [False, True, False]) @ [7]) = Inr (t, [7]) \<and>
    ExtractMatches t = (fst (ComputeMerkleRoot [replicate 32 1, replicate 32 2, replicate 32 3]), [replicate 32 2])"
  using partial_tree_roundtrip[of "[replicate 32 1, replicate 32 2, replicate 32 3]" "[False, True, False]" "[7]"] by simp

end
