(* ===== verification/Params.thy ===== *)
theory Params
  imports Merkle
begin

text \<open>
  Consensus parameters (\<open>consensus/params.h\<close>, \<open>consensus/params.cpp\<close>), network upgrades
  (\<open>consensus/upgrades.cpp\<close>), the three networks (\<open>chainparams.cpp\<close>) and checkpoints
  (\<open>checkpoints.cpp\<close>).

  Upgrades are numbered as in the enumeration \<open>UpgradeIndex\<close>; \<open>vUpgrades\<close> lists the activation heights
  in that order.  A failed assertion is \<open>None\<close>.  Members of \<open>Consensus::Params\<close> that no constructor
  of a network sets (masternode and budget amounts) are left out; the by-pass of an old block, which
  only the main network sets, is zero elsewhere.  The assertions on the hashes of
  the genesis blocks are not evaluated.
\<close>

section \<open>Network upgrades\<close>

type_synonym UpgradeIndex = nat

abbreviation (input) BASE_NETWORK :: UpgradeIndex where "BASE_NETWORK \<equiv> 0"
abbreviation (input) UPGRADE_POS :: UpgradeIndex where "UPGRADE_POS \<equiv> 1"
abbreviation (input) UPGRADE_POS_V2 :: UpgradeIndex where "UPGRADE_POS_V2 \<equiv> 2"
abbreviation (input) UPGRADE_ZC :: UpgradeIndex where "UPGRADE_ZC \<equiv> 3"
abbreviation (input) UPGRADE_ZC_V2 :: UpgradeIndex where "UPGRADE_ZC_V2 \<equiv> 4"
abbreviation (input) UPGRADE_BIP65 :: UpgradeIndex where "UPGRADE_BIP65 \<equiv> 5"
abbreviation (input) UPGRADE_ZC_PUBLIC :: UpgradeIndex where "UPGRADE_ZC_PUBLIC \<equiv> 6"
abbreviation (input) UPGRADE_V3_4 :: UpgradeIndex where "UPGRADE_V3_4 \<equiv> 7"
abbreviation (input) UPGRADE_V4_0 :: UpgradeIndex where "UPGRADE_V4_0 \<equiv> 8"
abbreviation (input) UPGRADE_V5_0 :: UpgradeIndex where "UPGRADE_V5_0 \<equiv> 9"
abbreviation (input) UPGRADE_V5_2 :: UpgradeIndex where "UPGRADE_V5_2 \<equiv> 10"
abbreviation (input) UPGRADE_V5_3 :: UpgradeIndex where "UPGRADE_V5_3 \<equiv> 11"
abbreviation (input) UPGRADE_V5_5 :: UpgradeIndex where "UPGRADE_V5_5 \<equiv> 12"
abbreviation (input) UPGRADE_V5_6 :: UpgradeIndex where "UPGRADE_V5_6 \<equiv> 13"
abbreviation (input) UPGRADE_V6_0 :: UpgradeIndex where "UPGRADE_V6_0 \<equiv> 14"
abbreviation (input) UPGRADE_TESTDUMMY :: UpgradeIndex where "UPGRADE_TESTDUMMY \<equiv> 15"
abbreviation (input) MAX_NETWORK_UPGRADES :: UpgradeIndex where "MAX_NETWORK_UPGRADES \<equiv> 16"

abbreviation (input) ALWAYS_ACTIVE :: int where "ALWAYS_ACTIVE \<equiv> 0"
abbreviation (input) NO_ACTIVATION_HEIGHT :: int where "NO_ACTIVATION_HEIGHT \<equiv> - 1"

datatype UpgradeState = UPGRADE_DISABLED | UPGRADE_PENDING | UPGRADE_ACTIVE

record Params =
  hashGenesisBlock :: uint256
  fPowAllowMinDifficultyBlocks :: bool
  fPowNoRetargeting :: bool
  powLimit :: uint256
  posLimitV1 :: uint256
  posLimitV2 :: uint256
  nBudgetCycleBlocks :: int
  nCoinbaseMaturity :: int
  nFutureTimeDriftPoW :: int
  nFutureTimeDriftPoS :: int
  nMaxMoneyOut :: CAmount
  nStakeMinAge :: int
  nStakeMinDepth :: int
  nTargetTimespan :: int
  nTargetTimespanV2 :: int
  nTargetSpacing :: int
  nTimeSlotLength :: int
  height_last_invalid_UTXO :: int
  nKrovacoinBadBlockTime :: int
  nKrovacoinBadBlockBits :: nat
  vUpgrades :: "int list"

definition NetworkUpgradeState :: "int \<Rightarrow> Params \<Rightarrow> UpgradeIndex \<Rightarrow> UpgradeState option" where
  "NetworkUpgradeState nHeight params idx =
     (if \<not> nHeight \<ge> 0 then None
      else if \<not> idx < MAX_NETWORK_UPGRADES then None
      else let nActivationHeight = vUpgrades params ! idx
           in if nActivationHeight = NO_ACTIVATION_HEIGHT then Some UPGRADE_DISABLED
              else if nHeight \<ge> nActivationHeight then Some UPGRADE_ACTIVE
              else Some UPGRADE_PENDING)"

text \<open>The member function of \<open>Params\<close>, which reports an error and returns false instead of asserting.\<close>

definition NetworkUpgradeActive :: "Params \<Rightarrow> int \<Rightarrow> UpgradeIndex \<Rightarrow> bool" where
  "NetworkUpgradeActive params nHeight idx \<longleftrightarrow>
     (if idx \<ge> MAX_NETWORK_UPGRADES then False
      else if nHeight < 0 then False
      else NetworkUpgradeState nHeight params idx = Some UPGRADE_ACTIVE)"

text \<open>The loop counts down and stops above \<open>BASE_NETWORK\<close>.\<close>

fun CurrentEpoch_loop :: "int \<Rightarrow> Params \<Rightarrow> nat \<Rightarrow> nat option" where
  "CurrentEpoch_loop nHeight params 0 = Some BASE_NETWORK"
| "CurrentEpoch_loop nHeight params (Suc i) =
     (case NetworkUpgradeState nHeight params (Suc i) of
        None \<Rightarrow> None
      | Some st \<Rightarrow> if st = UPGRADE_ACTIVE then Some (Suc i) else CurrentEpoch_loop nHeight params i)"

definition CurrentEpoch :: "int \<Rightarrow> Params \<Rightarrow> nat option" where
  "CurrentEpoch nHeight params = CurrentEpoch_loop nHeight params (MAX_NETWORK_UPGRADES - 1)"

definition IsActivationHeight :: "int \<Rightarrow> Params \<Rightarrow> UpgradeIndex \<Rightarrow> bool option" where
  "IsActivationHeight nHeight params idx =
     (if \<not> idx < MAX_NETWORK_UPGRADES then None
      else if idx = BASE_NETWORK then Some False
      else Some (nHeight \<ge> 0 \<and> nHeight = vUpgrades params ! idx))"

definition IsActivationHeightForAnyUpgrade :: "int \<Rightarrow> Params \<Rightarrow> bool" where
  "IsActivationHeightForAnyUpgrade nHeight params \<longleftrightarrow>
     (if nHeight < 0 then False
      else \<exists>idx \<in> set [BASE_NETWORK + 1 ..< MAX_NETWORK_UPGRADES]. nHeight = vUpgrades params ! idx)"

definition NextEpoch :: "int \<Rightarrow> Params \<Rightarrow> nat option" where
  "NextEpoch nHeight params =
     (if nHeight < 0 then None
      else List.find (\<lambda>idx. NetworkUpgradeState nHeight params idx = Some UPGRADE_PENDING) [BASE_NETWORK + 1 ..< MAX_NETWORK_UPGRADES])"

definition NextActivationHeight :: "int \<Rightarrow> Params \<Rightarrow> int option" where
  "NextActivationHeight nHeight params = map_option (\<lambda>idx. vUpgrades params ! idx) (NextEpoch nHeight params)"

section \<open>Rules of the parameters\<close>

definition TargetTimespan :: "Params \<Rightarrow> bool \<Rightarrow> int" where
  "TargetTimespan params fV2 = (if fV2 then nTargetTimespanV2 params else nTargetTimespan params)"

definition ProofOfStakeLimit :: "Params \<Rightarrow> bool \<Rightarrow> uint256" where
  "ProofOfStakeLimit params fV2 = (if fV2 then posLimitV2 params else posLimitV1 params)"

definition MoneyRange :: "Params \<Rightarrow> CAmount \<Rightarrow> bool" where
  "MoneyRange params v \<longleftrightarrow> v \<ge> 0 \<and> v \<le> nMaxMoneyOut params"

definition IsTimeProtocolV2 :: "Params \<Rightarrow> int \<Rightarrow> bool" where
  "IsTimeProtocolV2 params nHeight = NetworkUpgradeActive params nHeight UPGRADE_V4_0"

definition FutureBlockTimeDrift :: "Params \<Rightarrow> int \<Rightarrow> int" where
  "FutureBlockTimeDrift params nHeight =
     (if IsTimeProtocolV2 params nHeight then nTimeSlotLength params - 1
      else if NetworkUpgradeActive params nHeight UPGRADE_POS then nFutureTimeDriftPoS params
      else nFutureTimeDriftPoW params)"

definition IsValidBlockTimeStamp :: "Params \<Rightarrow> int \<Rightarrow> int \<Rightarrow> bool" where
  "IsValidBlockTimeStamp params nTime nHeight \<longleftrightarrow>
     (if \<not> IsTimeProtocolV2 params nHeight then True else nTime mod nTimeSlotLength params = 0)"

text \<open>The age test adds in 32 unsigned bits.\<close>

definition HasStakeMinAgeOrDepth :: "Params \<Rightarrow> int \<Rightarrow> nat \<Rightarrow> int \<Rightarrow> nat \<Rightarrow> bool" where
  "HasStakeMinAgeOrDepth params contextHeight contextTime utxoFromBlockHeight utxoFromBlockTime \<longleftrightarrow>
     (if \<not> NetworkUpgradeActive params contextHeight UPGRADE_V3_4
      then (int utxoFromBlockTime + nStakeMinAge params) mod 2 ^ 32 \<le> int contextTime
      else contextHeight - utxoFromBlockHeight \<ge> nStakeMinDepth params)"

section \<open>The networks\<close>

datatype Base58Type =
    PUBKEY_ADDRESS | SCRIPT_ADDRESS | SECRET_KEY | EXT_PUBLIC_KEY | EXT_SECRET_KEY | EXT_COIN_TYPE | STAKING_ADDRESS | EXCHANGE_ADDRESS

datatype Bech32Type =
    SAPLING_PAYMENT_ADDRESS | SAPLING_FULL_VIEWING_KEY | SAPLING_INCOMING_VIEWING_KEY | SAPLING_EXTENDED_SPEND_KEY
  | SAPLING_EXTENDED_FVK | BLS_SECRET_KEY | BLS_PUBLIC_KEY

record CChainParams =
  strNetworkID :: string
  genesis :: CBlock
  consensus :: Params
  pchMessageStart :: bytes
  nDefaultPort :: nat
  base58Prefixes :: "Base58Type \<Rightarrow> bytes"
  bech32HRPs :: "Bech32Type \<Rightarrow> string"
  fRequireStandard :: bool
  mapCheckpoints :: "(int \<times> uint256) list"

definition CreateGenesisBlock_script :: "string \<Rightarrow> bytes \<Rightarrow> nat \<Rightarrow> nat \<Rightarrow> nat \<Rightarrow> int \<Rightarrow> CAmount \<Rightarrow> CBlock" where
  "CreateGenesisBlock_script pszTimestamp genesisOutputScript nTime nNonce nBits ver genesisReward =
     (let txNew = CMutableTransaction\<lparr>nVersion := 1,
            vin := [\<lparr>prevout = COutPoint_SetNull,
                     scriptSig = push_int64 486604799 @ push_vch (CScriptNum_serialize 4) @ push_vch (map of_char pszTimestamp),
                     nSequence = SEQUENCE_FINAL\<rparr>],
            vout := [\<lparr>nValue = genesisReward, scriptPubKey = genesisOutputScript\<rparr>]\<rparr>;
          block = (CBlock_of_header (CBlockHeader_SetNull\<lparr>hashPrevBlock := null_hash, bh_nVersion := ver, bh_nTime := nTime,
                     bh_nBits := nBits, bh_nNonce := nNonce\<rparr>))\<lparr>vtx := [txNew]\<rparr>
      in block\<lparr>hashMerkleRoot := fst (BlockMerkleRoot block)\<rparr>)"

abbreviation (input) GENESIS_PUBKEY_HEX :: string where
  "GENESIS_PUBKEY_HEX \<equiv> ''04c10e83b2703ccf322f7dbd62dd5855ac7c10bd055814ce121ba32607d573b8810c02c0582aed05b4deb9c4b77b26d92428c61256cd42774babea0a073b2ed0c9''"

definition CreateGenesisBlock :: "string \<Rightarrow> nat \<Rightarrow> nat \<Rightarrow> nat \<Rightarrow> int \<Rightarrow> CAmount \<Rightarrow> CBlock" where
  "CreateGenesisBlock pszTimestamp nTime nNonce nBits ver genesisReward =
     CreateGenesisBlock_script pszTimestamp (push_vch (ParseHex GENESIS_PUBKEY_HEX) @ push_op OP_CHECKSIG) nTime nNonce nBits ver genesisReward"

definition main_checkpoints :: "(int \<times> uint256) list" where
  "main_checkpoints =
    [(259201, uint256S ''1c9121bf9329a6234bfd1ea2d91515f19cd96990725265253f4b164283ade5dd''),
     (424998, uint256S ''f31e381eedb0ed3ed65fcc98cc71f36012bee32e8efd017c4f9fb0620fd35f6b''),
     (616764, uint256S ''29dd0bd1c59484f290896687b4ffb6a49afa5c498caf61967c69a541f8191557''),
     (623933, uint256S ''c7aafa648a0f1450157dc93bd4d7448913a85b7448f803b4ab970d91fc2a7da7''),
     (791150, uint256S ''8e76f462e4e82d1bd21cb72e1ce1567d4ddda2390f26074ffd1f5d9c270e5e50''),
     (795000, uint256S ''4423cceeb9fd574137a18733416275a70fdf95283cc79ad976ca399aa424a443''),
     (863787, uint256S ''5b2482eca24caf2a46bb22e0545db7b7037282733faa3a42ec20542509999a64''),
     (863795, uint256S ''2ad866818c4866e0d555181daccc628056216c0db431f88a825e84ed4f469067''),
     (863805, uint256S ''a755bd9a22b63c70d3db474f4b2b61a1f86c835b290a081bb3ec1ba2103eb4cb''),
     (867733, uint256S ''03b26296bf693de5782c76843d2fb649cb66d4b05550c6a79c047ff7e1c3ae15''),
     (879650, uint256S ''227e1d2b738b6cd83c46d1d64617934ec899d77cee34336a56e61b71acd10bb2''),
     (895400, uint256S ''7796a0274a608fac12d400198174e50beda992c1d522e52e5b95b884bc1beac6''),
     (895991, uint256S ''d53013ed7ea5c325b9696c95e07667d6858f8ff7ee13fecfa90827bf3c9ae316''),
     (908000, uint256S ''202708f8c289b676fceb832a079ff6b308a28608339acbf7584de533619d014d''),
     (1142400, uint256S ''98aff9d605bf123247f98b1e3a02567eb5799d208d78ec30fb89737b1c1f79c5''),
     (1679090, uint256S ''f747ce055ba1b12e1f2e842bd480bc647210799359cb2e553ab292065e3419d6''),
     (1686229, uint256S ''bb42bf1e886a7c23474634c90893dd3d68a6ccbfea4ac92a98da5cad0c6a6cb7''),
     (1778954, uint256S ''0d3241268264a2908d6babf00d9cd1ffb83d93d7bb4e428820127fe227c2029c''),
     (1788528, uint256S ''ea9243ff8fc079fdd7a04f11fac415de4d98e1bb0dc38db6f79f8f8bbfdbe496''),
     (2153200, uint256S ''14e477e597d24549cac5e59d97d32155e6ec2861c1003b42d0566f9bf39b65d5''),
     (2356049, uint256S ''62e80d8e193bca84655fb78893b20f54a79f2d71124c4ea37b7ef51a0d5451c4''),
     (2365700, uint256S ''b5d0beead57735539abc2db2b0b08cd65db3e5928efd3c3bf3182d5bf013f36c''),
     (2678402, uint256S ''580a26ff0a45177a7a6f387f009c5b26140ea48b4790a857d9a796f8b3c25899''),
     (3014000, uint256S ''78ad99b7225f73c42238bd7ca841ff700542b92bba75a0ef2ed351caa560f87f''),
     (3024000, uint256S ''be4bc75afcfb9136924810f7483b2695089a366cc4ee27fd6dc3ecd5396e1f0f''),
     (3715200, uint256S ''a676b9a598c393c82b949c37dd35013aeda55f5d18ab062349db6a8235972aaa'')]"

definition test_checkpoints :: "(int \<times> uint256) list" where
  "test_checkpoints = [(0, uint256S ''0x001'')]"

definition CMainParams_genesis :: CBlock where
  "CMainParams_genesis =
     (CreateGenesisBlock ''KrovaCoin genesis - TODO insert verifiable Aug 2026 headline before public launch (see launch plan)''
        1785931200 231101 0x1e0ffff0 8 0)\<lparr>hashFinalSaplingRoot := uint256S ''0x3e49b5f954aa9d3545bc6c37744661eea48d7c34e3000d82b7f0010c30f4c2fb''\<rparr>"

definition CMainParams_consensus :: Params where
  "CMainParams_consensus =
     \<lparr>hashGenesisBlock = Hash (SerializeHeader CMainParams_genesis),
      fPowAllowMinDifficultyBlocks = False, fPowNoRetargeting = False,
      powLimit = uint256S ''0x00000fffffffffffffffffffffffffffffffffffffffffffffffffffffffffff'',
      posLimitV1 = uint256S ''0x000000ffffffffffffffffffffffffffffffffffffffffffffffffffffffffff'',
      posLimitV2 = uint256S ''0x00000fffffffffffffffffffffffffffffffffffffffffffffffffffffffffff'',
      nBudgetCycleBlocks = 1440, nCoinbaseMaturity = 100, nFutureTimeDriftPoW = 7200, nFutureTimeDriftPoS = 180,
      nMaxMoneyOut = 72000000000 * COIN, nStakeMinAge = 3600, nStakeMinDepth = 600,
      nTargetTimespan = 40 * 60, nTargetTimespanV2 = 30 * 60, nTargetSpacing = 60, nTimeSlotLength = 15,
      height_last_invalid_UTXO = 894538, nKrovacoinBadBlockTime = 1471401614, nKrovacoinBadBlockBits = 0x1c056dac,
      vUpgrades =
       [ALWAYS_ACTIVE, 601, 601, NO_ACTIVATION_HEIGHT, NO_ACTIVATION_HEIGHT, ALWAYS_ACTIVE, NO_ACTIVATION_HEIGHT, 601,
        ALWAYS_ACTIVE, ALWAYS_ACTIVE, ALWAYS_ACTIVE, ALWAYS_ACTIVE, ALWAYS_ACTIVE, ALWAYS_ACTIVE, NO_ACTIVATION_HEIGHT,
        NO_ACTIVATION_HEIGHT]\<rparr>"

definition CMainParams :: CChainParams where
  "CMainParams =
     \<lparr>strNetworkID = ''main'', genesis = CMainParams_genesis, consensus = CMainParams_consensus,
      pchMessageStart = [0x4b, 0x52, 0x4f, 0x56], nDefaultPort = 42872,
      base58Prefixes = (\<lambda>t. case t of
          PUBKEY_ADDRESS \<Rightarrow> [45]
        | SCRIPT_ADDRESS \<Rightarrow> [105]
        | SECRET_KEY \<Rightarrow> [173]
        | EXT_PUBLIC_KEY \<Rightarrow> [0x02, 0x2D, 0x25, 0x33]
        | EXT_SECRET_KEY \<Rightarrow> [0x02, 0x21, 0x31, 0x2B]
        | EXT_COIN_TYPE \<Rightarrow> [0x80, 0x00, 0x03, 0x39]
        | STAKING_ADDRESS \<Rightarrow> [63]
        | EXCHANGE_ADDRESS \<Rightarrow> [0x01, 0xb9, 0xa2]),
      bech32HRPs = (\<lambda>t. case t of
          SAPLING_PAYMENT_ADDRESS \<Rightarrow> ''ps''
        | SAPLING_FULL_VIEWING_KEY \<Rightarrow> ''pviews''
        | SAPLING_INCOMING_VIEWING_KEY \<Rightarrow> ''pivks''
        | SAPLING_EXTENDED_SPEND_KEY \<Rightarrow> ''p-secret-spending-key-main''
        | SAPLING_EXTENDED_FVK \<Rightarrow> ''pxviews''
        | BLS_SECRET_KEY \<Rightarrow> ''bls-sk''
        | BLS_PUBLIC_KEY \<Rightarrow> ''bls-pk''),
      fRequireStandard = True, mapCheckpoints = main_checkpoints\<rparr>"

definition CTestNetParams_genesis :: CBlock where
  "CTestNetParams_genesis =
     (CreateGenesisBlock ''NPR 06/Aug/2026 Trump signs new orders targeting birthright citizenship, weeks after Supreme Court ruling''
        1786170027 987529 0x1e0ffff0 8 0)\<lparr>hashFinalSaplingRoot := uint256S ''0x3e49b5f954aa9d3545bc6c37744661eea48d7c34e3000d82b7f0010c30f4c2fb''\<rparr>"

definition CTestNetParams_consensus :: Params where
  "CTestNetParams_consensus =
     \<lparr>hashGenesisBlock = Hash (SerializeHeader CTestNetParams_genesis),
      fPowAllowMinDifficultyBlocks = True, fPowNoRetargeting = False,
      powLimit = uint256S ''0x00000fffffffffffffffffffffffffffffffffffffffffffffffffffffffffff'',
      posLimitV1 = uint256S ''0x000000ffffffffffffffffffffffffffffffffffffffffffffffffffffffffff'',
      posLimitV2 = uint256S ''0x00000fffffffffffffffffffffffffffffffffffffffffffffffffffffffffff'',
      nBudgetCycleBlocks = 50, nCoinbaseMaturity = 15, nFutureTimeDriftPoW = 7200, nFutureTimeDriftPoS = 180,
      nMaxMoneyOut = 72000000000 * COIN, nStakeMinAge = 3600, nStakeMinDepth = 100,
      nTargetTimespan = 40 * 60, nTargetTimespanV2 = 30 * 60, nTargetSpacing = 60, nTimeSlotLength = 15,
      height_last_invalid_UTXO = - 1, nKrovacoinBadBlockTime = 0, nKrovacoinBadBlockBits = 0,
      vUpgrades =
       [ALWAYS_ACTIVE, 101, 101, NO_ACTIVATION_HEIGHT, NO_ACTIVATION_HEIGHT, ALWAYS_ACTIVE, NO_ACTIVATION_HEIGHT, 101,
        ALWAYS_ACTIVE, ALWAYS_ACTIVE, ALWAYS_ACTIVE, ALWAYS_ACTIVE, ALWAYS_ACTIVE, ALWAYS_ACTIVE, NO_ACTIVATION_HEIGHT,
        NO_ACTIVATION_HEIGHT]\<rparr>"

definition CTestNetParams :: CChainParams where
  "CTestNetParams =
     \<lparr>strNetworkID = ''test'', genesis = CTestNetParams_genesis, consensus = CTestNetParams_consensus,
      pchMessageStart = [0x74, 0x6b, 0x72, 0x76], nDefaultPort = 52872,
      base58Prefixes = (\<lambda>t. case t of
          PUBKEY_ADDRESS \<Rightarrow> [139]
        | SCRIPT_ADDRESS \<Rightarrow> [19]
        | SECRET_KEY \<Rightarrow> [239]
        | EXT_PUBLIC_KEY \<Rightarrow> [0x3a, 0x80, 0x61, 0xa0]
        | EXT_SECRET_KEY \<Rightarrow> [0x3a, 0x80, 0x58, 0x37]
        | EXT_COIN_TYPE \<Rightarrow> [0x80, 0x00, 0x00, 0x01]
        | STAKING_ADDRESS \<Rightarrow> [73]
        | EXCHANGE_ADDRESS \<Rightarrow> [0x01, 0xb9, 0xb1]),
      bech32HRPs = (\<lambda>t. case t of
          SAPLING_PAYMENT_ADDRESS \<Rightarrow> ''ptestsapling''
        | SAPLING_FULL_VIEWING_KEY \<Rightarrow> ''pviewtestsapling''
        | SAPLING_INCOMING_VIEWING_KEY \<Rightarrow> ''pivktestsapling''
        | SAPLING_EXTENDED_SPEND_KEY \<Rightarrow> ''p-secret-spending-key-test''
        | SAPLING_EXTENDED_FVK \<Rightarrow> ''pxviewtestsapling''
        | BLS_SECRET_KEY \<Rightarrow> ''bls-sk-test''
        | BLS_PUBLIC_KEY \<Rightarrow> ''bls-pk-test''),
      fRequireStandard = False, mapCheckpoints = test_checkpoints\<rparr>"

definition CRegTestParams_genesis :: CBlock where
  "CRegTestParams_genesis =
     (CreateGenesisBlock ''KrovaCoin regtest genesis''
        1785920000 2 0x207fffff 8 0)\<lparr>hashFinalSaplingRoot := uint256S ''0x3e49b5f954aa9d3545bc6c37744661eea48d7c34e3000d82b7f0010c30f4c2fb''\<rparr>"

definition CRegTestParams_consensus :: Params where
  "CRegTestParams_consensus =
     \<lparr>hashGenesisBlock = Hash (SerializeHeader CRegTestParams_genesis),
      fPowAllowMinDifficultyBlocks = True, fPowNoRetargeting = True,
      powLimit = uint256S ''0x7fffffffffffffffffffffffffffffffffffffffffffffffffffffffffffffff'',
      posLimitV1 = uint256S ''0x000000ffffffffffffffffffffffffffffffffffffffffffffffffffffffffff'',
      posLimitV2 = uint256S ''0x00000fffffffffffffffffffffffffffffffffffffffffffffffffffffffffff'',
      nBudgetCycleBlocks = 10, nCoinbaseMaturity = 2, nFutureTimeDriftPoW = 7200, nFutureTimeDriftPoS = 180,
      nMaxMoneyOut = 72000000000 * COIN, nStakeMinAge = 0, nStakeMinDepth = 3,
      nTargetTimespan = 40 * 60, nTargetTimespanV2 = 30 * 60, nTargetSpacing = 60, nTimeSlotLength = 15,
      height_last_invalid_UTXO = - 1, nKrovacoinBadBlockTime = 0, nKrovacoinBadBlockBits = 0,
      vUpgrades =
       [ALWAYS_ACTIVE, 4, 4, NO_ACTIVATION_HEIGHT, NO_ACTIVATION_HEIGHT, ALWAYS_ACTIVE, NO_ACTIVATION_HEIGHT, 4,
        ALWAYS_ACTIVE, ALWAYS_ACTIVE, ALWAYS_ACTIVE, ALWAYS_ACTIVE, ALWAYS_ACTIVE, ALWAYS_ACTIVE, NO_ACTIVATION_HEIGHT,
        NO_ACTIVATION_HEIGHT]\<rparr>"

definition CRegTestParams :: CChainParams where
  "CRegTestParams =
     \<lparr>strNetworkID = ''regtest'', genesis = CRegTestParams_genesis, consensus = CRegTestParams_consensus,
      pchMessageStart = [0x72, 0x65, 0x67, 0x74], nDefaultPort = 42876,
      base58Prefixes = (\<lambda>t. case t of
          PUBKEY_ADDRESS \<Rightarrow> [139]
        | SCRIPT_ADDRESS \<Rightarrow> [19]
        | SECRET_KEY \<Rightarrow> [239]
        | EXT_PUBLIC_KEY \<Rightarrow> [0x3a, 0x80, 0x61, 0xa0]
        | EXT_SECRET_KEY \<Rightarrow> [0x3a, 0x80, 0x58, 0x37]
        | EXT_COIN_TYPE \<Rightarrow> [0x80, 0x00, 0x00, 0x01]
        | STAKING_ADDRESS \<Rightarrow> [73]
        | EXCHANGE_ADDRESS \<Rightarrow> [0x01, 0xb9, 0xb1]),
      bech32HRPs = (\<lambda>t. case t of
          SAPLING_PAYMENT_ADDRESS \<Rightarrow> ''ptestsapling''
        | SAPLING_FULL_VIEWING_KEY \<Rightarrow> ''pviewtestsapling''
        | SAPLING_INCOMING_VIEWING_KEY \<Rightarrow> ''pivktestsapling''
        | SAPLING_EXTENDED_SPEND_KEY \<Rightarrow> ''p-secret-spending-key-test''
        | SAPLING_EXTENDED_FVK \<Rightarrow> ''pxviewtestsapling''
        | BLS_SECRET_KEY \<Rightarrow> ''bls-sk-test''
        | BLS_PUBLIC_KEY \<Rightarrow> ''bls-pk-test''),
      fRequireStandard = True, mapCheckpoints = test_checkpoints\<rparr>"

definition CreateChainParams :: "string \<Rightarrow> CChainParams option" where
  "CreateChainParams chain =
     (if chain = ''main'' then Some CMainParams
      else if chain = ''test'' then Some CTestNetParams
      else if chain = ''regtest'' then Some CRegTestParams
      else None)"

definition UpdateNetworkUpgradeParameters :: "CChainParams \<Rightarrow> UpgradeIndex \<Rightarrow> int \<Rightarrow> CChainParams option" where
  "UpdateNetworkUpgradeParameters params idx nActivationHeight =
     (if strNetworkID params \<noteq> ''regtest'' then None
      else if \<not> (idx > BASE_NETWORK \<and> idx < MAX_NETWORK_UPGRADES) then None
      else Some (params\<lparr>consensus := (consensus params)\<lparr>vUpgrades := (vUpgrades (consensus params))[idx := nActivationHeight]\<rparr>\<rparr>))"

definition UpdateBudgetCycleBlocks :: "CChainParams \<Rightarrow> int \<Rightarrow> CChainParams option" where
  "UpdateBudgetCycleBlocks params nCycleBlocks =
     (if strNetworkID params \<noteq> ''regtest'' then None
      else Some (params\<lparr>consensus := (consensus params)\<lparr>nBudgetCycleBlocks := nCycleBlocks\<rparr>\<rparr>))"

section \<open>Checkpoints\<close>

definition Checkpoints_CheckBlock :: "bool \<Rightarrow> (int \<times> uint256) list \<Rightarrow> int \<Rightarrow> uint256 \<Rightarrow> bool \<Rightarrow> bool" where
  "Checkpoints_CheckBlock fEnabled checkpoints nHeight hash fMatchesCheckpoint \<longleftrightarrow>
     (if \<not> fEnabled then True
      else case map_of checkpoints nHeight of
             None \<Rightarrow> \<not> fMatchesCheckpoint
           | Some h \<Rightarrow> hash = h)"

text \<open>The greatest height of the map.\<close>

definition GetTotalBlocksEstimate :: "bool \<Rightarrow> (int \<times> uint256) list \<Rightarrow> int" where
  "GetTotalBlocksEstimate fEnabled checkpoints = (if \<not> fEnabled then 0 else Max (set (map fst checkpoints)))"

section \<open>Facts about upgrades\<close>

lemma NetworkUpgradeActive_iff:
  "idx < 16 \<Longrightarrow> NetworkUpgradeActive ps h idx \<longleftrightarrow> 0 \<le> h \<and> vUpgrades ps ! idx \<noteq> - 1 \<and> vUpgrades ps ! idx \<le> h"
  by (auto simp: NetworkUpgradeActive_def NetworkUpgradeState_def Let_def)

lemma NetworkUpgradeActive_mono: "NetworkUpgradeActive ps h idx \<Longrightarrow> h \<le> h' \<Longrightarrow> NetworkUpgradeActive ps h' idx"
proof (cases "idx < 16")
  case False
  then show "NetworkUpgradeActive ps h idx \<Longrightarrow> NetworkUpgradeActive ps h' idx" by (simp add: NetworkUpgradeActive_def)
qed (auto simp: NetworkUpgradeActive_iff)

lemma NetworkUpgradeState_pending:
  "0 \<le> h \<Longrightarrow> idx < 16 \<Longrightarrow> NetworkUpgradeState h ps idx = Some UPGRADE_PENDING \<longleftrightarrow> vUpgrades ps ! idx \<noteq> - 1 \<and> h < vUpgrades ps ! idx"
  by (auto simp: NetworkUpgradeState_def Let_def)

text \<open>The order that the header file demands of the enumeration.\<close>

definition upgrades_sorted :: "Params \<Rightarrow> bool" where
  "upgrades_sorted ps \<longleftrightarrow> (\<forall>i j. 1 \<le> i \<and> i < j \<and> j < 16 \<and> vUpgrades ps ! i \<noteq> - 1 \<and> vUpgrades ps ! j \<noteq> - 1 \<longrightarrow>
     vUpgrades ps ! i \<le> vUpgrades ps ! j)"

lemma CurrentEpoch_loop_numeral:
  "CurrentEpoch_loop h ps (numeral n) =
     (case NetworkUpgradeState h ps (numeral n) of
        None \<Rightarrow> None
      | Some st \<Rightarrow> if st = UPGRADE_ACTIVE then Some (numeral n) else CurrentEpoch_loop h ps (pred_numeral n))"
  by (simp only: numeral_eq_Suc CurrentEpoch_loop.simps)

lemma upgrade_indices: "[0 + 1 ..< 16] = [1, 2, 3, 4, 5, 6, 7, 8, 9, 10, 11, 12, 13, 14, 15 :: nat]"
  by code_simp

lemma main_upgrades [simp]:
  "vUpgrades CMainParams_consensus = [0, 601, 601, - 1, - 1, 0, - 1, 601, 0, 0, 0, 0, 0, 0, - 1, - 1]"
  "vUpgrades CTestNetParams_consensus = [0, 101, 101, - 1, - 1, 0, - 1, 101, 0, 0, 0, 0, 0, 0, - 1, - 1]"
  "vUpgrades CRegTestParams_consensus = [0, 4, 4, - 1, - 1, 0, - 1, 4, 0, 0, 0, 0, 0, 0, - 1, - 1]"
  by (simp_all add: CMainParams_consensus_def CTestNetParams_consensus_def CRegTestParams_consensus_def)

lemma main_checkpoint_heights:
  "map fst main_checkpoints =
    [259201, 424998, 616764, 623933, 791150, 795000, 863787, 863795, 863805, 867733, 879650, 895400, 895991,
     908000, 1142400, 1679090, 1686229, 1778954, 1788528, 2153200, 2356049, 2365700, 2678402, 3014000, 3024000, 3715200]"
  unfolding main_checkpoints_def by (simp only: list.map fst_conv)

section \<open>Properties\<close>

text \<open>
  (C35) The upgrade schedule of the three networks.  Proof of stake, its second version and the 3.4
  rules start together at one height, so the stake modifier of the latter never meets a block without
  a coinstake; Zerocoin never activates; and since later upgrades of the enumeration are active from
  the genesis block on, \<open>CurrentEpoch\<close> answers \<open>UPGRADE_V5_6\<close> at every height: the order that the
  queries rely on is violated on each network.
\<close>

theorem network_upgrade_schedule:
  assumes "(ps, a) \<in> {(CMainParams_consensus, 601), (CTestNetParams_consensus, 101), (CRegTestParams_consensus, 4)}" and "0 \<le> h"
  shows "(\<forall>u \<in> {UPGRADE_POS, UPGRADE_POS_V2, UPGRADE_V3_4}. NetworkUpgradeActive ps h u \<longleftrightarrow> a \<le> h) \<and>
    (\<forall>u \<in> {UPGRADE_ZC, UPGRADE_ZC_V2, UPGRADE_ZC_PUBLIC, UPGRADE_V6_0, UPGRADE_TESTDUMMY}. \<not> NetworkUpgradeActive ps h u) \<and>
    (\<forall>u \<in> {UPGRADE_BIP65, UPGRADE_V4_0, UPGRADE_V5_0, UPGRADE_V5_2, UPGRADE_V5_3, UPGRADE_V5_5, UPGRADE_V5_6}. NetworkUpgradeActive ps h u) \<and>
    CurrentEpoch h ps = Some UPGRADE_V5_6 \<and> \<not> upgrades_sorted ps \<and>
    NextActivationHeight h ps = (if h < a then Some a else None)"
proof -
  have u: "vUpgrades ps = [0, a, a, - 1, - 1, 0, - 1, a, 0, 0, 0, 0, 0, 0, - 1, - 1]" and a: "0 < a"
    using assms(1) by auto
  have "\<not> upgrades_sorted ps"
  proof
    assume "upgrades_sorted ps"
    then have "vUpgrades ps ! 1 \<le> vUpgrades ps ! 5"
      unfolding upgrades_sorted_def by (elim allE[of _ 1] allE[of _ 5]) (use a in \<open>simp add: u\<close>)
    then show False using a by (simp add: u)
  qed
  moreover have "CurrentEpoch h ps = Some UPGRADE_V5_6"
    using assms(2) by (simp add: CurrentEpoch_def CurrentEpoch_loop_numeral NetworkUpgradeState_def u)
  moreover have "NextActivationHeight h ps = (if h < a then Some a else None)"
    using assms(2) a unfolding NextActivationHeight_def NextEpoch_def upgrade_indices
    by (simp add: NetworkUpgradeState_def u)
  ultimately show ?thesis using assms(2) a by (simp add: NetworkUpgradeActive_iff u)
qed

theorem network_upgrade_schedule_witness:
  "CurrentEpoch 600 CMainParams_consensus = Some UPGRADE_V5_6 \<and> NextActivationHeight 600 CMainParams_consensus = Some 601 \<and>
   \<not> NetworkUpgradeActive CMainParams_consensus 600 UPGRADE_POS"
  using network_upgrade_schedule[of CMainParams_consensus 601 600] by simp

text \<open>
  (C36) The checkpoints of the main network.  A block passes the checkpoint test exactly when the list
  has no other hash for its height; the list ends at height 3715200, which is the number of
  blocks that \<open>GetTotalBlocksEstimate\<close> reports.
\<close>

theorem main_checkpoints_bind:
  "(Checkpoints_CheckBlock True (mapCheckpoints CMainParams) n h False \<longleftrightarrow> {c. (n, c) \<in> set (mapCheckpoints CMainParams)} \<subseteq> {h}) \<and>
   GetTotalBlocksEstimate True (mapCheckpoints CMainParams) = 3715200 \<and> 259201 \<in> fst ` set (mapCheckpoints CMainParams)"
proof -
  have m: "mapCheckpoints CMainParams = main_checkpoints" unfolding CMainParams_def by (simp only: CChainParams.select_convs)
  have d: "distinct (map fst main_checkpoints)" unfolding main_checkpoint_heights by simp
  have "Checkpoints_CheckBlock True cps n h False \<longleftrightarrow> {c. (n, c) \<in> set cps} \<subseteq> {h}" if "distinct (map fst cps)" for cps
  proof (cases "map_of cps n")
    case None
    then have "(n, c) \<notin> set cps" for c using that by (metis map_of_eq_Some_iff option.distinct(1))
    then show ?thesis using None by (simp add: Checkpoints_CheckBlock_def)
  next
    case (Some c)
    then have "(n, c') \<in> set cps \<longleftrightarrow> c' = c" for c' using that by (metis map_of_eq_Some_iff option.inject)
    then show ?thesis using Some by (auto simp: Checkpoints_CheckBlock_def)
  qed
  moreover have "GetTotalBlocksEstimate True main_checkpoints = 3715200"
    unfolding GetTotalBlocksEstimate_def main_checkpoint_heights by simp
  moreover have "259201 \<in> fst ` set main_checkpoints"
    unfolding set_map[symmetric] main_checkpoint_heights by simp
  ultimately show ?thesis using d unfolding m by blast
qed

end
