(* ===== verification/Coins.thy ===== *)
theory Coins
imports Params
begin

text \<open>
  The database of unspent outputs (\<open>coins.h\<close>, \<open>coins.cpp\<close>, \<open>txdb.cpp\<close>,
  \<open>sapling/sapling_txdb.cpp\<close>): coins, the write-back cache \<open>CCoinsViewCache\<close> over any other
  view, and the database view at the bottom.  A cache is a record and every method passes it on
  explicitly, the \<open>const\<close> ones too, since they fill the cache.  The base of a cache is a
  record of the values its virtual methods return.  The byte count \<open>cachedCoinsUsage\<close> depends on
  the allocator and only decides when to flush; it is not part of the model.

  The Sapling commitment tree is a type parameter, with its \<open>root()\<close> and the empty tree in the
  record \<open>tree_ops\<close>.  Iteration over an unordered map is iteration over a list that enumerates it
  in any order.
\<close>

section \<open>Coins\<close>

record Coin =
  fCoinBase :: bool
  fCoinStake :: bool
  coin_out :: CTxOut
  coin_nHeight :: nat

definition coinEmpty :: Coin where
  "coinEmpty = \<lparr>fCoinBase = False, fCoinStake = False, coin_out = CTxOut_SetNull, coin_nHeight = 0\<rparr>"

definition Coin_Clear :: "Coin \<Rightarrow> Coin" where
  "Coin_Clear c = c\<lparr>coin_out := CTxOut_SetNull, fCoinBase := False, fCoinStake := False, coin_nHeight := 0\<rparr>"

definition Coin_IsSpent :: "Coin \<Rightarrow> bool" where
  "Coin_IsSpent c = CTxOut_IsNull (coin_out c)"

record CCoinsCacheEntry =
  ce_coin :: Coin
  ce_DIRTY :: bool
  ce_FRESH :: bool

record 'tree CAnchorsSaplingCacheEntry =
  ae_entered :: bool
  ae_tree :: 'tree
  ae_DIRTY :: bool

record CNullifiersCacheEntry =
  ne_entered :: bool
  ne_DIRTY :: bool

record 'tree tree_ops =
  tree_root :: "'tree \<Rightarrow> uint256"
  tree_empty :: 'tree

abbreviation empty_root :: "'tree tree_ops \<Rightarrow> uint256" where
  "empty_root T \<equiv> tree_root T (tree_empty T)"

section \<open>Views\<close>

record 'tree CCoinsView =
  v_GetCoin :: "COutPoint \<Rightarrow> Coin option"
  v_GetBestBlock :: uint256
  v_GetSaplingAnchorAt :: "uint256 \<Rightarrow> 'tree option"
  v_GetNullifier :: "uint256 \<Rightarrow> bool"
  v_GetBestAnchor :: uint256

definition CCoinsView_dummy :: "'tree CCoinsView" where
  "CCoinsView_dummy = \<lparr>v_GetCoin = (\<lambda>_. None), v_GetBestBlock = null_hash,
     v_GetSaplingAnchorAt = (\<lambda>_. None), v_GetNullifier = (\<lambda>_. False), v_GetBestAnchor = null_hash\<rparr>"

record 'tree CCoinsViewCache =
  hashBlock :: uint256
  cacheCoins :: "COutPoint \<Rightarrow> CCoinsCacheEntry option"
  hashSaplingAnchor :: uint256
  cacheSaplingAnchors :: "uint256 \<Rightarrow> 'tree CAnchorsSaplingCacheEntry option"
  cacheSaplingNullifiers :: "uint256 \<Rightarrow> CNullifiersCacheEntry option"

definition mk_CCoinsViewCache :: "'tree CCoinsViewCache" where
  "mk_CCoinsViewCache = \<lparr>hashBlock = null_hash, cacheCoins = Map.empty, hashSaplingAnchor = null_hash,
     cacheSaplingAnchors = Map.empty, cacheSaplingNullifiers = Map.empty\<rparr>"

datatype coins_error =
  AssertUnspent | ReplacesNonPruned | FreshMisapplied | AssertAnchor | AssertBestBlock | AssertHeads | UndoOutOfRange

section \<open>Coins in the cache\<close>

definition FetchCoin :: "'tree CCoinsView \<Rightarrow> COutPoint \<Rightarrow> 'tree CCoinsViewCache \<Rightarrow>
    CCoinsCacheEntry option \<times> 'tree CCoinsViewCache" where
  "FetchCoin base op c =
     (case cacheCoins c op of
        Some e \<Rightarrow> (Some e, c)
      | None \<Rightarrow>
          (case v_GetCoin base op of
             None \<Rightarrow> (None, c)
           | Some tmp \<Rightarrow>
               let e = \<lparr>ce_coin = tmp, ce_DIRTY = False, ce_FRESH = Coin_IsSpent tmp\<rparr>
               in (Some e, c\<lparr>cacheCoins := (cacheCoins c)(op \<mapsto> e)\<rparr>)))"

definition GetCoin :: "'tree CCoinsView \<Rightarrow> COutPoint \<Rightarrow> 'tree CCoinsViewCache \<Rightarrow>
    Coin option \<times> 'tree CCoinsViewCache" where
  "GetCoin base op c = (let (it, c') = FetchCoin base op c in (map_option ce_coin it, c'))"

definition AccessCoin :: "'tree CCoinsView \<Rightarrow> COutPoint \<Rightarrow> 'tree CCoinsViewCache \<Rightarrow>
    Coin \<times> 'tree CCoinsViewCache" where
  "AccessCoin base op c =
     (let (it, c') = FetchCoin base op c
      in (case it of None \<Rightarrow> coinEmpty | Some e \<Rightarrow> ce_coin e, c'))"

definition HaveCoin :: "'tree CCoinsView \<Rightarrow> COutPoint \<Rightarrow> 'tree CCoinsViewCache \<Rightarrow>
    bool \<times> 'tree CCoinsViewCache" where
  "HaveCoin base op c =
     (let (it, c') = FetchCoin base op c
      in (case it of None \<Rightarrow> False | Some e \<Rightarrow> \<not> Coin_IsSpent (ce_coin e), c'))"

definition GetUTXOCoin :: "'tree CCoinsView \<Rightarrow> COutPoint \<Rightarrow> 'tree CCoinsViewCache \<Rightarrow>
    Coin option \<times> 'tree CCoinsViewCache" where
  "GetUTXOCoin base op c =
     (let (r, c') = GetCoin base op c
      in (case r of None \<Rightarrow> None | Some k \<Rightarrow> if Coin_IsSpent k then None else Some k, c'))"

definition HaveCoinInCache :: "COutPoint \<Rightarrow> 'tree CCoinsViewCache \<Rightarrow> bool" where
  "HaveCoinInCache op c = (cacheCoins c op \<noteq> None)"

definition AddCoin :: "COutPoint \<Rightarrow> Coin \<Rightarrow> bool \<Rightarrow> 'tree CCoinsViewCache \<Rightarrow>
    coins_error + 'tree CCoinsViewCache" where
  "AddCoin op coin possible_overwrite c =
     (if Coin_IsSpent coin then Inl AssertUnspent
      else if IsUnspendable (scriptPubKey (coin_out coin)) then Inr c
      else if CTxOut_IsZerocoinMint (coin_out coin) then Inr c
      else
        let it = (case cacheCoins c op of
                    Some e \<Rightarrow> e
                  | None \<Rightarrow> \<lparr>ce_coin = coinEmpty, ce_DIRTY = False, ce_FRESH = False\<rparr>)
        in if \<not> possible_overwrite \<and> \<not> Coin_IsSpent (ce_coin it) then Inl ReplacesNonPruned
           else let fresh = (\<not> possible_overwrite \<and> \<not> ce_DIRTY it)
                in Inr (c\<lparr>cacheCoins := (cacheCoins c)
                     (op \<mapsto> \<lparr>ce_coin = coin, ce_DIRTY = True, ce_FRESH = (ce_FRESH it \<or> fresh)\<rparr>)\<rparr>))"

definition SpendCoin :: "'tree CCoinsView \<Rightarrow> COutPoint \<Rightarrow> 'tree CCoinsViewCache \<Rightarrow>
    Coin option \<times> 'tree CCoinsViewCache" where
  "SpendCoin base op c =
     (let (it, c') = FetchCoin base op c
      in case it of
           None \<Rightarrow> (None, c')
         | Some e \<Rightarrow>
             (Some (ce_coin e),
              if ce_FRESH e then c'\<lparr>cacheCoins := (cacheCoins c')(op := None)\<rparr>
              else c'\<lparr>cacheCoins := (cacheCoins c')
                (op \<mapsto> e\<lparr>ce_DIRTY := True, ce_coin := Coin_Clear (ce_coin e)\<rparr>)\<rparr>))"

definition Uncache :: "COutPoint \<Rightarrow> 'tree CCoinsViewCache \<Rightarrow> 'tree CCoinsViewCache" where
  "Uncache op c =
     (case cacheCoins c op of
        Some e \<Rightarrow> if \<not> ce_DIRTY e \<and> \<not> ce_FRESH e
                  then c\<lparr>cacheCoins := (cacheCoins c)(op := None)\<rparr> else c
      | None \<Rightarrow> c)"

definition mk_COutPoint :: "uint256 \<Rightarrow> nat \<Rightarrow> COutPoint" where
  "mk_COutPoint txid i = \<lparr>out_hash = txid, out_n = i mod 2 ^ 32\<rparr>"

text \<open>\<open>invalid\<close> is membership in \<open>setInvalidOutPoints\<close>, which is loaded from a data file.\<close>

fun AddCoins_loop :: "'tree CCoinsView \<Rightarrow> (COutPoint \<Rightarrow> bool) \<Rightarrow> uint256 \<Rightarrow> (CTxOut \<Rightarrow> Coin) \<Rightarrow> bool \<Rightarrow> bool \<Rightarrow>
    nat \<Rightarrow> CTxOut list \<Rightarrow> 'tree CCoinsViewCache \<Rightarrow> coins_error + 'tree CCoinsViewCache" where
  "AddCoins_loop base invalid txid mk check fSkipInvalid i [] c = Inr c"
| "AddCoins_loop base invalid txid mk check fSkipInvalid i (txout # vouts) c =
     (let op = mk_COutPoint txid i
      in if fSkipInvalid \<and> invalid op then
           AddCoins_loop base invalid txid mk check fSkipInvalid (i + 1) vouts (snd (SpendCoin base op c))
         else
           let (overwrite, c') = (if check then HaveCoin base op c else (False, c))
           in bindE (AddCoin op (mk txout) overwrite c')
                (AddCoins_loop base invalid txid mk check fSkipInvalid (i + 1) vouts))"

definition AddCoins :: "'tree CCoinsView \<Rightarrow> (COutPoint \<Rightarrow> bool) \<Rightarrow> CTransaction \<Rightarrow> nat \<Rightarrow> bool \<Rightarrow> bool \<Rightarrow>
    'tree CCoinsViewCache \<Rightarrow> coins_error + 'tree CCoinsViewCache" where
  "AddCoins base invalid tx nHeight check fSkipInvalid c =
     AddCoins_loop base invalid (GetHash tx)
       (\<lambda>txout. \<lparr>fCoinBase = IsCoinBase tx, fCoinStake = IsCoinStake tx, coin_out = txout,
                 coin_nHeight = nHeight\<rparr>)
       check fSkipInvalid 0 (vout tx) c"

definition GetBestBlock :: "'tree CCoinsView \<Rightarrow> 'tree CCoinsViewCache \<Rightarrow> uint256 \<times> 'tree CCoinsViewCache" where
  "GetBestBlock base c =
     (let c' = (if uint256_IsNull (hashBlock c) then c\<lparr>hashBlock := v_GetBestBlock base\<rparr> else c)
      in (hashBlock c', c'))"

definition SetBestBlock :: "uint256 \<Rightarrow> 'tree CCoinsViewCache \<Rightarrow> 'tree CCoinsViewCache" where
  "SetBestBlock h c = c\<lparr>hashBlock := h\<rparr>"

fun GetValueIn_loop :: "'tree CCoinsView \<Rightarrow> CAmount \<Rightarrow> CTxIn list \<Rightarrow> 'tree CCoinsViewCache \<Rightarrow>
    CAmount \<times> 'tree CCoinsViewCache" where
  "GetValueIn_loop base nResult [] c = (nResult, c)"
| "GetValueIn_loop base nResult (txin # vins) c =
     (if CTxIn_IsZerocoinSpend txin \<or> CTxIn_IsZerocoinPublicSpend txin then
        GetValueIn_loop base (wrap64 (nResult + wrap64 (int (nSequence txin) * COIN))) vins c
      else
        let (coin, c') = AccessCoin base (prevout txin) c
        in GetValueIn_loop base (wrap64 (nResult + nValue (coin_out coin))) vins c')"

definition GetValueIn :: "'tree CCoinsView \<Rightarrow> CTransaction \<Rightarrow> 'tree CCoinsViewCache \<Rightarrow>
    (value_error + CAmount) \<times> 'tree CCoinsViewCache" where
  "GetValueIn base tx c =
     (if IsCoinBase tx then (Inr 0, c)
      else
        let (nResult, c') = GetValueIn_loop base 0 (vin tx) c
        in (bindE (GetShieldedValueIn tx) (\<lambda>v. Inr (wrap64 (nResult + v))), c'))"

fun HaveInputs_loop :: "'tree CCoinsView \<Rightarrow> CTxIn list \<Rightarrow> 'tree CCoinsViewCache \<Rightarrow>
    bool \<times> 'tree CCoinsViewCache" where
  "HaveInputs_loop base [] c = (True, c)"
| "HaveInputs_loop base (txin # vins) c =
     (let (h, c') = HaveCoin base (prevout txin) c
      in if h then HaveInputs_loop base vins c' else (False, c'))"

definition HaveInputs :: "'tree CCoinsView \<Rightarrow> CTransaction \<Rightarrow> 'tree CCoinsViewCache \<Rightarrow>
    bool \<times> 'tree CCoinsViewCache" where
  "HaveInputs base tx c =
     (if \<not> IsCoinBase tx \<and> \<not> HasZerocoinSpendInputs tx then HaveInputs_loop base (vin tx) c
      else (True, c))"

definition GetCoinDepthAtHeight :: "'tree CCoinsView \<Rightarrow> COutPoint \<Rightarrow> int \<Rightarrow> 'tree CCoinsViewCache \<Rightarrow>
    int \<times> 'tree CCoinsViewCache" where
  "GetCoinDepthAtHeight base op h c =
     (let (coin, c') = AccessCoin base op c
      in (if \<not> Coin_IsSpent coin
          then int_of_u 4 (nat ((h - int (coin_nHeight coin) + 1) mod 2 ^ 32)) else - 1, c'))"

text \<open>\<open>MAX_BLOCK_SIZE_CURRENT\<close> over the serialized size of an empty output, 8 + 1 bytes.\<close>

abbreviation MAX_OUTPUTS_PER_BLOCK :: nat where "MAX_OUTPUTS_PER_BLOCK \<equiv> 2000000 div 9"

function AccessByTxid_loop :: "'tree CCoinsView \<Rightarrow> uint256 \<Rightarrow> nat \<Rightarrow> 'tree CCoinsViewCache \<Rightarrow>
    Coin \<times> 'tree CCoinsViewCache" where
  "AccessByTxid_loop base txid i c =
     (if i < MAX_OUTPUTS_PER_BLOCK then
        let (alternate, c') = AccessCoin base \<lparr>out_hash = txid, out_n = i\<rparr> c
        in if \<not> Coin_IsSpent alternate then (alternate, c') else AccessByTxid_loop base txid (i + 1) c'
      else (coinEmpty, c))"
  by pat_completeness auto
termination
  by (relation "measure (\<lambda>(base, txid, i, c). MAX_OUTPUTS_PER_BLOCK - i)") auto

declare AccessByTxid_loop.simps [simp del]

definition AccessByTxid :: "'tree CCoinsView \<Rightarrow> uint256 \<Rightarrow> 'tree CCoinsViewCache \<Rightarrow>
    Coin \<times> 'tree CCoinsViewCache" where
  "AccessByTxid base txid c = AccessByTxid_loop base txid 0 c"

section \<open>Sapling anchors and nullifiers in the cache\<close>

definition GetSaplingAnchorAt :: "'tree CCoinsView \<Rightarrow> uint256 \<Rightarrow> 'tree CCoinsViewCache \<Rightarrow>
    'tree option \<times> 'tree CCoinsViewCache" where
  "GetSaplingAnchorAt base rt c =
     (case cacheSaplingAnchors c rt of
        Some e \<Rightarrow> (if ae_entered e then Some (ae_tree e) else None, c)
      | None \<Rightarrow>
          (case v_GetSaplingAnchorAt base rt of
             None \<Rightarrow> (None, c)
           | Some t \<Rightarrow> (Some t, c\<lparr>cacheSaplingAnchors := (cacheSaplingAnchors c)
               (rt \<mapsto> \<lparr>ae_entered = True, ae_tree = t, ae_DIRTY = False\<rparr>)\<rparr>)))"

definition GetNullifier :: "'tree CCoinsView \<Rightarrow> uint256 \<Rightarrow> 'tree CCoinsViewCache \<Rightarrow>
    bool \<times> 'tree CCoinsViewCache" where
  "GetNullifier base nf c =
     (case cacheSaplingNullifiers c nf of
        Some e \<Rightarrow> (ne_entered e, c)
      | None \<Rightarrow>
          let tmp = v_GetNullifier base nf
          in (tmp, c\<lparr>cacheSaplingNullifiers := (cacheSaplingNullifiers c)
                 (nf \<mapsto> \<lparr>ne_entered = tmp, ne_DIRTY = False\<rparr>)\<rparr>))"

definition GetBestAnchor :: "'tree CCoinsView \<Rightarrow> 'tree CCoinsViewCache \<Rightarrow> uint256 \<times> 'tree CCoinsViewCache" where
  "GetBestAnchor base c =
     (let c' = (if uint256_IsNull (hashSaplingAnchor c)
                then c\<lparr>hashSaplingAnchor := v_GetBestAnchor base\<rparr> else c)
      in (hashSaplingAnchor c', c'))"

definition PushAnchor :: "'tree tree_ops \<Rightarrow> 'tree CCoinsView \<Rightarrow> 'tree \<Rightarrow> 'tree CCoinsViewCache \<Rightarrow>
    'tree CCoinsViewCache" where
  "PushAnchor T base t c =
     (let newrt = tree_root T t;
          (currentRoot, c') = GetBestAnchor base c
      in if currentRoot \<noteq> newrt then
           c'\<lparr>cacheSaplingAnchors := (cacheSaplingAnchors c')
                (newrt \<mapsto> \<lparr>ae_entered = True, ae_tree = t, ae_DIRTY = True\<rparr>),
              hashSaplingAnchor := newrt\<rparr>
         else c')"

definition PopAnchor :: "'tree CCoinsView \<Rightarrow> uint256 \<Rightarrow> 'tree CCoinsViewCache \<Rightarrow>
    coins_error + 'tree CCoinsViewCache" where
  "PopAnchor base newrt c =
     (let (currentRoot, c') = GetBestAnchor base c
      in if currentRoot \<noteq> newrt then
           (case GetSaplingAnchorAt base currentRoot c' of
              (None, c'') \<Rightarrow> Inl AssertAnchor
            | (Some t, c'') \<Rightarrow>
                Inr (c''\<lparr>cacheSaplingAnchors := (cacheSaplingAnchors c'')
                       (currentRoot := map_option (\<lambda>e. e\<lparr>ae_entered := False, ae_DIRTY := True\<rparr>)
                          (cacheSaplingAnchors c'' currentRoot)),
                     hashSaplingAnchor := newrt\<rparr>))
         else Inr c')"

definition SetNullifier :: "bool \<Rightarrow> SpendDescription \<Rightarrow> 'tree CCoinsViewCache \<Rightarrow> 'tree CCoinsViewCache" where
  "SetNullifier spent sd c =
     c\<lparr>cacheSaplingNullifiers := (cacheSaplingNullifiers c)
         (sd_nullifier sd \<mapsto> \<lparr>ne_entered = spent, ne_DIRTY = True\<rparr>)\<rparr>"

definition SetNullifiers :: "CTransaction \<Rightarrow> bool \<Rightarrow> 'tree CCoinsViewCache \<Rightarrow> 'tree CCoinsViewCache" where
  "SetNullifiers tx spent c =
     (case sapData tx of
        None \<Rightarrow> c
      | Some d \<Rightarrow> fold (SetNullifier spent) (vShieldedSpend d) c)"

fun HaveShieldedRequirements_loop :: "'tree CCoinsView \<Rightarrow> SpendDescription list \<Rightarrow> 'tree CCoinsViewCache \<Rightarrow>
    bool \<times> 'tree CCoinsViewCache" where
  "HaveShieldedRequirements_loop base [] c = (True, c)"
| "HaveShieldedRequirements_loop base (sd # sds) c =
     (let (n, c') = GetNullifier base (sd_nullifier sd) c
      in if n then (False, c')
         else let (t, c'') = GetSaplingAnchorAt base (sd_anchor sd) c'
              in if t = None then (False, c'') else HaveShieldedRequirements_loop base sds c'')"

definition HaveShieldedRequirements :: "'tree CCoinsView \<Rightarrow> CTransaction \<Rightarrow> 'tree CCoinsViewCache \<Rightarrow>
    bool \<times> 'tree CCoinsViewCache" where
  "HaveShieldedRequirements base tx c =
     (if IsShieldedTx tx then
        (case sapData tx of
           Some d \<Rightarrow> HaveShieldedRequirements_loop base (vShieldedSpend d) c
         | None \<Rightarrow> (True, c))
      else (True, c))"

section \<open>Writing a cache back to its base\<close>

text \<open>What \<open>Flush\<close> hands to the base: the entries of the three maps in the order of iteration.\<close>

record 'tree cache_batch =
  b_coins :: "(COutPoint \<times> CCoinsCacheEntry) list"
  b_hashBlock :: uint256
  b_hashSaplingAnchor :: uint256
  b_anchors :: "(uint256 \<times> 'tree CAnchorsSaplingCacheEntry) list"
  b_nullifiers :: "(uint256 \<times> CNullifiersCacheEntry) list"

definition enumerates :: "('k \<times> 'v) list \<Rightarrow> ('k \<Rightarrow> 'v option) \<Rightarrow> bool" where
  "enumerates its m \<longleftrightarrow> distinct (map fst its) \<and> map_of its = m"

definition batch_of :: "'tree CCoinsViewCache \<Rightarrow> 'tree cache_batch \<Rightarrow> bool" where
  "batch_of c b \<longleftrightarrow>
     enumerates (b_coins b) (cacheCoins c) \<and> enumerates (b_anchors b) (cacheSaplingAnchors c) \<and>
     enumerates (b_nullifiers b) (cacheSaplingNullifiers c) \<and>
     b_hashBlock b = hashBlock c \<and> b_hashSaplingAnchor b = hashSaplingAnchor c"

definition BatchWriteCoin :: "CCoinsCacheEntry \<Rightarrow> CCoinsCacheEntry option \<Rightarrow>
    coins_error + CCoinsCacheEntry option" where
  "BatchWriteCoin it itUs =
     (if \<not> ce_DIRTY it then Inr itUs
      else case itUs of
             None \<Rightarrow>
               if \<not> (ce_FRESH it \<and> Coin_IsSpent (ce_coin it))
               then Inr (Some \<lparr>ce_coin = ce_coin it, ce_DIRTY = True, ce_FRESH = ce_FRESH it\<rparr>)
               else Inr None
           | Some us \<Rightarrow>
               if ce_FRESH it \<and> \<not> Coin_IsSpent (ce_coin us) then Inl FreshMisapplied
               else if ce_FRESH us \<and> Coin_IsSpent (ce_coin it) then Inr None
               else Inr (Some (us\<lparr>ce_coin := ce_coin it, ce_DIRTY := True\<rparr>)))"

fun BatchWriteCoins :: "(COutPoint \<times> CCoinsCacheEntry) list \<Rightarrow> (COutPoint \<Rightarrow> CCoinsCacheEntry option) \<Rightarrow>
    coins_error + (COutPoint \<Rightarrow> CCoinsCacheEntry option)" where
  "BatchWriteCoins [] m = Inr m"
| "BatchWriteCoins ((k, it) # its) m =
     bindE (BatchWriteCoin it (m k)) (\<lambda>r. BatchWriteCoins its (m(k := r)))"

definition BatchWriteAnchor :: "uint256 \<times> 'tree CAnchorsSaplingCacheEntry \<Rightarrow>
    (uint256 \<Rightarrow> 'tree CAnchorsSaplingCacheEntry option) \<Rightarrow> (uint256 \<Rightarrow> 'tree CAnchorsSaplingCacheEntry option)" where
  "BatchWriteAnchor kit m =
     (let k = fst kit; it = snd kit
      in if ae_DIRTY it then
           (case m k of
              None \<Rightarrow> m(k \<mapsto> \<lparr>ae_entered = ae_entered it, ae_tree = ae_tree it, ae_DIRTY = True\<rparr>)
            | Some us \<Rightarrow>
                if ae_entered us \<noteq> ae_entered it
                then m(k \<mapsto> us\<lparr>ae_entered := ae_entered it, ae_DIRTY := True\<rparr>) else m)
         else m)"

definition BatchWriteNullifier :: "uint256 \<times> CNullifiersCacheEntry \<Rightarrow>
    (uint256 \<Rightarrow> CNullifiersCacheEntry option) \<Rightarrow> (uint256 \<Rightarrow> CNullifiersCacheEntry option)" where
  "BatchWriteNullifier kit m =
     (let k = fst kit; it = snd kit
      in if ne_DIRTY it then
           (case m k of
              None \<Rightarrow> m(k \<mapsto> \<lparr>ne_entered = ne_entered it, ne_DIRTY = True\<rparr>)
            | Some us \<Rightarrow>
                if ne_entered us \<noteq> ne_entered it
                then m(k \<mapsto> us\<lparr>ne_entered := ne_entered it, ne_DIRTY := True\<rparr>) else m)
         else m)"

definition BatchWrite :: "'tree cache_batch \<Rightarrow> 'tree CCoinsViewCache \<Rightarrow> coins_error + 'tree CCoinsViewCache" where
  "BatchWrite b c =
     bindE (BatchWriteCoins (b_coins b) (cacheCoins c)) (\<lambda>m.
       Inr (c\<lparr>cacheCoins := m,
              cacheSaplingAnchors := fold BatchWriteAnchor (b_anchors b) (cacheSaplingAnchors c),
              cacheSaplingNullifiers := fold BatchWriteNullifier (b_nullifiers b) (cacheSaplingNullifiers c),
              hashSaplingAnchor := b_hashSaplingAnchor b,
              hashBlock := b_hashBlock b\<rparr>))"

text \<open>\<open>bw\<close> is the virtual \<open>BatchWrite\<close> of the base, whose state is the second component.\<close>

definition Flush :: "('tree cache_batch \<Rightarrow> 's \<Rightarrow> coins_error + 's) \<Rightarrow> 'tree cache_batch \<Rightarrow>
    'tree CCoinsViewCache \<Rightarrow> 's \<Rightarrow> coins_error + 'tree CCoinsViewCache \<times> 's" where
  "Flush bw b c s =
     bindE (bw b s) (\<lambda>s'.
       Inr (c\<lparr>cacheCoins := Map.empty, cacheSaplingAnchors := Map.empty,
              cacheSaplingNullifiers := Map.empty\<rparr>, s'))"

fun PruneInvalidEntries_loop :: "'tree CCoinsView \<Rightarrow> COutPoint list \<Rightarrow> 'tree CCoinsViewCache \<Rightarrow>
    'tree CCoinsViewCache" where
  "PruneInvalidEntries_loop base [] c = c"
| "PruneInvalidEntries_loop base (op # ops) c =
     (let (h, c') = HaveCoin base op c
      in PruneInvalidEntries_loop base ops (if h then snd (SpendCoin base op c') else c'))"

section \<open>The database view\<close>

record 'tree CCoinsViewDB =
  db_COIN :: "COutPoint \<Rightarrow> Coin option"
  db_BEST_BLOCK :: "uint256 option"
  db_HEAD_BLOCKS :: "uint256 list option"
  db_SAPLING_ANCHOR :: "uint256 \<Rightarrow> 'tree option"
  db_SAPLING_NULLIFIER :: "uint256 \<Rightarrow> bool option"
  db_BEST_SAPLING_ANCHOR :: "uint256 option"

text \<open>The writes and erasures collected in a \<open>CDBBatch\<close>; the key-value store applies a batch atomically.\<close>

datatype 'tree db_op =
    DbCoin COutPoint "Coin option"
  | DbBestBlock "uint256 option"
  | DbHeadBlocks "uint256 list option"
  | DbAnchor uint256 "'tree option"
  | DbNullifier uint256 "bool option"
  | DbBestAnchor uint256

fun db_apply :: "'tree db_op \<Rightarrow> 'tree CCoinsViewDB \<Rightarrow> 'tree CCoinsViewDB" where
  "db_apply (DbCoin op v) db = db\<lparr>db_COIN := (db_COIN db)(op := v)\<rparr>"
| "db_apply (DbBestBlock v) db = db\<lparr>db_BEST_BLOCK := v\<rparr>"
| "db_apply (DbHeadBlocks v) db = db\<lparr>db_HEAD_BLOCKS := v\<rparr>"
| "db_apply (DbAnchor rt v) db = db\<lparr>db_SAPLING_ANCHOR := (db_SAPLING_ANCHOR db)(rt := v)\<rparr>"
| "db_apply (DbNullifier nf v) db = db\<lparr>db_SAPLING_NULLIFIER := (db_SAPLING_NULLIFIER db)(nf := v)\<rparr>"
| "db_apply (DbBestAnchor h) db = db\<lparr>db_BEST_SAPLING_ANCHOR := Some h\<rparr>"

definition WriteBatch :: "'tree db_op list \<Rightarrow> 'tree CCoinsViewDB \<Rightarrow> 'tree CCoinsViewDB" where
  "WriteBatch ops db = fold db_apply ops db"

definition DB_GetBestBlock :: "'tree CCoinsViewDB \<Rightarrow> uint256" where
  "DB_GetBestBlock db = (case db_BEST_BLOCK db of None \<Rightarrow> null_hash | Some h \<Rightarrow> h)"

definition DB_GetHeadBlocks :: "'tree CCoinsViewDB \<Rightarrow> uint256 list" where
  "DB_GetHeadBlocks db = (case db_HEAD_BLOCKS db of None \<Rightarrow> [] | Some hs \<Rightarrow> hs)"

definition DB_GetSaplingAnchorAt :: "'tree tree_ops \<Rightarrow> 'tree CCoinsViewDB \<Rightarrow> uint256 \<Rightarrow> 'tree option" where
  "DB_GetSaplingAnchorAt T db rt =
     (if rt = empty_root T then Some (tree_empty T) else db_SAPLING_ANCHOR db rt)"

definition DB_GetBestAnchor :: "'tree tree_ops \<Rightarrow> 'tree CCoinsViewDB \<Rightarrow> uint256" where
  "DB_GetBestAnchor T db = (case db_BEST_SAPLING_ANCHOR db of None \<Rightarrow> empty_root T | Some h \<Rightarrow> h)"

definition db_view :: "'tree tree_ops \<Rightarrow> 'tree CCoinsViewDB \<Rightarrow> 'tree CCoinsView" where
  "db_view T db =
     \<lparr>v_GetCoin = db_COIN db, v_GetBestBlock = DB_GetBestBlock db,
      v_GetSaplingAnchorAt = DB_GetSaplingAnchorAt T db,
      v_GetNullifier = (\<lambda>nf. db_SAPLING_NULLIFIER db nf \<noteq> None),
      v_GetBestAnchor = DB_GetBestAnchor T db\<rparr>"

text \<open>
  The loop over the coins returns the partial batches it has written and the batch that is still
  open; \<open>full\<close> says that \<open>batch.SizeEstimate()\<close> exceeds \<open>-dbbatchsize\<close>.
\<close>

fun DB_BatchWrite_coins :: "('tree db_op list \<Rightarrow> bool) \<Rightarrow> (COutPoint \<times> CCoinsCacheEntry) list \<Rightarrow> 'tree db_op list \<Rightarrow>
    'tree db_op list list \<times> 'tree db_op list" where
  "DB_BatchWrite_coins full [] batch = ([], batch)"
| "DB_BatchWrite_coins full ((op, it) # its) batch =
     (let batch' = (if ce_DIRTY it
                    then batch @ [DbCoin op (if Coin_IsSpent (ce_coin it) then None else Some (ce_coin it))]
                    else batch)
      in if full batch' then
           let (ws, pending) = DB_BatchWrite_coins full its [] in (batch' # ws, pending)
         else DB_BatchWrite_coins full its batch')"

definition DB_BatchWriteAnchors :: "'tree tree_ops \<Rightarrow> (uint256 \<times> 'tree CAnchorsSaplingCacheEntry) list \<Rightarrow>
    'tree db_op list" where
  "DB_BatchWriteAnchors T its =
     concat (map (\<lambda>(rt, it).
       if ae_DIRTY it then
         (if \<not> ae_entered it then [DbAnchor rt None]
          else if rt \<noteq> empty_root T then [DbAnchor rt (Some (ae_tree it))] else [])
       else []) its)"

definition DB_BatchWriteNullifiers :: "(uint256 \<times> CNullifiersCacheEntry) list \<Rightarrow> 'tree db_op list" where
  "DB_BatchWriteNullifiers its =
     concat (map (\<lambda>(nf, it).
       if ne_DIRTY it then [DbNullifier nf (if \<not> ne_entered it then None else Some True)] else []) its)"

definition BatchWriteSapling :: "'tree tree_ops \<Rightarrow> 'tree cache_batch \<Rightarrow> 'tree db_op list" where
  "BatchWriteSapling T b =
     DB_BatchWriteAnchors T (b_anchors b) @ DB_BatchWriteNullifiers (b_nullifiers b) @
     (if \<not> uint256_IsNull (b_hashSaplingAnchor b) then [DbBestAnchor (b_hashSaplingAnchor b)] else [])"

text \<open>The batches \<open>CCoinsViewDB::BatchWrite\<close> gives to \<open>WriteBatch\<close>, in order.\<close>

definition DB_batches :: "'tree tree_ops \<Rightarrow> ('tree db_op list \<Rightarrow> bool) \<Rightarrow> 'tree cache_batch \<Rightarrow> uint256 \<Rightarrow>
    'tree db_op list list" where
  "DB_batches T full b old_tip =
     (let (ws, pending) = DB_BatchWrite_coins full (b_coins b)
            [DbBestBlock None, DbHeadBlocks (Some [b_hashBlock b, old_tip])]
      in ws @ [pending @ BatchWriteSapling T b @ [DbHeadBlocks None, DbBestBlock (Some (b_hashBlock b))]])"

definition DB_old_tip :: "uint256 \<Rightarrow> 'tree CCoinsViewDB \<Rightarrow> coins_error + uint256" where
  "DB_old_tip h db =
     (let old_tip = DB_GetBestBlock db
      in if uint256_IsNull old_tip then
           (case DB_GetHeadBlocks db of
              [h0, h1] \<Rightarrow> if h0 = h then Inr h1 else Inl AssertHeads
            | _ \<Rightarrow> Inr old_tip)
         else Inr old_tip)"

definition DB_BatchWrite :: "'tree tree_ops \<Rightarrow> ('tree db_op list \<Rightarrow> bool) \<Rightarrow> 'tree cache_batch \<Rightarrow>
    'tree CCoinsViewDB \<Rightarrow> coins_error + 'tree CCoinsViewDB" where
  "DB_BatchWrite T full b db =
     (if uint256_IsNull (b_hashBlock b) then Inl AssertBestBlock
      else bindE (DB_old_tip (b_hashBlock b) db) (\<lambda>old_tip.
        Inr (fold WriteBatch (DB_batches T full b old_tip) db)))"

section \<open>What a view promises\<close>

text \<open>
  The abstract state a view stands for: the set of unspent coins, the nullifiers that are spent,
  the anchors that are known, and the two tips.  A coin that is stored but spent is no coin.
\<close>

record utxo_state =
  u_coins :: "COutPoint \<Rightarrow> Coin option"
  u_nullifiers :: "uint256 set"
  u_anchors :: "uint256 set"
  u_best_block :: uint256
  u_best_anchor :: uint256

definition unspent :: "Coin option \<Rightarrow> Coin option" where
  "unspent r = (case r of None \<Rightarrow> None | Some k \<Rightarrow> if Coin_IsSpent k then None else Some k)"

definition abs_view :: "'tree CCoinsView \<Rightarrow> utxo_state" where
  "abs_view v =
     \<lparr>u_coins = (\<lambda>op. unspent (v_GetCoin v op)), u_nullifiers = {nf. v_GetNullifier v nf},
      u_anchors = {rt. v_GetSaplingAnchorAt v rt \<noteq> None},
      u_best_block = v_GetBestBlock v, u_best_anchor = v_GetBestAnchor v\<rparr>"

text \<open>A cache is itself a view.\<close>

definition cache_view :: "'tree CCoinsView \<Rightarrow> 'tree CCoinsViewCache \<Rightarrow> 'tree CCoinsView" where
  "cache_view base c =
     \<lparr>v_GetCoin = (\<lambda>op. fst (GetCoin base op c)), v_GetBestBlock = fst (GetBestBlock base c),
      v_GetSaplingAnchorAt = (\<lambda>rt. fst (GetSaplingAnchorAt base rt c)),
      v_GetNullifier = (\<lambda>nf. fst (GetNullifier base nf c)), v_GetBestAnchor = fst (GetBestAnchor base c)\<rparr>"

abbreviation abs_cache :: "'tree CCoinsView \<Rightarrow> 'tree CCoinsViewCache \<Rightarrow> utxo_state" where
  "abs_cache base c \<equiv> abs_view (cache_view base c)"

definition view_ok :: "'tree tree_ops \<Rightarrow> 'tree CCoinsView \<Rightarrow> bool" where
  "view_ok T v \<longleftrightarrow>
     (\<forall>rt t. v_GetSaplingAnchorAt v rt = Some t \<longrightarrow> tree_root T t = rt) \<and>
     v_GetSaplingAnchorAt v (empty_root T) \<noteq> None"

definition coin_entry_ok :: "Coin option \<Rightarrow> CCoinsCacheEntry \<Rightarrow> bool" where
  "coin_entry_ok r e \<longleftrightarrow>
     (ce_FRESH e \<longrightarrow> unspent r = None) \<and> (\<not> ce_DIRTY e \<longrightarrow> r = Some (ce_coin e))"

definition anchor_entry_ok :: "'tree tree_ops \<Rightarrow> 'tree option \<Rightarrow> uint256 \<Rightarrow> 'tree CAnchorsSaplingCacheEntry \<Rightarrow> bool" where
  "anchor_entry_ok T r rt e \<longleftrightarrow>
     tree_root T (ae_tree e) = rt \<and> (\<not> ae_DIRTY e \<longrightarrow> ae_entered e \<and> r \<noteq> None) \<and>
     (rt = empty_root T \<longrightarrow> ae_entered e)"

definition nullifier_entry_ok :: "bool \<Rightarrow> CNullifiersCacheEntry \<Rightarrow> bool" where
  "nullifier_entry_ok r e \<longleftrightarrow> (\<not> ne_DIRTY e \<longrightarrow> ne_entered e = r)"

text \<open>
  The invariant of a cache over its base: an entry marked \<open>FRESH\<close> has no unspent coin below, an
  entry not marked \<open>DIRTY\<close> agrees with the base.
\<close>

definition cache_inv :: "'tree tree_ops \<Rightarrow> 'tree CCoinsView \<Rightarrow> 'tree CCoinsViewCache \<Rightarrow> bool" where
  "cache_inv T base c \<longleftrightarrow>
     (\<forall>op e. cacheCoins c op = Some e \<longrightarrow> coin_entry_ok (v_GetCoin base op) e) \<and>
     (\<forall>rt e. cacheSaplingAnchors c rt = Some e \<longrightarrow>
        anchor_entry_ok T (v_GetSaplingAnchorAt base rt) rt e) \<and>
     (\<forall>nf e. cacheSaplingNullifiers c nf = Some e \<longrightarrow> nullifier_entry_ok (v_GetNullifier base nf) e)"

named_theorems coins_defs

lemmas [coins_defs] = coin_entry_ok_def anchor_entry_ok_def nullifier_entry_ok_def

lemma unspent_simps [simp]:
  "unspent None = None"
  "unspent (Some k) = (if Coin_IsSpent k then None else Some k)"
  by (simp_all add: unspent_def)

lemma unspent_eq_Some [simp]: "unspent r = Some k \<longleftrightarrow> r = Some k \<and> \<not> Coin_IsSpent k"
  by (cases r) auto

lemma Coin_Clear_eq: "Coin_Clear k = coinEmpty"
  by (simp add: Coin_Clear_def coinEmpty_def)

lemma coinEmpty_spent [simp]: "Coin_IsSpent coinEmpty"
  by (simp add: coinEmpty_def Coin_IsSpent_def CTxOut_IsNull_def CTxOut_SetNull_def)

lemma Coin_Clear_spent [simp]: "Coin_IsSpent (Coin_Clear k)"
  by (simp add: Coin_Clear_eq)

lemma v_GetCoin_cache [simp]:
  "v_GetCoin (cache_view base c) op =
     (case cacheCoins c op of None \<Rightarrow> v_GetCoin base op | Some e \<Rightarrow> Some (ce_coin e))"
  by (auto simp: cache_view_def GetCoin_def FetchCoin_def Let_def split: option.split)

lemma v_GetBestBlock_cache [simp]:
  "v_GetBestBlock (cache_view base c) = (if uint256_IsNull (hashBlock c) then v_GetBestBlock base else hashBlock c)"
  by (simp add: cache_view_def GetBestBlock_def)

lemma v_GetBestAnchor_cache [simp]:
  "v_GetBestAnchor (cache_view base c) =
     (if uint256_IsNull (hashSaplingAnchor c) then v_GetBestAnchor base else hashSaplingAnchor c)"
  by (simp add: cache_view_def GetBestAnchor_def)

lemma v_GetSaplingAnchorAt_cache [simp]:
  "v_GetSaplingAnchorAt (cache_view base c) rt =
     (case cacheSaplingAnchors c rt of
        None \<Rightarrow> v_GetSaplingAnchorAt base rt
      | Some e \<Rightarrow> if ae_entered e then Some (ae_tree e) else None)"
  by (auto simp: cache_view_def GetSaplingAnchorAt_def split: option.split)

lemma v_GetNullifier_cache [simp]:
  "v_GetNullifier (cache_view base c) nf =
     (case cacheSaplingNullifiers c nf of None \<Rightarrow> v_GetNullifier base nf | Some e \<Rightarrow> ne_entered e)"
  by (auto simp: cache_view_def GetNullifier_def Let_def split: option.split)

lemma abs_view_sel [simp]:
  "u_coins (abs_view v) op = unspent (v_GetCoin v op)"
  "u_nullifiers (abs_view v) = {nf. v_GetNullifier v nf}"
  "u_anchors (abs_view v) = {rt. v_GetSaplingAnchorAt v rt \<noteq> None}"
  "u_best_block (abs_view v) = v_GetBestBlock v"
  "u_best_anchor (abs_view v) = v_GetBestAnchor v"
  by (simp_all add: abs_view_def)

lemma utxo_state_eqI:
  assumes "\<And>op. u_coins a op = u_coins b op" "\<And>nf. nf \<in> u_nullifiers a \<longleftrightarrow> nf \<in> u_nullifiers b"
    "\<And>rt. rt \<in> u_anchors a \<longleftrightarrow> rt \<in> u_anchors b" "u_best_block a = u_best_block b"
    "u_best_anchor a = u_best_anchor b"
  shows "a = (b :: utxo_state)"
  using assms by (intro utxo_state.equality) auto

lemma cache_invI:
  assumes "\<And>op e. cacheCoins c op = Some e \<Longrightarrow> coin_entry_ok (v_GetCoin base op) e"
    "\<And>rt e. cacheSaplingAnchors c rt = Some e \<Longrightarrow> anchor_entry_ok T (v_GetSaplingAnchorAt base rt) rt e"
    "\<And>nf e. cacheSaplingNullifiers c nf = Some e \<Longrightarrow> nullifier_entry_ok (v_GetNullifier base nf) e"
  shows "cache_inv T base c"
  using assms by (simp add: cache_inv_def)

lemma cache_invD:
  assumes "cache_inv T base c"
  shows "cacheCoins c op = Some e \<Longrightarrow> coin_entry_ok (v_GetCoin base op) e"
    and "cacheSaplingAnchors c rt = Some a \<Longrightarrow> anchor_entry_ok T (v_GetSaplingAnchorAt base rt) rt a"
    and "cacheSaplingNullifiers c nf = Some n \<Longrightarrow> nullifier_entry_ok (v_GetNullifier base nf) n"
  using assms by (auto simp: cache_inv_def)

lemma cache_inv_empty: "cache_inv T base mk_CCoinsViewCache"
  by (simp add: cache_inv_def mk_CCoinsViewCache_def)

lemma cache_inv_coins:
  assumes "cache_inv T base c" "\<And>op e. m op = Some e \<Longrightarrow> coin_entry_ok (v_GetCoin base op) e"
  shows "cache_inv T base (c\<lparr>cacheCoins := m\<rparr>)"
  using assms by (auto simp: cache_inv_def)

lemma cache_inv_coin_upd:
  assumes "cache_inv T base c" "\<And>e. r = Some e \<Longrightarrow> coin_entry_ok (v_GetCoin base op) e"
  shows "cache_inv T base (c\<lparr>cacheCoins := (cacheCoins c)(op := r)\<rparr>)"
  using assms by (intro cache_inv_coins) (auto simp: cache_invD split: if_splits)

section \<open>Coin operations refine operations on the set of unspent coins\<close>

text \<open>Reading fills the cache and changes nothing else.\<close>

lemma FetchCoin_result:
  "map_option ce_coin (fst (FetchCoin base op c)) = v_GetCoin (cache_view base c) op"
  by (auto simp: FetchCoin_def Let_def split: option.split)

lemma FetchCoin_cached:
  "cacheCoins (snd (FetchCoin base op c)) op = fst (FetchCoin base op c)"
  by (auto simp: FetchCoin_def Let_def split: option.split)

lemma FetchCoin_view: "cache_view base (snd (FetchCoin base op c)) = cache_view base c"
  by (rule CCoinsView.equality)
     (auto simp: FetchCoin_def fun_eq_iff Let_def split: option.split)

lemma FetchCoin_inv:
  assumes "cache_inv T base c"
  shows "cache_inv T base (snd (FetchCoin base op c))"
  using assms
  by (auto simp: FetchCoin_def Let_def coins_defs split: option.split intro!: cache_inv_coin_upd)

lemma AccessCoin_sel:
  "fst (AccessCoin base op c) = (case v_GetCoin (cache_view base c) op of None \<Rightarrow> coinEmpty | Some k \<Rightarrow> k)"
  "snd (AccessCoin base op c) = snd (FetchCoin base op c)"
  by (auto simp: AccessCoin_def FetchCoin_def Let_def split: option.split)

lemma HaveCoin_sel:
  "fst (HaveCoin base op c) \<longleftrightarrow> u_coins (abs_cache base c) op \<noteq> None"
  "snd (HaveCoin base op c) = snd (FetchCoin base op c)"
  by (auto simp: HaveCoin_def FetchCoin_def Let_def split: option.split)

lemma GetUTXOCoin_sel:
  "fst (GetUTXOCoin base op c) = u_coins (abs_cache base c) op"
  "snd (GetUTXOCoin base op c) = snd (FetchCoin base op c)"
  by (auto simp: GetUTXOCoin_def GetCoin_def FetchCoin_def Let_def split: option.split)

text \<open>Adding: the coin appears, unless it could never be spent.\<close>

definition addable :: "CTxOut \<Rightarrow> bool" where
  "addable t \<longleftrightarrow> \<not> IsUnspendable (scriptPubKey t) \<and> \<not> CTxOut_IsZerocoinMint t"

lemma AddCoin_ok:
  assumes "cache_inv T base c" "\<not> Coin_IsSpent k"
    "ow \<or> u_coins (abs_cache base c) op = None"
  obtains c' where "AddCoin op k ow c = Inr c'" "cache_inv T base c'"
    "abs_cache base c' = (if addable (coin_out k)
       then (abs_cache base c)\<lparr>u_coins := (u_coins (abs_cache base c))(op \<mapsto> k)\<rparr> else abs_cache base c)"
    "hashBlock c' = hashBlock c" "hashSaplingAnchor c' = hashSaplingAnchor c"
proof (cases "addable (coin_out k)")
  case False
  then show ?thesis using that[of c] assms by (auto simp: AddCoin_def addable_def)
next
  case True
  define it where "it = (case cacheCoins c op of Some e \<Rightarrow> e
      | None \<Rightarrow> \<lparr>ce_coin = coinEmpty, ce_DIRTY = False, ce_FRESH = False\<rparr>)"
  define e where "e = \<lparr>ce_coin = k, ce_DIRTY = True, ce_FRESH = (ce_FRESH it \<or> (\<not> ow \<and> \<not> ce_DIRTY it))\<rparr>"
  have old: "ow \<or> Coin_IsSpent (ce_coin it)"
    using assms(3) by (auto simp: it_def split: option.splits if_splits)
  then have run: "AddCoin op k ow c = Inr (c\<lparr>cacheCoins := (cacheCoins c)(op \<mapsto> e)\<rparr>)"
    using True assms(2) by (auto simp: AddCoin_def addable_def it_def e_def Let_def split: option.splits)
  have "coin_entry_ok (v_GetCoin base op) e"
  proof (cases "cacheCoins c op")
    case None
    then show ?thesis using assms(3) by (auto simp: coin_entry_ok_def e_def it_def)
  next
    case (Some e0)
    then have "coin_entry_ok (v_GetCoin base op) e0" "it = e0"
      using cache_invD(1)[OF assms(1)] by (auto simp: it_def)
    then show ?thesis using old by (auto simp: coin_entry_ok_def e_def)
  qed
  then have "cache_inv T base (c\<lparr>cacheCoins := (cacheCoins c)(op \<mapsto> e)\<rparr>)"
    using assms(1) by (intro cache_inv_coin_upd) auto
  moreover have "abs_cache base (c\<lparr>cacheCoins := (cacheCoins c)(op \<mapsto> e)\<rparr>) =
      (abs_cache base c)\<lparr>u_coins := (u_coins (abs_cache base c))(op \<mapsto> k)\<rparr>"
    using assms(2) by (intro utxo_state_eqI) (auto simp: e_def)
  ultimately show ?thesis using that run True by simp
qed

text \<open>Spending: the coin disappears and is returned.\<close>

lemma SpendCoin_coin:
  "unspent (fst (SpendCoin base op c)) = u_coins (abs_cache base c) op"
  by (auto simp: SpendCoin_def FetchCoin_def Let_def split: option.split)

lemma SpendCoin_inv:
  assumes "cache_inv T base c"
  shows "cache_inv T base (snd (SpendCoin base op c))"
proof -
  obtain it c' where F: "FetchCoin base op c = (it, c')" by fastforce
  have inv: "cache_inv T base c'" and it: "cacheCoins c' op = it"
    using FetchCoin_inv[OF assms, of op] FetchCoin_cached[of base op c] F by auto
  show ?thesis
  proof (cases it)
    case None
    then show ?thesis using F inv by (simp add: SpendCoin_def)
  next
    case (Some e)
    then have "coin_entry_ok (v_GetCoin base op) e" using cache_invD(1)[OF inv] it by simp
    then show ?thesis using F inv Some
      by (auto simp: SpendCoin_def coins_defs intro!: cache_inv_coin_upd)
  qed
qed

lemma SpendCoin_abs:
  assumes "cache_inv T base c"
  shows "abs_cache base (snd (SpendCoin base op c)) =
     (abs_cache base c)\<lparr>u_coins := (u_coins (abs_cache base c))(op := None)\<rparr>"
proof -
  obtain it c' where F: "FetchCoin base op c = (it, c')" by fastforce
  have inv: "cache_inv T base c'" and it: "cacheCoins c' op = it" and v: "abs_cache base c' = abs_cache base c"
    using FetchCoin_inv[OF assms, of op] FetchCoin_cached[of base op c] FetchCoin_view[of base op c] F by auto
  show ?thesis
  proof (cases it)
    case None
    then have "u_coins (abs_cache base c) op = None"
      using F SpendCoin_coin[of base op c] by (simp add: SpendCoin_def)
    then have "(u_coins (abs_cache base c))(op := None) = u_coins (abs_cache base c)"
      by (metis fun_upd_triv)
    then show ?thesis using F None v by (simp add: SpendCoin_def)
  next
    case (Some e)
    then have "coin_entry_ok (v_GetCoin base op) e" using cache_invD(1)[OF inv] it by simp
    then show ?thesis unfolding v[symmetric] using F Some it
      by (auto simp: SpendCoin_def coins_defs intro!: utxo_state_eqI)
  qed
qed

lemma SpendCoin_tips [simp]:
  "hashBlock (snd (SpendCoin base op c)) = hashBlock c"
  "hashSaplingAnchor (snd (SpendCoin base op c)) = hashSaplingAnchor c"
  by (auto simp: SpendCoin_def FetchCoin_def Let_def split: option.split)

lemma Uncache_ok:
  assumes "cache_inv T base c"
  shows "cache_inv T base (Uncache op c)" "abs_cache base (Uncache op c) = abs_cache base c"
proof -
  show "cache_inv T base (Uncache op c)"
    using assms by (auto simp: Uncache_def split: option.split intro!: cache_inv_coin_upd)
  show "abs_cache base (Uncache op c) = abs_cache base c"
    using cache_invD(1)[OF assms, of op]
    by (auto simp: Uncache_def coins_defs split: option.split intro!: utxo_state_eqI)
qed

section \<open>Anchors and nullifiers\<close>

lemma cache_inv_tips [simp]:
  "cache_inv T base (c\<lparr>hashBlock := h\<rparr>) = cache_inv T base c"
  "cache_inv T base (c\<lparr>hashSaplingAnchor := h\<rparr>) = cache_inv T base c"
  by (simp_all add: cache_inv_def)

lemma cache_inv_anchor_upd:
  assumes "cache_inv T base c" "\<And>e. r = Some e \<Longrightarrow> anchor_entry_ok T (v_GetSaplingAnchorAt base rt) rt e"
  shows "cache_inv T base (c\<lparr>cacheSaplingAnchors := (cacheSaplingAnchors c)(rt := r)\<rparr>)"
  using assms by (auto simp: cache_inv_def)

lemma cache_inv_nullifier_upd:
  assumes "cache_inv T base c" "\<And>e. r = Some e \<Longrightarrow> nullifier_entry_ok (v_GetNullifier base nf) e"
  shows "cache_inv T base (c\<lparr>cacheSaplingNullifiers := (cacheSaplingNullifiers c)(nf := r)\<rparr>)"
  using assms by (auto simp: cache_inv_def)

lemma view_okD:
  assumes "view_ok T v"
  shows "v_GetSaplingAnchorAt v rt = Some t \<Longrightarrow> tree_root T t = rt"
    and "v_GetSaplingAnchorAt v (empty_root T) \<noteq> None"
  using assms by (auto simp: view_ok_def)

lemma cache_view_ok:
  assumes "view_ok T base" "cache_inv T base c"
  shows "view_ok T (cache_view base c)"
  using assms(1) cache_invD(2)[OF assms(2)]
  by (auto simp: view_ok_def anchor_entry_ok_def split: option.splits if_splits)

lemma GetSaplingAnchorAt_cache:
  assumes "view_ok T base" "cache_inv T base c"
  shows "cache_inv T base (snd (GetSaplingAnchorAt base rt c))"
    and "cache_view base (snd (GetSaplingAnchorAt base rt c)) = cache_view base c"
    and "fst (GetSaplingAnchorAt base rt c) = Some t \<Longrightarrow>
         \<exists>e. cacheSaplingAnchors (snd (GetSaplingAnchorAt base rt c)) rt = Some e \<and> ae_entered e \<and> ae_tree e = t"
proof -
  show "cache_inv T base (snd (GetSaplingAnchorAt base rt c))"
    using assms view_okD(1)[OF assms(1), of rt]
    by (auto simp: GetSaplingAnchorAt_def coins_defs split: option.split intro!: cache_inv_anchor_upd)
  show "cache_view base (snd (GetSaplingAnchorAt base rt c)) = cache_view base c"
    by (rule CCoinsView.equality) (auto simp: GetSaplingAnchorAt_def fun_eq_iff split: option.split)
  show "fst (GetSaplingAnchorAt base rt c) = Some t \<Longrightarrow>
         \<exists>e. cacheSaplingAnchors (snd (GetSaplingAnchorAt base rt c)) rt = Some e \<and> ae_entered e \<and> ae_tree e = t"
    by (auto simp: GetSaplingAnchorAt_def split: option.splits if_splits)
qed

lemma GetNullifier_cache:
  assumes "cache_inv T base c"
  shows "cache_inv T base (snd (GetNullifier base nf c))"
    and "cache_view base (snd (GetNullifier base nf c)) = cache_view base c"
proof -
  show "cache_inv T base (snd (GetNullifier base nf c))"
    using assms by (auto simp: GetNullifier_def Let_def coins_defs split: option.split intro!: cache_inv_nullifier_upd)
  show "cache_view base (snd (GetNullifier base nf c)) = cache_view base c"
    by (rule CCoinsView.equality) (auto simp: GetNullifier_def Let_def fun_eq_iff split: option.split)
qed

lemma GetBestAnchor_cache:
  "fst (GetBestAnchor base c) = u_best_anchor (abs_cache base c)"
  "cache_inv T base (snd (GetBestAnchor base c)) = cache_inv T base c"
  "cache_view base (snd (GetBestAnchor base c)) = cache_view base c"
  "hashSaplingAnchor (snd (GetBestAnchor base c)) = u_best_anchor (abs_cache base c)"
  by (auto simp: GetBestAnchor_def cache_inv_def fun_eq_iff intro!: CCoinsView.equality)

lemma PushAnchor_ok:
  assumes "cache_inv T base c" "\<not> uint256_IsNull (tree_root T t)"
    "u_best_anchor (abs_cache base c) \<in> u_anchors (abs_cache base c)"
  shows "cache_inv T base (PushAnchor T base t c)"
    and "abs_cache base (PushAnchor T base t c) =
      (abs_cache base c)\<lparr>u_anchors := insert (tree_root T t) (u_anchors (abs_cache base c)),
                         u_best_anchor := tree_root T t\<rparr>"
proof -
  obtain r c' where G: "GetBestAnchor base c = (r, c')" by fastforce
  note g = GetBestAnchor_cache[where base = base and c = c, unfolded G fst_conv snd_conv]
  have inv: "cache_inv T base c'" using g(2) assms(1) by simp
  show "cache_inv T base (PushAnchor T base t c)"
    using inv by (auto simp: PushAnchor_def G Let_def coins_defs intro!: cache_inv_anchor_upd)
  show "abs_cache base (PushAnchor T base t c) =
      (abs_cache base c)\<lparr>u_anchors := insert (tree_root T t) (u_anchors (abs_cache base c)),
                         u_best_anchor := tree_root T t\<rparr>"
  proof (cases "r = tree_root T t")
    case True
    then have r: "u_best_anchor (abs_cache base c) = tree_root T t" using g(1) by metis
    have "PushAnchor T base t c = c'" using True by (simp add: PushAnchor_def G)
    moreover have "insert (tree_root T t) (u_anchors (abs_cache base c)) = u_anchors (abs_cache base c)"
      using assms(3) r by (metis insert_absorb)
    ultimately show ?thesis using g(3) r by simp
  next
    case False
    then show ?thesis unfolding g(3)[symmetric] using assms(2)
      by (intro utxo_state_eqI) (auto simp: PushAnchor_def G Let_def split: option.split)
  qed
qed

lemma PopAnchor_ok:
  assumes "view_ok T base" "cache_inv T base c" "\<not> uint256_IsNull rt"
    and cur: "u_best_anchor (abs_cache base c) = cur" "cur \<in> u_anchors (abs_cache base c)"
      "cur = rt \<or> cur \<noteq> empty_root T"
  obtains c' where "PopAnchor base rt c = Inr c'" "cache_inv T base c'" "hashBlock c' = hashBlock c"
    "hashSaplingAnchor c' = rt"
    "abs_cache base c' = (abs_cache base c)\<lparr>u_anchors := u_anchors (abs_cache base c) - (if cur = rt then {} else {cur}),
                             u_best_anchor := rt\<rparr>"
proof -
  obtain r c1 where G: "GetBestAnchor base c = (r, c1)" by fastforce
  note g = GetBestAnchor_cache[where base = base and c = c, unfolded G fst_conv snd_conv]
  have r: "r = cur" "hashSaplingAnchor c1 = cur" and inv1: "cache_inv T base c1"
    using g(1,2,4) cur(1) assms(2) by simp_all
  have hb1: "hashBlock c1 = hashBlock c" using G by (auto simp: GetBestAnchor_def Let_def split: if_splits)
  show ?thesis
  proof (cases "cur = rt")
    case True
    then show ?thesis using that[of c1] G g(3) r inv1 hb1 cur(1)
      by (simp add: PopAnchor_def)
  next
    case False
    obtain x c2 where A: "GetSaplingAnchorAt base cur c1 = (x, c2)" by fastforce
    note a = GetSaplingAnchorAt_cache[OF assms(1) inv1, of cur, unfolded A fst_conv snd_conv]
    have "x = v_GetSaplingAnchorAt (cache_view base c1) cur" using A by (simp add: cache_view_def)
    then obtain t where t: "x = Some t" using cur(2) g(3) by auto
    obtain e where e: "cacheSaplingAnchors c2 cur = Some e" "ae_entered e" using a(3)[OF t] by auto
    define c3 where "c3 = c2\<lparr>cacheSaplingAnchors := (cacheSaplingAnchors c2)(cur \<mapsto> e\<lparr>ae_entered := False, ae_DIRTY := True\<rparr>)\<rparr>"
    have "anchor_entry_ok T (v_GetSaplingAnchorAt base cur) cur e" using cache_invD(2)[OF a(1)] e(1) by simp
    then have inv3: "cache_inv T base c3" unfolding c3_def using cur(3) False
      by (intro cache_inv_anchor_upd[OF a(1)]) (auto simp: coins_defs)
    have run: "PopAnchor base rt c = Inr (c3\<lparr>hashSaplingAnchor := rt\<rparr>)"
      using False r(1) A t e by (simp add: PopAnchor_def G c3_def)
    have hb2: "hashBlock c2 = hashBlock c" using A hb1
      by (auto simp: GetSaplingAnchorAt_def split: option.splits if_splits)
    have "abs_cache base (c3\<lparr>hashSaplingAnchor := rt\<rparr>) =
        (abs_cache base c2)\<lparr>u_anchors := u_anchors (abs_cache base c2) - {cur}, u_best_anchor := rt\<rparr>"
      using assms(3) by (intro utxo_state_eqI) (auto simp: c3_def split: option.split)
    then show ?thesis using that[OF run] inv3 False hb2 a(2) g(3) by (simp add: c3_def)
  qed
qed

lemma SetNullifier_ok:
  assumes "cache_inv T base c"
  shows "cache_inv T base (SetNullifier b sd c)"
    and "abs_cache base (SetNullifier b sd c) = (abs_cache base c)\<lparr>u_nullifiers :=
      (if b then insert (sd_nullifier sd) (u_nullifiers (abs_cache base c))
       else u_nullifiers (abs_cache base c) - {sd_nullifier sd})\<rparr>"
  using assms
  by (auto simp: SetNullifier_def coins_defs split: option.splits if_splits
      intro!: cache_inv_nullifier_upd utxo_state_eqI)

definition nullifiers :: "CTransaction \<Rightarrow> uint256 set" where
  "nullifiers tx = (case sapData tx of None \<Rightarrow> {} | Some d \<Rightarrow> sd_nullifier ` set (vShieldedSpend d))"

lemma fold_SetNullifier:
  assumes "cache_inv T base c"
  shows "cache_inv T base (fold (SetNullifier b) sds c) \<and>
    abs_cache base (fold (SetNullifier b) sds c) = (abs_cache base c)\<lparr>u_nullifiers :=
      (if b then u_nullifiers (abs_cache base c) \<union> sd_nullifier ` set sds
       else u_nullifiers (abs_cache base c) - sd_nullifier ` set sds)\<rparr>"
  using assms
proof (induction sds arbitrary: c)
  case (Cons sd sds)
  have "cache_inv T base (SetNullifier b sd c)" using SetNullifier_ok(1)[OF Cons.prems] .
  from Cons.IH[OF this] show ?case
    unfolding fold.simps o_apply SetNullifier_ok(2)[OF Cons.prems] by (auto intro!: utxo_state_eqI)
qed simp

lemma SetNullifiers_ok:
  assumes "cache_inv T base c"
  shows "cache_inv T base (SetNullifiers tx b c)"
    and "abs_cache base (SetNullifiers tx b c) = (abs_cache base c)\<lparr>u_nullifiers :=
      (if b then u_nullifiers (abs_cache base c) \<union> nullifiers tx
       else u_nullifiers (abs_cache base c) - nullifiers tx)\<rparr>"
  using assms fold_SetNullifier[OF assms, of b]
  by (auto simp: SetNullifiers_def nullifiers_def split: option.split)

lemma fold_SetNullifier_tips:
  "hashBlock (fold (SetNullifier b) sds c) = hashBlock c"
  "hashSaplingAnchor (fold (SetNullifier b) sds c) = hashSaplingAnchor c"
  by (induction sds arbitrary: c) (simp_all add: SetNullifier_def)

lemma SetNullifiers_tips [simp]:
  "hashBlock (SetNullifiers tx b c) = hashBlock c"
  "hashSaplingAnchor (SetNullifiers tx b c) = hashSaplingAnchor c"
  by (simp_all add: SetNullifiers_def fold_SetNullifier_tips split: option.split)

section \<open>The contract between a cache and its base\<close>

text \<open>
  A store that can be the base of a cache: its view is well-formed, and a \<open>BatchWrite\<close> of a cache
  whose tips are known never fails and makes the store show what the cache showed.
\<close>

locale coins_backing =
  fixes T :: "'tree tree_ops"
    and store_view :: "'s \<Rightarrow> 'tree CCoinsView"
    and store_inv :: "'s \<Rightarrow> bool"
    and store_write :: "'tree cache_batch \<Rightarrow> 's \<Rightarrow> coins_error + 's"
  assumes store_view_ok: "store_inv s \<Longrightarrow> view_ok T (store_view s)"
    and store_write_ok: "store_inv s \<Longrightarrow> cache_inv T (store_view s) c \<Longrightarrow> batch_of c b \<Longrightarrow>
      \<not> uint256_IsNull (hashBlock c) \<Longrightarrow> \<not> uint256_IsNull (hashSaplingAnchor c) \<Longrightarrow>
      \<exists>s'. store_write b s = Inr s' \<and> store_inv s' \<and>
           abs_view (store_view s') = abs_view (cache_view (store_view s) c)"
begin

lemma Flush_ok:
  assumes "store_inv s" "cache_inv T (store_view s) c" "batch_of c b"
    "\<not> uint256_IsNull (hashBlock c)" "\<not> uint256_IsNull (hashSaplingAnchor c)"
  shows "\<exists>c' s'. Flush store_write b c s = Inr (c', s') \<and> store_inv s' \<and>
    cache_inv T (store_view s') c' \<and> cacheCoins c' = Map.empty \<and>
    abs_view (store_view s') = abs_cache (store_view s) c \<and>
    abs_cache (store_view s') c' = abs_cache (store_view s) c"
proof -
  obtain s' where s': "store_write b s = Inr s'" "store_inv s'"
    "abs_view (store_view s') = abs_cache (store_view s) c"
    using store_write_ok[OF assms] by blast
  define c' where "c' = c\<lparr>cacheCoins := Map.empty, cacheSaplingAnchors := Map.empty, cacheSaplingNullifiers := Map.empty\<rparr>"
  have "abs_cache (store_view s') c' = abs_view (store_view s')"
    using assms(4,5) arg_cong[OF s'(3), of u_best_block] arg_cong[OF s'(3), of u_best_anchor]
    by (intro utxo_state_eqI) (simp_all add: c'_def)
  moreover have "cache_inv T (store_view s') c'" by (simp add: cache_inv_def c'_def)
  moreover have "Flush store_write b c s = Inr (c', s')" using s'(1) by (simp add: Flush_def c'_def)
  moreover have "cacheCoins c' = Map.empty" by (simp add: c'_def)
  ultimately show ?thesis using s'(2,3) by auto
qed

end

section \<open>A cache as the base of a cache\<close>

lemma BatchWriteCoins_eq:
  assumes "distinct (map fst its)"
    "\<And>k it. (k, it) \<in> set its \<Longrightarrow> \<exists>r. BatchWriteCoin it (m k) = Inr r"
  shows "\<exists>m'. BatchWriteCoins its m = Inr m' \<and>
    (\<forall>k. map_of its k = None \<longrightarrow> m' k = m k) \<and>
    (\<forall>k it. map_of its k = Some it \<longrightarrow> BatchWriteCoin it (m k) = Inr (m' k))"
  using assms
proof (induction its arbitrary: m)
  case (Cons x its)
  obtain k it where x: "x = (k, it)" by fastforce
  obtain r where r: "BatchWriteCoin it (m k) = Inr r" using Cons.prems(2)[of k it] x by auto
  have k: "k \<notin> fst ` set its" using Cons.prems(1) x by auto
  have "\<exists>m'. BatchWriteCoins its (m(k := r)) = Inr m' \<and>
    (\<forall>k'. map_of its k' = None \<longrightarrow> m' k' = (m(k := r)) k') \<and>
    (\<forall>k' it. map_of its k' = Some it \<longrightarrow> BatchWriteCoin it ((m(k := r)) k') = Inr (m' k'))"
    using Cons.prems k x by (intro Cons.IH) (force simp: image_iff)+
  then obtain m' where m': "BatchWriteCoins its (m(k := r)) = Inr m'"
    "\<And>k'. map_of its k' = None \<Longrightarrow> m' k' = (m(k := r)) k'"
    "\<And>k' it. map_of its k' = Some it \<Longrightarrow> BatchWriteCoin it ((m(k := r)) k') = Inr (m' k')"
    by blast
  have "map_of its k = None" using k by (simp add: map_of_eq_None_iff)
  then have "m' k = r" using m'(2)[of k] by simp
  moreover have "\<And>k'. k' \<noteq> k \<Longrightarrow> map_of its k' = None \<Longrightarrow> m' k' = m k'" using m'(2) by simp
  moreover have "\<And>k' it. k' \<noteq> k \<Longrightarrow> map_of its k' = Some it \<Longrightarrow> BatchWriteCoin it (m k') = Inr (m' k')"
    using m'(3) by (metis fun_upd_other)
  ultimately show ?case using x r m'(1) by (intro exI[of _ m']) auto
qed simp

lemma BatchWriteCoin_ok:
  assumes "\<And>us. r = Some us \<Longrightarrow> coin_entry_ok below us"
    "coin_entry_ok (case r of None \<Rightarrow> below | Some us \<Rightarrow> Some (ce_coin us)) it"
  shows "\<exists>r'. BatchWriteCoin it r = Inr r' \<and> (\<forall>e. r' = Some e \<longrightarrow> coin_entry_ok below e) \<and>
    unspent (case r' of None \<Rightarrow> below | Some e \<Rightarrow> Some (ce_coin e)) = unspent (Some (ce_coin it))"
proof (cases r)
  case None
  then show ?thesis using assms(2) by (auto simp: BatchWriteCoin_def coin_entry_ok_def)
next
  case (Some us)
  then show ?thesis using assms by (auto simp: BatchWriteCoin_def coin_entry_ok_def)
qed

lemma fold_upd_key:
  assumes "distinct (map fst its)" "\<And>x m k. k \<noteq> fst x \<Longrightarrow> f x m k = m k"
    "\<And>x m m'. m (fst x) = m' (fst x) \<Longrightarrow> f x m (fst x) = f x m' (fst x)"
  shows "fold f its m k = (case map_of its k of None \<Rightarrow> m k | Some v \<Rightarrow> f (k, v) m k)"
  using assms(1)
proof (induction its arbitrary: m)
  case (Cons x its)
  have IH: "fold f its (f x m) k = (case map_of its k of None \<Rightarrow> f x m k | Some v \<Rightarrow> f (k, v) (f x m) k)"
    using Cons by simp
  show ?case
  proof (cases "k = fst x")
    case True
    then have "map_of its k = None" using Cons.prems by (auto simp: map_of_eq_None_iff)
    then show ?thesis using IH True by (cases x) simp
  next
    case False
    then show ?thesis using IH assms(2)[OF False, of m] assms(3)[of "f x m" "(k, the (map_of its k))" m]
      by (cases x) (auto split: option.split)
  qed
qed simp

lemma BatchWriteAnchor_key:
  "k \<noteq> fst x \<Longrightarrow> BatchWriteAnchor x m k = m k"
  "m (fst x) = m' (fst x) \<Longrightarrow> BatchWriteAnchor x m (fst x) = BatchWriteAnchor x m' (fst x)"
  by (auto simp: BatchWriteAnchor_def Let_def split: option.split)

lemma BatchWriteNullifier_key:
  "k \<noteq> fst x \<Longrightarrow> BatchWriteNullifier x m k = m k"
  "m (fst x) = m' (fst x) \<Longrightarrow> BatchWriteNullifier x m (fst x) = BatchWriteNullifier x m' (fst x)"
  by (auto simp: BatchWriteNullifier_def Let_def split: option.split)

lemma BatchWriteAnchor_ok:
  assumes "\<And>us. m rt = Some us \<Longrightarrow> anchor_entry_ok T below rt us"
    "anchor_entry_ok T (case m rt of None \<Rightarrow> below | Some us \<Rightarrow> if ae_entered us then Some (ae_tree us) else None) rt it"
  shows "BatchWriteAnchor (rt, it) m rt = Some e \<Longrightarrow> anchor_entry_ok T below rt e"
    and "(case BatchWriteAnchor (rt, it) m rt of None \<Rightarrow> below \<noteq> None | Some e \<Rightarrow> ae_entered e) \<longleftrightarrow> ae_entered it"
proof -
  show "BatchWriteAnchor (rt, it) m rt = Some e \<Longrightarrow> anchor_entry_ok T below rt e"
    using assms by (cases "m rt") (auto simp: BatchWriteAnchor_def anchor_entry_ok_def split: if_splits)
  show "(case BatchWriteAnchor (rt, it) m rt of None \<Rightarrow> below \<noteq> None | Some e \<Rightarrow> ae_entered e) \<longleftrightarrow> ae_entered it"
    using assms by (cases "m rt") (auto simp: BatchWriteAnchor_def anchor_entry_ok_def split: if_splits)
qed

lemma BatchWriteNullifier_ok:
  assumes "\<And>us. m nf = Some us \<Longrightarrow> nullifier_entry_ok below us"
    "nullifier_entry_ok (case m nf of None \<Rightarrow> below | Some us \<Rightarrow> ne_entered us) it"
  shows "BatchWriteNullifier (nf, it) m nf = Some e \<Longrightarrow> nullifier_entry_ok below e"
    and "(case BatchWriteNullifier (nf, it) m nf of None \<Rightarrow> below | Some e \<Rightarrow> ne_entered e) \<longleftrightarrow> ne_entered it"
proof -
  show "BatchWriteNullifier (nf, it) m nf = Some e \<Longrightarrow> nullifier_entry_ok below e"
    using assms by (cases "m nf") (auto simp: BatchWriteNullifier_def nullifier_entry_ok_def split: if_splits)
  show "(case BatchWriteNullifier (nf, it) m nf of None \<Rightarrow> below | Some e \<Rightarrow> ne_entered e) \<longleftrightarrow> ne_entered it"
    using assms by (cases "m nf") (auto simp: BatchWriteNullifier_def nullifier_entry_ok_def split: if_splits)
qed

lemma batch_ofD:
  assumes "batch_of c b"
  shows "distinct (map fst (b_coins b))" "map_of (b_coins b) = cacheCoins c"
    "distinct (map fst (b_anchors b))" "map_of (b_anchors b) = cacheSaplingAnchors c"
    "distinct (map fst (b_nullifiers b))" "map_of (b_nullifiers b) = cacheSaplingNullifiers c"
    "b_hashBlock b = hashBlock c" "b_hashSaplingAnchor b = hashSaplingAnchor c"
  using assms by (auto simp: batch_of_def enumerates_def)

lemma BatchWriteCoins_ok:
  assumes p: "cache_inv T B p" and c: "cache_inv T (cache_view B p) c" and b: "batch_of c b"
  shows "\<exists>m'. BatchWriteCoins (b_coins b) (cacheCoins p) = Inr m' \<and>
    (\<forall>op. (\<forall>e. m' op = Some e \<longrightarrow> coin_entry_ok (v_GetCoin B op) e) \<and>
      unspent (case m' op of None \<Rightarrow> v_GetCoin B op | Some e \<Rightarrow> Some (ce_coin e)) =
      unspent (v_GetCoin (cache_view (cache_view B p) c) op))"
proof -
  note b = batch_ofD[OF b]
  have one: "\<exists>r'. BatchWriteCoin it (cacheCoins p k) = Inr r' \<and> (\<forall>e. r' = Some e \<longrightarrow> coin_entry_ok (v_GetCoin B k) e) \<and>
      unspent (case r' of None \<Rightarrow> v_GetCoin B k | Some e \<Rightarrow> Some (ce_coin e)) = unspent (Some (ce_coin it))"
    if "cacheCoins c k = Some it" for k it
    using cache_invD(1)[OF p, of k] cache_invD(1)[OF c that] by (intro BatchWriteCoin_ok) auto
  have ex: "\<exists>r. BatchWriteCoin it (cacheCoins p k) = Inr r" if "(k, it) \<in> set (b_coins b)" for k it
    using one[of k it] that b(1,2) map_of_is_SomeI by fastforce
  obtain m' where M: "BatchWriteCoins (b_coins b) (cacheCoins p) = Inr m' \<and>
    (\<forall>k. map_of (b_coins b) k = None \<longrightarrow> m' k = cacheCoins p k) \<and>
    (\<forall>k it. map_of (b_coins b) k = Some it \<longrightarrow> BatchWriteCoin it (cacheCoins p k) = Inr (m' k))"
    using BatchWriteCoins_eq[of "b_coins b" "cacheCoins p", OF b(1) ex] by (rule exE)
  note m' = M[THEN conjunct1] M[unfolded b(2), THEN conjunct2, THEN conjunct1, rule_format]
    M[unfolded b(2), THEN conjunct2, THEN conjunct2, rule_format]
  have all: "(\<forall>e. m' k = Some e \<longrightarrow> coin_entry_ok (v_GetCoin B k) e) \<and>
      unspent (case m' k of None \<Rightarrow> v_GetCoin B k | Some e \<Rightarrow> Some (ce_coin e)) =
      unspent (v_GetCoin (cache_view (cache_view B p) c) k)" for k
  proof (cases "cacheCoins c k")
    case None
    then show ?thesis using m'(2) cache_invD(1)[OF p] by simp
  next
    case (Some it)
    then show ?thesis using m'(3)[OF Some] one[OF Some] by auto
  qed
  show ?thesis by (rule exI[of _ m'], rule conjI[OF m'(1)], rule allI, rule all)
qed

lemma BatchWriteAnchors_ok:
  assumes p: "cache_inv T B p" and c: "cache_inv T (cache_view B p) c" and b: "batch_of c b"
  defines "m' \<equiv> fold BatchWriteAnchor (b_anchors b) (cacheSaplingAnchors p)"
  shows "m' rt = Some e \<Longrightarrow> anchor_entry_ok T (v_GetSaplingAnchorAt B rt) rt e"
    "(case m' rt of None \<Rightarrow> v_GetSaplingAnchorAt B rt \<noteq> None | Some e \<Rightarrow> ae_entered e) \<longleftrightarrow>
       v_GetSaplingAnchorAt (cache_view (cache_view B p) c) rt \<noteq> None"
proof -
  note b = batch_ofD[OF b]
  have m': "m' rt = (case cacheSaplingAnchors c rt of None \<Rightarrow> cacheSaplingAnchors p rt
      | Some it \<Rightarrow> BatchWriteAnchor (rt, it) (cacheSaplingAnchors p) rt)"
    unfolding m'_def b(4)[symmetric] by (rule fold_upd_key[OF b(3)]) (rule BatchWriteAnchor_key; assumption)+
  note pp = cache_invD(2)[OF p, of rt]
  have "(\<forall>e. m' rt = Some e \<longrightarrow> anchor_entry_ok T (v_GetSaplingAnchorAt B rt) rt e) \<and>
    ((case m' rt of None \<Rightarrow> v_GetSaplingAnchorAt B rt \<noteq> None | Some e \<Rightarrow> ae_entered e) \<longleftrightarrow>
       v_GetSaplingAnchorAt (cache_view (cache_view B p) c) rt \<noteq> None)"
  proof (cases "cacheSaplingAnchors c rt")
    case None
    then show ?thesis using pp by (auto simp: m' split: option.splits)
  next
    case (Some it)
    note ok = BatchWriteAnchor_ok[of "cacheSaplingAnchors p" rt T "v_GetSaplingAnchorAt B rt" it, OF pp]
    show ?thesis using ok cache_invD(2)[OF c Some] Some by (simp add: m')
  qed
  then show "m' rt = Some e \<Longrightarrow> anchor_entry_ok T (v_GetSaplingAnchorAt B rt) rt e"
    "(case m' rt of None \<Rightarrow> v_GetSaplingAnchorAt B rt \<noteq> None | Some e \<Rightarrow> ae_entered e) \<longleftrightarrow>
       v_GetSaplingAnchorAt (cache_view (cache_view B p) c) rt \<noteq> None"
    by blast+
qed

lemma BatchWriteNullifiers_ok:
  assumes p: "cache_inv T B p" and c: "cache_inv T (cache_view B p) c" and b: "batch_of c b"
  defines "m' \<equiv> fold BatchWriteNullifier (b_nullifiers b) (cacheSaplingNullifiers p)"
  shows "m' nf = Some e \<Longrightarrow> nullifier_entry_ok (v_GetNullifier B nf) e"
    "(case m' nf of None \<Rightarrow> v_GetNullifier B nf | Some e \<Rightarrow> ne_entered e) \<longleftrightarrow>
       v_GetNullifier (cache_view (cache_view B p) c) nf"
proof -
  note b = batch_ofD[OF b]
  have m': "m' nf = (case cacheSaplingNullifiers c nf of None \<Rightarrow> cacheSaplingNullifiers p nf
      | Some it \<Rightarrow> BatchWriteNullifier (nf, it) (cacheSaplingNullifiers p) nf)"
    unfolding m'_def b(6)[symmetric] by (rule fold_upd_key[OF b(5)]) (rule BatchWriteNullifier_key; assumption)+
  note pp = cache_invD(3)[OF p, of nf]
  have "(\<forall>e. m' nf = Some e \<longrightarrow> nullifier_entry_ok (v_GetNullifier B nf) e) \<and>
    ((case m' nf of None \<Rightarrow> v_GetNullifier B nf | Some e \<Rightarrow> ne_entered e) \<longleftrightarrow>
       v_GetNullifier (cache_view (cache_view B p) c) nf)"
  proof (cases "cacheSaplingNullifiers c nf")
    case None
    then show ?thesis using pp by (auto simp: m' split: option.splits)
  next
    case (Some it)
    note ok = BatchWriteNullifier_ok[of "cacheSaplingNullifiers p" nf "v_GetNullifier B nf" it, OF pp]
    show ?thesis using ok cache_invD(3)[OF c Some] Some by (simp add: m')
  qed
  then show "m' nf = Some e \<Longrightarrow> nullifier_entry_ok (v_GetNullifier B nf) e"
    "(case m' nf of None \<Rightarrow> v_GetNullifier B nf | Some e \<Rightarrow> ne_entered e) \<longleftrightarrow>
       v_GetNullifier (cache_view (cache_view B p) c) nf"
    by blast+
qed

lemma mem_u_anchors_cache:
  "rt \<in> u_anchors (abs_cache B p) \<longleftrightarrow> (case cacheSaplingAnchors p rt of
     None \<Rightarrow> v_GetSaplingAnchorAt B rt \<noteq> None | Some e \<Rightarrow> ae_entered e)"
  by (auto split: option.split)

lemma BatchWrite_ok:
  assumes p: "cache_inv T B p" and c: "cache_inv T (cache_view B p) c" and b: "batch_of c b"
    "\<not> uint256_IsNull (hashBlock c)" "\<not> uint256_IsNull (hashSaplingAnchor c)"
  shows "\<exists>p'. BatchWrite b p = Inr p' \<and> cache_inv T B p' \<and>
    abs_cache B p' = abs_cache (cache_view B p) c"
proof -
  obtain m' where M: "BatchWriteCoins (b_coins b) (cacheCoins p) = Inr m' \<and>
    (\<forall>op. (\<forall>e. m' op = Some e \<longrightarrow> coin_entry_ok (v_GetCoin B op) e) \<and>
      unspent (case m' op of None \<Rightarrow> v_GetCoin B op | Some e \<Rightarrow> Some (ce_coin e)) =
      unspent (v_GetCoin (cache_view (cache_view B p) c) op))"
    using BatchWriteCoins_ok[OF p c b(1)] by (rule exE)
  note m' = M[THEN conjunct1] M[THEN conjunct2, THEN spec, THEN conjunct1, rule_format]
    M[THEN conjunct2, THEN spec, THEN conjunct2]
  define p' where "p' = p\<lparr>cacheCoins := m',
      cacheSaplingAnchors := fold BatchWriteAnchor (b_anchors b) (cacheSaplingAnchors p),
      cacheSaplingNullifiers := fold BatchWriteNullifier (b_nullifiers b) (cacheSaplingNullifiers p),
      hashSaplingAnchor := b_hashSaplingAnchor b, hashBlock := b_hashBlock b\<rparr>"
  note a = BatchWriteAnchors_ok[OF p c b(1)] and n = BatchWriteNullifiers_ok[OF p c b(1)]
  have "cache_inv T B p'"
  proof (rule cache_invI)
    show "cacheCoins p' op = Some e \<Longrightarrow> coin_entry_ok (v_GetCoin B op) e" for op e
      using m'(2)[of op e] by (simp add: p'_def)
    show "cacheSaplingAnchors p' rt = Some e \<Longrightarrow> anchor_entry_ok T (v_GetSaplingAnchorAt B rt) rt e" for rt e
      using a(1)[of rt e] by (simp add: p'_def)
    show "cacheSaplingNullifiers p' nf = Some e \<Longrightarrow> nullifier_entry_ok (v_GetNullifier B nf) e" for nf e
      using n(1)[of nf e] by (simp add: p'_def)
  qed
  moreover have "abs_cache B p' = abs_cache (cache_view B p) c"
  proof (rule utxo_state_eqI)
    fix op show "u_coins (abs_cache B p') op = u_coins (abs_cache (cache_view B p) c) op"
      using m'(3)[of op] by (simp add: p'_def)
  next
    fix nf show "nf \<in> u_nullifiers (abs_cache B p') \<longleftrightarrow> nf \<in> u_nullifiers (abs_cache (cache_view B p) c)"
      using n(2)[of nf] by (simp add: p'_def)
  next
    fix rt show "rt \<in> u_anchors (abs_cache B p') \<longleftrightarrow> rt \<in> u_anchors (abs_cache (cache_view B p) c)"
      using a(2)[of rt] unfolding mem_u_anchors_cache[of rt B p']
      by (simp add: p'_def del: v_GetSaplingAnchorAt_cache)
  qed (use batch_ofD(7,8)[OF b(1)] b(2,3) in \<open>simp_all add: p'_def\<close>)
  moreover have "BatchWrite b p = Inr p'" using m'(1) by (simp add: BatchWrite_def p'_def)
  ultimately show ?thesis by blast
qed

interpretation cache_backing: coins_backing T "cache_view B" "\<lambda>p. view_ok T B \<and> cache_inv T B p" BatchWrite
  for T B
  by unfold_locales (auto intro: cache_view_ok dest: BatchWrite_ok)

section \<open>The database as the base of a cache\<close>

definition db_ok :: "'tree tree_ops \<Rightarrow> 'tree CCoinsViewDB \<Rightarrow> bool" where
  "db_ok T db \<longleftrightarrow>
     (\<forall>rt t. db_SAPLING_ANCHOR db rt = Some t \<longrightarrow> tree_root T t = rt) \<and> db_HEAD_BLOCKS db = None"

lemma fold_WriteBatch: "fold WriteBatch bs db = fold db_apply (concat bs) db"
  by (induction bs arbitrary: db) (simp_all add: WriteBatch_def)

fun coin_ops :: "(COutPoint \<times> CCoinsCacheEntry) list \<Rightarrow> 'tree db_op list" where
  "coin_ops [] = []"
| "coin_ops ((op, it) # its) =
     (if ce_DIRTY it then [DbCoin op (unspent (Some (ce_coin it)))] else []) @ coin_ops its"

lemma DB_BatchWrite_coins_ops:
  "concat (fst (DB_BatchWrite_coins full its batch)) @ snd (DB_BatchWrite_coins full its batch) =
     batch @ coin_ops its"
  by (induction full its batch rule: DB_BatchWrite_coins.induct) (auto simp: Let_def split: prod.splits)

definition coins_written :: "(COutPoint \<rightharpoonup> CCoinsCacheEntry) \<Rightarrow> (COutPoint \<rightharpoonup> Coin) \<Rightarrow> COutPoint \<rightharpoonup> Coin" where
  "coins_written its m op = (case its op of None \<Rightarrow> m op
     | Some it \<Rightarrow> if ce_DIRTY it then unspent (Some (ce_coin it)) else m op)"

definition anchors_written :: "'tree tree_ops \<Rightarrow> (uint256 \<rightharpoonup> 'tree CAnchorsSaplingCacheEntry) \<Rightarrow>
    (uint256 \<rightharpoonup> 'tree) \<Rightarrow> uint256 \<rightharpoonup> 'tree" where
  "anchors_written T its m rt = (case its rt of None \<Rightarrow> m rt
     | Some it \<Rightarrow> if \<not> ae_DIRTY it then m rt else if \<not> ae_entered it then None
                  else if rt \<noteq> empty_root T then Some (ae_tree it) else m rt)"

definition nullifiers_written :: "(uint256 \<rightharpoonup> CNullifiersCacheEntry) \<Rightarrow> (uint256 \<rightharpoonup> bool) \<Rightarrow> uint256 \<rightharpoonup> bool" where
  "nullifiers_written its m nf = (case its nf of None \<Rightarrow> m nf
     | Some it \<Rightarrow> if \<not> ne_DIRTY it then m nf else if \<not> ne_entered it then None else Some True)"

lemma written_Cons:
  assumes "map_of its k = None"
  shows "coins_written ((map_of its)(k \<mapsto> it)) m =
      coins_written (map_of its) (if ce_DIRTY it then m(k := unspent (Some (ce_coin it))) else m)"
    using assms by (auto simp: coins_written_def fun_eq_iff split: option.split)

lemma anchors_written_Cons:
  assumes "map_of its rt = None"
  shows "anchors_written T ((map_of its)(rt \<mapsto> it)) m = anchors_written T (map_of its)
    (if \<not> ae_DIRTY it then m else if \<not> ae_entered it then m(rt := None)
     else if rt \<noteq> empty_root T then m(rt \<mapsto> ae_tree it) else m)"
proof
  fix k show "anchors_written T ((map_of its)(rt \<mapsto> it)) m k = anchors_written T (map_of its)
    (if \<not> ae_DIRTY it then m else if \<not> ae_entered it then m(rt := None)
     else if rt \<noteq> empty_root T then m(rt \<mapsto> ae_tree it) else m) k"
    using assms by (cases "k = rt") (auto simp: anchors_written_def split: option.split)
qed

lemma nullifiers_written_Cons:
  assumes "map_of its nf = None"
  shows "nullifiers_written ((map_of its)(nf \<mapsto> it)) m = nullifiers_written (map_of its)
    (if \<not> ne_DIRTY it then m else m(nf := (if \<not> ne_entered it then None else Some True)))"
  using assms by (auto simp: nullifiers_written_def fun_eq_iff split: option.split)

lemma fold_coin_ops:
  fixes db :: "'t CCoinsViewDB"
  assumes "distinct (map fst its)"
  shows "fold db_apply (coin_ops its) db = db\<lparr>db_COIN := coins_written (map_of its) (db_COIN db)\<rparr>"
  using assms
proof (induction its arbitrary: db)
  case Nil
  then show ?case by (simp add: coins_written_def fun_eq_iff)
next
  case (Cons x its)
  obtain k it where x: "x = (k, it)" by fastforce
  have "map_of its k = None" "distinct (map fst its)" using Cons.prems x by (auto simp: map_of_eq_None_iff)
  then show ?case by (simp add: x Cons.IH written_Cons del: unspent_simps fun_upd_apply)
qed

lemma fold_anchor_ops:
  assumes "distinct (map fst its)"
  shows "fold db_apply (DB_BatchWriteAnchors T its) db =
    db\<lparr>db_SAPLING_ANCHOR := anchors_written T (map_of its) (db_SAPLING_ANCHOR db)\<rparr>"
  using assms
proof (induction its arbitrary: db)
  case Nil
  then show ?case by (simp add: anchors_written_def DB_BatchWriteAnchors_def fun_eq_iff)
next
  case (Cons x its)
  obtain rt it where x: "x = (rt, it)" by fastforce
  have "map_of its rt = None" "distinct (map fst its)" using Cons.prems x by (auto simp: map_of_eq_None_iff)
  moreover have "DB_BatchWriteAnchors T (x # its) = (if ae_DIRTY it then
         (if \<not> ae_entered it then [DbAnchor rt None]
          else if rt \<noteq> empty_root T then [DbAnchor rt (Some (ae_tree it))] else [])
       else []) @ DB_BatchWriteAnchors T its"
    by (simp add: DB_BatchWriteAnchors_def x)
  ultimately show ?case by (simp add: x Cons.IH anchors_written_Cons del: fun_upd_apply)
qed

lemma fold_nullifier_ops:
  fixes db :: "'t CCoinsViewDB"
  assumes "distinct (map fst its)"
  shows "fold db_apply (DB_BatchWriteNullifiers its) db =
    db\<lparr>db_SAPLING_NULLIFIER := nullifiers_written (map_of its) (db_SAPLING_NULLIFIER db)\<rparr>"
  using assms
proof (induction its arbitrary: db)
  case Nil
  then show ?case by (simp add: nullifiers_written_def DB_BatchWriteNullifiers_def fun_eq_iff)
next
  case (Cons x its)
  obtain nf it where x: "x = (nf, it)" by fastforce
  have "map_of its nf = None" "distinct (map fst its)" using Cons.prems x by (auto simp: map_of_eq_None_iff)
  moreover have "(DB_BatchWriteNullifiers (x # its) :: 't db_op list) = (if ne_DIRTY it then
         [DbNullifier nf (if \<not> ne_entered it then None else Some True)] else []) @ DB_BatchWriteNullifiers its"
    by (simp add: DB_BatchWriteNullifiers_def x)
  ultimately show ?case by (simp add: x Cons.IH nullifiers_written_Cons del: fun_upd_apply)
qed

lemma concat_DB_batches:
  "concat (DB_batches T full b old_tip) =
     [DbBestBlock None, DbHeadBlocks (Some [b_hashBlock b, old_tip])] @ coin_ops (b_coins b) @
     BatchWriteSapling T b @ [DbHeadBlocks None, DbBestBlock (Some (b_hashBlock b))]"
  using DB_BatchWrite_coins_ops[of full "b_coins b" "[DbBestBlock None, DbHeadBlocks (Some [b_hashBlock b, old_tip])]"]
  by (auto simp: DB_batches_def split: prod.split)

lemma DB_BatchWrite_run:
  assumes "batch_of c b" "\<not> uint256_IsNull (hashBlock c)" "\<not> uint256_IsNull (hashSaplingAnchor c)"
    "db_HEAD_BLOCKS db = None"
  shows "DB_BatchWrite T full b db = Inr (db\<lparr>
     db_COIN := coins_written (cacheCoins c) (db_COIN db),
     db_BEST_BLOCK := Some (hashBlock c), db_HEAD_BLOCKS := None,
     db_SAPLING_ANCHOR := anchors_written T (cacheSaplingAnchors c) (db_SAPLING_ANCHOR db),
     db_SAPLING_NULLIFIER := nullifiers_written (cacheSaplingNullifiers c) (db_SAPLING_NULLIFIER db),
     db_BEST_SAPLING_ANCHOR := Some (hashSaplingAnchor c)\<rparr>)"
proof -
  note b = batch_ofD[OF assms(1)]
  obtain t where "DB_old_tip (b_hashBlock b) db = Inr t"
    using assms(4) by (auto simp: DB_old_tip_def DB_GetHeadBlocks_def Let_def)
  then show ?thesis using assms(2,3)
    by (simp add: DB_BatchWrite_def fold_WriteBatch concat_DB_batches BatchWriteSapling_def b
        fold_coin_ops[OF b(1)] fold_anchor_ops[OF b(3)] fold_nullifier_ops[OF b(5)])
qed

lemma DB_BatchWrite_ok:
  assumes db: "db_ok T db" and c: "cache_inv T (db_view T db) c" and b: "batch_of c b"
    "\<not> uint256_IsNull (hashBlock c)" "\<not> uint256_IsNull (hashSaplingAnchor c)"
  shows "\<exists>db'. DB_BatchWrite T full b db = Inr db' \<and> db_ok T db' \<and>
    abs_view (db_view T db') = abs_cache (db_view T db) c"
proof -
  have hd: "db_HEAD_BLOCKS db = None" and root: "\<And>rt t. db_SAPLING_ANCHOR db rt = Some t \<Longrightarrow> tree_root T t = rt"
    using db by (auto simp: db_ok_def)
  note run = DB_BatchWrite_run[OF b hd, of T full]
  have ok: "db_ok T db'" if "DB_BatchWrite T full b db = Inr db'" for db'
    using that root cache_invD(2)[OF c] unfolding run
    by (auto simp: db_ok_def anchor_entry_ok_def anchors_written_def split: option.splits if_splits)
  have "abs_view (db_view T db') = abs_cache (db_view T db) c" if "DB_BatchWrite T full b db = Inr db'" for db'
  proof (rule utxo_state_eqI)
    fix op show "u_coins (abs_view (db_view T db')) op = u_coins (abs_cache (db_view T db) c) op"
      using that cache_invD(1)[OF c, of op] unfolding run
      by (auto simp: db_view_def coin_entry_ok_def coins_written_def split: option.splits)
  next
    fix nf show "nf \<in> u_nullifiers (abs_view (db_view T db')) \<longleftrightarrow> nf \<in> u_nullifiers (abs_cache (db_view T db) c)"
      using that cache_invD(3)[OF c, of nf] unfolding run
      by (auto simp: db_view_def nullifier_entry_ok_def nullifiers_written_def split: option.splits if_splits)
  next
    fix rt show "rt \<in> u_anchors (abs_view (db_view T db')) \<longleftrightarrow> rt \<in> u_anchors (abs_cache (db_view T db) c)"
      using that cache_invD(2)[OF c, of rt] unfolding run
      by (auto simp: db_view_def anchor_entry_ok_def anchors_written_def DB_GetSaplingAnchorAt_def split: option.splits if_splits)
  qed (use that b(2,3) in \<open>auto simp: run db_view_def DB_GetBestBlock_def DB_GetBestAnchor_def\<close>)
  with ok run show ?thesis by blast
qed

lemma db_view_ok: "db_ok T db \<Longrightarrow> view_ok T (db_view T db)"
  by (auto simp: db_ok_def view_ok_def db_view_def DB_GetSaplingAnchorAt_def split: if_splits)

interpretation db_backing: coins_backing T "db_view T" "db_ok T" "DB_BatchWrite T full" for T full
  by unfold_locales (auto intro: db_view_ok DB_BatchWrite_ok)

section \<open>Crash consistency of the database\<close>

lemma DB_BatchWrite_coins_take:
  assumes "DB_BatchWrite_coins full its batch = (ws, pending)" "0 < k" "k \<le> length ws"
  shows "\<exists>j. concat (take k ws) = batch @ coin_ops (take j its)"
  using assms
proof (induction full its batch arbitrary: ws pending k rule: DB_BatchWrite_coins.induct)
  case (2 full op it its batch)
  define batch' where "batch' = batch @ coin_ops [(op, it)]"
  have b': "(if ce_DIRTY it then batch @ [DbCoin op (if Coin_IsSpent (ce_coin it) then None else Some (ce_coin it))]
      else batch) = batch'" by (simp add: batch'_def)
  have app: "batch' @ coin_ops (take j its) = batch @ coin_ops (take (Suc j) ((op, it) # its))" for j
    by (simp add: batch'_def)
  show ?case
  proof (cases "full batch'")
    case True
    obtain ws' pending' where W: "DB_BatchWrite_coins full its [] = (ws', pending')" by fastforce
    then have ws: "ws = batch' # ws'" using 2(3) True b' by (simp add: Let_def)
    show ?thesis
    proof (cases "k = 1")
      case True
      then show ?thesis using ws app[of 0] by (intro exI[of _ 1]) simp
    next
      case False
      then obtain k' where k: "k = Suc k'" "0 < k'" using 2(4) by (cases k) auto
      then obtain j where "concat (take k' ws') = coin_ops (take j its)"
        using 2(1)[OF b'[symmetric] True, of ws' pending' k'] W ws 2(5) by auto
      then show ?thesis using ws k app[of j] by (intro exI[of _ "Suc j"]) simp
    qed
  next
    case False
    then have "DB_BatchWrite_coins full its batch' = (ws, pending)" using 2(3) b' by (simp add: Let_def)
    then obtain j where "concat (take k ws) = batch' @ coin_ops (take j its)"
      using 2(2)[OF b'[symmetric] False, of ws pending k] 2(4,5) by auto
    then show ?thesis using app[of j] by metis
  qed
qed simp

lemma map_of_take:
  "map_of (take j its) k = None \<or> map_of (take j its) k = map_of its k"
proof -
  have "map_of its k = (map_of (drop j its) ++ map_of (take j its)) k"
    by (metis append_take_drop_id map_of_append)
  then show ?thesis by (auto simp: map_add_def split: option.splits)
qed

lemma coins_written_take:
  "coins_written (map_of (take j its)) m op \<in> {m op, coins_written (map_of its) m op}"
  using map_of_take[of j its op] by (auto simp: coins_written_def)

lemma DB_batches_prefix:
  fixes db :: "'t CCoinsViewDB"
  assumes "batch_of c b" "0 < k" "k < length (DB_batches T full b old_tip)"
  shows "\<exists>j. fold WriteBatch (take k (DB_batches T full b old_tip)) db =
    db\<lparr>db_BEST_BLOCK := None, db_HEAD_BLOCKS := Some [hashBlock c, old_tip],
       db_COIN := coins_written (map_of (take j (b_coins b))) (db_COIN db)\<rparr>"
proof -
  note b = batch_ofD[OF assms(1)]
  define ini :: "'t db_op list" where "ini = [DbBestBlock None, DbHeadBlocks (Some [b_hashBlock b, old_tip])]"
  obtain ws pending where W: "DB_BatchWrite_coins full (b_coins b) ini = (ws, pending)" by fastforce
  have D: "DB_batches T full b old_tip =
      ws @ [pending @ BatchWriteSapling T b @ [DbHeadBlocks None, DbBestBlock (Some (b_hashBlock b))]]"
    using W by (simp add: DB_batches_def ini_def)
  then have k: "k \<le> length ws" using assms(3) by simp
  obtain j where j: "concat (take k ws) = ini @ coin_ops (take j (b_coins b))"
    using DB_BatchWrite_coins_take[OF W assms(2) k] by blast
  have dist: "distinct (map fst (take j (b_coins b)))"
    using b(1) by (simp add: take_map[symmetric])
  have "take k (DB_batches T full b old_tip) = take k ws" using D k by simp
  then show ?thesis
    by (intro exI[of _ j]) (simp add: fold_WriteBatch j ini_def fold_coin_ops[OF dist] b(7))
qed

section \<open>Properties\<close>

text \<open>
  (C7) The cache implements the set of unspent coins.  While its invariant holds, spending returns
  the coin the view holds and removes it, and adding puts a coin there, whatever flags and stale
  entries the cache has; a coin that can never be spent is left out.  Adding fails, when the coin
  is real, only if the caller promised that no coin is there and one is in the cache, and both operations
  keep the invariant.
\<close>

theorem coins_cache_refines:
  assumes "cache_inv T base c"
  shows "unspent (fst (SpendCoin base op c)) = u_coins (abs_cache base c) op \<and>
    cache_inv T base (snd (SpendCoin base op c)) \<and>
    abs_cache base (snd (SpendCoin base op c)) =
      (abs_cache base c)\<lparr>u_coins := (u_coins (abs_cache base c))(op := None)\<rparr> \<and>
    (\<not> Coin_IsSpent k \<longrightarrow> overwrite \<or> u_coins (abs_cache base c) op = None \<longrightarrow>
       (\<exists>c'. AddCoin op k overwrite c = Inr c' \<and> cache_inv T base c' \<and>
          abs_cache base c' = (if addable (coin_out k)
            then (abs_cache base c)\<lparr>u_coins := (u_coins (abs_cache base c))(op \<mapsto> k)\<rparr>
            else abs_cache base c)))"
proof -
  have "\<exists>c'. AddCoin op k overwrite c = Inr c' \<and> cache_inv T base c' \<and>
          abs_cache base c' = (if addable (coin_out k)
            then (abs_cache base c)\<lparr>u_coins := (u_coins (abs_cache base c))(op \<mapsto> k)\<rparr>
            else abs_cache base c)"
    if h: "\<not> Coin_IsSpent k" "overwrite \<or> u_coins (abs_cache base c) op = None"
  proof -
    obtain c' where "AddCoin op k overwrite c = Inr c'" "cache_inv T base c'"
      "abs_cache base c' = (if addable (coin_out k)
         then (abs_cache base c)\<lparr>u_coins := (u_coins (abs_cache base c))(op \<mapsto> k)\<rparr> else abs_cache base c)"
      by (rule AddCoin_ok[OF assms h])
    then show ?thesis by blast
  qed
  then show ?thesis using SpendCoin_coin[of base op c] SpendCoin_inv[OF assms, of op] SpendCoin_abs[OF assms, of op]
    by blast
qed

definition example_coin :: Coin where
  "example_coin = \<lparr>fCoinBase = True, fCoinStake = False, coin_out = \<lparr>nValue = 7, scriptPubKey = [0x51]\<rparr>, coin_nHeight = 5\<rparr>"

definition example_tree :: "nat tree_ops" where
  "example_tree = \<lparr>tree_root = (\<lambda>t. le_bytes 32 (t + 1)), tree_empty = 0\<rparr>"

definition example_db :: "nat CCoinsViewDB" where
  "example_db = \<lparr>db_COIN = [mk_COutPoint null_hash 1 \<mapsto> example_coin], db_BEST_BLOCK = Some (le_bytes 32 9),
     db_HEAD_BLOCKS = None, db_SAPLING_ANCHOR = Map.empty, db_SAPLING_NULLIFIER = Map.empty,
     db_BEST_SAPLING_ANCHOR = None\<rparr>"

lemma example_coin_ok: "\<not> Coin_IsSpent example_coin" "addable (coin_out example_coin)"
  by (code_simp, code_simp)

theorem coins_cache_refines_witness:
  "cache_inv example_tree (db_view example_tree example_db) mk_CCoinsViewCache \<and>
   u_coins (abs_cache (db_view example_tree example_db)
     (snd (SpendCoin (db_view example_tree example_db) (mk_COutPoint null_hash 1) mk_CCoinsViewCache)))
     (mk_COutPoint null_hash 1) = None"
proof
  note w = coins_cache_refines[of example_tree "db_view example_tree example_db" mk_CCoinsViewCache
      "mk_COutPoint null_hash 1" example_coin False, OF cache_inv_empty]
  show "u_coins (abs_cache (db_view example_tree example_db)
     (snd (SpendCoin (db_view example_tree example_db) (mk_COutPoint null_hash 1) mk_CCoinsViewCache)))
     (mk_COutPoint null_hash 1) = None"
    unfolding w[THEN conjunct2, THEN conjunct2, THEN conjunct1] by simp
qed (rule cache_inv_empty)


definition example_view :: "nat CCoinsViewCache" where
  "example_view = mk_CCoinsViewCache\<lparr>hashBlock := le_bytes 32 3, hashSaplingAnchor := le_bytes 32 1\<rparr>"

definition example_batch :: "nat cache_batch" where
  "example_batch = \<lparr>b_coins = [], b_hashBlock = le_bytes 32 3, b_hashSaplingAnchor = le_bytes 32 1,
     b_anchors = [], b_nullifiers = []\<rparr>"

lemma example_view_ok:
  "db_ok example_tree example_db" "cache_inv T base example_view" "batch_of example_view example_batch"
  "\<not> uint256_IsNull (hashBlock example_view)" "\<not> uint256_IsNull (hashSaplingAnchor example_view)"
proof -
  show "db_ok example_tree example_db" by (simp add: db_ok_def example_db_def)
  show "cache_inv T base example_view" by (simp add: cache_inv_def example_view_def mk_CCoinsViewCache_def)
  show "batch_of example_view example_batch"
    by (simp add: batch_of_def enumerates_def example_view_def example_batch_def mk_CCoinsViewCache_def)
  show "\<not> uint256_IsNull (hashBlock example_view)" "\<not> uint256_IsNull (hashSaplingAnchor example_view)"
    by (code_simp, code_simp)
qed


text \<open>
  (C13) A crash in the middle of writing the database is always visible.  Whatever the sizes at which
  partial batches are cut, after the first batch and before the last the database has no best block
  and names the new and the old tip in \<open>DB_HEAD_BLOCKS\<close>, the Sapling state is still the
  old one and every coin is either as before or as it will be; only the last batch makes the
  database consistent again, at the new tip.
\<close>

theorem database_crash_safety:
  assumes "batch_of c b" "\<not> uint256_IsNull (hashBlock c)" "\<not> uint256_IsNull (hashSaplingAnchor c)"
    "db_HEAD_BLOCKS db = None" "DB_BatchWrite T full b db = Inr db'"
  defines "bs \<equiv> DB_batches T full b (DB_GetBestBlock db)"
  shows "fold WriteBatch bs db = db' \<and> DB_GetBestBlock db' = hashBlock c \<and> DB_GetHeadBlocks db' = [] \<and>
    (\<forall>k. 0 < k \<longrightarrow> k < length bs \<longrightarrow>
      (let part = fold WriteBatch (take k bs) db
       in DB_GetBestBlock part = null_hash \<and> DB_GetHeadBlocks part = [hashBlock c, DB_GetBestBlock db] \<and>
          db_SAPLING_ANCHOR part = db_SAPLING_ANCHOR db \<and> db_SAPLING_NULLIFIER part = db_SAPLING_NULLIFIER db \<and>
          db_BEST_SAPLING_ANCHOR part = db_BEST_SAPLING_ANCHOR db \<and>
          (\<forall>op. db_COIN part op \<in> {db_COIN db op, db_COIN db' op})))"
proof -
  note run = DB_BatchWrite_run[OF assms(1-4), of T full]
  have tip: "DB_old_tip (hashBlock c) db = Inr (DB_GetBestBlock db)"
    using assms(4) by (simp add: DB_old_tip_def DB_GetHeadBlocks_def Let_def)
  have db': "db' = fold WriteBatch bs db"
    using assms(5) batch_ofD(7)[OF assms(1)] assms(2) by (simp add: DB_BatchWrite_def tip bs_def)
  have coin: "db_COIN db' = coins_written (cacheCoins c) (db_COIN db)" and
    fin: "DB_GetBestBlock db' = hashBlock c" "DB_GetHeadBlocks db' = []"
    using assms(5) unfolding run by (auto simp: DB_GetBestBlock_def DB_GetHeadBlocks_def)
  have "let part = fold WriteBatch (take k bs) db
       in DB_GetBestBlock part = null_hash \<and> DB_GetHeadBlocks part = [hashBlock c, DB_GetBestBlock db] \<and>
          db_SAPLING_ANCHOR part = db_SAPLING_ANCHOR db \<and> db_SAPLING_NULLIFIER part = db_SAPLING_NULLIFIER db \<and>
          db_BEST_SAPLING_ANCHOR part = db_BEST_SAPLING_ANCHOR db \<and>
          (\<forall>op. db_COIN part op \<in> {db_COIN db op, db_COIN db' op})"
    if k: "0 < k" "k < length bs" for k
  proof -
    obtain j where j: "fold WriteBatch (take k bs) db =
       db\<lparr>db_BEST_BLOCK := None, db_HEAD_BLOCKS := Some [hashBlock c, DB_GetBestBlock db],
          db_COIN := coins_written (map_of (take j (b_coins b))) (db_COIN db)\<rparr>"
      using DB_batches_prefix[OF assms(1) k(1), of T full "DB_GetBestBlock db" db] k(2) by (auto simp: bs_def)
    show ?thesis unfolding j Let_def coin batch_ofD(2)[OF assms(1), symmetric]
      using coins_written_take[of j "b_coins b" "db_COIN db"]
      by (simp add: DB_GetBestBlock_def DB_GetHeadBlocks_def)
  qed
  with db' fin show ?thesis by simp
qed

theorem database_crash_safety_witness:
  "\<exists>db'. DB_BatchWrite example_tree (\<lambda>ops. True) example_batch example_db = Inr db' \<and>
     DB_GetBestBlock db' = le_bytes 32 3"
proof -
  obtain db' where "DB_BatchWrite example_tree (\<lambda>ops. True) example_batch example_db = Inr db'"
    using DB_BatchWrite_ok[OF example_view_ok(1) example_view_ok(2-5)] by blast
  moreover have "hashBlock example_view = le_bytes 32 3" "db_HEAD_BLOCKS example_db = None"
    by (simp_all add: example_view_def example_db_def)
  ultimately show ?thesis
    using database_crash_safety[OF example_view_ok(3-5), of example_db example_tree "\<lambda>ops. True" db'] by auto
qed

end
