(* ===== verification/TxVerify.thy ===== *)
theory TxVerify
imports Coins
begin

text \<open>
  Checks on a single transaction (\<open>consensus/tx_verify.cpp\<close>, \<open>sapling/sapling_validation.cpp\<close>).
  A check returns \<open>Inr\<close> or the first rejection: \<open>DoS\<close> with its ban score and reason (\<open>DoSCorrupt\<close> when the data
  may have been corrupted on the way), \<open>Invalid\<close> with a reject code and reason, \<open>StateError\<close> for an internal
  error, an exception of the value sums or of the coins database, or a failed assertion.
  The Sapling proof verifier of \<open>librustzcash\<close> is a record of functions over its own context type.
\<close>

section \<open>Results of a check\<close>

datatype reject =
    DoS int string
  | DoSCorrupt int string
  | Invalid int string
  | StateError string
  | ValueThrow value_error
  | CoinsThrow coins_error
  | AssertFail

abbreviation (input) REJECT_INVALID :: int where "REJECT_INVALID \<equiv> 0x10"
abbreviation (input) REJECT_NONSTANDARD :: int where "REJECT_NONSTANDARD \<equiv> 0x40"

abbreviation (input) MAX_STANDARD_TX_SIZE :: nat where "MAX_STANDARD_TX_SIZE \<equiv> 100000"
abbreviation (input) MAX_TX_SIZE_AFTER_SAPLING :: nat where "MAX_TX_SIZE_AFTER_SAPLING \<equiv> 400000"
abbreviation (input) MIN_COLDSTAKING_AMOUNT :: CAmount where "MIN_COLDSTAKING_AMOUNT \<equiv> 100000000"

section \<open>Finality and signature operations\<close>

text \<open>\<open>now\<close> is \<open>GetAdjustedTime()\<close>, used when no block time is given.\<close>

definition IsFinalTx :: "int \<Rightarrow> CTransaction \<Rightarrow> int \<Rightarrow> int \<Rightarrow> bool" where
  "IsFinalTx now tx nBlockHeight nBlockTime \<longleftrightarrow>
     (if nLockTime tx = 0 then True
      else
        let t = (if nBlockTime = 0 then now else nBlockTime)
        in if int (nLockTime tx) < (if nLockTime tx < LOCKTIME_THRESHOLD then nBlockHeight else t) then True
           else list_all CTxIn_IsFinal (vin tx))"

definition GetLegacySigOpCount :: "CTransaction \<Rightarrow> nat" where
  "GetLegacySigOpCount tx =
     foldl (\<lambda>n txout. (n + GetSigOpCount (scriptPubKey txout) False) mod 2 ^ 32)
       (foldl (\<lambda>n txin. (n + GetSigOpCount (scriptSig txin) False) mod 2 ^ 32) 0 (vin tx)) (vout tx)"

fun GetP2SHSigOpCount_loop :: "'tree CCoinsView \<Rightarrow> nat \<Rightarrow> CTxIn list \<Rightarrow> 'tree CCoinsViewCache \<Rightarrow>
    nat \<times> 'tree CCoinsViewCache" where
  "GetP2SHSigOpCount_loop base nSigOps [] c = (nSigOps, c)"
| "GetP2SHSigOpCount_loop base nSigOps (txin # vins) c =
     (let (coin, c') = AccessCoin base (prevout txin) c; prev = scriptPubKey (coin_out coin)
      in GetP2SHSigOpCount_loop base
           (if IsPayToScriptHash prev then (nSigOps + GetSigOpCount_P2SH prev (scriptSig txin)) mod 2 ^ 32
            else nSigOps) vins c')"

definition GetP2SHSigOpCount :: "'tree CCoinsView \<Rightarrow> CTransaction \<Rightarrow> 'tree CCoinsViewCache \<Rightarrow>
    nat \<times> 'tree CCoinsViewCache" where
  "GetP2SHSigOpCount base tx c =
     (if IsCoinBase tx then (0, c) else GetP2SHSigOpCount_loop base 0 (vin tx) c)"

section \<open>Context-free checks\<close>

fun duplicate_nullifiers :: "uint256 list \<Rightarrow> SpendDescription list \<Rightarrow> bool" where
  "duplicate_nullifiers seen [] = False"
| "duplicate_nullifiers seen (sd # sds) =
     (sd_nullifier sd \<in> set seen \<or> duplicate_nullifiers (sd_nullifier sd # seen) sds)"

text \<open>Both Sapling checks return the value that goes into the shielded pool.\<close>

definition CheckTransactionWithoutProofVerification :: "Params \<Rightarrow> CTransaction \<Rightarrow> reject + CAmount" where
  "CheckTransactionWithoutProofVerification par tx =
     (case sapData tx of
        None \<Rightarrow> Inl AssertFail
      | Some d \<Rightarrow>
          if \<not> isSaplingVersion tx then Inl AssertFail
          else if vShieldedSpend d = [] \<and> vShieldedOutput d = [] \<and> valueBalance d \<noteq> 0
          then Inl (DoS 100 ''bad-txns-valuebalance-nonzero'')
          else if valueBalance d > nMaxMoneyOut par \<or> valueBalance d < - nMaxMoneyOut par
          then Inl (DoS 100 ''bad-txns-valuebalance-toolarge'')
          else
            let nValueOut = (if valueBalance d < 0 then - valueBalance d else 0)
            in if valueBalance d < 0 \<and> \<not> MoneyRange par nValueOut
               then Inl (DoS 100 ''bad-txns-txouttotal-toolarge'')
               else if valueBalance d > 0 \<and> \<not> MoneyRange par (valueBalance d)
               then Inl (DoS 100 ''bad-txns-txintotal-toolarge'')
               else if duplicate_nullifiers [] (vShieldedSpend d)
               then Inl (DoS 100 ''bad-spend-description-nullifiers-duplicate'')
               else Inr nValueOut)"

definition Sapling_CheckTransaction :: "Params \<Rightarrow> CTransaction \<Rightarrow> reject + CAmount" where
  "Sapling_CheckTransaction par tx =
     (if \<not> isSaplingVersion tx \<and> hasSaplingData tx then Inl (DoS 100 ''bad-txns-form-not-sapling'')
      else if \<not> hasSaplingData tx then Inr 0
      else if IsCoinStake tx \<or> IsCoinBase tx \<or> HasZerocoinSpendInputs tx \<or> HasZerocoinMintOutputs tx
      then Inl (DoS 100 ''bad-txns-invalid-sapling'')
      else CheckTransactionWithoutProofVerification par tx)"

fun CheckTransaction_outs :: "Params \<Rightarrow> bool \<Rightarrow> bool \<Rightarrow> CAmount \<Rightarrow> CTxOut list \<Rightarrow> reject + CAmount" where
  "CheckTransaction_outs par fCoinBaseOrStake fColdStakingActive nValueOut [] = Inr nValueOut"
| "CheckTransaction_outs par fCoinBaseOrStake fColdStakingActive nValueOut (txout # vouts) =
     (if CTxOut_IsEmpty txout \<and> \<not> fCoinBaseOrStake then Inl (DoS 100 ''bad-txns-vout-empty'')
      else if nValue txout < 0 then Inl (DoS 100 ''bad-txns-vout-negative'')
      else if nValue txout > nMaxMoneyOut par then Inl (DoS 100 ''bad-txns-vout-toolarge'')
      else
        let nValueOut' = wrap64 (nValueOut + nValue txout)
        in if \<not> MoneyRange par nValueOut' then Inl (DoS 100 ''bad-txns-txouttotal-toolarge'')
           else if IsPayToColdStaking (scriptPubKey txout) \<and> \<not> fColdStakingActive
           then Inl (DoS 10 ''cold-stake-inactive'')
           else if IsPayToColdStaking (scriptPubKey txout) \<and> nValue txout < MIN_COLDSTAKING_AMOUNT
           then Inl (DoS 100 ''cold-stake-vout-toosmall'')
           else CheckTransaction_outs par fCoinBaseOrStake fColdStakingActive nValueOut' vouts)"

fun duplicate_inputs :: "COutPoint list \<Rightarrow> CTxIn list \<Rightarrow> bool" where
  "duplicate_inputs vInOutPoints [] = False"
| "duplicate_inputs vInOutPoints (txin # vins) =
     (prevout txin \<in> set vInOutPoints \<or> duplicate_inputs (prevout txin # vInOutPoints) vins)"

definition sapData_and :: "(SaplingTxData \<Rightarrow> bool) \<Rightarrow> CTransaction \<Rightarrow> bool" where
  "sapData_and P tx = (case sapData tx of None \<Rightarrow> False | Some d \<Rightarrow> P d)"

definition CheckTransaction :: "Params \<Rightarrow> CTransaction \<Rightarrow> bool \<Rightarrow> reject + unit" where
  "CheckTransaction par tx fColdStakingActive =
     (if vin tx = [] \<and> sapData_and (\<lambda>d. vShieldedSpend d = []) tx \<and> \<not> IsQuorumCommitmentTx tx
      then Inl (DoS 10 ''bad-txns-vin-empty'')
      else if vout tx = [] \<and> sapData_and (\<lambda>d. vShieldedOutput d = []) tx \<and> \<not> IsQuorumCommitmentTx tx
      then Inl (DoS 10 ''bad-txns-vout-empty'')
      else if nVersion tx < 1 \<or> nVersion tx \<ge> TxVersion_TOOHIGH
      then Inl (DoS 10 ''bad-tx-version-too-high'')
      else if GetTotalSize tx > (if IsShieldedTx tx then MAX_TX_SIZE_AFTER_SAPLING else MAX_STANDARD_TX_SIZE)
      then Inl (DoS 10 ''bad-txns-oversize'')
      else
        bindE (Sapling_CheckTransaction par tx) (\<lambda>nValueOut.
        bindE (CheckTransaction_outs par (IsCoinBase tx \<or> IsCoinStake tx) fColdStakingActive nValueOut (vout tx)) (\<lambda>_.
          if duplicate_inputs [] (vin tx) then Inl (DoS 100 ''bad-txns-inputs-duplicate'')
          else if IsCoinBase tx then
            (if length (scriptSig (vin tx ! 0)) < 2 \<or> length (scriptSig (vin tx ! 0)) > 150
             then Inl (DoS 100 ''bad-cb-length'')
             else if HasExchangeAddr tx then Inl (DoS 100 ''bad-exchange-address-in-cb'')
             else Inr ())
          else if list_ex (\<lambda>txin. COutPoint_IsNull (prevout txin)) (vin tx)
          then Inl (DoS 10 ''bad-txns-prevout-null'')
          else Inr ())))"

section \<open>Contextual checks\<close>

record 'ctx sapling_verifier =
  sv_init :: 'ctx
  sv_check_spend :: "'ctx \<Rightarrow> SpendDescription \<Rightarrow> uint256 \<Rightarrow> 'ctx option"
  sv_check_output :: "'ctx \<Rightarrow> OutputDescription \<Rightarrow> 'ctx option"
  sv_final_check :: "'ctx \<Rightarrow> CAmount \<Rightarrow> bytes \<Rightarrow> uint256 \<Rightarrow> bool"

fun check_spends :: "'ctx sapling_verifier \<Rightarrow> uint256 \<Rightarrow> 'ctx \<Rightarrow> SpendDescription list \<Rightarrow> 'ctx option" where
  "check_spends sv dataToBeSigned ctx [] = Some ctx"
| "check_spends sv dataToBeSigned ctx (sd # sds) =
     (case sv_check_spend sv ctx sd dataToBeSigned of
        None \<Rightarrow> None | Some ctx' \<Rightarrow> check_spends sv dataToBeSigned ctx' sds)"

fun check_outputs :: "'ctx sapling_verifier \<Rightarrow> 'ctx \<Rightarrow> OutputDescription list \<Rightarrow> 'ctx option" where
  "check_outputs sv ctx [] = Some ctx"
| "check_outputs sv ctx (od # ods) =
     (case sv_check_output sv ctx od of None \<Rightarrow> None | Some ctx' \<Rightarrow> check_outputs sv ctx' ods)"

definition ContextualCheckTransaction :: "crypto \<Rightarrow> 'ctx sapling_verifier \<Rightarrow> Params \<Rightarrow> CTransaction \<Rightarrow> int \<Rightarrow>
    bool \<Rightarrow> bool \<Rightarrow> reject + unit" where
  "ContextualCheckTransaction cr sv par tx nHeight isMined isInitBlockDownload =
     (let dosLevelConstricting = (if isMined then 100 else 10);
          dosLevelPotentiallyRelaxing = (if isMined then 100 else if isInitBlockDownload then 0 else 10)
      in if \<not> NetworkUpgradeActive par nHeight UPGRADE_V5_0 then
           (if IsShieldedTx tx then Inl (DoS dosLevelConstricting ''bad-txns-invalid-sapling-act'') else Inr ())
         else if \<not> isSaplingVersion tx \<and> hasSaplingData tx
         then Inl (DoS dosLevelConstricting ''bad-tx-sapling-version-too-low'')
         else if (IsCoinBase tx \<or> IsCoinStake tx) \<and> hasSaplingData tx
         then Inl (DoS dosLevelPotentiallyRelaxing ''bad-cs-has-shielded-data'')
         else if hasSaplingData tx then
           (if HasExchangeAddr tx \<and> NetworkUpgradeActive par nHeight UPGRADE_V5_6
            then Inl (DoS 100 ''bad-txns-exchange-addr-has-sapling'')
            else case SignatureHash cr [] tx NOT_AN_INPUT SIGHASH_ALL 0 SIGVERSION_SAPLING None of
              None \<Rightarrow> Inl (DoS 100 ''error-computing-signature-hash'')
            | Some dataToBeSigned \<Rightarrow>
                (case sapData tx of
                   None \<Rightarrow> Inr ()
                 | Some d \<Rightarrow>
                     (case check_spends sv dataToBeSigned (sv_init sv) (vShieldedSpend d) of
                        None \<Rightarrow> Inl (DoS dosLevelPotentiallyRelaxing ''bad-txns-sapling-spend-description-invalid'')
                      | Some ctx \<Rightarrow>
                          (case check_outputs sv ctx (vShieldedOutput d) of
                             None \<Rightarrow> Inl (DoS 100 ''bad-txns-sapling-output-description-invalid'')
                           | Some ctx' \<Rightarrow>
                               if \<not> sv_final_check sv ctx' (valueBalance d) (bindingSig d) dataToBeSigned
                               then Inl (DoS dosLevelPotentiallyRelaxing ''bad-txns-sapling-binding-signature-invalid'')
                               else Inr ()))))
         else Inr ())"

section \<open>What the checks establish\<close>

lemma wrap64_nonneg_sum:
  assumes "0 \<le> a" "0 \<le> b" "a \<le> INT64_MAX" "b \<le> INT64_MAX" "0 \<le> wrap64 (a + b)"
  shows "wrap64 (a + b) = a + b"
proof (cases "a + b \<le> INT64_MAX")
  case True
  then show ?thesis using assms by (intro wrap64_id) (simp add: in_i64_def)
next
  case False
  then have "wrap64 (a + b) = a + b - 18446744073709551616"
    using assms by (intro wrap64_above) auto
  then show ?thesis using assms by linarith
qed

lemma duplicate_inputs_iff:
  "duplicate_inputs seen ins \<longleftrightarrow> \<not> (distinct (map prevout ins) \<and> set (map prevout ins) \<inter> set seen = {})"
  by (induction ins arbitrary: seen) auto

lemma duplicate_nullifiers_iff:
  "duplicate_nullifiers seen sds \<longleftrightarrow> \<not> (distinct (map sd_nullifier sds) \<and> set (map sd_nullifier sds) \<inter> set seen = {})"
  by (induction sds arbitrary: seen) auto

lemma CheckTransaction_outs_exact:
  assumes "CheckTransaction_outs par cb cs a outs = Inr v" "MoneyRange par a" "nMaxMoneyOut par \<le> INT64_MAX"
  shows "v = a + sum_list (map nValue outs) \<and> MoneyRange par v \<and> (\<forall>t \<in> set outs. MoneyRange par (nValue t))"
  using assms
proof (induction outs arbitrary: a)
  case (Cons t outs)
  have n: "MoneyRange par (nValue t)" and w: "MoneyRange par (wrap64 (a + nValue t))"
    and rest: "CheckTransaction_outs par cb cs (wrap64 (a + nValue t)) outs = Inr v"
    using Cons.prems(1) by (auto simp: Let_def MoneyRange_def split: if_splits)
  have "wrap64 (a + nValue t) = a + nValue t"
    using n w Cons.prems(2,3) by (intro wrap64_nonneg_sum) (auto simp: MoneyRange_def)
  then show ?case using Cons.IH[OF rest w Cons.prems(3)] n by auto
qed simp

text \<open>The value a transaction moves into and out of the shielded pool.\<close>

definition shielded_out :: "CTransaction \<Rightarrow> CAmount" where
  "shielded_out tx = (if hasSaplingData tx \<and> valueBalance (the (sapData tx)) < 0 then - valueBalance (the (sapData tx)) else 0)"

definition shielded_in :: "CTransaction \<Rightarrow> CAmount" where
  "shielded_in tx = (if hasSaplingData tx \<and> valueBalance (the (sapData tx)) > 0 then valueBalance (the (sapData tx)) else 0)"

definition total_out :: "CTransaction \<Rightarrow> CAmount" where
  "total_out tx = shielded_out tx + sum_list (map nValue (vout tx))"

lemma Sapling_CheckTransaction_sound:
  assumes "Sapling_CheckTransaction par tx = Inr v" "0 \<le> nMaxMoneyOut par"
  shows "v = shielded_out tx \<and> MoneyRange par v \<and> MoneyRange par (shielded_in tx) \<and>
    (hasSaplingData tx \<longrightarrow> isSaplingVersion tx \<and> \<not> HasZerocoinSpendInputs tx \<and> \<not> IsCoinBase tx \<and> \<not> IsCoinStake tx \<and>
       distinct (map sd_nullifier (vShieldedSpend (the (sapData tx)))))"
proof (cases "hasSaplingData tx")
  case False
  then show ?thesis using assms
    by (simp add: Sapling_CheckTransaction_def shielded_out_def shielded_in_def MoneyRange_def)
next
  case True
  then obtain d where d: "sapData tx = Some d" by (auto simp: hasSaplingData_def split: option.splits)
  have s: "isSaplingVersion tx" "\<not> HasZerocoinSpendInputs tx" "\<not> IsCoinBase tx" "\<not> IsCoinStake tx"
    and w: "CheckTransactionWithoutProofVerification par tx = Inr v"
    using assms(1) True by (auto simp: Sapling_CheckTransaction_def split: if_splits)
  have "distinct (map sd_nullifier (vShieldedSpend d))"
    and "v = (if valueBalance d < 0 then - valueBalance d else 0)"
    and "valueBalance d < 0 \<longrightarrow> MoneyRange par (- valueBalance d)" "valueBalance d > 0 \<longrightarrow> MoneyRange par (valueBalance d)"
    using w s(1) unfolding CheckTransactionWithoutProofVerification_def d duplicate_nullifiers_iff
    by (auto simp: Let_def split: if_splits)
  then show ?thesis using s True d assms(2)
    by (auto simp: shielded_out_def shielded_in_def MoneyRange_def)
qed

lemma CheckTransaction_sound:
  assumes "CheckTransaction par tx cs = Inr ()" "0 \<le> nMaxMoneyOut par" "nMaxMoneyOut par \<le> INT64_MAX"
  shows "distinct (map prevout (vin tx))" "\<forall>t \<in> set (vout tx). MoneyRange par (nValue t)"
    "MoneyRange par (total_out tx)" "MoneyRange par (shielded_in tx)" "MoneyRange par (shielded_out tx)"
    "hasSaplingData tx \<longrightarrow> isSaplingVersion tx \<and> \<not> HasZerocoinSpendInputs tx \<and> \<not> IsCoinBase tx \<and> \<not> IsCoinStake tx \<and>
       distinct (map sd_nullifier (vShieldedSpend (the (sapData tx))))"
    "1 \<le> nVersion tx" "nVersion tx \<le> 3" "GetTotalSize tx \<le> MAX_TX_SIZE_AFTER_SAPLING"
    "IsCoinBase tx \<or> (\<forall>i \<in> set (vin tx). \<not> COutPoint_IsNull (prevout i))"
proof -
  have basic: "1 \<le> nVersion tx" "nVersion tx \<le> 3" "GetTotalSize tx \<le> MAX_TX_SIZE_AFTER_SAPLING"
    and run: "bindE (Sapling_CheckTransaction par tx) (\<lambda>nValueOut.
        bindE (CheckTransaction_outs par (IsCoinBase tx \<or> IsCoinStake tx) cs nValueOut (vout tx)) (\<lambda>_.
          if duplicate_inputs [] (vin tx) then Inl (DoS 100 ''bad-txns-inputs-duplicate'')
          else if IsCoinBase tx then
            (if length (scriptSig (vin tx ! 0)) < 2 \<or> length (scriptSig (vin tx ! 0)) > 150
             then Inl (DoS 100 ''bad-cb-length'')
             else if HasExchangeAddr tx then Inl (DoS 100 ''bad-exchange-address-in-cb'')
             else Inr ())
          else if list_ex (\<lambda>txin. COutPoint_IsNull (prevout txin)) (vin tx)
          then Inl (DoS 10 ''bad-txns-prevout-null'')
          else Inr ())) = Inr ()"
    using assms(1) unfolding CheckTransaction_def by (auto split: if_splits)
  obtain v w where v: "Sapling_CheckTransaction par tx = Inr v"
    and w: "CheckTransaction_outs par (IsCoinBase tx \<or> IsCoinStake tx) cs v (vout tx) = Inr w"
    and dup: "\<not> duplicate_inputs [] (vin tx)"
    and null: "IsCoinBase tx \<or> \<not> list_ex (\<lambda>txin. COutPoint_IsNull (prevout txin)) (vin tx)"
    using run by (auto simp: bindE_eq_Inr_iff split: if_splits)
  note S = Sapling_CheckTransaction_sound[OF v assms(2)]
  note O = CheckTransaction_outs_exact[OF w _ assms(3)]
  have total: "w = total_out tx" "MoneyRange par w" using S O by (auto simp: total_out_def)
  show "distinct (map prevout (vin tx))" using dup by (simp add: duplicate_inputs_iff)
  show "\<forall>t \<in> set (vout tx). MoneyRange par (nValue t)" "MoneyRange par (total_out tx)" using S O total by auto
  show "MoneyRange par (shielded_in tx)" "MoneyRange par (shielded_out tx)"
    "hasSaplingData tx \<longrightarrow> isSaplingVersion tx \<and> \<not> HasZerocoinSpendInputs tx \<and> \<not> IsCoinBase tx \<and> \<not> IsCoinStake tx \<and>
       distinct (map sd_nullifier (vShieldedSpend (the (sapData tx))))" using S by auto
  show "1 \<le> nVersion tx" "nVersion tx \<le> 3" "GetTotalSize tx \<le> MAX_TX_SIZE_AFTER_SAPLING" by (fact basic)+
  show "IsCoinBase tx \<or> (\<forall>i \<in> set (vin tx). \<not> COutPoint_IsNull (prevout i))" using null by (auto simp: list_ex_iff)
qed

lemma CheckTransaction_GetValueOut:
  assumes "CheckTransaction par tx cs = Inr ()" "0 \<le> nMaxMoneyOut par" "nMaxMoneyOut par \<le> INT64_MAX"
  shows "GetValueOut tx = Inr (total_out tx)" "GetShieldedValueIn tx = Inr (shielded_in tx)"
proof -
  note s = CheckTransaction_sound[OF assms]
  have out: "\<forall>t \<in> set (vout tx). in_i64 (nValue t)" "\<forall>t \<in> set (vout tx). 0 \<le> nValue t"
    using s(2) assms(3) by (auto simp: in_i64_def MoneyRange_def)
  have "0 \<le> shielded_out tx" "total_out tx \<le> INT64_MAX" "0 \<le> total_out tx"
    using s(3,5) assms(3) by (auto simp: MoneyRange_def)
  moreover have "0 \<le> sum_list (map nValue (vout tx))" using out(2) by (intro sum_list_nonneg) auto
  ultimately have fit: "in_i64 (sum_list (map nValue (vout tx)))" "in_i64 (total_out tx)"
    by (auto simp: in_i64_def total_out_def)
  then have "GetValueOut_loop 0 (vout tx) = Inr (sum_list (map nValue (vout tx)))"
    using GetValueOut_loop_exact[OF out(1), of 0] out(2) by (simp add: in_i64_def)
  then show "GetValueOut tx = Inr (total_out tx)"
    using s(6) fit by (auto simp: GetValueOut_def total_out_def shielded_out_def add.commute)
  show "GetShieldedValueIn tx = Inr (shielded_in tx)"
    using s(6) by (simp add: GetShieldedValueIn_def shielded_in_def)
qed

lemma IsFinalTx_later:
  assumes "IsFinalTx now tx h t" "h \<le> h'" "0 < t" "t \<le> t'"
  shows "IsFinalTx now' tx h' t'"
  using assms by (auto simp: IsFinalTx_def Let_def split: if_splits)

text \<open>
  (C14) A transaction that passes \<open>CheckTransaction\<close> has sound amounts.  Although the running sum is
  a 64-bit addition that can wrap, no wrapped sum is ever accepted: the exact sum of all outputs
  and of the value entering the shielded pool lies between zero and the money supply, so
  \<open>GetValueOut\<close> and \<open>GetShieldedValueIn\<close> never throw afterwards and return exact values.  Its inputs
  are pairwise different, and so are its nullifiers, and it carries shielded data only in a version that may.
\<close>

theorem CheckTransaction_amounts:
  assumes "CheckTransaction par tx fColdStakingActive = Inr ()"
    and "0 \<le> nMaxMoneyOut par" "nMaxMoneyOut par \<le> INT64_MAX"
  shows "GetValueOut tx = Inr (total_out tx) \<and> GetShieldedValueIn tx = Inr (shielded_in tx) \<and>
    MoneyRange par (total_out tx) \<and> MoneyRange par (shielded_in tx) \<and>
    (\<forall>t \<in> set (vout tx). MoneyRange par (nValue t)) \<and> distinct (map prevout (vin tx)) \<and>
    (hasSaplingData tx \<longrightarrow> isSaplingVersion tx \<and> distinct (map sd_nullifier (vShieldedSpend (the (sapData tx)))))"
  using CheckTransaction_GetValueOut[OF assms] CheckTransaction_sound[OF assms] by auto

definition example_payment :: CTransaction where
  "example_payment = CMutableTransaction\<lparr>
     vin := [\<lparr>prevout = \<lparr>out_hash = replicate 32 1, out_n = 0\<rparr>, scriptSig = [0x51], nSequence = 0\<rparr>],
     vout := [\<lparr>nValue = 5, scriptPubKey = [0x51]\<rparr>, \<lparr>nValue = 7, scriptPubKey = [0x51]\<rparr>]\<rparr>"

definition example_params :: Params where
  "example_params = \<lparr>hashGenesisBlock = [], fPowAllowMinDifficultyBlocks = False, fPowNoRetargeting = False,
     powLimit = [], posLimitV1 = [], posLimitV2 = [], nBudgetCycleBlocks = 1, nCoinbaseMaturity = 10,
     nFutureTimeDriftPoW = 0, nFutureTimeDriftPoS = 0, nMaxMoneyOut = 100, nStakeMinAge = 0,
     nStakeMinDepth = 0, nTargetTimespan = 0, nTargetTimespanV2 = 0, nTargetSpacing = 0, nTimeSlotLength = 0,
     height_last_invalid_UTXO = 0, nKrovacoinBadBlockTime = 0, nKrovacoinBadBlockBits = 0, vUpgrades = []\<rparr>"

theorem CheckTransaction_amounts_witness:
  "CheckTransaction example_params example_payment False = Inr () \<and> total_out example_payment = 12 \<and>
   GetValueOut example_payment = Inr (12)"
proof -
  have size: "GetTotalSize example_payment = 72" by code_simp
  have shape: "vin example_payment \<noteq> []" "vout example_payment \<noteq> []" "nVersion example_payment = 1"
    by (simp_all add: example_payment_def CMutableTransaction_def)
  have sap: "Sapling_CheckTransaction example_params example_payment = Inr 0" by code_simp
  have outs: "CheckTransaction_outs example_params (IsCoinBase example_payment \<or> IsCoinStake example_payment) False 0
      (vout example_payment) = Inr (12)" by code_simp
  have rest: "\<not> duplicate_inputs [] (vin example_payment)" "\<not> IsCoinBase example_payment"
    "\<not> list_ex (\<lambda>txin. COutPoint_IsNull (prevout txin)) (vin example_payment)"
    by (code_simp, code_simp, code_simp)
  have run: "CheckTransaction example_params example_payment False = Inr ()"
    using size sap outs rest shape by (simp add: CheckTransaction_def)
  have tot: "total_out example_payment = 12" by code_simp
  show ?thesis
    using CheckTransaction_amounts[OF run] run tot by (simp add: example_params_def)
qed

definition empty_sapling_tx :: CTransaction where
  "empty_sapling_tx = CMutableTransaction\<lparr>nVersion := 3, sapData := None\<rparr>"

text \<open>
  The emptiness checks of \<open>CheckTransaction\<close> can be bypassed.  They are meant to reject a
  transaction without inputs and without shielded spends, but look at \<open>sapData\<close> only when it is
  present: a transaction of the Sapling version whose optional shielded data is absent, with no inputs
  and no outputs at all, is accepted, and it can be sent, since it survives the wire.
\<close>

theorem CheckTransaction_accepts_empty:
  "vin empty_sapling_tx = [] \<and> vout empty_sapling_tx = [] \<and> \<not> hasSaplingData empty_sapling_tx \<and>
   \<not> IsQuorumCommitmentTx empty_sapling_tx \<and>
   CheckTransaction par empty_sapling_tx fColdStakingActive = Inr () \<and>
   UnserializeTransaction (SerializeTransaction empty_sapling_tx) = Inr (empty_sapling_tx, [])"
proof -
  have size: "GetTotalSize empty_sapling_tx = 11" by code_simp
  have flags: "\<not> hasSaplingData empty_sapling_tx" "\<not> IsShieldedTx empty_sapling_tx" "\<not> IsCoinBase empty_sapling_tx"
    "\<not> IsQuorumCommitmentTx empty_sapling_tx"
    by (code_simp, code_simp, code_simp, code_simp)
  have ok: "ok_CTransaction empty_sapling_tx"
    by (simp add: empty_sapling_tx_def ok_CTransaction_def CMutableTransaction_def isSaplingVersion_def
        IsNormalType_def)
  have "CheckTransaction par empty_sapling_tx fColdStakingActive = Inr ()"
    using size flags
    by (simp add: CheckTransaction_def Sapling_CheckTransaction_def empty_sapling_tx_def CMutableTransaction_def
        sapData_and_def)
  then show ?thesis
    using flags txcodec.unser_ser[OF ok, of "[]"] by (simp add: empty_sapling_tx_def CMutableTransaction_def)
qed

end
