(* ===== verification/Premine.thy ===== *)
theory Premine
imports TxVerify Spending
begin

text \<open>
  The premine (\<open>consensus/premine.h\<close>, \<open>consensus/premine.cpp\<close>) and the vesting schedule of the team
  allocation (\<open>consensus/vesting.cpp\<close>): the outputs that the coinbase of block 1 must have, the
  calendar arithmetic that dates the vesting tranches, and what the time locks of the tranches enforce.
\<close>

section \<open>Calendar time\<close>

text \<open>
  \<open>gmtime\<close> and \<open>timegm\<close> of the C library on the proleptic Gregorian calendar.  Years are written
  in full, months count from 0, days of the month from 1.  \<open>timegm\<close> accepts a month number outside of
  a year and carries it into the year, and adds the day of the month as an offset.
\<close>

record tm =
  tm_year :: int
  tm_mon :: int
  tm_mday :: int
  tm_hour :: int
  tm_min :: int
  tm_sec :: int

definition leap :: "int \<Rightarrow> bool" where
  "leap y \<longleftrightarrow> y mod 4 = 0 \<and> (y mod 100 \<noteq> 0 \<or> y mod 400 = 0)"

definition days_before_year :: "int \<Rightarrow> int" where
  "days_before_year y = 365 * y + (y + 3) div 4 - (y + 99) div 100 + (y + 399) div 400"

definition days_before_month :: "int \<Rightarrow> nat \<Rightarrow> int" where
  "days_before_month y m =
     [0, 31, 59, 90, 120, 151, 181, 212, 243, 273, 304, 334] ! m + (if 2 \<le> m \<and> leap y then 1 else 0)"

abbreviation (input) EPOCH_DAYS :: int where "EPOCH_DAYS \<equiv> 719528"

definition year_of :: "int \<Rightarrow> int" where
  "year_of d =
     (let y = 400 * d div 146097
      in if days_before_year (y + 1) \<le> d then y + 1 else if d < days_before_year y then y - 1 else y)"

definition gmtime :: "int \<Rightarrow> tm" where
  "gmtime t =
     (let d = t div 86400 + EPOCH_DAYS;
          s = t mod 86400;
          y = year_of d;
          yday = d - days_before_year y;
          m = last (filter (\<lambda>m. days_before_month y m \<le> yday) [0..<12])
      in \<lparr>tm_year = y, tm_mon = int m, tm_mday = yday - days_before_month y m + 1,
          tm_hour = s div 3600, tm_min = s mod 3600 div 60, tm_sec = s mod 60\<rparr>)"

definition timegm :: "tm \<Rightarrow> int" where
  "timegm v =
     (let y = tm_year v + tm_mon v div 12;
          m = nat (tm_mon v mod 12);
          d = days_before_year y + days_before_month y m + tm_mday v - 1 - EPOCH_DAYS
      in d * 86400 + tm_hour v * 3600 + tm_min v * 60 + tm_sec v)"

subsection \<open>The calendar functions are inverse\<close>

lemma days_before_year_bounds:
  "146097 * y - 396 \<le> 400 * days_before_year y" "400 * days_before_year y \<le> 146097 * y + 699"
proof -
  define a b c where "a = (y + 3) div 4" and "b = (y + 99) div 100" and "c = (y + 399) div 400"
  have "4 * a \<ge> y" "4 * a \<le> y + 3" "100 * b \<ge> y" "100 * b \<le> y + 99" "400 * c \<ge> y" "400 * c \<le> y + 399"
    unfolding a_def b_def c_def by linarith+
  moreover have "400 * days_before_year y = 146000 * y + 100 * (4 * a) - 4 * (100 * b) + 400 * c"
    unfolding days_before_year_def a_def b_def c_def by simp
  ultimately show "146097 * y - 396 \<le> 400 * days_before_year y" "400 * days_before_year y \<le> 146097 * y + 699"
    by simp_all
qed

lemma div_step:
  fixes y n k :: int
  assumes n: "0 < n" and k: "k = n - 1"
  shows "(y + 1 + k) div n = (y + k) div n + (if y mod n = 0 then 1 else 0)"
proof -
  define q r where "q = y div n" and "r = y mod n"
  have y: "y = n * q + r" "0 \<le> r" "r < n" using n by (simp_all add: q_def r_def)
  have "(y + 1 + k) div n = q + 1" using n y k by (intro int_div_pos_eq[of _ _ _ r]) (simp_all add: algebra_simps)
  moreover have "(y + k) div n = q" if "r = 0" using n y k that by (intro int_div_pos_eq[of _ _ _ "n - 1"]) simp_all
  moreover have "(y + k) div n = q + 1" if "r \<noteq> 0" using n y k that by (intro int_div_pos_eq[of _ _ _ "r - 1"]) (simp_all add: algebra_simps)
  ultimately show ?thesis by (simp add: r_def)
qed

lemma leap_count:
  fixes y :: int
  shows "(if y mod 4 = 0 then 1 else 0) - (if y mod 100 = 0 then 1 else 0) + (if y mod 400 = 0 then 1 else 0) = (if leap y then 1 else (0 :: int))"
proof -
  have d: "y mod 100 = 0" if "y mod 400 = 0"
    using that dvd_trans[OF dvdI[of 400 100 4]] unfolding mod_eq_0_iff_dvd by fastforce
  have e: "y mod 4 = 0" if "y mod 100 = 0"
    using that dvd_trans[OF dvdI[of 100 4 25]] unfolding mod_eq_0_iff_dvd by fastforce
  show ?thesis
    unfolding leap_def using d e
    by (cases "y mod 4 = 0"; cases "y mod 100 = 0"; cases "y mod 400 = 0") (simp_all only: if_True if_False simp_thms diff_0_right add_0_left diff_self add_0_right)
qed

lemma days_before_year_Suc: "days_before_year (y + 1) = days_before_year y + 365 + (if leap y then 1 else 0)"
proof -
  have a: "(y + 1 + 3) div 4 = (y + 3) div 4 + (if y mod 4 = 0 then 1 else 0)" by (rule div_step) simp_all
  have b: "(y + 1 + 99) div 100 = (y + 99) div 100 + (if y mod 100 = 0 then 1 else 0)" by (rule div_step) simp_all
  have c: "(y + 1 + 399) div 400 = (y + 399) div 400 + (if y mod 400 = 0 then 1 else 0)" by (rule div_step) simp_all
  have "365 * (y + 1) + (A + p) - (B + q) + (C + r) = (365 * y + A - B + C) + 365 + (p - q + r)" for A B C p q r :: int by simp
  then show ?thesis unfolding days_before_year_def a b c leap_count[symmetric] .
qed

lemma year_of_correct: "days_before_year (year_of d) \<le> d" "d < days_before_year (year_of d + 1)"
proof -
  define y where "y = 400 * d div 146097"
  have "146097 * y \<le> 400 * d" "400 * d < 146097 * y + 146097" unfolding y_def by linarith+
  note b = this
  have "400 * days_before_year (y - 1) \<le> 400 * d" using b(1) days_before_year_bounds(2)[of "y - 1"] by (simp add: algebra_simps)
  then have "days_before_year (y - 1) \<le> d" by simp
  have "400 * d < 400 * days_before_year (y + 2)" using b(2) days_before_year_bounds(1)[of "y + 2"] by (simp add: algebra_simps)
  then have "d < days_before_year (y + 2)" by simp
  with \<open>days_before_year (y - 1) \<le> d\<close> show "days_before_year (year_of d) \<le> d" "d < days_before_year (year_of d + 1)"
    unfolding year_of_def y_def[symmetric] Let_def by (simp_all add: add.commute)
qed

lemma timegm_gmtime: "timegm (gmtime t) = t"
proof -
  define d where "d = t div 86400 + EPOCH_DAYS"
  define y where "y = year_of d"
  define m where "m = last (filter (\<lambda>m. days_before_month y m \<le> d - days_before_year y) [0..<12])"
  have "days_before_month y 0 \<le> d - days_before_year y" using year_of_correct(1)[of d] by (simp add: y_def days_before_month_def)
  then have "0 \<in> set (filter (\<lambda>m. days_before_month y m \<le> d - days_before_year y) [0..<12])" by simp
  then have "filter (\<lambda>m. days_before_month y m \<le> d - days_before_year y) [0..<12] \<noteq> []" by (metis list.set(1) empty_iff)
  then have "m \<in> set (filter (\<lambda>m. days_before_month y m \<le> d - days_before_year y) [0..<12])" unfolding m_def by (rule last_in_set)
  then have "m < 12" by simp
  then have m: "int m div 12 = 0" "nat (int m mod 12) = m" by auto
  have s: "s div 3600 * 3600 + s mod 3600 div 60 * 60 + s mod 60 = s" for s :: int
  proof -
    have "s mod 3600 mod 60 = s mod 60" by (rule mod_mod_cancel) (rule dvdI[of _ _ 60], simp)
    then have "s mod 3600 div 60 * 60 + s mod 60 = s mod 3600" by (metis div_mult_mod_eq)
    then show ?thesis using div_mult_mod_eq[of s 3600] by linarith
  qed
  have "timegm (gmtime t) = (d - EPOCH_DAYS) * 86400 + (t mod 86400 div 3600 * 3600 + t mod 86400 mod 3600 div 60 * 60 + t mod 86400 mod 60)"
    unfolding timegm_def gmtime_def Let_def d_def[symmetric] y_def[symmetric] m_def[symmetric] by (simp only: tm.select_convs m) simp
  also have "\<dots> = t" unfolding s d_def by simp
  finally show ?thesis .
qed

subsection \<open>Months\<close>

text \<open>The day on which a month starts, months being counted from year 0 on.\<close>

definition month_start :: "int \<Rightarrow> int" where
  "month_start k = days_before_year (k div 12) + days_before_month (k div 12) (nat (k mod 12))"

lemma month_start_step: "month_start k + 28 \<le> month_start (k + 1)" "month_start (k + 1) \<le> month_start k + 31"
proof -
  define y where "y = k div 12"
  define m where "m = nat (k mod 12)"
  have k: "k = 12 * y + int m" "m < 12" unfolding y_def m_def by auto
  have "m \<in> {0,1,2,3,4,5,6,7,8,9,10,11}" using k(2) by (simp add: less_Suc_eq numeral_eq_Suc)
  then have "days_before_month y m + 28 \<le> days_before_month y (m + 1) \<and> days_before_month y (m + 1) \<le> days_before_month y m + 31" if "m \<noteq> 11"
    using that by (auto simp: days_before_month_def)
  moreover have "month_start (k + 1) = days_before_year (y + 1)" if "m = 11"
    using k that by (simp add: month_start_def days_before_month_def add.commute)
  moreover have "month_start (k + 1) = days_before_year y + days_before_month y (m + 1)" if "m \<noteq> 11"
  proof -
    have "k + 1 = int m + 1 + 12 * y" using k(1) by simp
    moreover have "(int m + 1) div 12 = 0" "(int m + 1) mod 12 = int m + 1" using k(2) that by auto
    ultimately have "(k + 1) div 12 = y" "(k + 1) mod 12 = int m + 1" by (simp_all only: mod_mult_self2 div_mult_self2)
    then have "(k + 1) div 12 = y" "nat ((k + 1) mod 12) = m + 1" by (simp_all add: nat_add_distrib)
    then show ?thesis by (simp add: month_start_def)
  qed
  moreover have "month_start k = days_before_year y + days_before_month y m" by (simp add: month_start_def y_def m_def)
  moreover have "days_before_month y 11 = 334 + (if leap y then 1 else 0)" by (simp add: days_before_month_def)
  ultimately have "month_start k + 28 \<le> month_start (k + 1) \<and> month_start (k + 1) \<le> month_start k + 31"
    by (cases "m = 11") (simp_all add: days_before_year_Suc)
  then show "month_start k + 28 \<le> month_start (k + 1)" "month_start (k + 1) \<le> month_start k + 31" by simp_all
qed

section \<open>The vesting schedule\<close>

definition AddMonthsUTC :: "int \<Rightarrow> int \<Rightarrow> int" where
  "AddMonthsUTC unixTime months =
     (let tmVal = gmtime unixTime
      in timegm (tmVal\<lparr>tm_mon := tm_mon tmVal + months\<rparr>))"

lemma AddMonthsUTC_0: "AddMonthsUTC t 0 = t"
  by (simp add: AddMonthsUTC_def timegm_gmtime)

lemma AddMonthsUTC_start:
  "AddMonthsUTC t n = (let v = gmtime t in
     (month_start (12 * tm_year v + tm_mon v + n) + tm_mday v - 1 - EPOCH_DAYS) * 86400 + tm_hour v * 3600 + tm_min v * 60 + tm_sec v)"
proof -
  have "(12 * y + m + n) div 12 = y + (m + n) div 12" "(12 * y + m + n) mod 12 = (m + n) mod 12" for y m :: int
    by (simp_all add: add.assoc)
  then show ?thesis by (simp add: AddMonthsUTC_def timegm_def month_start_def Let_def)
qed

lemma AddMonthsUTC_step: "AddMonthsUTC t n + 28 * 86400 \<le> AddMonthsUTC t (n + 1)" "AddMonthsUTC t (n + 1) \<le> AddMonthsUTC t n + 31 * 86400"
  using month_start_step[of "12 * tm_year (gmtime t) + tm_mon (gmtime t) + n"]
  unfolding AddMonthsUTC_start Let_def by (simp_all add: algebra_simps)

section \<open>The premine\<close>

record PremineAllocation =
  pa_name :: string
  pa_amount :: CAmount
  pa_scriptPubKeyHex :: string

definition vPremineAllocations :: "PremineAllocation list" where
  "vPremineAllocations =
     [\<lparr>pa_name = ''StakingRewardsPool'', pa_amount = 25200000000 * COIN, pa_scriptPubKeyHex = ''76a914d5799b311c94188c9c4b5271f9735666dba138e188ac''\<rparr>,
      \<lparr>pa_name = ''EcosystemTreasury'', pa_amount = 14400000000 * COIN, pa_scriptPubKeyHex = ''76a9147a5acc292eaee02a8ff3192c3875ccd960e0896388ac''\<rparr>,
      \<lparr>pa_name = ''TeamFounders'', pa_amount = 7200000000 * COIN, pa_scriptPubKeyHex = ''76a914a6d1abf6015c6291b3a4d988a8f07401fe6c490388ac''\<rparr>,
      \<lparr>pa_name = ''Community'', pa_amount = 10800000000 * COIN, pa_scriptPubKeyHex = ''76a914e6f6a25cc877f18211e2c546e6618857b3eab0f188ac''\<rparr>,
      \<lparr>pa_name = ''PublicSaleLiquidity'', pa_amount = 10800000000 * COIN, pa_scriptPubKeyHex = ''76a914611f57de4233c92f95a4310c57ffef8347b9ba6c88ac''\<rparr>,
      \<lparr>pa_name = ''StrategicReserve'', pa_amount = 3600000000 * COIN, pa_scriptPubKeyHex = ''76a9144fafdae3b2a0bc9fdc2f9c5ccb3f08838084b57e88ac''\<rparr>]"

text \<open>Failed assertions are \<open>None\<close>.\<close>

definition GetStakingRewardsPoolAllocation :: "PremineAllocation option" where
  "GetStakingRewardsPoolAllocation =
     (if pa_name (vPremineAllocations ! 0) = ''StakingRewardsPool'' then Some (vPremineAllocations ! 0) else None)"

definition GetTeamFoundersAllocation :: "PremineAllocation option" where
  "GetTeamFoundersAllocation =
     (if pa_name (vPremineAllocations ! 2) = ''TeamFounders'' then Some (vPremineAllocations ! 2) else None)"

definition TEST_PREMINE_SCRIPTPUBKEY_HEX :: string where
  "TEST_PREMINE_SCRIPTPUBKEY_HEX = ''76a91492f2bd80a027f45a50c1a0b44b0754e5e976238288ac''"

definition GetEffectiveScriptPubKeyHex :: "CChainParams \<Rightarrow> PremineAllocation \<Rightarrow> string" where
  "GetEffectiveScriptPubKeyHex cp allocation =
     (if strNetworkID cp = ''main'' then pa_scriptPubKeyHex allocation else TEST_PREMINE_SCRIPTPUBKEY_HEX)"

fun GetPremineTotal_loop :: "CAmount \<Rightarrow> PremineAllocation list \<Rightarrow> CAmount option" where
  "GetPremineTotal_loop acc [] = Some acc"
| "GetPremineTotal_loop acc (a # as) =
     (case CheckedAdd acc (pa_amount a) of None \<Rightarrow> None | Some acc' \<Rightarrow> GetPremineTotal_loop acc' as)"

definition GetPremineTotal :: "CAmount option" where
  "GetPremineTotal =
     (case GetPremineTotal_loop 0 vPremineAllocations of
        None \<Rightarrow> None
      | Some acc \<Rightarrow> if acc = 72000000000 * COIN then Some acc else None)"

abbreviation (input) VESTING_CLIFF_MONTHS :: int where "VESTING_CLIFF_MONTHS \<equiv> 12"
abbreviation (input) VESTING_TRANCHE_COUNT :: nat where "VESTING_TRANCHE_COUNT \<equiv> 36"

definition GetCLTVPayToPubKeyHash :: "int \<Rightarrow> bytes \<Rightarrow> bytes" where
  "GetCLTVPayToPubKeyHash lockTime keyID =
     push_int64 lockTime @ push_op OP_CHECKLOCKTIMEVERIFY @ push_op OP_DROP @
     push_op OP_DUP @ push_op OP_HASH160 @ push_vch keyID @ push_op OP_EQUALVERIFY @ push_op OP_CHECKSIG"

definition GetTeamVestingOutputs :: "CChainParams \<Rightarrow> CTxOut list option" where
  "GetTeamVestingOutputs cp =
     (case GetTeamFoundersAllocation of
        None \<Rightarrow> None
      | Some team \<Rightarrow>
          if pa_amount team mod int VESTING_TRANCHE_COUNT \<noteq> 0 then None
          else
            (case ExtractDestination (ParseHex (GetEffectiveScriptPubKeyHex cp team)) False of
               Some (CKeyID keyID) \<Rightarrow>
                 Some (map (\<lambda>i. \<lparr>nValue = pa_amount team div int VESTING_TRANCHE_COUNT,
                                  scriptPubKey = GetCLTVPayToPubKeyHash
                                    (AddMonthsUTC (int (bh_nTime (genesis cp))) (VESTING_CLIFF_MONTHS + int i)) keyID\<rparr>)
                        [0..<VESTING_TRANCHE_COUNT])
             | _ \<Rightarrow> None))"

definition GetPremineOutputs :: "CChainParams \<Rightarrow> CTxOut list option" where
  "GetPremineOutputs cp =
     (case GetTeamFoundersAllocation of
        None \<Rightarrow> None
      | Some team \<Rightarrow>
          (case GetTeamVestingOutputs cp of
             None \<Rightarrow> None
           | Some vesting \<Rightarrow>
               Some (map (\<lambda>a. \<lparr>nValue = pa_amount a, scriptPubKey = ParseHex (GetEffectiveScriptPubKeyHex cp a)\<rparr>)
                       (filter (\<lambda>a. pa_name a \<noteq> pa_name team) vPremineAllocations) @ vesting)))"

fun outputs_match :: "CTxOut list \<Rightarrow> CTxOut list \<Rightarrow> bool" where
  "outputs_match (t # ts) (e # es) =
     (if nValue t \<noteq> nValue e then False
      else if scriptPubKey t \<noteq> scriptPubKey e then False
      else outputs_match ts es)"
| "outputs_match _ _ = True"

definition CheckPremineCoinbase :: "CChainParams \<Rightarrow> CTransaction \<Rightarrow> bool option" where
  "CheckPremineCoinbase cp coinbaseTx =
     (case GetPremineOutputs cp of
        None \<Rightarrow> None
      | Some expected \<Rightarrow>
          Some (if length (vout coinbaseTx) \<noteq> length expected then False
                else outputs_match (vout coinbaseTx) expected))"

section \<open>The time locks\<close>

lemma CScriptNum_serialize_length:
  assumes "256 \<le> n" "n < 2 ^ 39"
  shows "1 < length (CScriptNum_serialize n)" "length (CScriptNum_serialize n) \<le> 5"
proof -
  let ?r = "digits256 (nat n)"
  have s: "CScriptNum_serialize n = sign_bytes False ?r" using assms by (subst serialize_eq) auto
  have d: "?r = of_nat (nat n) # of_nat (nat n div 256) # digits256 (nat n div 256 div 256)"
    using assms by (simp add: digits256_pos)
  then show "1 < length (CScriptNum_serialize n)" unfolding s by (simp add: sign_bytes_def)
  have "last ?r \<noteq> 0" "?r \<noteq> []" using assms last_digits256[of "nat n"] by auto
  moreover have "nat n < 128 * 256 ^ 4" using assms by simp
  ultimately show "length (CScriptNum_serialize n) \<le> 5"
    unfolding s using length_sign_bytes[of ?r 5 False] by (simp add: le_val_digits256)
qed

lemma GetCLTVPayToPubKeyHash_eq:
  assumes "256 \<le> T"
  shows "GetCLTVPayToPubKeyHash T h = push_vch (CScriptNum_serialize T) @ push_op OP_CHECKLOCKTIMEVERIFY @
    push_op OP_DROP @ GetScriptForDestination (CKeyID h)"
  using assms by (simp add: GetCLTVPayToPubKeyHash_def push_int64_def GetScriptForDestination_def)

lemma run_P2PKH_at:
  assumes h: "length h = 20" "n \<le> 10"
  shows "EvalScript_loop env (GetScriptForDestination (CKeyID h)) (machine stk [] n code) = Inr st' \<longleftrightarrow>
    (\<exists>pk sig rest b. stk = pk # sig # rest \<and> length rest \<le> 996 \<and> Hash160 pk = h \<and> sig_checked env code pk sig b \<and>
       st' = machine (vchBool b # rest) [] (n + 4) code)"
proof (cases stk)
  case (Cons pk stk1)
  then show ?thesis
    using h
    by (auto simp: standard_tails run_op run_switch op_dup_def op_hash_def EvalScript_loop_push20 run_checksig_tail
        split del: if_split)
qed (use h in \<open>simp add: standard_tails run_op run_switch op_dup_def\<close>)

lemma script_num_serialize:
  assumes "\<bar>n\<bar> < 2 ^ 39"
  shows "script_num env (CScriptNum_serialize n) 5 = Inr n"
  using CScriptNum_vch_serialize[of 5 n "fRequireMinimal env"] assms by (simp add: script_num_def)

lemma EvalScript_loop_push_limit:
  assumes "push_allowed env b" and "False \<notin> set (e_vfExec st)"
  shows "EvalScript_loop env (push_vch b @ rest) st =
    bindE (stack_limit (st\<lparr>e_stack := b # e_stack st\<rparr>)) (EvalScript_loop env rest)"
proof -
  have "length b < 2 ^ 32" using assms(1) by (simp add: push_allowed_def)
  note step = EvalScript_loop_ok[OF GetOp2_push_vch[OF this, of rest]]
  show ?thesis
    using assms push_opcode_le[of b]
    by (auto simp: step hd_push_vch EvalScript_op_def Let_def push_allowed_def)
qed

lemma run_CLTV_DROP:
  assumes "flag (ev_flags env) SCRIPT_VERIFY_CHECKLOCKTIMEVERIFY" "script_num env v 5 = Inr T" "0 \<le> T"
  shows "EvalScript_loop env (push_op OP_CHECKLOCKTIMEVERIFY @ push_op OP_DROP @ rest) (machine (v # stk) [] 0 code) =
      Inr st' \<longleftrightarrow>
    CheckLockTime (ev_checker env) T \<and> length stk < 1000 \<and>
    EvalScript_loop env rest (machine stk [] (Suc (Suc 0)) code) = Inr st'"
  using assms by (auto simp: run_op run_switch op_checklocktimeverify_def op_drop_def)

lemma run_CLTV:
  assumes T: "256 \<le> T" "T < 2 ^ 39" and h: "length h = 20"
    and f: "flag (ev_flags env) SCRIPT_VERIFY_CHECKLOCKTIMEVERIFY"
  shows "EvalScript_loop env (GetCLTVPayToPubKeyHash T h) (machine stk [] 0 code) = Inr st' \<longleftrightarrow>
    CheckLockTime (ev_checker env) T \<and> length stk < 1000 \<and>
    (\<exists>pk sig rest b. stk = pk # sig # rest \<and> length rest \<le> 996 \<and> Hash160 pk = h \<and> sig_checked env code pk sig b \<and>
       st' = machine (vchBool b # rest) [] (Suc (Suc 0) + 4) code)"
proof -
  define v where "v = CScriptNum_serialize T"
  have v: "push_allowed env v"
    unfolding v_def using CScriptNum_serialize_length[OF T] by (intro push_allowed_long) auto
  have num: "script_num env v 5 = Inr T" unfolding v_def using T by (intro script_num_serialize) auto
  have n: "Suc (Suc 0) \<le> 10" by simp
  have "EvalScript_loop env (GetCLTVPayToPubKeyHash T h) (machine stk [] 0 code) = Inr st' \<longleftrightarrow>
     length stk < 1000 \<and> EvalScript_loop env (push_op OP_CHECKLOCKTIMEVERIFY @ push_op OP_DROP @
       GetScriptForDestination (CKeyID h)) (machine (v # stk) [] 0 code) = Inr st'"
    unfolding GetCLTVPayToPubKeyHash_eq[OF T(1)] v_def[symmetric]
    by (auto simp: EvalScript_loop_push_limit[OF v] bindE_eq_Inr_iff stack_limit_eq_Inr)
  also have "\<dots> \<longleftrightarrow> CheckLockTime (ev_checker env) T \<and> length stk < 1000 \<and>
     EvalScript_loop env (GetScriptForDestination (CKeyID h)) (machine stk [] (Suc (Suc 0)) code) = Inr st'"
    using run_CLTV_DROP[OF f num] T by auto
  finally show ?thesis unfolding run_P2PKH_at[OF h n] .
qed

lemma GetCLTVPayToPubKeyHash_shape:
  assumes "256 \<le> T" "T < 2 ^ 39" "length h = 20"
  shows "length (GetCLTVPayToPubKeyHash T h) \<le> 10000" "\<not> IsPayToScriptHash (GetCLTVPayToPubKeyHash T h)"
proof -
  have len: "length (GetCLTVPayToPubKeyHash T h) = length (CScriptNum_serialize T) + 28"
    using assms CScriptNum_serialize_length[OF assms(1,2)]
    by (simp add: GetCLTVPayToPubKeyHash_eq GetScriptForDestination_def push_op_def push_vch_def)
  then show "length (GetCLTVPayToPubKeyHash T h) \<le> 10000" using CScriptNum_serialize_length[OF assms(1,2)] by simp
  show "\<not> IsPayToScriptHash (GetCLTVPayToPubKeyHash T h)"
    using len by (simp add: IsPayToScriptHash_def)
qed

lemma CLTV_spend:
  assumes T: "256 \<le> T" "T < 2 ^ 39" and h: "length h = 20"
    and f: "flag flags SCRIPT_VERIFY_CHECKLOCKTIMEVERIFY"
    and ok: "VerifyScript scrSig (GetCLTVPayToPubKeyHash T h) flags ck sv = Some (Inr ())"
  shows "CheckLockTime ck T \<and> (\<exists>pk sig rest. EvalScript [] scrSig flags ck sv = Inr (pk # sig # rest) \<and> Hash160 pk = h \<and>
    sig_checked \<lparr>ev_script = GetCLTVPayToPubKeyHash T h, ev_flags = flags, ev_checker = ck, ev_sigversion = sv\<rparr>
      (GetCLTVPayToPubKeyHash T h) pk sig True)"
proof -
  let ?s = "GetCLTVPayToPubKeyHash T h"
  let ?env = "\<lparr>ev_script = ?s, ev_flags = flags, ev_checker = ck, ev_sigversion = sv\<rparr>"
  note shape = GetCLTVPayToPubKeyHash_shape[OF T h]
  obtain st1 x st2 where st1: "EvalScript [] scrSig flags ck sv = Inr st1"
    and ev: "EvalScript st1 ?s flags ck sv = Inr (x # st2)" and x: "CastToBool x"
    using ok unfolding VerifyScript_not_P2SH[OF shape(2)] by blast
  obtain st' where st': "EvalScript_loop ?env ?s (machine st1 [] 0 ?s) = Inr st'" "e_stack st' = x # st2"
    using ev unfolding EvalScript_eq_Inr by blast
  have "flag (ev_flags ?env) SCRIPT_VERIFY_CHECKLOCKTIMEVERIFY" using f by simp
  note R = st'(1)[unfolded run_CLTV[OF T h this]]
  then obtain pk sig rest b where R': "st1 = pk # sig # rest" "Hash160 pk = h" "sig_checked ?env ?s pk sig b"
    "st' = machine (vchBool b # rest) [] (Suc (Suc 0) + 4) ?s" by blast
  have "b" using R'(4) st'(2) x by (cases b) (simp_all add: vchFalse_def)
  then show ?thesis using R[THEN conjunct1] R' st1 by auto
qed

text \<open>
  (C24) A vesting tranche cannot be spent early.  Whatever scripts, signatures and flags are used, as
  long as \<open>OP_CHECKLOCKTIMEVERIFY\<close> is enforced: an input that satisfies the script of a tranche with
  unlock time T belongs to a transaction whose lock time is at least T and which is not final in any
  block with a time up to T, at any height; and it shows the public key of the owner with a
  signature that was checked.
\<close>

theorem vesting_tranche_locked:
  assumes "int LOCKTIME_THRESHOLD \<le> T" "T < 2 ^ 39" "length keyID = 20" "nIn < length (vin tx)"
    and "flag flags SCRIPT_VERIFY_CHECKLOCKTIMEVERIFY"
    and "VerifyScript scrSig (GetCLTVPayToPubKeyHash T keyID) flags
           (TransactionSignatureChecker c tx nIn amount cache) sv = Some (Inr ())"
  shows "T \<le> int (nLockTime tx) \<and>
    (\<forall>now h t. 0 < t \<and> t \<le> T \<longrightarrow> \<not> IsFinalTx now tx h t) \<and>
    (\<exists>pk sig rest. EvalScript [] scrSig flags (TransactionSignatureChecker c tx nIn amount cache) sv = Inr (pk # sig # rest) \<and>
       Hash160 pk = keyID)"
proof -
  have T: "256 \<le> T" using assms(1) by simp
  note S = CLTV_spend[OF T assms(2,3,5,6)]
  then have "Checker_CheckLockTime tx nIn T" by (simp add: TransactionSignatureChecker_def)
  then have lock: "T \<le> int (nLockTime tx)" and nf: "\<not> CTxIn_IsFinal (vin tx ! nIn)"
    by (auto simp: Checker_CheckLockTime_def split: if_splits)
  have "\<not> list_all CTxIn_IsFinal (vin tx)" using nf assms(4) by (auto simp: list_all_length)
  then have "\<not> IsFinalTx now tx h t" if "0 < t" "t \<le> T" for now h t
    using lock that assms(1) by (simp add: IsFinalTx_def Let_def)
  then show ?thesis using lock S by auto
qed

definition vesting_spend :: CTransaction where
  "vesting_spend = example_tx\<lparr>nLockTime := 1900000000\<rparr>"

lemma vesting_spend_runs:
  "VerifyScript (push_vch (replicate 71 1) @ push_vch (2 # replicate 32 0))
     (GetCLTVPayToPubKeyHash 1817467200 (Hash160 (2 # replicate 32 0))) (2 ^ SCRIPT_VERIFY_CHECKLOCKTIMEVERIFY)
     (TransactionSignatureChecker example_crypto vesting_spend 0 7 None) SIGVERSION_BASE = Some (Inr ())"
proof -
  let ?h = "Hash160 (2 # replicate 32 0)" and ?flags = "2 ^ SCRIPT_VERIFY_CHECKLOCKTIMEVERIFY :: nat"
  let ?ck = "TransactionSignatureChecker example_crypto vesting_spend 0 7 None"
  let ?s = "GetCLTVPayToPubKeyHash 1817467200 ?h"
  let ?env = "\<lparr>ev_script = ?s, ev_flags = ?flags, ev_checker = ?ck, ev_sigversion = SIGVERSION_BASE\<rparr>"
  have h: "length ?h = 20" by (rule length_Hash160)
  have T: "(256 :: int) \<le> 1817467200" "(1817467200 :: int) < 2 ^ 39" by simp_all
  have f: "flag (ev_flags ?env) SCRIPT_VERIFY_CHECKLOCKTIMEVERIFY" by (simp add: flag_def)
  have lock: "CheckLockTime ?ck 1817467200"
    by (simp add: TransactionSignatureChecker_def Checker_CheckLockTime_def vesting_spend_def example_tx_def
        CMutableTransaction_def CTxIn_IsFinal_def)
  have sig: "sig_checked ?env ?s (2 # replicate 32 0) (replicate 71 1) True"
    by (simp add: sig_checked_def CheckEncodings_def checker_CheckSig_def TransactionSignatureChecker_def Checker_CheckSig_def
        CPubKey_Set_def CPubKey_GetLen_def SignatureHash_def vesting_spend_def example_tx_def CMutableTransaction_def
        isSaplingVersion_def example_crypto_def CheckSignatureEncoding_def CheckPubKeyEncoding_def flag_def)
  have "EvalScript [2 # replicate 32 0, replicate 71 1] ?s ?flags ?ck SIGVERSION_BASE = Inr [vchTrue]"
    unfolding EvalScript_eq_Inr run_CLTV[OF T h f]
    using GetCLTVPayToPubKeyHash_shape[OF T h] lock sig by fastforce
  moreover have "EvalScript [] (push_vch (replicate 71 1) @ push_vch (2 # replicate 32 0)) ?flags ?ck SIGVERSION_BASE =
      Inr [2 # replicate 32 0, replicate 71 1]" by (rule EvalScript_sig_key) simp_all
  ultimately show ?thesis
    unfolding VerifyScript_not_P2SH[OF GetCLTVPayToPubKeyHash_shape(2)[OF T h]]
    by (auto simp: flag_def vchTrue_def)
qed

theorem vesting_tranche_locked_witness:
  "1817467200 \<le> int (nLockTime vesting_spend) \<and> \<not> IsFinalTx 0 vesting_spend 5000 1817467200"
  using vesting_tranche_locked[OF _ _ _ _ _ vesting_spend_runs]
  by (simp add: length_Hash160 flag_def vesting_spend_def example_tx_def)

section \<open>The outputs of block 1\<close>

lemma outputs_match_iff: "length ts = length es \<Longrightarrow> outputs_match ts es \<longleftrightarrow> ts = es"
  by (induction ts es rule: outputs_match.induct) auto

lemma genesis_time:
  "bh_nTime (genesis CMainParams) = 1785931200"
  "bh_nTime (genesis CTestNetParams) = 1786170027"
  "bh_nTime (genesis CRegTestParams) = 1785920000"
  unfolding CMainParams_def CTestNetParams_def CRegTestParams_def CMainParams_genesis_def CTestNetParams_genesis_def
    CRegTestParams_genesis_def CreateGenesisBlock_def CreateGenesisBlock_script_def Let_def CBlock_of_header_def
    CBlockHeader_SetNull_def
  by (simp_all add: CBlockHeader.defs)

definition team_key :: "CChainParams \<Rightarrow> bytes" where
  "team_key cp = ParseHex (if strNetworkID cp = ''main'' then ''a6d1abf6015c6291b3a4d988a8f07401fe6c4903''
     else ''92f2bd80a027f45a50c1a0b44b0754e5e9762382'')"

lemma length_team_key: "length (team_key cp) = 20"
proof -
  have "length (ParseHex ''a6d1abf6015c6291b3a4d988a8f07401fe6c4903'') = 20" by code_simp
  moreover have "length (ParseHex ''92f2bd80a027f45a50c1a0b44b0754e5e9762382'') = 20" by code_simp
  ultimately show ?thesis by (simp only: team_key_def split: if_split) blast
qed

lemma team_scripts:
  "ParseHex ''76a914a6d1abf6015c6291b3a4d988a8f07401fe6c490388ac'' =
     GetScriptForDestination (CKeyID (ParseHex ''a6d1abf6015c6291b3a4d988a8f07401fe6c4903''))"
  "ParseHex ''76a91492f2bd80a027f45a50c1a0b44b0754e5e976238288ac'' =
     GetScriptForDestination (CKeyID (ParseHex ''92f2bd80a027f45a50c1a0b44b0754e5e9762382''))"
  by (code_simp, code_simp)

lemma GetTeamFoundersAllocation_eq:
  "GetTeamFoundersAllocation = Some \<lparr>pa_name = ''TeamFounders'', pa_amount = 7200000000 * COIN,
     pa_scriptPubKeyHex = ''76a914a6d1abf6015c6291b3a4d988a8f07401fe6c490388ac''\<rparr>"
  unfolding GetTeamFoundersAllocation_def vPremineAllocations_def by (simp only: nth_Cons_numeral nth_Cons_0 nth_Cons_Suc
      numeral_2_eq_2 PremineAllocation.select_convs if_True refl)

lemma team_script: "ParseHex (GetEffectiveScriptPubKeyHex cp \<lparr>pa_name = ''TeamFounders'', pa_amount = 7200000000 * COIN,
     pa_scriptPubKeyHex = ''76a914a6d1abf6015c6291b3a4d988a8f07401fe6c490388ac''\<rparr>) =
   GetScriptForDestination (CKeyID (team_key cp))"
  by (cases "strNetworkID cp = ''main''")
    (simp_all only: GetEffectiveScriptPubKeyHex_def team_key_def TEST_PREMINE_SCRIPTPUBKEY_HEX_def team_scripts
      PremineAllocation.select_convs if_True if_False simp_thms)

abbreviation unlock_time :: "CChainParams \<Rightarrow> nat \<Rightarrow> int" where
  "unlock_time cp i \<equiv> AddMonthsUTC (int (bh_nTime (genesis cp))) (12 + int i)"

abbreviation tranche :: "CChainParams \<Rightarrow> nat \<Rightarrow> CTxOut" where
  "tranche cp i \<equiv> \<lparr>nValue = 200000000 * COIN, scriptPubKey = GetCLTVPayToPubKeyHash (unlock_time cp i) (team_key cp)\<rparr>"

lemma GetTeamVestingOutputs_eq:
  "GetTeamVestingOutputs cp = Some (map (tranche cp) [0..<36])"
proof -
  have d: "ExtractDestination (GetScriptForDestination (CKeyID (team_key cp))) False = Some (CKeyID (team_key cp))"
    by (simp add: ExtractDestination_def Solver_destinations[OF length_team_key])
  have "(7200000000 * COIN) mod int VESTING_TRANCHE_COUNT = 0" "(7200000000 * COIN) div int VESTING_TRANCHE_COUNT = 200000000 * COIN"
    by simp_all
  then show ?thesis
    unfolding GetTeamVestingOutputs_def GetTeamFoundersAllocation_eq option.case team_script d
    by (simp del: upt_Suc upt_rec_numeral)
qed

definition plain_allocations :: "PremineAllocation list" where
  "plain_allocations = filter (\<lambda>a. pa_name a \<noteq> ''TeamFounders'') vPremineAllocations"

lemma plain_allocations_sum:
  "length plain_allocations = 5" "sum_list (map pa_amount plain_allocations) = 64800000000 * COIN"
  by (code_simp, code_simp)

lemma GetPremineTotal_eq: "GetPremineTotal = Some (72000000000 * COIN)"
  by code_simp

lemma GetPremineOutputs_eq:
  "GetPremineOutputs cp = Some (map (\<lambda>a. \<lparr>nValue = pa_amount a, scriptPubKey = ParseHex (GetEffectiveScriptPubKeyHex cp a)\<rparr>)
     plain_allocations @ map (tranche cp) [0..<36])"
  unfolding GetPremineOutputs_def GetTeamFoundersAllocation_eq option.case GetTeamVestingOutputs_eq plain_allocations_def
    PremineAllocation.select_convs by (rule refl)

lemma nMaxMoneyOut_eq:
  "cp \<in> {CMainParams, CTestNetParams, CRegTestParams} \<Longrightarrow> nMaxMoneyOut (consensus cp) = 72000000000 * COIN"
  unfolding CMainParams_def CTestNetParams_def CRegTestParams_def CMainParams_consensus_def CTestNetParams_consensus_def
    CRegTestParams_consensus_def by auto

text \<open>
  (C18) The premine is exact.  On each of the three networks the assertions in the premine code hold,
  and the coinbase of block 1 is accepted for exactly one list of outputs: 41 of them, five plain
  allocations and 36 equal time-locked tranches of the team, which add up to the money supply to the last unit.
\<close>

theorem premine_exact:
  assumes "cp \<in> {CMainParams, CTestNetParams, CRegTestParams}"
  shows "\<exists>plain. GetPremineOutputs cp = Some (plain @ map (tranche cp) [0..<36]) \<and> length plain = 5 \<and>
    length (team_key cp) = 20 \<and>
    sum_list (map nValue (plain @ map (tranche cp) [0..<36])) = nMaxMoneyOut (consensus cp) \<and>
    GetPremineTotal = Some (nMaxMoneyOut (consensus cp)) \<and>
    (\<forall>cb. CheckPremineCoinbase cp cb = Some (vout cb = plain @ map (tranche cp) [0..<36]))"
proof -
  define plain where "plain = map (\<lambda>a. \<lparr>nValue = pa_amount a, scriptPubKey = ParseHex (GetEffectiveScriptPubKeyHex cp a)\<rparr>) plain_allocations"
  have outs: "GetPremineOutputs cp = Some (plain @ map (tranche cp) [0..<36])"
    unfolding plain_def by (rule GetPremineOutputs_eq)
  have "sum_list (map nValue plain) = sum_list (map pa_amount plain_allocations)" by (simp add: plain_def o_def)
  moreover have "sum_list (map nValue (map (tranche cp) [0..<36])) = 7200000000 * COIN"
    by (simp add: o_def sum_list_triv del: upt_rec_numeral)
  ultimately have "sum_list (map nValue (plain @ map (tranche cp) [0..<36])) = nMaxMoneyOut (consensus cp)"
    by (simp add: plain_allocations_sum nMaxMoneyOut_eq[OF assms] del: upt_rec_numeral)
  moreover have "length plain = 5" by (simp add: plain_def plain_allocations_sum)
  moreover have "CheckPremineCoinbase cp cb = Some (vout cb = plain @ map (tranche cp) [0..<36])" for cb
    unfolding CheckPremineCoinbase_def outs option.case
    by (auto simp: outputs_match_iff simp del: upt_rec_numeral)
  ultimately show ?thesis
    using outs length_team_key[of cp] GetPremineTotal_eq nMaxMoneyOut_eq[OF assms] by (intro exI[of _ plain]) auto
qed

theorem premine_exact_witness:
  "\<exists>plain. GetPremineOutputs CMainParams = Some (plain @ map (tranche CMainParams) [0..<36]) \<and> length plain = 5"
  using premine_exact[of CMainParams] by blast

text \<open>
  The vesting calendar.  \<open>timegm\<close> and \<open>gmtime\<close> are inverse, so adding no months changes nothing, and each
  further month moves an unlock date 28 to 31 days later, also where the day of the month does not exist in
  the target month and the date rolls over: dates never coincide and never go backwards.  On the main network the first
  tranche unlocks at 1817467200, twelve months after the genesis block, and the last one 47 months after it.
\<close>

theorem vesting_calendar:
  "timegm (gmtime t) = t \<and> AddMonthsUTC t 0 = t \<and>
   AddMonthsUTC t (n + 1) - AddMonthsUTC t n \<in> {28 * 86400..31 * 86400} \<and>
   unlock_time CMainParams 0 = 1817467200 \<and> unlock_time CMainParams 35 = AddMonthsUTC 1785931200 47 \<and>
   AddMonthsUTC 1785931200 47 = 1909483200"
proof -
  have "AddMonthsUTC 1785931200 12 = 1817467200" "AddMonthsUTC 1785931200 47 = 1909483200" by (code_simp, code_simp)
  then show ?thesis
    using timegm_gmtime[of t] AddMonthsUTC_0[of t] AddMonthsUTC_step[of t n] by (simp add: genesis_time)
qed

end
