(* ===== verification/Superblock.thy ===== *)
theory Superblock
imports Premine "HOL-Library.Signed_Division"
begin

text \<open>
  Payouts of the staking rewards pool (\<open>consensus/superblock.cpp\<close>): the payout schedule, the tally of
  the stakers of a cycle, the distribution of a payout and the check of a payout transaction.
  The active chain is a function \<open>blockAt\<close> from heights to the block that \<open>ReadBlockFromDisk\<close> returns
  for \<open>chainActive[h]\<close>, \<open>None\<close> when there is no such block or it cannot be read.  Failed assertions are \<open>None\<close>.
\<close>

section \<open>The schedule\<close>

abbreviation (input) PHASE_A_ANNUAL :: CAmount where "PHASE_A_ANNUAL \<equiv> 2520000000 * COIN"
abbreviation (input) PHASE_B_ANNUAL :: CAmount where "PHASE_B_ANNUAL \<equiv> 1260000000 * COIN"
abbreviation (input) PHASE_C_ANNUAL :: CAmount where "PHASE_C_ANNUAL \<equiv> 630000000 * COIN"
abbreviation (input) CYCLES_PER_YEAR :: int where "CYCLES_PER_YEAR \<equiv> 365"
abbreviation (input) PHASE_A_CYCLES :: int where "PHASE_A_CYCLES \<equiv> 5 * CYCLES_PER_YEAR"
abbreviation (input) PHASE_B_CYCLES :: int where "PHASE_B_CYCLES \<equiv> 5 * CYCLES_PER_YEAR"
abbreviation (input) PHASE_C_CYCLES :: int where "PHASE_C_CYCLES \<equiv> 10 * CYCLES_PER_YEAR"
abbreviation (input) PHASE_A_TOTAL :: CAmount where "PHASE_A_TOTAL \<equiv> 5 * PHASE_A_ANNUAL"
abbreviation (input) PHASE_B_TOTAL :: CAmount where "PHASE_B_TOTAL \<equiv> 5 * PHASE_B_ANNUAL"
abbreviation (input) PHASE_C_TOTAL :: CAmount where "PHASE_C_TOTAL \<equiv> 10 * PHASE_C_ANNUAL"
abbreviation (input) POOL_TOTAL :: CAmount where "POOL_TOTAL \<equiv> PHASE_A_TOTAL + PHASE_B_TOTAL + PHASE_C_TOTAL"

definition MulDivShare :: "int \<Rightarrow> CAmount \<Rightarrow> int \<Rightarrow> CAmount option" where
  "MulDivShare a b c =
     (if \<not> (a \<ge> 0 \<and> b \<ge> 0 \<and> c > 0) then None
      else let result = a * b div c
           in if result \<ge> 0 \<and> result \<le> INT64_MAX then Some result else None)"

definition GetFirstSuperblockHeight :: "Params \<Rightarrow> int" where
  "GetFirstSuperblockHeight par =
     (let nFirst = vUpgrades par ! UPGRADE_POS
      in if nFirst = NO_ACTIVATION_HEIGHT \<or> nFirst = ALWAYS_ACTIVE then - 1 else nFirst)"

definition IsSuperblockHeight :: "Params \<Rightarrow> int \<Rightarrow> bool" where
  "IsSuperblockHeight par nHeight \<longleftrightarrow>
     (let nFirst = GetFirstSuperblockHeight par
      in if nFirst < 0 \<or> nHeight < nFirst then False
         else let nCycle = nBudgetCycleBlocks par
              in if nCycle \<le> 0 then False else (nHeight - nFirst) mod nCycle = 0)"

definition GetSuperblockCycleIndex :: "Params \<Rightarrow> int \<Rightarrow> int" where
  "GetSuperblockCycleIndex par nHeight =
     (nHeight - GetFirstSuperblockHeight par) sdiv nBudgetCycleBlocks par"

definition GetSuperblockCumulativeTarget :: "int \<Rightarrow> CAmount option" where
  "GetSuperblockCumulativeTarget cycleIndex =
     (let n = cycleIndex + 1
      in if n \<le> 0 then Some 0
         else if n \<le> PHASE_A_CYCLES then MulDivShare n PHASE_A_ANNUAL CYCLES_PER_YEAR
         else if n \<le> PHASE_A_CYCLES + PHASE_B_CYCLES
         then map_option (\<lambda>x. PHASE_A_TOTAL + x) (MulDivShare (n - PHASE_A_CYCLES) PHASE_B_ANNUAL CYCLES_PER_YEAR)
         else if n \<le> PHASE_A_CYCLES + PHASE_B_CYCLES + PHASE_C_CYCLES
         then map_option (\<lambda>x. PHASE_A_TOTAL + PHASE_B_TOTAL + x)
                (MulDivShare (n - PHASE_A_CYCLES - PHASE_B_CYCLES) PHASE_C_ANNUAL CYCLES_PER_YEAR)
         else Some POOL_TOTAL)"

definition GetSuperblockPayout :: "Params \<Rightarrow> int \<Rightarrow> CAmount option" where
  "GetSuperblockPayout par nHeight =
     (if \<not> IsSuperblockHeight par nHeight then Some 0
      else let idx = GetSuperblockCycleIndex par nHeight
           in case (GetSuperblockCumulativeTarget idx, GetSuperblockCumulativeTarget (idx - 1)) of
                (Some cur, Some prev) \<Rightarrow> if cur \<ge> prev then Some (cur - prev) else None
              | _ \<Rightarrow> None)"

section \<open>The stakers of a cycle\<close>

text \<open>\<open>std::map<CScript, int>\<close> is a list sorted by \<open>prevector::operator<\<close>: shorter scripts first, then by bytes.\<close>

fun bytes_less :: "bytes \<Rightarrow> bytes \<Rightarrow> bool" where
  "bytes_less (a # as) (b # bs) = (if a < b then True else if b < a then False else bytes_less as bs)"
| "bytes_less _ _ = False"

definition script_less :: "bytes \<Rightarrow> bytes \<Rightarrow> bool" where
  "script_less a b \<longleftrightarrow> length a < length b \<or> length a = length b \<and> bytes_less a b"

fun tally_increment :: "bytes \<Rightarrow> (bytes \<times> int) list \<Rightarrow> (bytes \<times> int) list" where
  "tally_increment k [] = [(k, 1)]"
| "tally_increment k ((k', n) # m) =
     (if k = k' then (k', n + 1) # m
      else if script_less k k' then (k, 1) # (k', n) # m
      else (k', n) # tally_increment k m)"

definition tally_block :: "CBlock option \<Rightarrow> (bytes \<times> int) list \<Rightarrow> (bytes \<times> int) list" where
  "tally_block b tally =
     (case b of
        None \<Rightarrow> tally
      | Some block \<Rightarrow>
          if \<not> IsProofOfStake block then tally
          else if length (vout (vtx block ! 1)) < 2 then tally
          else tally_increment (scriptPubKey (vout (vtx block ! 1) ! 1)) tally)"

definition TallyStakersInCycle :: "(int \<Rightarrow> CBlock option) \<Rightarrow> int \<Rightarrow> int \<Rightarrow> (bytes \<times> int) list" where
  "TallyStakersInCycle blockAt cycleStartHeight cycleEndHeight =
     fold (\<lambda>h. tally_block (blockAt h))
       [(if cycleStartHeight < 1 then 1 else cycleStartHeight)..cycleEndHeight] []"

section \<open>The distribution\<close>

fun distribute_shares :: "CAmount \<Rightarrow> int \<Rightarrow> (bytes \<times> int) list \<Rightarrow> CTxOut list \<Rightarrow> CAmount \<Rightarrow> (CTxOut list \<times> CAmount) option" where
  "distribute_shares targetPayout totalBlocks [] outputsOut distributed = Some (outputsOut, distributed)"
| "distribute_shares targetPayout totalBlocks ((script, blocks) # tally) outputsOut distributed =
     (case MulDivShare blocks targetPayout totalBlocks of
        None \<Rightarrow> None
      | Some share \<Rightarrow>
          if share \<le> 0 then distribute_shares targetPayout totalBlocks tally outputsOut distributed
          else distribute_shares targetPayout totalBlocks tally
                 (outputsOut @ [\<lparr>nValue = share, scriptPubKey = script\<rparr>]) (wrap64 (distributed + share)))"

definition ComputeSuperblockDistribution :: "(bytes \<times> int) list \<Rightarrow> CAmount \<Rightarrow> CAmount \<Rightarrow> bytes \<Rightarrow> CTxOut list option" where
  "ComputeSuperblockDistribution tally targetPayout poolInputValue poolScriptPubKey =
     (if tally = [] \<or> targetPayout \<le> 0 then Some []
      else
        let totalBlocks = sum_list (map snd tally)
        in if totalBlocks \<le> 0 then Some []
           else
             let targetPayout' = (if targetPayout > poolInputValue then poolInputValue else targetPayout)
             in case distribute_shares targetPayout' totalBlocks tally [] 0 of
                  None \<Rightarrow> None
                | Some (outputsOut, distributed) \<Rightarrow>
                    if \<not> distributed \<le> targetPayout' then None
                    else if \<not> distributed \<le> poolInputValue then None
                    else let change = poolInputValue - distributed
                         in Some (if change > 0
                                  then outputsOut @ [\<lparr>nValue = change, scriptPubKey = poolScriptPubKey\<rparr>]
                                  else outputsOut))"

definition BuildSuperblockPayoutOutputs :: "Params \<Rightarrow> (int \<Rightarrow> CBlock option) \<Rightarrow> int \<Rightarrow> bytes \<Rightarrow> CAmount \<Rightarrow>
    (bool \<times> CTxOut list) option" where
  "BuildSuperblockPayoutOutputs par blockAt nHeight poolScriptPubKey poolInputValue =
     (let cycleEndHeight = nHeight - 1;
          cycleStartHeight = cycleEndHeight - nBudgetCycleBlocks par + 1;
          tally = TallyStakersInCycle blockAt cycleStartHeight cycleEndHeight
      in if tally = [] then Some (False, [])
         else case GetSuperblockPayout par nHeight of
                None \<Rightarrow> None
              | Some targetPayout \<Rightarrow>
                  if targetPayout \<le> 0 then Some (False, [])
                  else case ComputeSuperblockDistribution tally targetPayout poolInputValue poolScriptPubKey of
                         None \<Rightarrow> None
                       | Some outputsOut \<Rightarrow> Some (outputsOut \<noteq> [], outputsOut))"

definition CycleHasStakers :: "Params \<Rightarrow> (int \<Rightarrow> CBlock option) \<Rightarrow> int \<Rightarrow> bool" where
  "CycleHasStakers par blockAt nHeight \<longleftrightarrow>
     (let cycleEndHeight = nHeight - 1;
          cycleStartHeight = cycleEndHeight - nBudgetCycleBlocks par + 1
      in TallyStakersInCycle blockAt cycleStartHeight cycleEndHeight \<noteq> [])"

definition CheckSuperblockPayoutTx :: "CChainParams \<Rightarrow> (int \<Rightarrow> CBlock option) \<Rightarrow> 'tree CCoinsView \<Rightarrow> CTransaction \<Rightarrow> int \<Rightarrow>
    'tree CCoinsViewCache \<Rightarrow> (bool \<times> 'tree CCoinsViewCache) option" where
  "CheckSuperblockPayoutTx cp blockAt base tx nHeight c =
     (if length (vin tx) \<noteq> 1 then Some (False, c)
      else
        let (coin, c') = AccessCoin base (prevout (vin tx ! 0)) c
        in if Coin_IsSpent coin then Some (False, c')
           else case GetStakingRewardsPoolAllocation of
                  None \<Rightarrow> None
                | Some pool \<Rightarrow>
                    if scriptPubKey (coin_out coin) \<noteq> ParseHex (GetEffectiveScriptPubKeyHex cp pool) then Some (False, c')
                    else case BuildSuperblockPayoutOutputs (consensus cp) blockAt nHeight (scriptPubKey (coin_out coin))
                                (nValue (coin_out coin)) of
                           None \<Rightarrow> None
                         | Some (ok, expected) \<Rightarrow>
                             Some (ok \<and> length (vout tx) = length expected \<and> outputs_match (vout tx) expected, c'))"

section \<open>The schedule is exact\<close>

text \<open>The schedule in plain arithmetic: what has left the pool after \<open>n\<close> cycles.\<close>

definition scheduled :: "int \<Rightarrow> CAmount" where
  "scheduled n =
     (if n \<le> 0 then 0
      else if n \<le> 1825 then n * PHASE_A_ANNUAL div 365
      else if n \<le> 3650 then PHASE_A_TOTAL + (n - 1825) * PHASE_B_ANNUAL div 365
      else if n \<le> 7300 then PHASE_A_TOTAL + PHASE_B_TOTAL + (n - 3650) * PHASE_C_ANNUAL div 365
      else POOL_TOTAL)"

lemma MulDivShare_small:
  assumes "0 \<le> a" "a \<le> 7300" "0 \<le> b" "b \<le> PHASE_A_ANNUAL"
  shows "MulDivShare a b 365 = Some (a * b div 365)"
proof -
  have "a * b \<le> 7300 * PHASE_A_ANNUAL" using assms by (intro mult_mono) auto
  then have "a * b div 365 \<le> 7300 * PHASE_A_ANNUAL div 365" by (intro zdiv_mono1) auto
  moreover have "0 \<le> a * b div 365" using assms by (simp add: pos_imp_zdiv_nonneg_iff)
  ultimately show ?thesis using assms by (simp add: MulDivShare_def Let_def)
qed

lemma GetSuperblockCumulativeTarget_eq: "GetSuperblockCumulativeTarget i = Some (scheduled (i + 1))"
  by (simp add: GetSuperblockCumulativeTarget_def Let_def scheduled_def MulDivShare_small)

lemma div_365_mono:
  assumes "(a :: int) \<le> b" "0 \<le> c"
  shows "a * c div 365 \<le> b * c div 365"
  using assms by (intro zdiv_mono1 mult_right_mono) auto

lemma scheduled_mono: "scheduled n \<le> scheduled (n + 1)"
proof -
  consider "n < 0" | "n = 0" | "0 < n" "n < 1825" | "n = 1825" | "1825 < n" "n < 3650" | "n = 3650" | "3650 < n" "n < 7300" | "n = 7300" | "7300 < n"
    by linarith
  then show ?thesis
  proof cases
    case 3
    then show ?thesis using div_365_mono[of n "n + 1" PHASE_A_ANNUAL] by (simp add: scheduled_def)
  next
    case 5
    then show ?thesis using div_365_mono[of "n - 1825" "n + 1 - 1825" PHASE_B_ANNUAL] by (simp add: scheduled_def)
  next
    case 7
    then show ?thesis using div_365_mono[of "n - 3650" "n + 1 - 3650" PHASE_C_ANNUAL] by (simp add: scheduled_def)
  qed (simp_all add: scheduled_def)
qed

lemma scheduled_le: "m \<le> n \<Longrightarrow> scheduled m \<le> scheduled n"
proof (induction "nat (n - m)" arbitrary: n)
  case (Suc k)
  then have "scheduled m \<le> scheduled (n - 1)" by (intro Suc.hyps(1)) auto
  also have "\<dots> \<le> scheduled (n - 1 + 1)" by (rule scheduled_mono)
  finally show ?case by simp
qed simp

lemma scheduled_bounds: "0 \<le> scheduled n" "scheduled n \<le> POOL_TOTAL"
  using scheduled_le[of "min n 0" n] scheduled_le[of n "max n 7301"] by (auto simp: scheduled_def max_def split: if_splits)

abbreviation superblock_height :: "Params \<Rightarrow> nat \<Rightarrow> int" where
  "superblock_height par k \<equiv> GetFirstSuperblockHeight par + int k * nBudgetCycleBlocks par"

lemma GetSuperblockPayout_eq:
  assumes "0 < GetFirstSuperblockHeight par" "0 < nBudgetCycleBlocks par"
  shows "GetSuperblockPayout par (superblock_height par k) = Some (scheduled (int k + 1) - scheduled (int k))"
proof -
  have "IsSuperblockHeight par (superblock_height par k)" using assms by (simp add: IsSuperblockHeight_def Let_def not_less)
  moreover have "GetSuperblockCycleIndex par (superblock_height par k) = int k"
    using assms by (simp add: GetSuperblockCycleIndex_def signed_divide_int_def sgn_if abs_mult)
  ultimately show ?thesis
    using scheduled_mono[of "int k"] by (simp add: GetSuperblockPayout_def GetSuperblockCumulativeTarget_eq Let_def)
qed

text \<open>
  (C23) The payout schedule is exact and pays out the pool.  The assertions in the schedule never fail;
  the payouts of the first n superblocks add up to the cumulative target of the schedule, without any
  rounding drift, so after 7300 cycles exactly the premined amount of the staking rewards pool has been
  scheduled, and before and after never more.
\<close>

theorem superblock_schedule:
  assumes "0 < GetFirstSuperblockHeight par" "0 < nBudgetCycleBlocks par"
  shows "\<exists>p pool. (\<forall>k. GetSuperblockPayout par (superblock_height par k) = Some (p k) \<and> 0 \<le> p k) \<and>
    GetStakingRewardsPoolAllocation = Some pool \<and>
    (\<forall>n. GetSuperblockCumulativeTarget (int n - 1) = Some (\<Sum>k<n. p k) \<and>
         (\<Sum>k<n. p k) \<le> pa_amount pool \<and> (7300 \<le> n \<longrightarrow> (\<Sum>k<n. p k) = pa_amount pool))"
proof -
  define p where "p k = scheduled (int k + 1) - scheduled (int k)" for k
  have tele: "(\<Sum>k<n. p k) = scheduled (int n)" for n
    by (induction n) (simp_all add: p_def scheduled_def[of 0] add.commute)
  have pool: "GetStakingRewardsPoolAllocation = Some (vPremineAllocations ! 0)"
    "pa_amount (vPremineAllocations ! 0) = POOL_TOTAL"
    by (simp_all add: GetStakingRewardsPoolAllocation_def vPremineAllocations_def)
  have "scheduled (int n) = POOL_TOTAL" if "7300 \<le> n" for n
    using that scheduled_le[of 7300 "int n"] scheduled_bounds(2)[of "int n"] by (simp add: scheduled_def[of 7300])
  moreover have "GetSuperblockPayout par (superblock_height par k) = Some (p k)" "0 \<le> p k" for k
    using GetSuperblockPayout_eq[OF assms] scheduled_mono[of "int k"] by (simp_all add: p_def)
  ultimately show ?thesis
    using scheduled_bounds(2) pool
    by (intro exI[of _ p] exI[of _ "vPremineAllocations ! 0"]) (simp add: tele GetSuperblockCumulativeTarget_eq)
qed

lemma main_superblocks: "GetFirstSuperblockHeight CMainParams_consensus = 601" "nBudgetCycleBlocks CMainParams_consensus = 1440"
  unfolding CMainParams_consensus_def GetFirstSuperblockHeight_def Let_def Params.select_convs by simp_all

theorem superblock_schedule_witness:
  "\<exists>p pool. (\<forall>k. GetSuperblockPayout CMainParams_consensus (601 + int k * 1440) = Some (p k)) \<and>
     GetStakingRewardsPoolAllocation = Some pool \<and> (\<Sum>k<7300. p k) = pa_amount pool"
  using superblock_schedule[of CMainParams_consensus] unfolding main_superblocks by auto

text \<open>
  (C37) The pool is never paid out completely.  The stakers of a cycle are looked up in the cycle before
  the superblock, so the first superblock finds nobody: proof of stake starts at its own height.  Its
  payout is positive and is not made, and no later payout makes up for it, since each one is only the
  difference of two cumulative targets: however long the chain runs, the payouts of all other
  superblocks stay below the pool by at least that amount.
\<close>

theorem superblock_first_payout_unpaid:
  assumes "0 < GetFirstSuperblockHeight par" "0 < nBudgetCycleBlocks par"
    and "\<forall>h < GetFirstSuperblockHeight par. \<forall>b. blockAt h = Some b \<longrightarrow> \<not> IsProofOfStake b"
  shows "\<not> CycleHasStakers par blockAt (superblock_height par 0) \<and>
    BuildSuperblockPayoutOutputs par blockAt (superblock_height par 0) script v = Some (False, []) \<and>
    (\<exists>p. (\<forall>k. GetSuperblockPayout par (superblock_height par k) = Some (p k)) \<and> 0 < p 0 \<and>
       (\<forall>n. (\<Sum>k = 1..n. p k) + p 0 \<le> POOL_TOTAL))"
proof -
  define p where "p k = scheduled (int k + 1) - scheduled (int k)" for k
  have tele: "(\<Sum>k = 1..n. p k) + p 0 = scheduled (int n + 1)" for n
    by (induction n) (simp_all add: p_def scheduled_def[of 0] add.commute)
  have none: "fold (\<lambda>h. tally_block (blockAt h)) hs [] = []"
    if "\<forall>h \<in> set hs. h < GetFirstSuperblockHeight par" for hs
    using that
  proof (induction hs)
    case (Cons h hs)
    then have "tally_block (blockAt h) [] = []"
      using assms(3) by (auto simp: tally_block_def split: option.split)
    then show ?case using Cons by simp
  qed simp
  have tally: "TallyStakersInCycle blockAt s (GetFirstSuperblockHeight par - 1) = []" for s
    unfolding TallyStakersInCycle_def by (rule none) auto
  have "0 < p 0" by (simp add: p_def scheduled_def)
  moreover have "\<forall>n. (\<Sum>k = 1..n. p k) + p 0 \<le> POOL_TOTAL" using tele scheduled_bounds(2) by simp
  moreover have "\<forall>k. GetSuperblockPayout par (superblock_height par k) = Some (p k)"
    using GetSuperblockPayout_eq[OF assms(1,2)] by (simp add: p_def)
  moreover have "\<not> CycleHasStakers par blockAt (superblock_height par 0)"
    "BuildSuperblockPayoutOutputs par blockAt (superblock_height par 0) script v = Some (False, [])"
    by (simp_all add: CycleHasStakers_def BuildSuperblockPayoutOutputs_def Let_def tally)
  ultimately show ?thesis by blast
qed

theorem superblock_first_payout_unpaid_witness:
  "\<not> CycleHasStakers CMainParams_consensus (\<lambda>h. None) 601"
  using superblock_first_payout_unpaid[of CMainParams_consensus "\<lambda>h. None"] unfolding main_superblocks by simp

section \<open>The distribution conserves value\<close>

definition shares :: "CAmount \<Rightarrow> int \<Rightarrow> (bytes \<times> int) list \<Rightarrow> CTxOut list" where
  "shares t tot tally = map (\<lambda>(s, n). \<lparr>nValue = n * t div tot, scriptPubKey = s\<rparr>)
     (filter (\<lambda>(s, n). 0 < n * t div tot) tally)"

lemma share_bounds:
  assumes "0 \<le> n" "n \<le> tot" "0 \<le> t" "(0 :: int) < tot"
  shows "0 \<le> n * t div tot" "n * t div tot \<le> t"
proof -
  show "0 \<le> n * t div tot" using assms by (simp add: pos_imp_zdiv_nonneg_iff)
  have "n * t div tot \<le> tot * t div tot" using assms by (intro zdiv_mono1 mult_right_mono) auto
  then show "n * t div tot \<le> t" using assms by simp
qed

lemma sum_list_shares:
  assumes "\<forall>(s, n) \<in> set tally. 0 \<le> n \<and> n \<le> tot" "0 \<le> t" "0 < tot"
  shows "sum_list (map nValue (shares t tot tally)) = (\<Sum>(s, n)\<leftarrow>tally. n * t div tot)"
  using assms
proof (induction tally)
  case (Cons x tally)
  obtain s n where x: "x = (s, n)" by fastforce
  have "0 \<le> n * t div tot" using Cons.prems x by (intro share_bounds(1)) auto
  then show ?case using Cons x by (auto simp: shares_def)
qed (simp add: shares_def)

lemma sum_shares_bounds:
  assumes "\<forall>(s, n) \<in> set tally. 0 \<le> n" "0 \<le> t" "0 < tot"
  shows "tot * (\<Sum>(s, n)\<leftarrow>tally. n * t div tot) \<le> t * sum_list (map snd tally)"
    "t * sum_list (map snd tally) \<le> tot * (\<Sum>(s, n)\<leftarrow>tally. n * t div tot) + int (length tally) * (tot - 1)"
proof -
  have "tot * (\<Sum>(s, n)\<leftarrow>tally. n * t div tot) \<le> t * sum_list (map snd tally) \<and>
    t * sum_list (map snd tally) \<le> tot * (\<Sum>(s, n)\<leftarrow>tally. n * t div tot) + int (length tally) * (tot - 1)"
  proof (induction tally)
    case (Cons x tally)
    obtain s n where x: "x = (s, n)" by fastforce
    have e: "tot * (n * t div tot) + n * t mod tot = n * t" by simp
    have "0 \<le> n * t mod tot" "n * t mod tot \<le> tot - 1" using assms(3) pos_mod_bound[of tot "n * t"] by auto
    then have "tot * (n * t div tot) \<le> t * n" "t * n \<le> tot * (n * t div tot) + (tot - 1)"
      using e mult.commute[of t n] by linarith+
    with Cons x show ?case by (simp add: distrib_left distrib_right)
  qed simp
  then show "tot * (\<Sum>(s, n)\<leftarrow>tally. n * t div tot) \<le> t * sum_list (map snd tally)"
    "t * sum_list (map snd tally) \<le> tot * (\<Sum>(s, n)\<leftarrow>tally. n * t div tot) + int (length tally) * (tot - 1)"
    by auto
qed

lemma distribute_shares_eq:
  assumes "\<forall>(s, n) \<in> set tally. 0 \<le> n \<and> n \<le> tot" "0 \<le> t" "t \<le> INT64_MAX" "0 < tot" "0 \<le> d"
    "d + (\<Sum>(s, n)\<leftarrow>tally. n * t div tot) \<le> INT64_MAX"
  shows "distribute_shares t tot tally outs d =
    Some (outs @ shares t tot tally, d + (\<Sum>(s, n)\<leftarrow>tally. n * t div tot))"
  using assms
proof (induction tally arbitrary: outs d)
  case (Cons x tally)
  obtain s n where x: "x = (s, n)" by fastforce
  have n: "0 \<le> n" "n \<le> tot" using Cons.prems x by auto
  note b = share_bounds[OF n Cons.prems(2,4)]
  have rest: "0 \<le> (\<Sum>(s, n)\<leftarrow>tally. n * t div tot)"
    using Cons.prems(1,2,4) share_bounds(1) by (intro sum_list_nonneg) auto
  have m: "MulDivShare n t tot = Some (n * t div tot)"
    using n b Cons.prems by (simp add: MulDivShare_def)
  have w: "wrap64 (d + n * t div tot) = d + n * t div tot"
    using b rest Cons.prems x by (intro wrap64_id) (auto simp: in_i64_def)
  have IH: "distribute_shares t tot tally outs' (d + n * t div tot) =
      Some (outs' @ shares t tot tally, d + n * t div tot + (\<Sum>(s, n)\<leftarrow>tally. n * t div tot))" for outs'
    using b rest Cons.prems x by (intro Cons.IH) auto
  show ?case
  proof (cases "n * t div tot \<le> 0")
    case True
    then have z: "n * t div tot = 0" using b by simp
    then show ?thesis using m IH by (simp add: x shares_def)
  next
    case False
    then show ?thesis using m w IH by (simp add: x shares_def)
  qed
qed (simp add: shares_def)

lemma member_le_sum_list_int:
  "\<forall>y \<in> set xs. (0 :: int) \<le> y \<Longrightarrow> x \<in> set xs \<Longrightarrow> x \<le> sum_list xs"
proof (induction xs)
  case (Cons y xs)
  then have "0 \<le> sum_list xs" by (intro sum_list_nonneg) auto
  then show ?case using Cons by auto
qed simp

lemma ComputeSuperblockDistribution_eq:
  assumes "tally \<noteq> []" "\<forall>(s, n) \<in> set tally. 0 < n" "0 < target" "0 \<le> pool" "pool \<le> INT64_MAX"
  defines "t \<equiv> min target pool" and "tot \<equiv> sum_list (map snd tally)"
  defines "paid \<equiv> (\<Sum>(s, n)\<leftarrow>tally. n * t div tot)"
  shows "0 < tot" "paid \<le> t" "t < paid + int (length tally)" "0 \<le> paid"
    "sum_list (map nValue (shares t tot tally)) = paid"
    "ComputeSuperblockDistribution tally target pool script = Some (shares t tot tally @
       (if paid < pool then [\<lparr>nValue = pool - paid, scriptPubKey = script\<rparr>] else []))"
proof -
  have nn: "\<forall>(s, n) \<in> set tally. 0 \<le> n" using assms(2) by auto
  obtain x tl where tl: "tally = x # tl" using assms(1) by (cases tally) auto
  have "0 \<le> sum_list (map snd tl)" using assms(2) tl by (intro sum_list_nonneg) auto
  then show tot: "0 < tot" using assms(2) tl by (auto simp: tot_def)
  have le: "\<forall>(s, n) \<in> set tally. 0 \<le> n \<and> n \<le> tot"
    using nn member_le_sum_list_int[of "map snd tally"] by (fastforce simp: tot_def)
  have t: "0 \<le> t" "t \<le> INT64_MAX" "t \<le> pool" using assms by (auto simp: t_def)
  note B = sum_shares_bounds[OF nn t(1) tot, folded paid_def tot_def]
  have "tot * paid \<le> tot * t" using B(1) by (simp add: mult.commute)
  then show p1: "paid \<le> t" using tot by simp
  show p0: "0 \<le> paid" unfolding paid_def using le t(1) tot share_bounds(1) by (intro sum_list_nonneg) auto
  have "tot * t \<le> tot * paid + int (length tally) * (tot - 1)" using B(2) by (simp add: mult.commute)
  also have "\<dots> < tot * paid + int (length tally) * tot" using tl tot by simp
  finally have "tot * t < tot * (paid + int (length tally))" by (simp add: distrib_left mult.commute)
  then show "t < paid + int (length tally)" using tot by simp
  show "sum_list (map nValue (shares t tot tally)) = paid"
    unfolding paid_def using le t(1) tot by (rule sum_list_shares)
  have D: "distribute_shares t tot tally [] 0 = Some ([] @ shares t tot tally, 0 + paid)"
    unfolding paid_def using le t tot p1 by (intro distribute_shares_eq) (auto simp: paid_def)
  have "(if target > pool then pool else target) = t" by (simp add: t_def min_def)
  then show "ComputeSuperblockDistribution tally target pool script = Some (shares t tot tally @
       (if paid < pool then [\<lparr>nValue = pool - paid, scriptPubKey = script\<rparr>] else []))"
    using assms(1,3) tot D p1 t(3) by (simp add: ComputeSuperblockDistribution_def tot_def[symmetric] Let_def)
qed

lemma tally_increment_pos:
  "\<forall>x \<in> set m. 0 < snd x \<Longrightarrow> \<forall>x \<in> set (tally_increment k m). 0 < snd x"
proof (induction m)
  case (Cons x m)
  obtain k' n where x: "x = (k', n)" by fastforce
  then show ?case using Cons by simp
qed simp

lemma TallyStakersInCycle_pos: "\<forall>x \<in> set (TallyStakersInCycle blockAt a b). 0 < snd x"
proof -
  have one: "\<forall>x \<in> set (tally_block ob m). 0 < snd x" if "\<forall>x \<in> set m. 0 < snd x" for ob m
    using that tally_increment_pos[OF that] by (simp add: tally_block_def split: option.split)
  have all: "\<forall>x \<in> set (fold (\<lambda>h. tally_block (blockAt h)) hs m). 0 < snd x" if "\<forall>x \<in> set m. 0 < snd x" for hs m
    using that
  proof (induction hs arbitrary: m)
    case (Cons h hs)
    show ?case unfolding fold.simps o_apply by (rule Cons.IH[OF one[OF Cons.prems]])
  qed simp
  show ?thesis unfolding TallyStakersInCycle_def by (rule all) simp
qed

text \<open>
  (C17) A superblock distribution conserves value and never aborts a node.  For any cycle of the chain and
  any coin of the pool that fits a 64-bit amount, also one smaller than the scheduled payout, the assertions in the
  distribution hold; its outputs add up exactly to the coin; the stakers get the smaller of target and
  coin up to a remainder of less than one unit per staker, each in proportion to the blocks staked,
  rounded down; and the rest goes back to the pool.
\<close>

theorem superblock_distribution:
  assumes "tally = TallyStakersInCycle blockAt a b" "tally \<noteq> []" "0 < target" "0 \<le> pool" "pool \<le> INT64_MAX"
  defines "t \<equiv> min target pool" and "tot \<equiv> sum_list (map snd tally)"
  shows "\<exists>outs paid. ComputeSuperblockDistribution tally target pool script =
      Some (outs @ (if paid < pool then [\<lparr>nValue = pool - paid, scriptPubKey = script\<rparr>] else [])) \<and>
    sum_list (map nValue outs) = paid \<and> 0 \<le> paid \<and> paid \<le> t \<and> t < paid + int (length tally) \<and>
    outs = map (\<lambda>(s, n). \<lparr>nValue = n * t div tot, scriptPubKey = s\<rparr>) (filter (\<lambda>(s, n). 0 < n * t div tot) tally)"
proof -
  have pos: "\<forall>(s, n) \<in> set tally. 0 < n" using TallyStakersInCycle_pos[of blockAt a b] assms(1) by auto
  note D = ComputeSuperblockDistribution_eq[OF assms(2) pos assms(3-5), folded t_def tot_def]
  show ?thesis
    by (rule exI[of _ "shares t tot tally"], rule exI[of _ "\<Sum>(s, n)\<leftarrow>tally. n * t div tot"])
      (use D in \<open>simp add: shares_def[symmetric]\<close>)
qed

definition example_stake_block :: CBlock where
  "example_stake_block = (CBlock_of_header CBlockHeader_SetNull)\<lparr>vtx := [CMutableTransaction,
     CMutableTransaction\<lparr>vin := [\<lparr>prevout = \<lparr>out_hash = replicate 32 1, out_n = 0\<rparr>, scriptSig = [], nSequence = 0\<rparr>],
       vout := [CTxOut_SetEmpty, \<lparr>nValue = 5, scriptPubKey = [0x51]\<rparr>]\<rparr>]\<rparr>"

theorem superblock_distribution_witness:
  "TallyStakersInCycle (\<lambda>h. Some example_stake_block) 1 3 = [([0x51], 3)] \<and>
   (\<exists>outs paid. ComputeSuperblockDistribution [([0x51], 3)] 10 7 [0x52] =
      Some (outs @ (if paid < 7 then [\<lparr>nValue = 7 - paid, scriptPubKey = [0x52]\<rparr>] else [])) \<and>
    sum_list (map nValue outs) = paid)"
proof -
  have tally: "TallyStakersInCycle (\<lambda>h. Some example_stake_block) 1 3 = [([0x51], 3)]" by code_simp
  have ne: "[([0x51 :: byte], 3 :: int)] \<noteq> []" "0 < (10 :: int)" "0 \<le> (7 :: int)" "(7 :: int) \<le> INT64_MAX" by simp_all
  show ?thesis
    using superblock_distribution[OF tally[symmetric] ne, of "[0x52]"] tally by blast
qed

end
