(* ===== verification/Utxo.thy ===== *)
theory Utxo
imports Superblock
begin

text \<open>
  Applying a block to the coins database and undoing it (\<open>UpdateCoins\<close>, \<open>ApplyTxInUndo\<close>,
  \<open>DisconnectBlock\<close> and \<open>RollforwardBlock\<close> of \<open>validation.cpp\<close>, the undo records of \<open>undo.h\<close>).
  Reading undo data and blocks from disk are parameters: the value read, or \<open>None\<close> when that fails.
\<close>

section \<open>Applying transactions\<close>

definition SkipInvalidUTXOS :: "CChainParams \<Rightarrow> int \<Rightarrow> bool" where
  "SkipInvalidUTXOS cp nHeight \<longleftrightarrow>
     strNetworkID cp = ''main'' \<and> NetworkUpgradeActive (consensus cp) nHeight UPGRADE_ZC \<and>
     nHeight \<le> height_last_invalid_UTXO (consensus cp)"

text \<open>Undo data: one coin per input (\<open>CTxUndo\<close>), one list per transaction but the coinbase (\<open>CBlockUndo\<close>).\<close>

type_synonym CTxUndo = "Coin list"
type_synonym CBlockUndo = "CTxUndo list"

fun UpdateCoins_spend :: "'tree CCoinsView \<Rightarrow> CTxIn list \<Rightarrow> 'tree CCoinsViewCache \<Rightarrow> CTxUndo \<times> 'tree CCoinsViewCache" where
  "UpdateCoins_spend base [] c = ([], c)"
| "UpdateCoins_spend base (txin # vins) c =
     (let (moved, c1) = SpendCoin base (prevout txin) c;
          (undo, c2) = UpdateCoins_spend base vins c1
      in ((case moved of None \<Rightarrow> coinEmpty | Some k \<Rightarrow> k) # undo, c2))"

definition UpdateCoins :: "'tree CCoinsView \<Rightarrow> (COutPoint \<Rightarrow> bool) \<Rightarrow> CTransaction \<Rightarrow> nat \<Rightarrow> bool \<Rightarrow> 'tree CCoinsViewCache \<Rightarrow>
    coins_error + CTxUndo \<times> 'tree CCoinsViewCache" where
  "UpdateCoins base invalid tx nHeight fSkipInvalid c =
     (let (txundo, c1) = (if \<not> IsCoinBase tx then UpdateCoins_spend base (vin tx) c else ([], c));
          c2 = SetNullifiers tx True c1
      in bindE (AddCoins base invalid tx nHeight False fSkipInvalid c2) (\<lambda>c3. Inr (txundo, c3)))"

section \<open>Undoing\<close>

datatype DisconnectResult = DISCONNECT_OK | DISCONNECT_UNCLEAN | DISCONNECT_FAILED

definition ApplyTxInUndo :: "'tree CCoinsView \<Rightarrow> Coin \<Rightarrow> COutPoint \<Rightarrow> 'tree CCoinsViewCache \<Rightarrow>
    coins_error + DisconnectResult \<times> 'tree CCoinsViewCache" where
  "ApplyTxInUndo base undo op c =
     (let (h, c1) = HaveCoin base op c; fClean = \<not> h;
          (undo', c2) =
            (if coin_nHeight undo = 0 then
               let (alternate, c') = AccessByTxid base (out_hash op) c1
               in (if \<not> Coin_IsSpent alternate
                   then Some (undo\<lparr>coin_nHeight := coin_nHeight alternate, fCoinBase := fCoinBase alternate,
                                   fCoinStake := fCoinStake alternate\<rparr>)
                   else None, c')
             else (Some undo, c1))
      in case undo' of
           None \<Rightarrow> Inr (DISCONNECT_FAILED, c2)
         | Some u \<Rightarrow> bindE (AddCoin op u (\<not> fClean) c2) (\<lambda>c3.
                       Inr (if fClean then DISCONNECT_OK else DISCONNECT_UNCLEAN, c3)))"

fun Disconnect_outputs :: "'tree CCoinsView \<Rightarrow> uint256 \<Rightarrow> nat \<Rightarrow> CTxOut list \<Rightarrow> 'tree CCoinsViewCache \<Rightarrow>
    bool \<times> 'tree CCoinsViewCache" where
  "Disconnect_outputs base hash i [] c = (True, c)"
| "Disconnect_outputs base hash i (txout # vouts) c =
     (if \<not> IsUnspendable (scriptPubKey txout) then
        let (moved, c1) = SpendCoin base (mk_COutPoint hash i) c;
            coin = (case moved of None \<Rightarrow> coinEmpty | Some k \<Rightarrow> k);
            (clean, c2) = Disconnect_outputs base hash (i + 1) vouts c1
        in (txout = coin_out coin \<and> clean, c2)
      else Disconnect_outputs base hash (i + 1) vouts c)"

text \<open>The inputs are restored from the last to the first; the lists are given in that order.\<close>

fun Disconnect_inputs :: "'tree CCoinsView \<Rightarrow> (CTxIn \<times> Coin) list \<Rightarrow> bool \<Rightarrow> 'tree CCoinsViewCache \<Rightarrow>
    coins_error + DisconnectResult \<times> 'tree CCoinsViewCache" where
  "Disconnect_inputs base [] fClean c = Inr (if fClean then DISCONNECT_OK else DISCONNECT_UNCLEAN, c)"
| "Disconnect_inputs base ((txin, undo) # rest) fClean c =
     bindE (ApplyTxInUndo base undo (prevout txin) c) (\<lambda>(res, c1).
       if res = DISCONNECT_FAILED then Inr (DISCONNECT_FAILED, c1)
       else Disconnect_inputs base rest (fClean \<and> res \<noteq> DISCONNECT_UNCLEAN) c1)"

definition Disconnect_tx :: "'tree CCoinsView \<Rightarrow> CTransaction \<Rightarrow> CTxUndo option \<Rightarrow> bool \<Rightarrow> 'tree CCoinsViewCache \<Rightarrow>
    coins_error + DisconnectResult \<times> 'tree CCoinsViewCache" where
  "Disconnect_tx base tx txundo fClean c =
     (let (clean, c1) = Disconnect_outputs base (GetHash tx) 0 (vout tx) c;
          fClean' = (fClean \<and> clean)
      in if IsCoinBase tx then Inr (if fClean' then DISCONNECT_OK else DISCONNECT_UNCLEAN, c1)
         else
           let c2 = SetNullifiers tx False c1
           in case txundo of
                None \<Rightarrow> Inl UndoOutOfRange
              | Some vprevout \<Rightarrow>
                  if length vprevout \<noteq> length (vin tx) then Inr (DISCONNECT_FAILED, c2)
                  else Disconnect_inputs base (rev (zip (vin tx) vprevout)) fClean' c2)"

text \<open>The transactions from the last to the first, each with its undo record; the first has none.\<close>

fun Disconnect_txs :: "'tree CCoinsView \<Rightarrow> (CTransaction \<times> CTxUndo option) list \<Rightarrow> bool \<Rightarrow> 'tree CCoinsViewCache \<Rightarrow>
    coins_error + DisconnectResult \<times> 'tree CCoinsViewCache" where
  "Disconnect_txs base [] fClean c = Inr (if fClean then DISCONNECT_OK else DISCONNECT_UNCLEAN, c)"
| "Disconnect_txs base ((tx, txundo) # rest) fClean c =
     bindE (Disconnect_tx base tx txundo fClean c) (\<lambda>(res, c1).
       if res = DISCONNECT_FAILED then Inr (DISCONNECT_FAILED, c1)
       else Disconnect_txs base rest (res \<noteq> DISCONNECT_UNCLEAN) c1)"

text \<open>The fields of \<open>pindex->pprev\<close> that are used.\<close>

record prev_index =
  prev_hash :: uint256
  prev_nHeight :: int
  prev_finalSaplingRoot :: uint256

definition DisconnectBlock :: "'tree tree_ops \<Rightarrow> Params \<Rightarrow> 'tree CCoinsView \<Rightarrow> CBlockUndo option \<Rightarrow> prev_index \<Rightarrow> CBlock \<Rightarrow>
    'tree CCoinsViewCache \<Rightarrow> coins_error + DisconnectResult \<times> 'tree CCoinsViewCache" where
  "DisconnectBlock T par base undoOnDisk pprev block c =
     (case undoOnDisk of
        None \<Rightarrow> Inr (DISCONNECT_FAILED, c)
      | Some blockUndo \<Rightarrow>
          if length blockUndo + 1 \<noteq> length (vtx block) then Inr (DISCONNECT_FAILED, c)
          else bindE (Disconnect_txs base (rev (zip (vtx block) (None # map Some blockUndo))) True c) (\<lambda>(res, c1).
            if res = DISCONNECT_FAILED then Inr (DISCONNECT_FAILED, c1)
            else
              let rt = (if NetworkUpgradeActive par (prev_nHeight pprev) UPGRADE_V5_0
                        then prev_finalSaplingRoot pprev else empty_root T)
              in bindE (PopAnchor base rt c1) (\<lambda>c2.
                   Inr (res, SetBestBlock (prev_hash pprev) c2))))"

section \<open>Replaying after a crash\<close>

fun spend_all :: "'tree CCoinsView \<Rightarrow> CTxIn list \<Rightarrow> 'tree CCoinsViewCache \<Rightarrow> 'tree CCoinsViewCache" where
  "spend_all base [] c = c"
| "spend_all base (txin # vins) c = spend_all base vins (snd (SpendCoin base (prevout txin) c))"

fun Rollforward_txs :: "'tree CCoinsView \<Rightarrow> (COutPoint \<Rightarrow> bool) \<Rightarrow> nat \<Rightarrow> bool \<Rightarrow> CTransaction list \<Rightarrow> 'tree CCoinsViewCache \<Rightarrow>
    coins_error + 'tree CCoinsViewCache" where
  "Rollforward_txs base invalid nHeight fSkipInvalid [] c = Inr c"
| "Rollforward_txs base invalid nHeight fSkipInvalid (tx # txs) c =
     bindE (AddCoins base invalid tx nHeight True fSkipInvalid (if \<not> IsCoinBase tx then spend_all base (vin tx) c else c))
       (Rollforward_txs base invalid nHeight fSkipInvalid txs)"

text \<open>\<open>Inr None\<close> is the failure to read the block.\<close>

definition RollforwardBlock :: "CChainParams \<Rightarrow> 'tree CCoinsView \<Rightarrow> (COutPoint \<Rightarrow> bool) \<Rightarrow> nat \<Rightarrow> CBlock option \<Rightarrow>
    'tree CCoinsViewCache \<Rightarrow> coins_error + 'tree CCoinsViewCache option" where
  "RollforwardBlock cp base invalid nHeight onDisk c =
     (case onDisk of
        None \<Rightarrow> Inr None
      | Some block \<Rightarrow>
          bindE (Rollforward_txs base invalid nHeight (SkipInvalidUTXOS cp (int nHeight)) (vtx block) c)
            (\<lambda>c'. Inr (Some c')))"

section \<open>The abstract effect of a transaction\<close>

text \<open>The cache \<open>c\<close> over \<open>base\<close> satisfies its invariant and shows the state \<open>s\<close>.\<close>

definition cache_at :: "'tree tree_ops \<Rightarrow> 'tree CCoinsView \<Rightarrow> 'tree CCoinsViewCache \<Rightarrow> utxo_state \<Rightarrow> bool" where
  "cache_at T base c s \<longleftrightarrow> cache_inv T base c \<and> abs_cache base c = s"

lemma cache_at_Fetch:
  assumes "cache_at T base c s"
  shows "cache_at T base (snd (FetchCoin base op c)) s"
  using assms FetchCoin_inv[of T base c op] FetchCoin_view[of base op c] by (simp add: cache_at_def)

lemma cache_at_Spend:
  assumes "cache_at T base c s"
  shows "cache_at T base (snd (SpendCoin base op c)) (s\<lparr>u_coins := (u_coins s)(op := None)\<rparr>)"
    and "unspent (fst (SpendCoin base op c)) = u_coins s op"
proof -
  have inv: "cache_inv T base c" and s: "s = abs_cache base c" using assms by (auto simp: cache_at_def)
  show "cache_at T base (snd (SpendCoin base op c)) (s\<lparr>u_coins := (u_coins s)(op := None)\<rparr>)"
    unfolding cache_at_def s using SpendCoin_inv[OF inv] SpendCoin_abs[OF inv] by blast
  show "unspent (fst (SpendCoin base op c)) = u_coins s op"
    unfolding s by (rule SpendCoin_coin)
qed

lemma cache_at_Add:
  assumes "cache_at T base c s" "\<not> Coin_IsSpent k" "ow \<or> u_coins s op = None"
  obtains c' where "AddCoin op k ow c = Inr c'"
    "cache_at T base c' (if addable (coin_out k) then s\<lparr>u_coins := (u_coins s)(op \<mapsto> k)\<rparr> else s)"
proof -
  have inv: "cache_inv T base c" and s: "s = abs_cache base c" using assms by (auto simp: cache_at_def)
  show ?thesis
    by (rule AddCoin_ok[OF inv assms(2) assms(3)[unfolded s]]) (use that s in \<open>auto simp: cache_at_def\<close>)
qed

lemma cache_at_SetNullifiers:
  assumes "cache_at T base c s"
  shows "cache_at T base (SetNullifiers tx b c) (s\<lparr>u_nullifiers :=
      (if b then u_nullifiers s \<union> nullifiers tx else u_nullifiers s - nullifiers tx)\<rparr>)"
  using assms SetNullifiers_ok[of T base c tx b] unfolding cache_at_def by blast

lemma cache_at_Have:
  assumes "cache_at T base c s"
  shows "fst (HaveCoin base op c) \<longleftrightarrow> u_coins s op \<noteq> None" "cache_at T base (snd (HaveCoin base op c)) s"
  using assms HaveCoin_sel[of base op c] cache_at_Fetch[OF assms, of op] by (auto simp: cache_at_def)

text \<open>The coins that the outputs \<open>vouts\<close>, numbered from \<open>i\<close>, put into the set.\<close>

fun created :: "uint256 \<Rightarrow> (CTxOut \<Rightarrow> Coin) \<Rightarrow> nat \<Rightarrow> CTxOut list \<Rightarrow> COutPoint \<Rightarrow> Coin option" where
  "created h mk i [] = Map.empty"
| "created h mk i (t # ts) =
     (if addable t then (created h mk (i + 1) ts)(mk_COutPoint h i \<mapsto> mk t) else created h mk (i + 1) ts)"

definition new_coin :: "CTransaction \<Rightarrow> nat \<Rightarrow> CTxOut \<Rightarrow> Coin" where
  "new_coin tx nHeight txout = \<lparr>fCoinBase = IsCoinBase tx, fCoinStake = IsCoinStake tx, coin_out = txout,
     coin_nHeight = nHeight\<rparr>"

definition spends :: "CTransaction \<Rightarrow> COutPoint set" where
  "spends tx = (if IsCoinBase tx then {} else prevout ` set (vin tx))"

definition apply_tx :: "nat \<Rightarrow> CTransaction \<Rightarrow> utxo_state \<Rightarrow> utxo_state" where
  "apply_tx nHeight tx s =
     s\<lparr>u_coins := (u_coins s |` (- spends tx)) ++ created (GetHash tx) (new_coin tx nHeight) 0 (vout tx),
       u_nullifiers := u_nullifiers s \<union> nullifiers tx\<rparr>"

definition undo_tx :: "CTransaction \<Rightarrow> utxo_state \<Rightarrow> CTxUndo" where
  "undo_tx tx s = (if IsCoinBase tx then [] else map (\<lambda>txin. the (u_coins s (prevout txin))) (vin tx))"

text \<open>
  What applying a transaction relies on: the inputs are there, each once, the outputs are real and
  their outpoints are not in use, the nullifiers are new.
\<close>

definition tx_fits :: "CTransaction \<Rightarrow> utxo_state \<Rightarrow> bool" where
  "tx_fits tx s \<longleftrightarrow>
     (\<not> IsCoinBase tx \<longrightarrow> distinct (map prevout (vin tx)) \<and> prevout ` set (vin tx) \<subseteq> dom (u_coins s)) \<and>
     (\<forall>t\<in>set (vout tx). nValue t \<noteq> -1 \<and> \<not> CTxOut_IsZerocoinMint t) \<and> length (vout tx) \<le> 2 ^ 32 \<and>
     (\<forall>i < length (vout tx). u_coins s (mk_COutPoint (GetHash tx) i) = None) \<and>
     nullifiers tx \<inter> u_nullifiers s = {} \<and> (IsCoinBase tx \<longrightarrow> nullifiers tx = {})"

text \<open>Every coin of the set can be spent and has a height.\<close>

definition utxo_wf :: "utxo_state \<Rightarrow> bool" where
  "utxo_wf s \<longleftrightarrow> (\<forall>op k. u_coins s op = Some k \<longrightarrow> addable (coin_out k) \<and> \<not> Coin_IsSpent k \<and> 0 < coin_nHeight k)"

lemma restrict_map_UNIV [simp]: "m |` UNIV = m"
  by (simp add: restrict_map_def)

lemma created_dom: "created h mk i ts op = Some k \<Longrightarrow> \<exists>j. i \<le> j \<and> j < i + length ts \<and> op = mk_COutPoint h j"
proof (induction ts arbitrary: i)
  case (Cons t ts)
  show ?case
  proof (cases "op = mk_COutPoint h i")
    case True then show ?thesis by (intro exI[of _ i]) simp
  next
    case False
    then have "created h mk (i + 1) ts op = Some k" using Cons.prems by (simp split: if_splits)
    from Cons.IH[OF this] obtain j where "i + 1 \<le> j" "j < i + 1 + length ts" "op = mk_COutPoint h j" by blast
    then show ?thesis by (intro exI[of _ j]) simp
  qed
qed simp

lemma created_coin: "created h mk i ts op = Some k \<Longrightarrow> \<exists>t\<in>set ts. addable t \<and> k = mk t"
  by (induction ts arbitrary: i) (auto split: if_splits)

lemma mk_COutPoint_inj: "i < 2 ^ 32 \<Longrightarrow> j < 2 ^ 32 \<Longrightarrow> mk_COutPoint h i = mk_COutPoint h j \<longleftrightarrow> i = j"
  by (simp add: mk_COutPoint_def)

lemma created_later:
  assumes "i + Suc (length ts) \<le> 2 ^ 32"
  shows "created h mk (i + 1) ts (mk_COutPoint h i) = None"
proof (rule ccontr)
  assume "created h mk (i + 1) ts (mk_COutPoint h i) \<noteq> None"
  then obtain k where "created h mk (i + 1) ts (mk_COutPoint h i) = Some k" by blast
  from created_dom[OF this] obtain j where j: "i + 1 \<le> j" "j < i + 1 + length ts" "mk_COutPoint h i = mk_COutPoint h j"
    by blast
  then show False using assms by (simp add: mk_COutPoint_inj)
qed

section \<open>Applying refines the abstract effect\<close>

lemma UpdateCoins_spend_ok:
  assumes "cache_at T base c s"
  shows "cache_at T base (snd (UpdateCoins_spend base vins c)) (s\<lparr>u_coins := u_coins s |` (- prevout ` set vins)\<rparr>)"
  using assms
proof (induction vins arbitrary: c s)
  case (Cons txin vins)
  note sp = cache_at_Spend[OF Cons.prems, of "prevout txin"]
  have "s\<lparr>u_coins := (u_coins s)(prevout txin := None)\<rparr>\<lparr>u_coins :=
      u_coins (s\<lparr>u_coins := (u_coins s)(prevout txin := None)\<rparr>) |` (- prevout ` set vins)\<rparr> =
      s\<lparr>u_coins := u_coins s |` (- prevout ` set (txin # vins))\<rparr>"
    by (intro utxo_state_eqI) (auto simp: restrict_map_def)
  with Cons.IH[OF sp(1)] have "cache_at T base (snd (UpdateCoins_spend base vins (snd (SpendCoin base (prevout txin) c))))
      (s\<lparr>u_coins := u_coins s |` (- prevout ` set (txin # vins))\<rparr>)" by (simp only:)
  then show ?case by (simp add: Let_def split_beta)
qed simp

lemma UpdateCoins_spend_undo:
  assumes "cache_at T base c s" "distinct (map prevout vins)" "prevout ` set vins \<subseteq> dom (u_coins s)"
  shows "fst (UpdateCoins_spend base vins c) = map (\<lambda>txin. the (u_coins s (prevout txin))) vins"
  using assms
proof (induction vins arbitrary: c s)
  case (Cons txin vins)
  note sp = cache_at_Spend[OF Cons.prems(1), of "prevout txin"]
  obtain k where k: "u_coins s (prevout txin) = Some k" using Cons.prems(3) by auto
  then have m: "fst (SpendCoin base (prevout txin) c) = Some k" using sp(2) by simp
  have ne: "prevout x \<noteq> prevout txin" if "x \<in> set vins" for x
    using Cons.prems(2) imageI[OF that, of prevout] by auto
  have "fst (UpdateCoins_spend base vins (snd (SpendCoin base (prevout txin) c))) =
      map (\<lambda>x. the (u_coins (s\<lparr>u_coins := (u_coins s)(prevout txin := None)\<rparr>) (prevout x))) vins"
    using Cons.prems(2,3) ne by (intro Cons.IH[OF sp(1)]) auto
  also have "\<dots> = map (\<lambda>x. the (u_coins s (prevout x))) vins" using ne by simp
  finally show ?case using k m by (simp add: Let_def split_beta)
qed simp

lemma AddCoins_loop_ok:
  assumes "cache_at T base c s" "i + length ts \<le> 2 ^ 32"
    and "\<forall>t\<in>set ts. \<not> Coin_IsSpent (mk t) \<and> coin_out (mk t) = t"
    and "\<And>j. i \<le> j \<Longrightarrow> j < i + length ts \<Longrightarrow> u_coins s (mk_COutPoint h j) = None \<and> \<not> (skip \<and> invalid (mk_COutPoint h j))"
  shows "\<exists>c'. AddCoins_loop base invalid h mk False skip i ts c = Inr c' \<and>
    cache_at T base c' (s\<lparr>u_coins := u_coins s ++ created h mk i ts\<rparr>)"
  using assms
proof (induction ts arbitrary: c s i)
  case (Cons t ts)
  define s1 where "s1 = (if addable t then s\<lparr>u_coins := (u_coins s)(mk_COutPoint h i \<mapsto> mk t)\<rparr> else s)"
  have free: "u_coins s (mk_COutPoint h i) = None" "\<not> (skip \<and> invalid (mk_COutPoint h i))"
    using Cons.prems(4)[of i] by auto
  obtain c1 where c1: "AddCoin (mk_COutPoint h i) (mk t) False c = Inr c1" "cache_at T base c1 s1"
    by (rule cache_at_Add[OF Cons.prems(1), of "mk t" False "mk_COutPoint h i"])
       (use Cons.prems(3) free in \<open>auto simp: s1_def\<close>)
  have fr: "u_coins s1 (mk_COutPoint h j) = None \<and> \<not> (skip \<and> invalid (mk_COutPoint h j))"
    if "i + 1 \<le> j" "j < i + 1 + length ts" for j
    using Cons.prems(4)[of j] that Cons.prems(2) by (auto simp: s1_def mk_COutPoint_inj)
  obtain c' where c': "AddCoins_loop base invalid h mk False skip (i + 1) ts c1 = Inr c'"
    "cache_at T base c' (s1\<lparr>u_coins := u_coins s1 ++ created h mk (i + 1) ts\<rparr>)"
    using Cons.IH[OF c1(2), of "i + 1", OF _ _ fr] Cons.prems(2,3) by auto
  have "s1\<lparr>u_coins := u_coins s1 ++ created h mk (i + 1) ts\<rparr> = s\<lparr>u_coins := u_coins s ++ created h mk i (t # ts)\<rparr>"
    using created_later[of i ts h mk] Cons.prems(2)
    by (intro utxo_state_eqI) (auto simp: s1_def map_add_def split: option.split)
  with c'(2) have "cache_at T base c' (s\<lparr>u_coins := u_coins s ++ created h mk i (t # ts)\<rparr>)" by (simp only:)
  moreover have "AddCoins_loop base invalid h mk False skip i (t # ts) c = Inr c'"
    using c1(1) c'(1) free(2) by (auto simp: Let_def bindE_def)
  ultimately show ?case by blast
qed simp

lemma UpdateCoins_ok:
  assumes "cache_at T base c s" "tx_fits tx s"
    and "\<And>i. i < length (vout tx) \<Longrightarrow> \<not> (skip \<and> invalid (mk_COutPoint (GetHash tx) i))"
  shows "\<exists>c'. UpdateCoins base invalid tx nHeight skip c = Inr (undo_tx tx s, c') \<and> cache_at T base c' (apply_tx nHeight tx s)"
proof -
  define r where "r = (if \<not> IsCoinBase tx then UpdateCoins_spend base (vin tx) c else ([], c))"
  define s1 where "s1 = s\<lparr>u_coins := u_coins s |` (- spends tx)\<rparr>"
  define s2 where "s2 = s1\<lparr>u_nullifiers := u_nullifiers s1 \<union> nullifiers tx\<rparr>"
  have r: "cache_at T base (snd r) s1" "fst r = undo_tx tx s"
    using UpdateCoins_spend_ok[OF assms(1), of "vin tx"] UpdateCoins_spend_undo[OF assms(1), of "vin tx"] assms(1,2)
    by (auto simp: r_def s1_def spends_def undo_tx_def tx_fits_def)
  have n: "cache_at T base (SetNullifiers tx True (snd r)) s2"
    using cache_at_SetNullifiers[OF r(1), of tx True] by (simp add: s2_def)
  have "\<exists>c'. AddCoins_loop base invalid (GetHash tx) (new_coin tx nHeight) False skip 0 (vout tx)
      (SetNullifiers tx True (snd r)) = Inr c' \<and>
      cache_at T base c' (s2\<lparr>u_coins := u_coins s2 ++ created (GetHash tx) (new_coin tx nHeight) 0 (vout tx)\<rparr>)"
    using assms(2,3) by (intro AddCoins_loop_ok[OF n])
      (auto simp: tx_fits_def new_coin_def Coin_IsSpent_def CTxOut_IsNull_def s2_def s1_def restrict_map_def)
  moreover have "s2\<lparr>u_coins := u_coins s2 ++ created (GetHash tx) (new_coin tx nHeight) 0 (vout tx)\<rparr> = apply_tx nHeight tx s"
    by (simp add: s2_def s1_def apply_tx_def)
  ultimately show ?thesis using r(2)
    by (auto simp: UpdateCoins_def AddCoins_def new_coin_def[abs_def] r_def[symmetric] split_beta Let_def bindE_def)
qed

lemma apply_tx_wf:
  assumes "utxo_wf s" "tx_fits tx s" "0 < nHeight"
  shows "utxo_wf (apply_tx nHeight tx s)"
proof -
  have "addable (coin_out k) \<and> \<not> Coin_IsSpent k \<and> 0 < coin_nHeight k"
    if "u_coins (apply_tx nHeight tx s) op = Some k" for op k
  proof (cases "created (GetHash tx) (new_coin tx nHeight) 0 (vout tx) op")
    case None
    then show ?thesis using that assms(1) by (auto simp: apply_tx_def utxo_wf_def map_add_def restrict_map_def split: if_splits)
  next
    case (Some k')
    then have "k = k'" using that by (simp add: apply_tx_def)
    then show ?thesis using created_coin[OF Some] assms(2,3)
      by (auto simp: new_coin_def tx_fits_def Coin_IsSpent_def CTxOut_IsNull_def)
  qed
  then show ?thesis by (simp add: utxo_wf_def)
qed

section \<open>Undoing reverses it\<close>

lemma Disconnect_outputs_ok:
  assumes "cache_at T base c s" "i + length ts \<le> 2 ^ 32" "created h mk i ts \<subseteq>\<^sub>m u_coins s"
    and "\<forall>t\<in>set ts. \<not> Coin_IsSpent (mk t) \<and> coin_out (mk t) = t \<and> \<not> CTxOut_IsZerocoinMint t"
  shows "\<exists>c'. Disconnect_outputs base h i ts c = (True, c') \<and>
    cache_at T base c' (s\<lparr>u_coins := u_coins s |` (- dom (created h mk i ts))\<rparr>)"
  using assms
proof (induction ts arbitrary: c s i)
  case (Cons t ts)
  show ?case
  proof (cases "addable t")
    case True
    define s1 where "s1 = s\<lparr>u_coins := (u_coins s)(mk_COutPoint h i := None)\<rparr>"
    note sp = cache_at_Spend[OF Cons.prems(1), of "mk_COutPoint h i", folded s1_def]
    have "created h mk i (t # ts) (mk_COutPoint h i) = Some (mk t)" using True by simp
    then have k: "u_coins s (mk_COutPoint h i) = Some (mk t)" using Cons.prems(3) unfolding map_le_def by (metis domI)
    then have m: "fst (SpendCoin base (mk_COutPoint h i) c) = Some (mk t)" using sp(2) by simp
    have later: "created h mk (i + 1) ts (mk_COutPoint h i) = None"
      using Cons.prems(2) by (intro created_later) simp
    have "created h mk (i + 1) ts \<subseteq>\<^sub>m u_coins s1"
      using Cons.prems(3) True later by (auto simp: map_le_def s1_def split: if_splits)
    then obtain c' where c': "Disconnect_outputs base h (i + 1) ts (snd (SpendCoin base (mk_COutPoint h i) c)) = (True, c')"
      "cache_at T base c' (s1\<lparr>u_coins := u_coins s1 |` (- dom (created h mk (i + 1) ts))\<rparr>)"
      using Cons.IH[OF sp(1), of "i + 1"] Cons.prems(2,4) by auto
    have "s1\<lparr>u_coins := u_coins s1 |` (- dom (created h mk (i + 1) ts))\<rparr> =
        s\<lparr>u_coins := u_coins s |` (- dom (created h mk i (t # ts)))\<rparr>"
      using True by (intro utxo_state_eqI) (auto simp: s1_def restrict_map_def)
    with c'(2) have "cache_at T base c' (s\<lparr>u_coins := u_coins s |` (- dom (created h mk i (t # ts)))\<rparr>)" by (simp only:)
    moreover have "Disconnect_outputs base h i (t # ts) c = (True, c')"
      using True m c'(1) Cons.prems(4) by (simp add: addable_def Let_def split_beta)
    ultimately show ?thesis by blast
  next
    case False
    then have un: "IsUnspendable (scriptPubKey t)" using Cons.prems(4) by (auto simp: addable_def)
    have "\<exists>c'. Disconnect_outputs base h (i + 1) ts c = (True, c') \<and>
      cache_at T base c' (s\<lparr>u_coins := u_coins s |` (- dom (created h mk (i + 1) ts))\<rparr>)"
      using Cons.prems False by (intro Cons.IH) (auto simp: map_le_def)
    then show ?thesis using un False by simp
  qed
qed simp

lemma ApplyTxInUndo_ok:
  assumes "cache_at T base c s" "u_coins s op = None" "addable (coin_out k)" "\<not> Coin_IsSpent k" "0 < coin_nHeight k"
  shows "\<exists>c'. ApplyTxInUndo base k op c = Inr (DISCONNECT_OK, c') \<and>
    cache_at T base c' (s\<lparr>u_coins := (u_coins s)(op \<mapsto> k)\<rparr>)"
proof -
  note hv = cache_at_Have[OF assms(1), of op]
  obtain c' where "AddCoin op k False (snd (HaveCoin base op c)) = Inr c'"
    "cache_at T base c' (if addable (coin_out k) then s\<lparr>u_coins := (u_coins s)(op \<mapsto> k)\<rparr> else s)"
    by (rule cache_at_Add[OF hv(2) assms(4), of False op]) (use assms(2) in auto)
  then show ?thesis using assms hv(1) by (simp add: ApplyTxInUndo_def split_beta Let_def bindE_def)
qed

lemma Disconnect_inputs_ok:
  assumes "cache_at T base c s" "distinct (map (prevout \<circ> fst) ps)"
    "\<forall>p\<in>set ps. u_coins s (prevout (fst p)) = None \<and> addable (coin_out (snd p)) \<and> \<not> Coin_IsSpent (snd p) \<and> 0 < coin_nHeight (snd p)"
  shows "\<exists>c'. Disconnect_inputs base ps True c = Inr (DISCONNECT_OK, c') \<and>
    cache_at T base c' (s\<lparr>u_coins := u_coins s ++ map_of (map (\<lambda>p. (prevout (fst p), snd p)) ps)\<rparr>)"
  using assms
proof (induction ps arbitrary: c s)
  case (Cons p ps)
  obtain txin k where p: "p = (txin, k)" by fastforce
  define s1 where "s1 = s\<lparr>u_coins := (u_coins s)(prevout txin \<mapsto> k)\<rparr>"
  let ?m = "map_of (map (\<lambda>p. (prevout (fst p), snd p)) ps)"
  obtain c1 where c1: "ApplyTxInUndo base k (prevout txin) c = Inr (DISCONNECT_OK, c1)" "cache_at T base c1 s1"
    using ApplyTxInUndo_ok[OF Cons.prems(1), of "prevout txin" k] Cons.prems(3) by (auto simp: s1_def p)
  have notin: "prevout txin \<notin> (prevout \<circ> fst) ` set ps" using Cons.prems(2) by (simp add: p)
  then have "\<forall>q\<in>set ps. u_coins s1 (prevout (fst q)) = None \<and> addable (coin_out (snd q)) \<and> \<not> Coin_IsSpent (snd q) \<and> 0 < coin_nHeight (snd q)"
    using Cons.prems(3) by (auto simp: s1_def image_iff)
  then obtain c' where c': "Disconnect_inputs base ps True c1 = Inr (DISCONNECT_OK, c')"
    "cache_at T base c' (s1\<lparr>u_coins := u_coins s1 ++ ?m\<rparr>)"
    using Cons.IH[OF c1(2)] Cons.prems(2) by auto
  have "?m (prevout txin) = None" using notin by (auto simp: map_of_eq_None_iff image_iff)
  then have "s1\<lparr>u_coins := u_coins s1 ++ ?m\<rparr> =
      s\<lparr>u_coins := u_coins s ++ map_of (map (\<lambda>p. (prevout (fst p), snd p)) (p # ps))\<rparr>"
    by (intro utxo_state_eqI) (auto simp: s1_def p map_add_def split: option.split)
  with c'(2) have "cache_at T base c' (s\<lparr>u_coins := u_coins s ++ map_of (map (\<lambda>p. (prevout (fst p), snd p)) (p # ps))\<rparr>)"
    by (simp only:)
  moreover have "Disconnect_inputs base (p # ps) True c = Inr (DISCONNECT_OK, c')"
    using c1(1) c'(1) by (simp add: p bindE_def)
  ultimately show ?case by blast
qed simp

lemma restore_map:
  assumes "\<forall>p\<in>set l. m (fst p) = Some (snd p)"
  shows "(m |` (- fst ` set l)) ++ map_of l = m"
proof
  fix x
  show "((m |` (- fst ` set l)) ++ map_of l) x = m x"
  proof (cases "map_of l x")
    case None
    then have "x \<notin> fst ` set l" by (simp add: map_of_eq_None_iff)
    then show ?thesis using None by (simp add: map_add_def restrict_map_def)
  next
    case (Some v)
    then show ?thesis using assms map_of_SomeD[OF Some] by (auto simp: map_add_def)
  qed
qed

lemma created_fresh:
  assumes "tx_fits tx s"
  shows "dom (created (GetHash tx) mk 0 (vout tx)) \<inter> dom (u_coins s) = {}"
  using assms by (fastforce simp: tx_fits_def dest: created_dom)

lemma Disconnect_tx_ok:
  assumes "cache_at T base c (apply_tx nHeight tx s)" "tx_fits tx s" "utxo_wf s"
    and "IsCoinBase tx \<or> u = Some (undo_tx tx s)"
  shows "\<exists>c'. Disconnect_tx base tx u True c = Inr (DISCONNECT_OK, c') \<and> cache_at T base c' s"
proof -
  let ?C = "created (GetHash tx) (new_coin tx nHeight) 0 (vout tx)" and ?m = "u_coins s"
  define s1 where "s1 = s\<lparr>u_coins := ?m |` (- spends tx), u_nullifiers := u_nullifiers s \<union> nullifiers tx\<rparr>"
  have fr: "?m op = None" if "?C op = Some k" for op k
    using created_fresh[OF assms(2), of "new_coin tx nHeight"] domI[of ?C op k, OF that] by blast
  have "\<exists>c1. Disconnect_outputs base (GetHash tx) 0 (vout tx) c = (True, c1) \<and>
      cache_at T base c1 ((apply_tx nHeight tx s)\<lparr>u_coins := u_coins (apply_tx nHeight tx s) |` (- dom ?C)\<rparr>)"
    using assms(2) by (intro Disconnect_outputs_ok[OF assms(1)])
      (auto simp: tx_fits_def new_coin_def Coin_IsSpent_def CTxOut_IsNull_def apply_tx_def map_le_def)
  moreover have "(apply_tx nHeight tx s)\<lparr>u_coins := u_coins (apply_tx nHeight tx s) |` (- dom ?C)\<rparr> = s1"
    using fr by (intro utxo_state_eqI)
      (auto simp: apply_tx_def s1_def restrict_map_def map_add_def split: option.split)
  ultimately obtain c1 where c1: "Disconnect_outputs base (GetHash tx) 0 (vout tx) c = (True, c1)" "cache_at T base c1 s1"
    by (metis (no_types, lifting))
  show ?thesis
  proof (cases "IsCoinBase tx")
    case True
    then have "s1 = s" using assms(2) by (simp add: s1_def spends_def tx_fits_def)
    then show ?thesis using True c1 by (simp add: Disconnect_tx_def)
  next
    case False
    define ps where "ps = rev (zip (vin tx) (undo_tx tx s))"
    have u: "undo_tx tx s = map (\<lambda>txin. the (?m (prevout txin))) (vin tx)" using False by (simp add: undo_tx_def)
    have dist: "distinct (map prevout (vin tx))" and sub: "prevout ` set (vin tx) \<subseteq> dom ?m"
      using assms(2) False by (auto simp: tx_fits_def)
    let ?key = "\<lambda>p. (prevout (fst p), snd p)"
    have ps: "ps = rev (map (\<lambda>x. (x, the (?m (prevout x)))) (vin tx))"
      by (simp add: ps_def u zip_map2 zip_same_conv_map)
    have m: "?m (prevout x) = Some (the (?m (prevout x)))" if "x \<in> set (vin tx)" for x
      using sub that by auto
    define s2 where "s2 = s1\<lparr>u_nullifiers := u_nullifiers s1 - nullifiers tx\<rparr>"
    have c2: "cache_at T base (SetNullifiers tx False c1) s2"
      using cache_at_SetNullifiers[OF c1(2), of tx False] by (simp add: s2_def)
    have dist': "distinct (map (prevout \<circ> fst) ps)"
      using dist by (simp add: ps rev_map[symmetric] comp_def)
    have "\<forall>p\<in>set ps. u_coins s2 (prevout (fst p)) = None \<and> addable (coin_out (snd p)) \<and>
        \<not> Coin_IsSpent (snd p) \<and> 0 < coin_nHeight (snd p)"
      using assms(3) m False by (auto simp: ps s2_def s1_def spends_def restrict_map_def utxo_wf_def)
    from Disconnect_inputs_ok[OF c2 dist' this] obtain c' where c': "Disconnect_inputs base ps True (SetNullifiers tx False c1) = Inr (DISCONNECT_OK, c')"
      "cache_at T base c' (s2\<lparr>u_coins := u_coins s2 ++ map_of (map ?key ps)\<rparr>)" by blast
    have keys: "- fst ` set (map ?key ps) = - spends tx" using False by (auto simp: ps spends_def image_iff)
    have "(?m |` (- fst ` set (map ?key ps))) ++ map_of (map ?key ps) = ?m"
      using m by (intro restore_map) (auto simp: ps)
    then have "u_coins s2 ++ map_of (map ?key ps) = ?m" unfolding keys by (simp add: s2_def s1_def)
    then have "s2\<lparr>u_coins := u_coins s2 ++ map_of (map ?key ps)\<rparr> = s"
      using assms(2) by (intro utxo_state_eqI) (auto simp: s2_def s1_def tx_fits_def)
    with c'(2) have "cache_at T base c' s" by (simp only:)
    then show ?thesis using False c1(1) c'(1) assms(4) u by (auto simp: Disconnect_tx_def ps_def)
  qed
qed

section \<open>A block\<close>

fun apply_txs :: "nat \<Rightarrow> CTransaction list \<Rightarrow> utxo_state \<Rightarrow> utxo_state" where
  "apply_txs nHeight [] s = s"
| "apply_txs nHeight (tx # txs) s = apply_txs nHeight txs (apply_tx nHeight tx s)"

fun txs_fit :: "nat \<Rightarrow> CTransaction list \<Rightarrow> utxo_state \<Rightarrow> bool" where
  "txs_fit nHeight [] s = True"
| "txs_fit nHeight (tx # txs) s \<longleftrightarrow> tx_fits tx s \<and> txs_fit nHeight txs (apply_tx nHeight tx s)"

fun undo_txs :: "nat \<Rightarrow> CTransaction list \<Rightarrow> utxo_state \<Rightarrow> CBlockUndo" where
  "undo_txs nHeight [] s = []"
| "undo_txs nHeight (tx # txs) s = undo_tx tx s # undo_txs nHeight txs (apply_tx nHeight tx s)"

lemma length_undo_txs [simp]: "length (undo_txs nHeight txs s) = length txs"
  by (induction txs arbitrary: s) auto

lemma apply_txs_wf:
  "utxo_wf s \<Longrightarrow> txs_fit nHeight txs s \<Longrightarrow> 0 < nHeight \<Longrightarrow> utxo_wf (apply_txs nHeight txs s)"
  by (induction txs arbitrary: s) (auto intro: apply_tx_wf)

text \<open>The undo record is only looked at for a transaction that is not a coinbase.\<close>

definition undo_for :: "CTransaction \<Rightarrow> CTxUndo \<Rightarrow> CTxUndo option \<Rightarrow> bool" where
  "undo_for tx u r \<longleftrightarrow> IsCoinBase tx \<or> r = Some u"

lemma Disconnect_txs_append:
  "Disconnect_txs base (xs @ ys) fClean c =
     bindE (Disconnect_txs base xs fClean c) (\<lambda>(res, c1).
       if res = DISCONNECT_FAILED then Inr (DISCONNECT_FAILED, c1) else Disconnect_txs base ys (res \<noteq> DISCONNECT_UNCLEAN) c1)"
proof (induction xs arbitrary: fClean c)
  case (Cons x xs)
  obtain tx u where x: "x = (tx, u)" by fastforce
  show ?case
    by (cases "Disconnect_tx base tx u fClean c") (auto simp: x Cons.IH bindE_def split: sum.split if_splits)
qed (auto simp: bindE_def)

lemma Disconnect_txs_ok:
  assumes "cache_at T base c (apply_txs nHeight txs s)" "txs_fit nHeight txs s" "utxo_wf s" "0 < nHeight"
    and "list_all2 (\<lambda>(tx, u) r. undo_for tx u r) (zip txs (undo_txs nHeight txs s)) rs"
  shows "\<exists>c'. Disconnect_txs base (rev (zip txs rs)) True c = Inr (DISCONNECT_OK, c') \<and> cache_at T base c' s"
  using assms
proof (induction txs arbitrary: s rs)
  case (Cons tx txs)
  let ?s1 = "apply_tx nHeight tx s"
  obtain r rs' where rs: "rs = r # rs'" "undo_for tx (undo_tx tx s) r"
    "list_all2 (\<lambda>(tx, u) r. undo_for tx u r) (zip txs (undo_txs nHeight txs ?s1)) rs'"
    using Cons.prems(5) by (auto simp: list_all2_Cons1)
  have wf: "utxo_wf ?s1" using Cons.prems by (auto intro: apply_tx_wf)
  obtain c1 where c1: "Disconnect_txs base (rev (zip txs rs')) True c = Inr (DISCONNECT_OK, c1)" "cache_at T base c1 ?s1"
    using Cons.IH[OF _ _ wf Cons.prems(4) rs(3)] Cons.prems(1,2) by auto
  obtain c' where c': "Disconnect_tx base tx r True c1 = Inr (DISCONNECT_OK, c')" "cache_at T base c' s"
    using Disconnect_tx_ok[OF c1(2) _ Cons.prems(3), of r] Cons.prems(2) rs(2) by (auto simp: undo_for_def)
  show ?case using c1(1) c' by (auto simp: rs(1) Disconnect_txs_append bindE_def)
qed simp

lemma apply_txs_tips:
  "apply_txs nHeight txs (s\<lparr>u_anchors := A, u_best_block := bb, u_best_anchor := ba\<rparr>) =
     (apply_txs nHeight txs s)\<lparr>u_anchors := A, u_best_block := bb, u_best_anchor := ba\<rparr>"
proof (induction txs arbitrary: s)
  case (Cons tx txs)
  have "apply_tx nHeight tx (s\<lparr>u_anchors := A, u_best_block := bb, u_best_anchor := ba\<rparr>) =
      (apply_tx nHeight tx s)\<lparr>u_anchors := A, u_best_block := bb, u_best_anchor := ba\<rparr>"
    by (simp add: apply_tx_def)
  then show ?case by (simp add: Cons.IH)
qed simp

lemma apply_txs_keeps:
  "u_anchors (apply_txs nHeight txs s) = u_anchors s" "u_best_block (apply_txs nHeight txs s) = u_best_block s"
  "u_best_anchor (apply_txs nHeight txs s) = u_best_anchor s"
  by (induction txs arbitrary: s) (simp_all add: apply_tx_def)

lemma tx_fits_tips: "tx_fits tx (s\<lparr>u_anchors := A, u_best_block := bb, u_best_anchor := ba\<rparr>) = tx_fits tx s"
  by (simp add: tx_fits_def)

lemma txs_fit_tips: "txs_fit nHeight txs (s\<lparr>u_anchors := A, u_best_block := bb, u_best_anchor := ba\<rparr>) = txs_fit nHeight txs s"
proof (induction txs arbitrary: s)
  case (Cons tx txs)
  have "apply_tx nHeight tx (s\<lparr>u_anchors := A, u_best_block := bb, u_best_anchor := ba\<rparr>) =
      (apply_tx nHeight tx s)\<lparr>u_anchors := A, u_best_block := bb, u_best_anchor := ba\<rparr>"
    by (simp add: apply_tx_def)
  then show ?case by (simp add: Cons.IH tx_fits_tips)
qed simp

lemma undo_txs_tips: "undo_txs nHeight txs (s\<lparr>u_anchors := A, u_best_block := bb, u_best_anchor := ba\<rparr>) = undo_txs nHeight txs s"
proof (induction txs arbitrary: s)
  case (Cons tx txs)
  have "apply_tx nHeight tx (s\<lparr>u_anchors := A, u_best_block := bb, u_best_anchor := ba\<rparr>) =
      (apply_tx nHeight tx s)\<lparr>u_anchors := A, u_best_block := bb, u_best_anchor := ba\<rparr>"
    by (simp add: apply_tx_def)
  then show ?case by (simp add: Cons.IH undo_tx_def)
qed simp

lemma cache_at_empty_root:
  assumes "view_ok T base" "cache_at T base c s"
  shows "empty_root T \<in> u_anchors s"
proof -
  have "view_ok T (cache_view base c)" and s: "abs_cache base c = s"
    using cache_view_ok[of T base c] assms unfolding cache_at_def by blast+
  then have "v_GetSaplingAnchorAt (cache_view base c) (empty_root T) \<noteq> None" unfolding view_ok_def by (elim conjE)
  then have "empty_root T \<in> u_anchors (abs_cache base c)" unfolding abs_view_sel mem_Collect_eq .
  then show ?thesis unfolding s .
qed

lemma cache_at_Push:
  assumes "cache_at T base c s" "\<not> uint256_IsNull (tree_root T t)" "u_best_anchor s \<in> u_anchors s"
  shows "cache_at T base (PushAnchor T base t c)
    (s\<lparr>u_anchors := insert (tree_root T t) (u_anchors s), u_best_anchor := tree_root T t\<rparr>)"
  using assms PushAnchor_ok[of T base c t] unfolding cache_at_def by blast

lemma cache_at_Pop:
  assumes "view_ok T base" "cache_at T base c s" "\<not> uint256_IsNull rt" "u_best_anchor s \<in> u_anchors s"
    "u_best_anchor s = rt \<or> u_best_anchor s \<noteq> empty_root T"
  obtains c' where "PopAnchor base rt c = Inr c'"
    "cache_at T base c' (s\<lparr>u_anchors := u_anchors s - (if u_best_anchor s = rt then {} else {u_best_anchor s}), u_best_anchor := rt\<rparr>)"
proof -
  have inv: "cache_inv T base c" and s: "abs_cache base c = s" using assms(2) by (auto simp: cache_at_def)
  show ?thesis
    by (rule PopAnchor_ok[OF assms(1) inv assms(3), unfolded s, OF refl assms(4,5)])
      (use that in \<open>auto simp: cache_at_def\<close>)
qed

lemma cache_at_SetBestBlock:
  assumes "cache_at T base c s" "\<not> uint256_IsNull h"
  shows "cache_at T base (SetBestBlock h c) (s\<lparr>u_best_block := h\<rparr>)"
proof -
  have "abs_cache base (SetBestBlock h c) = (abs_cache base c)\<lparr>u_best_block := h\<rparr>"
    using assms(2) by (intro utxo_state_eqI) (simp_all add: SetBestBlock_def)
  moreover have "cache_inv T base (SetBestBlock h c) = cache_inv T base c"
    by (simp add: cache_inv_def SetBestBlock_def)
  ultimately show ?thesis using assms(1) unfolding cache_at_def by metis
qed

lemma undo_for_all:
  "length txs = length us \<Longrightarrow> list_all2 (\<lambda>(tx, u) r. undo_for tx u r) (zip txs us) (map Some us)"
  by (induction txs us rule: list_induct2) (simp_all add: undo_for_def)

text \<open>
  A block that was connected on top of \<open>s\<close> is disconnected: the state after connecting has the
  transactions applied, the new anchor pushed and the tip moved.
\<close>

lemma DisconnectBlock_ok:
  assumes "view_ok T base" "utxo_wf s" "txs_fit nHeight (vtx block) s" "0 < nHeight"
    and c: "cache_at T base c ((apply_txs nHeight (vtx block) s)
       \<lparr>u_anchors := insert rt (u_anchors s), u_best_block := h, u_best_anchor := rt\<rparr>)"
    and cb: "vtx block \<noteq> []" "IsCoinBase (hd (vtx block))"
    and prev: "prev_hash pprev = u_best_block s" "\<not> uint256_IsNull (u_best_block s)"
      "(if NetworkUpgradeActive par (prev_nHeight pprev) UPGRADE_V5_0 then prev_finalSaplingRoot pprev else empty_root T) = u_best_anchor s"
    and anchor: "\<not> uint256_IsNull (u_best_anchor s)" "u_best_anchor s \<in> u_anchors s" "rt = u_best_anchor s \<or> rt \<notin> u_anchors s"
      "empty_root T \<in> u_anchors s"
  shows "\<exists>c'. DisconnectBlock T par base (Some (tl (undo_txs nHeight (vtx block) s))) pprev block c = Inr (DISCONNECT_OK, c') \<and>
    cache_at T base c' s"
proof -
  define s' where "s' = s\<lparr>u_anchors := insert rt (u_anchors s), u_best_block := h, u_best_anchor := rt\<rparr>"
  obtain tx txs where v: "vtx block = tx # txs" using cb(1) by (cases "vtx block") auto
  have wf: "utxo_wf s'" using assms(2) by (simp add: s'_def utxo_wf_def)
  have fit: "txs_fit nHeight (vtx block) s'" unfolding s'_def txs_fit_tips by (fact assms(3))
  have at: "cache_at T base c (apply_txs nHeight (vtx block) s')" using c unfolding s'_def apply_txs_tips by simp
  define rs where "rs = None # map Some (tl (undo_txs nHeight (vtx block) s))"
  have "list_all2 (\<lambda>(tx, u) r. undo_for tx u r) (zip (vtx block) (undo_txs nHeight (vtx block) s')) rs"
    using cb(2) unfolding s'_def undo_txs_tips rs_def
    by (simp add: v undo_for_all) (simp add: undo_for_def)
  from Disconnect_txs_ok[OF at fit wf assms(4) this]
  obtain c1 where c1: "Disconnect_txs base (rev (zip (vtx block) rs)) True c = Inr (DISCONNECT_OK, c1)" "cache_at T base c1 s'"
    by blast
  have best: "u_best_anchor s' = rt" "rt \<in> u_anchors s'" by (simp_all add: s'_def)
  obtain c2 where c2: "PopAnchor base (u_best_anchor s) c1 = Inr c2"
    "cache_at T base c2 (s'\<lparr>u_anchors := u_anchors s' - (if rt = u_best_anchor s then {} else {rt}), u_best_anchor := u_best_anchor s\<rparr>)"
    by (rule cache_at_Pop[OF assms(1) c1(2) anchor(1), unfolded best, OF best(2)]) (use anchor in auto)
  have "s'\<lparr>u_anchors := u_anchors s' - (if rt = u_best_anchor s then {} else {rt}), u_best_anchor := u_best_anchor s\<rparr>\<lparr>u_best_block := u_best_block s\<rparr> = s"
    using anchor by (intro utxo_state_eqI) (auto simp: s'_def)
  with cache_at_SetBestBlock[OF c2(2) prev(2)] have "cache_at T base (SetBestBlock (u_best_block s) c2) s" by (simp only:)
  moreover have "length (tl (undo_txs nHeight (vtx block) s)) + 1 = length (vtx block)" by (simp add: v)
  ultimately show ?thesis
    using c1(1)[unfolded rs_def] c2(1) prev(1,3) by (simp add: DisconnectBlock_def bindE_def)
qed

end
