(* ===== verification/ArithU256.thy ===== *)
theory ArithU256
imports Params
begin

text \<open>
  Big unsigned integers (\<open>arith_uint256.h\<close>, \<open>arith_uint256.cpp\<close>).

  A \<open>base_uint\<close> is the array \<open>pn\<close> of its 32-bit limbs, the least significant first; its width is
  the length of the list.  Intermediate \<open>uint64_t\<close> values are reduced modulo \<open>2 ^ 64\<close> as in C++.
  The value of an array is \<open>val\<close>, and every operation is shown to compute modulo \<open>2 ^ (32 * WIDTH)\<close>
  what its name says.
\<close>

unbundle bit_operations_syntax

section \<open>The operations\<close>

type_synonym base_uint = "nat list"

abbreviation (input) u32 :: nat where "u32 \<equiv> 4294967296"
abbreviation (input) u64 :: nat where "u64 \<equiv> 18446744073709551616"

definition base_uint_zero :: "nat \<Rightarrow> base_uint" where
  "base_uint_zero WIDTH = replicate WIDTH 0"

definition base_uint_of_u64 :: "nat \<Rightarrow> nat \<Rightarrow> base_uint" where
  "base_uint_of_u64 WIDTH b = b mod u32 # b div u32 mod u32 # replicate (WIDTH - 2) 0"

definition base_uint_IsNull :: "base_uint \<Rightarrow> bool" where
  "base_uint_IsNull pn = list_all (\<lambda>x. x = 0) pn"

definition base_uint_not :: "base_uint \<Rightarrow> base_uint" where
  "base_uint_not pn = map (\<lambda>x. u32 - 1 - x) pn"

fun base_uint_incr :: "base_uint \<Rightarrow> base_uint" where
  "base_uint_incr [] = []"
| "base_uint_incr (x # xs) = (let x' = (x + 1) mod u32 in if x' = 0 then x' # base_uint_incr xs else x' # xs)"

definition base_uint_neg :: "base_uint \<Rightarrow> base_uint" where
  "base_uint_neg pn = base_uint_incr (base_uint_not pn)"

fun add_loop :: "nat \<Rightarrow> base_uint \<Rightarrow> base_uint \<Rightarrow> base_uint" where
  "add_loop carry (x # xs) (y # ys) =
     (let n = (carry + x + y) mod u64 in n mod u32 # add_loop (n div u32) xs ys)"
| "add_loop carry xs ys = xs"

definition base_uint_add :: "base_uint \<Rightarrow> base_uint \<Rightarrow> base_uint" where
  "base_uint_add a b = add_loop 0 a b"

definition base_uint_sub :: "base_uint \<Rightarrow> base_uint \<Rightarrow> base_uint" where
  "base_uint_sub a b = base_uint_add a (base_uint_neg b)"

fun mul32_loop :: "nat \<Rightarrow> nat \<Rightarrow> base_uint \<Rightarrow> base_uint" where
  "mul32_loop b32 carry [] = []"
| "mul32_loop b32 carry (x # xs) =
     (let n = (carry + b32 * x) mod u64 in n mod u32 # mul32_loop b32 (n div u32) xs)"

definition base_uint_mul32 :: "base_uint \<Rightarrow> nat \<Rightarrow> base_uint" where
  "base_uint_mul32 pn b32 = mul32_loop b32 0 pn"

text \<open>The inner loop adds \<open>pn[j] * b\<close> to the limbs of the result from \<open>j\<close> on; the outer one moves on by a limb.\<close>

fun mul_inner :: "nat \<Rightarrow> nat \<Rightarrow> base_uint \<Rightarrow> base_uint \<Rightarrow> base_uint" where
  "mul_inner pnj carry (x # xs) (b # bs) =
     (let n = (carry + x + pnj * b) mod u64 in n mod u32 # mul_inner pnj (n div u32) xs bs)"
| "mul_inner pnj carry xs bs = xs"

fun mul_outer :: "base_uint \<Rightarrow> base_uint \<Rightarrow> base_uint \<Rightarrow> base_uint" where
  "mul_outer (p # ps) a b = (case mul_inner p 0 a b of [] \<Rightarrow> [] | x # xs \<Rightarrow> x # mul_outer ps xs b)"
| "mul_outer [] a b = a"

definition base_uint_mul :: "base_uint \<Rightarrow> base_uint \<Rightarrow> base_uint" where
  "base_uint_mul pn b = mul_outer pn (base_uint_zero (length pn)) b"

definition shl_step :: "base_uint \<Rightarrow> nat \<Rightarrow> nat \<Rightarrow> base_uint \<Rightarrow> nat \<Rightarrow> base_uint" where
  "shl_step a k shift pn i =
     (let pn' = (if i + k + 1 < length a \<and> shift \<noteq> 0
                 then pn[i + k + 1 := pn ! (i + k + 1) OR drop_bit (32 - shift) (a ! i)] else pn)
      in if i + k < length a then pn'[i + k := pn' ! (i + k) OR take_bit 32 (push_bit shift (a ! i))] else pn')"

definition base_uint_shl :: "base_uint \<Rightarrow> nat \<Rightarrow> base_uint" where
  "base_uint_shl a shift = foldl (shl_step a (shift div 32) (shift mod 32)) (base_uint_zero (length a)) [0..<length a]"

definition shr_step :: "base_uint \<Rightarrow> nat \<Rightarrow> nat \<Rightarrow> base_uint \<Rightarrow> nat \<Rightarrow> base_uint" where
  "shr_step a k shift pn i =
     (let pn' = (if i \<ge> k + 1 \<and> shift \<noteq> 0
                 then pn[i - k - 1 := pn ! (i - k - 1) OR take_bit 32 (push_bit (32 - shift) (a ! i))] else pn)
      in if i \<ge> k then pn'[i - k := pn' ! (i - k) OR drop_bit shift (a ! i)] else pn')"

definition base_uint_shr :: "base_uint \<Rightarrow> nat \<Rightarrow> base_uint" where
  "base_uint_shr a shift = foldl (shr_step a (shift div 32) (shift mod 32)) (base_uint_zero (length a)) [0..<length a]"

text \<open>The limbs are compared from the most significant one down.\<close>

fun compare_loop :: "base_uint \<Rightarrow> base_uint \<Rightarrow> int" where
  "compare_loop (x # xs) (y # ys) = (if x < y then -1 else if x > y then 1 else compare_loop xs ys)"
| "compare_loop xs ys = 0"

definition CompareTo :: "base_uint \<Rightarrow> base_uint \<Rightarrow> int" where
  "CompareTo a b = compare_loop (rev a) (rev b)"

definition EqualTo :: "base_uint \<Rightarrow> nat \<Rightarrow> bool" where
  "EqualTo pn b \<longleftrightarrow>
     (if list_ex (\<lambda>x. x \<noteq> 0) (drop 2 pn) then False
      else if pn ! 1 \<noteq> b div u32 then False
      else if pn ! 0 \<noteq> b mod u32 then False
      else True)"

fun top_bit :: "nat \<Rightarrow> nat \<Rightarrow> nat" where
  "top_bit x 0 = 1"
| "top_bit x (Suc bits) = (if bit x (Suc bits) then Suc bits + 1 else top_bit x bits)"

fun bits_loop :: "base_uint \<Rightarrow> nat" where
  "bits_loop [] = 0"
| "bits_loop (x # xs) = (if x \<noteq> 0 then 32 * length xs + top_bit x 31 else bits_loop xs)"

definition base_uint_bits :: "base_uint \<Rightarrow> nat" where
  "base_uint_bits pn = bits_loop (rev pn)"

text \<open>The loop for the shifts from \<open>s\<close> down to 0, called with \<open>Suc s\<close>.\<close>

fun div_loop :: "nat \<Rightarrow> base_uint \<Rightarrow> base_uint \<Rightarrow> base_uint \<Rightarrow> base_uint" where
  "div_loop 0 num dv pn = pn"
| "div_loop (Suc s) num dv pn =
     (if CompareTo num dv \<ge> 0
      then div_loop s (base_uint_sub num dv) (base_uint_shr dv 1) (pn[s div 32 := pn ! (s div 32) OR push_bit (s mod 32) 1])
      else div_loop s num (base_uint_shr dv 1) pn)"

text \<open>\<open>None\<close> is the exception for a division by zero.\<close>

definition base_uint_div :: "base_uint \<Rightarrow> base_uint \<Rightarrow> base_uint option" where
  "base_uint_div a b =
     (let num_bits = base_uint_bits a; div_bits = base_uint_bits b
      in if div_bits = 0 then None
         else if div_bits > num_bits then Some (base_uint_zero (length a))
         else let shift = num_bits - div_bits
              in Some (div_loop (shift + 1) a (base_uint_shl b shift) (base_uint_zero (length a))))"

definition GetLow64 :: "base_uint \<Rightarrow> nat" where
  "GetLow64 pn = pn ! 0 OR push_bit 32 (pn ! 1)"

section \<open>The compact form of a target\<close>

abbreviation (input) WIDTH256 :: nat where "WIDTH256 \<equiv> 8"

text \<open>The number, the sign flag and the overflow flag.\<close>

definition SetCompact :: "nat \<Rightarrow> base_uint \<times> bool \<times> bool" where
  "SetCompact nCompact =
     (let nSize = nCompact div 2 ^ 24; nWord0 = nCompact mod 2 ^ 23;
          nWord = (if nSize \<le> 3 then nWord0 div 2 ^ (8 * (3 - nSize)) else nWord0);
          r = (if nSize \<le> 3 then base_uint_of_u64 WIDTH256 nWord
               else base_uint_shl (base_uint_of_u64 WIDTH256 nWord) (8 * (nSize - 3)))
      in (r, nWord \<noteq> 0 \<and> bit nCompact 23,
          nWord \<noteq> 0 \<and> (nSize > 34 \<or> nWord > 0xff \<and> nSize > 33 \<or> nWord > 0xffff \<and> nSize > 32)))"

text \<open>\<open>None\<close> is a failed assertion.\<close>

definition GetCompact :: "bool \<Rightarrow> base_uint \<Rightarrow> nat option" where
  "GetCompact fNegative pn =
     (let nSize0 = (base_uint_bits pn + 7) div 8;
          nCompact0 = (if nSize0 \<le> 3 then GetLow64 pn * 2 ^ (8 * (3 - nSize0)) mod u64 mod u32
                       else GetLow64 (base_uint_shr pn (8 * (nSize0 - 3))) mod u32);
          nCompact1 = (if bit nCompact0 23 then nCompact0 div 2 ^ 8 else nCompact0);
          nSize = (if bit nCompact0 23 then nSize0 + 1 else nSize0)
      in if nCompact1 \<ge> 2 ^ 23 then None
         else if nSize \<ge> 256 then None
         else let nCompact2 = nCompact1 + nSize * 2 ^ 24
              in Some (nCompact2 + (if fNegative \<and> nCompact1 \<noteq> 0 then 2 ^ 23 else 0)))"

definition UintToArith256 :: "uint256 \<Rightarrow> base_uint" where
  "UintToArith256 a = map (\<lambda>x. ReadLE32 (drop (4 * x) a)) [0..<WIDTH256]"

definition ArithToUint256 :: "base_uint \<Rightarrow> uint256" where
  "ArithToUint256 a = concat (map WriteLE32 a)"

section \<open>The value of the limbs\<close>

named_theorems val_simps

fun val :: "base_uint \<Rightarrow> nat" where
  "val [] = 0"
| "val (x # xs) = x + u32 * val xs"

definition limbs :: "base_uint \<Rightarrow> bool" where
  "limbs pn \<longleftrightarrow> (\<forall>x\<in>set pn. x < u32)"

lemma limbs_simps [simp]:
  "limbs []" "limbs (x # xs) \<longleftrightarrow> x < u32 \<and> limbs xs" "limbs (xs @ ys) \<longleftrightarrow> limbs xs \<and> limbs ys"
  "limbs (rev xs) \<longleftrightarrow> limbs xs" "limbs (replicate n 0)"
  by (auto simp: limbs_def)

lemma limbs_nth: "limbs pn \<Longrightarrow> i < length pn \<Longrightarrow> pn ! i < u32"
  by (auto simp: limbs_def)

lemma val_less: "limbs pn \<Longrightarrow> val pn < u32 ^ length pn"
proof (induction pn)
  case (Cons x xs)
  then have "x < u32" "val xs + 1 \<le> u32 ^ length xs" by auto
  then have "x + u32 * val xs < u32 * (val xs + 1)" "u32 * (val xs + 1) \<le> u32 * u32 ^ length xs" by simp_all
  then show ?case by simp
qed simp

lemma val_append: "val (xs @ ys) = val xs + u32 ^ length xs * val ys"
  by (induction xs) (simp_all add: algebra_simps)

lemma val_replicate [simp]: "val (replicate n 0) = 0"
  by (induction n) auto

lemma val_zero [simp]: "val (base_uint_zero n) = 0" "length (base_uint_zero n) = n" "limbs (base_uint_zero n)"
  by (simp_all add: base_uint_zero_def)

lemma digit_mod: "n mod b + b * (n div b mod m) = n mod (b * m)" for n b m :: nat
  by (simp add: mod_mult2_eq)

lemma div_add_le: "(n + b * m) div b = n div b + m" if "0 < b" for n b m :: nat
  using that by simp

lemma step_mod:
  fixes n b v m :: nat
  assumes "0 < b"
  shows "n mod b + b * ((n div b + v) mod m) = (n + b * v) mod (b * m)"
  using digit_mod[of "n + b * v" b m] assms by (simp add: add.commute)

lemma val_base_uint_of_u64:
  assumes "b < u64" "2 \<le> n"
  shows "val (base_uint_of_u64 n b) = b" "limbs (base_uint_of_u64 n b)" "length (base_uint_of_u64 n b) = n"
proof -
  have "b div u32 < u32" using assms(1) by (simp add: less_mult_imp_div_less)
  then show "val (base_uint_of_u64 n b) = b" by (simp add: base_uint_of_u64_def)
  show "limbs (base_uint_of_u64 n b)" by (simp add: base_uint_of_u64_def)
  show "length (base_uint_of_u64 n b) = n" using assms(2) by (simp add: base_uint_of_u64_def)
qed

lemma IsNull_iff: "base_uint_IsNull pn \<longleftrightarrow> val pn = 0"
  unfolding base_uint_IsNull_def by (induction pn) auto

section \<open>Addition and subtraction\<close>

lemma add_loop_ok:
  assumes "length xs = length ys" "limbs xs" "limbs ys" "carry \<le> 1"
  shows "val (add_loop carry xs ys) = (carry + val xs + val ys) mod u32 ^ length xs \<and>
    limbs (add_loop carry xs ys) \<and> length (add_loop carry xs ys) = length xs"
  using assms
proof (induction xs ys arbitrary: carry rule: list_induct2)
  case (Cons x xs y ys)
  define n where "n = carry + x + y"
  have n: "n < u64" "n < u32 * 2" using Cons.prems by (simp_all add: n_def)
  then have nd: "n div u32 \<le> 1" using less_mult_imp_div_less[of n 2 u32] by simp
  note IH = Cons.IH[OF _ _ nd]
  have "n mod u32 + u32 * ((n div u32 + (val xs + val ys)) mod u32 ^ length xs) =
      (n + u32 * (val xs + val ys)) mod (u32 * u32 ^ length xs)"
    by (rule step_mod) simp
  then show ?case using IH Cons.prems n(1)
    by (simp add: n_def[symmetric] Let_def add.assoc) (simp add: n_def algebra_simps)
qed simp

lemmas base_uint_add_ok = add_loop_ok[where carry = 0, simplified, folded base_uint_add_def]

lemma not_ok: "limbs pn \<Longrightarrow> val (base_uint_not pn) + val pn + 1 = u32 ^ length pn \<and> limbs (base_uint_not pn)"
  by (induction pn) (auto simp: base_uint_not_def algebra_simps)

lemma incr_ok: "limbs pn \<Longrightarrow> val (base_uint_incr pn) = (val pn + 1) mod u32 ^ length pn \<and> limbs (base_uint_incr pn)
    \<and> length (base_uint_incr pn) = length pn"
proof (induction pn)
  case (Cons x xs)
  show ?case
  proof (cases "x = u32 - 1")
    case True
    have "u32 * ((val xs + 1) mod u32 ^ length xs) = (u32 * (val xs + 1)) mod (u32 * u32 ^ length xs)"
      by (simp add: mult_mod_right)
    then show ?thesis using Cons True by simp
  next
    case False
    then have "x + 1 < u32" using Cons.prems by simp
    moreover have "x + u32 * val xs + 1 < u32 * u32 ^ length xs"
      using val_less[of "(x + 1) # xs"] Cons.prems \<open>x + 1 < u32\<close> by simp
    ultimately show ?thesis using Cons.prems by simp
  qed
qed simp

lemma neg_ok:
  assumes "limbs pn"
  shows "val (base_uint_neg pn) = (u32 ^ length pn - val pn) mod u32 ^ length pn" "limbs (base_uint_neg pn)"
    "length (base_uint_neg pn) = length pn"
proof -
  have n: "val (base_uint_not pn) + 1 = u32 ^ length pn - val pn" "limbs (base_uint_not pn)"
    using not_ok[OF assms] by auto
  moreover have "length (base_uint_not pn) = length pn" by (simp add: base_uint_not_def)
  ultimately show "val (base_uint_neg pn) = (u32 ^ length pn - val pn) mod u32 ^ length pn" "limbs (base_uint_neg pn)"
    "length (base_uint_neg pn) = length pn"
    using incr_ok[of "base_uint_not pn"] by (auto simp: base_uint_neg_def)
qed

lemma sub_ok:
  assumes "length a = length b" "limbs a" "limbs b"
  shows "val (base_uint_sub a b) = (val a + (u32 ^ length a - val b)) mod u32 ^ length a"
    "limbs (base_uint_sub a b)" "length (base_uint_sub a b) = length a"
  using base_uint_add_ok[of a "base_uint_neg b"] neg_ok[OF assms(3)] assms
  by (simp_all add: base_uint_sub_def mod_add_right_eq)

lemma sub_exact:
  assumes "length a = length b" "limbs a" "limbs b" "val b \<le> val a"
  shows "val (base_uint_sub a b) = val a - val b"
proof -
  have "val a + (u32 ^ length a - val b) = (val a - val b) + u32 ^ length a"
    using assms val_less[of b] by simp
  then have "val (base_uint_sub a b) = (val a - val b) mod u32 ^ length a"
    unfolding sub_ok(1)[OF assms(1-3)] by simp
  then show ?thesis using val_less[OF assms(2)] by simp
qed

section \<open>Multiplication\<close>

lemma limb_product: "x < u32 \<Longrightarrow> y < u32 \<Longrightarrow> c < u32 \<Longrightarrow> d < u32 \<Longrightarrow> c + d + x * y < u64" for x y c d :: nat
proof -
  assume a: "x < u32" "y < u32" "c < u32" "d < u32"
  have "x * y \<le> (u32 - 1) * (u32 - 1)" using a by (intro mult_le_mono) auto
  then show ?thesis using a by simp
qed

lemma mul32_loop_ok:
  assumes "limbs xs" "b32 < u32" "carry < u32"
  shows "val (mul32_loop b32 carry xs) = (carry + b32 * val xs) mod u32 ^ length xs \<and>
    limbs (mul32_loop b32 carry xs) \<and> length (mul32_loop b32 carry xs) = length xs"
  using assms
proof (induction xs arbitrary: carry)
  case (Cons x xs)
  define n where "n = carry + b32 * x"
  have n: "n < u64" using limb_product[of b32 x carry 0] Cons.prems by (simp add: n_def)
  then have nd: "n div u32 < u32" by (simp add: less_mult_imp_div_less)
  have "n mod u32 + u32 * ((n div u32 + b32 * val xs) mod u32 ^ length xs) =
      (n + u32 * (b32 * val xs)) mod (u32 * u32 ^ length xs)"
    by (rule step_mod) simp
  then show ?case using Cons.IH[OF _ _ nd] Cons.prems n
    by (simp add: n_def[symmetric] Let_def) (simp add: n_def algebra_simps)
qed simp

lemma mul_inner_ok:
  assumes "limbs xs" "limbs bs" "pnj < u32" "carry < u32" "length xs \<le> length bs"
  shows "val (mul_inner pnj carry xs bs) = (carry + val xs + pnj * val bs) mod u32 ^ length xs \<and>
    limbs (mul_inner pnj carry xs bs) \<and> length (mul_inner pnj carry xs bs) = length xs"
  using assms
proof (induction xs arbitrary: carry bs)
  case (Cons x xs)
  obtain b bs' where bs: "bs = b # bs'" using Cons.prems(5) by (cases bs) auto
  define n where "n = carry + x + pnj * b"
  have n: "n < u64" using limb_product[of pnj b carry x] Cons.prems by (simp add: n_def bs)
  then have nd: "n div u32 < u32" by (simp add: less_mult_imp_div_less)
  have "n mod u32 + u32 * ((n div u32 + (val xs + pnj * val bs')) mod u32 ^ length xs) =
      (n + u32 * (val xs + pnj * val bs')) mod (u32 * u32 ^ length xs)"
    by (rule step_mod) simp
  then show ?case using Cons.IH[OF _ _ _ nd, of bs'] Cons.prems n
    by (simp add: bs n_def[symmetric] Let_def add.assoc) (simp add: n_def algebra_simps)
qed simp

lemma mul_outer_ok:
  assumes "length ps = length as" "limbs ps" "limbs as" "limbs b" "length as \<le> length b"
  shows "val (mul_outer ps as b) = (val as + val ps * val b) mod u32 ^ length as \<and>
    limbs (mul_outer ps as b) \<and> length (mul_outer ps as b) = length as"
  using assms
proof (induction ps arbitrary: as)
  case (Cons p ps)
  let ?i = "mul_inner p 0 as b"
  have i: "val ?i = (val as + p * val b) mod u32 ^ length as" "limbs ?i" "length ?i = length as"
    using mul_inner_ok[of as b p 0] Cons.prems by auto
  then obtain x xs where xs: "?i = x # xs" using Cons.prems(1) by (cases ?i) auto
  have len: "length as = Suc (length xs)" "length ps = length xs" using i(3) xs Cons.prems(1) by auto
  have IH: "val (mul_outer ps xs b) = (val xs + val ps * val b) mod u32 ^ length xs \<and>
    limbs (mul_outer ps xs b) \<and> length (mul_outer ps xs b) = length xs"
    using Cons.prems i xs len by (intro Cons.IH) auto
  have x: "x < u32" using i(2) xs by simp
  have "x mod u32 + u32 * ((x div u32 + (val xs + val ps * val b)) mod u32 ^ length xs) =
      (x + u32 * (val xs + val ps * val b)) mod (u32 * u32 ^ length xs)"
    by (rule step_mod) simp
  also have "x + u32 * (val xs + val ps * val b) = val ?i + u32 * val ps * val b"
    by (simp add: xs algebra_simps)
  also have "(val ?i + u32 * val ps * val b) mod (u32 * u32 ^ length xs) =
      (val as + val (p # ps) * val b) mod u32 ^ length as"
    unfolding i(1) len(1) power_Suc mod_add_left_eq by (simp add: algebra_simps)
  finally show ?case using IH x i(2) xs by (simp add: len)
qed simp

lemma mul_ok:
  assumes "length a = length b" "limbs a" "limbs b"
  shows "val (base_uint_mul a b) = val a * val b mod u32 ^ length a" "limbs (base_uint_mul a b)"
    "length (base_uint_mul a b) = length a"
  using mul_outer_ok[of a "base_uint_zero (length a)" b] assms by (simp_all add: base_uint_mul_def)

section \<open>Shifts\<close>

lemma bit_beyond: "x < 2 ^ k \<Longrightarrow> k \<le> n \<Longrightarrow> \<not> bit x n" for x :: nat
proof -
  assume "x < 2 ^ k" "k \<le> n"
  then have "x < 2 ^ n" using power_increasing[of k n "2 :: nat"] by linarith
  then show "\<not> bit x n" by (simp add: bit_iff_odd)
qed

lemma bit_val:
  assumes "limbs a"
  shows "bit (val a) n \<longleftrightarrow> n div 32 < length a \<and> bit (a ! (n div 32)) (n mod 32)"
  using assms
proof (induction a arbitrary: n)
  case (Cons x xs)
  have x: "x < 2 ^ 32" using Cons.prems by simp
  have low: "take_bit 32 (val (x # xs)) = x" and high: "drop_bit 32 (val (x # xs)) = val xs"
    using x by (simp_all add: take_bit_eq_mod drop_bit_eq_div)
  show ?case
  proof (cases "n < 32")
    case True
    then have "bit (val (x # xs)) n = bit (take_bit 32 (val (x # xs))) n" by (simp add: bit_take_bit_iff)
    then show ?thesis unfolding low using True by simp
  next
    case False
    then have "bit (val (x # xs)) n = bit (drop_bit 32 (val (x # xs))) (n - 32)" by (simp add: bit_drop_bit_eq)
    moreover have "n div 32 = Suc ((n - 32) div 32)" "n mod 32 = (n - 32) mod 32"
      using False by (simp_all add: le_div_geq le_mod_geq)
    ultimately show ?thesis unfolding high using Cons by simp
  qed
qed simp

lemma bit_limb: "limbs a \<Longrightarrow> i < length a \<Longrightarrow> 32 \<le> n \<Longrightarrow> \<not> bit (a ! i) n"
  using limbs_nth[of a i] bit_beyond[of "a ! i" 32 n] by simp

lemma or_limb: "x < u32 \<Longrightarrow> y < u32 \<Longrightarrow> x OR y < u32" for x y :: nat
  using or_nat_def[of x y] OR_upper[of "int x" 32 "int y"] by (simp add: or_nat_def nat_less_iff)

definition shl_limb :: "base_uint \<Rightarrow> nat \<Rightarrow> nat \<Rightarrow> nat \<Rightarrow> nat \<Rightarrow> nat" where
  "shl_limb a k s m j =
     (if k \<le> j \<and> j - k < m then take_bit 32 (push_bit s (a ! (j - k))) else 0) OR
     (if k + 1 \<le> j \<and> j - k - 1 < m \<and> s \<noteq> 0 then drop_bit (32 - s) (a ! (j - k - 1)) else 0)"

lemma shl_loop:
  assumes "m \<le> length a"
  shows "length (foldl (shl_step a k s) (base_uint_zero (length a)) [0..<m]) = length a \<and>
    (\<forall>j < length a. foldl (shl_step a k s) (base_uint_zero (length a)) [0..<m] ! j = shl_limb a k s m j)"
  using assms
proof (induction m)
  case 0
  then show ?case by (simp add: shl_limb_def base_uint_zero_def)
next
  case (Suc m)
  define pn where "pn = foldl (shl_step a k s) (base_uint_zero (length a)) [0..<m]"
  have len: "length pn = length a" and nth: "\<And>j. j < length a \<Longrightarrow> pn ! j = shl_limb a k s m j"
    using Suc by (auto simp: pn_def)
  have "shl_step a k s pn m ! j = shl_limb a k s (Suc m) j" if j: "j < length a" for j
  proof -
    consider "j = m + k + 1" | "j = m + k" | "j \<noteq> m + k + 1" "j \<noteq> m + k" by blast
    then show ?thesis
    proof cases
      case 1
      then show ?thesis using j len nth[of j] by (simp add: shl_step_def shl_limb_def Let_def)
    next
      case 2
      then show ?thesis using j len nth[of j] by (cases m) (simp_all add: shl_step_def shl_limb_def Let_def or.commute)
    next
      case 3
      then have "(k \<le> j \<and> j - k < Suc m) = (k \<le> j \<and> j - k < m)"
        "(k + 1 \<le> j \<and> j - k - 1 < Suc m \<and> s \<noteq> 0) = (k + 1 \<le> j \<and> j - k - 1 < m \<and> s \<noteq> 0)"
        by auto
      then have "shl_limb a k s (Suc m) j = shl_limb a k s m j" unfolding shl_limb_def by (simp only:)
      moreover have "shl_step a k s pn m ! j = pn ! j" using 3 by (simp add: shl_step_def Let_def)
      ultimately show ?thesis using nth[OF j] by simp
    qed
  qed
  then show ?case using len by (simp add: pn_def[symmetric]) (simp add: shl_step_def Let_def)
qed

definition shr_limb :: "base_uint \<Rightarrow> nat \<Rightarrow> nat \<Rightarrow> nat \<Rightarrow> nat \<Rightarrow> nat" where
  "shr_limb a k s m j =
     (if j + k < m then drop_bit s (a ! (j + k)) else 0) OR
     (if j + k + 1 < m \<and> s \<noteq> 0 then take_bit 32 (push_bit (32 - s) (a ! (j + k + 1))) else 0)"

lemma shr_loop:
  assumes "m \<le> length a"
  shows "length (foldl (shr_step a k s) (base_uint_zero (length a)) [0..<m]) = length a \<and>
    (\<forall>j < length a. foldl (shr_step a k s) (base_uint_zero (length a)) [0..<m] ! j = shr_limb a k s m j)"
  using assms
proof (induction m)
  case 0
  then show ?case by (simp add: shr_limb_def base_uint_zero_def)
next
  case (Suc m)
  define pn where "pn = foldl (shr_step a k s) (base_uint_zero (length a)) [0..<m]"
  have len: "length pn = length a" and nth: "\<And>j. j < length a \<Longrightarrow> pn ! j = shr_limb a k s m j"
    using Suc by (auto simp: pn_def)
  have "shr_step a k s pn m ! j = shr_limb a k s (Suc m) j" if j: "j < length a" for j
  proof -
    consider "m = j + k + 1" | "m = j + k" | "m \<noteq> j + k + 1" "m \<noteq> j + k" by blast
    then show ?thesis
    proof cases
      case 1
      then show ?thesis using j len nth[of j] by (simp add: shr_step_def shr_limb_def Let_def)
    next
      case 2
      then show ?thesis using j len nth[of j] by (cases j) (simp_all add: shr_step_def shr_limb_def Let_def or.commute)
    next
      case 3
      then have "(j + k < Suc m) = (j + k < m)" "(j + k + 1 < Suc m) = (j + k + 1 < m)" by auto
      then have "shr_limb a k s (Suc m) j = shr_limb a k s m j" unfolding shr_limb_def by (simp only:)
      moreover have "shr_step a k s pn m ! j = pn ! j" using 3 Suc.prems by (auto simp: shr_step_def Let_def)
      ultimately show ?thesis using nth[OF j] by simp
    qed
  qed
  then show ?case using len by (simp add: pn_def[symmetric]) (simp add: shr_step_def Let_def)
qed

lemma shl_limb_bit:
  assumes "limbs a" "j < length a" "s < 32" "r < 32"
  shows "bit (shl_limb a k s (length a) j) r \<longleftrightarrow>
    (if s \<le> r then k \<le> j \<and> bit (a ! (j - k)) (r - s) else k + 1 \<le> j \<and> bit (a ! (j - k - 1)) (32 + r - s))"
proof -
  have "\<not> bit (a ! (j - k - 1)) (32 + r - s)" if "s \<le> r"
    using that assms by (intro bit_limb) auto
  then show ?thesis using assms
    by (auto simp: shl_limb_def bit_or_iff bit_take_bit_iff bit_push_bit_iff bit_drop_bit_eq)
qed

lemma shr_limb_bit:
  assumes "limbs a" "s < 32" "r < 32"
  shows "bit (shr_limb a k s (length a) j) r \<longleftrightarrow>
    (if r + s < 32 then j + k < length a \<and> bit (a ! (j + k)) (r + s) else j + k + 1 < length a \<and> bit (a ! (j + k + 1)) (r + s - 32))"
proof -
  have "\<not> bit (a ! (j + k)) (s + r)" if "\<not> r + s < 32" "j + k < length a"
    using that assms by (intro bit_limb) auto
  moreover have "r + s - 32 = r - (32 - s)" using assms by simp
  ultimately show ?thesis using assms
    by (auto simp: shr_limb_def bit_or_iff bit_take_bit_iff bit_push_bit_iff bit_drop_bit_eq add.commute)
qed

lemma limb_less_iff: "x < u32 \<longleftrightarrow> take_bit 32 x = x" for x :: nat
  by (simp add: take_bit_nat_eq_self_iff)

lemma shl_limb_less: "limbs a \<Longrightarrow> j < length a \<Longrightarrow> shl_limb a k s m j < u32"
proof -
  assume a: "limbs a" "j < length a"
  have "drop_bit (32 - s) (a ! (j - k - 1)) < u32"
    unfolding drop_bit_eq_div using limbs_nth[OF a(1), of "j - k - 1"] a(2)
    by (intro le_less_trans[OF div_le_dividend]) simp
  moreover have "take_bit 32 (push_bit s (a ! (j - k))) < u32"
    using take_bit_nat_less_exp[of 32 "push_bit s (a ! (j - k))"] by simp
  ultimately show ?thesis unfolding shl_limb_def by (intro or_limb) auto
qed

lemma shr_limb_less: "limbs a \<Longrightarrow> m = length a \<Longrightarrow> shr_limb a k s m j < u32"
proof -
  assume a: "limbs a" "m = length a"
  have "drop_bit s (a ! (j + k)) < u32" if "j + k < m"
    unfolding drop_bit_eq_div using limbs_nth[OF a(1), of "j + k"] a(2) that
    by (intro le_less_trans[OF div_le_dividend]) simp
  moreover have "take_bit 32 (push_bit (32 - s) (a ! (j + k + 1))) < u32"
    using take_bit_nat_less_exp[of 32 "push_bit (32 - s) (a ! (j + k + 1))"] by simp
  ultimately show ?thesis unfolding shr_limb_def by (intro or_limb) auto
qed

lemma divmod32: "t < 32 \<Longrightarrow> (32 * q + t) div 32 = q \<and> (32 * q + t) mod 32 = t" for q t :: nat
  by simp

lemma sub32:
  fixes m n :: nat
  shows "n mod 32 \<le> m mod 32 \<Longrightarrow> n \<le> m \<longleftrightarrow> n div 32 \<le> m div 32"
    and "n mod 32 \<le> m mod 32 \<Longrightarrow> n \<le> m \<Longrightarrow> (m - n) div 32 = m div 32 - n div 32"
    and "n mod 32 \<le> m mod 32 \<Longrightarrow> n \<le> m \<Longrightarrow> (m - n) mod 32 = m mod 32 - n mod 32"
    and "m mod 32 < n mod 32 \<Longrightarrow> n \<le> m \<longleftrightarrow> n div 32 + 1 \<le> m div 32"
    and "m mod 32 < n mod 32 \<Longrightarrow> n \<le> m \<Longrightarrow> (m - n) div 32 = m div 32 - n div 32 - 1"
    and "m mod 32 < n mod 32 \<Longrightarrow> n \<le> m \<Longrightarrow> (m - n) mod 32 = 32 + m mod 32 - n mod 32"
proof -
  define j r k s where "j = m div 32" "r = m mod 32" "k = n div 32" "s = n mod 32"
  have m: "m = 32 * j + r" "r < 32" and n: "n = 32 * k + s" "s < 32" by (simp_all add: j_r_k_s_def)
  show 1: "n \<le> m \<longleftrightarrow> n div 32 \<le> m div 32" if "n mod 32 \<le> m mod 32"
    using that m n unfolding j_r_k_s_def[symmetric] by linarith
  have 2: "m - n = 32 * (j - k) + (r - s)" if "n mod 32 \<le> m mod 32" "n \<le> m"
    using that m n 1 unfolding j_r_k_s_def[symmetric] by (simp add: diff_mult_distrib2)
  show "(m - n) div 32 = m div 32 - n div 32" "(m - n) mod 32 = m mod 32 - n mod 32"
    if "n mod 32 \<le> m mod 32" "n \<le> m"
    unfolding 2[OF that] using divmod32[of "r - s" "j - k"] m(2) unfolding j_r_k_s_def[symmetric] by auto
  show 3: "n \<le> m \<longleftrightarrow> n div 32 + 1 \<le> m div 32" if "m mod 32 < n mod 32"
    using that m n unfolding j_r_k_s_def[symmetric] by linarith
  have 4: "m - n = 32 * (j - k - 1) + (32 + r - s)" if "m mod 32 < n mod 32" "n \<le> m"
  proof -
    have "k + 1 \<le> j" "r < s" using 3[OF that(1)] that by (simp_all add: j_r_k_s_def)
    then obtain d where "j = k + 1 + d" using le_Suc_ex by blast
    then show ?thesis using m n \<open>r < s\<close> by simp
  qed
  show "(m - n) div 32 = m div 32 - n div 32 - 1" "(m - n) mod 32 = 32 + m mod 32 - n mod 32"
    if "m mod 32 < n mod 32" "n \<le> m"
    unfolding 4[OF that] using divmod32[of "32 + r - s" "j - k - 1"] n(2) that(1) unfolding j_r_k_s_def[symmetric] by auto
qed

lemma add32:
  fixes m n :: nat
  shows "m mod 32 + n mod 32 < 32 \<Longrightarrow> (m + n) div 32 = m div 32 + n div 32"
    and "m mod 32 + n mod 32 < 32 \<Longrightarrow> (m + n) mod 32 = m mod 32 + n mod 32"
    and "\<not> m mod 32 + n mod 32 < 32 \<Longrightarrow> (m + n) div 32 = m div 32 + n div 32 + 1"
    and "\<not> m mod 32 + n mod 32 < 32 \<Longrightarrow> (m + n) mod 32 = m mod 32 + n mod 32 - 32"
proof -
  define j r k s where "j = m div 32" "r = m mod 32" "k = n div 32" "s = n mod 32"
  have m: "m = 32 * j + r" "r < 32" and n: "n = 32 * k + s" "s < 32" by (simp_all add: j_r_k_s_def)
  have 1: "m + n = 32 * (j + k) + (r + s)" using m n by simp
  show "(m + n) div 32 = m div 32 + n div 32" "(m + n) mod 32 = m mod 32 + n mod 32"
    if "m mod 32 + n mod 32 < 32"
    unfolding 1 using divmod32[of "r + s" "j + k"] that unfolding j_r_k_s_def[symmetric] by auto
  have 2: "m + n = 32 * (j + k + 1) + (r + s - 32)" if "\<not> m mod 32 + n mod 32 < 32"
    using 1 that unfolding j_r_k_s_def[symmetric] by simp
  show "(m + n) div 32 = m div 32 + n div 32 + 1" "(m + n) mod 32 = m mod 32 + n mod 32 - 32"
    if "\<not> m mod 32 + n mod 32 < 32"
    unfolding 2[OF that] using divmod32[of "r + s - 32" "j + k + 1"] m(2) n(2) unfolding j_r_k_s_def[symmetric] by auto
qed

lemma shl_ok:
  assumes "limbs a"
  shows "val (base_uint_shl a n) = val a * 2 ^ n mod u32 ^ length a" "limbs (base_uint_shl a n)"
    "length (base_uint_shl a n) = length a"
proof -
  let ?k = "n div 32" and ?s = "n mod 32" and ?W = "length a"
  have len: "length (base_uint_shl a n) = ?W"
    and nth: "\<And>j. j < ?W \<Longrightarrow> base_uint_shl a n ! j = shl_limb a ?k ?s ?W j"
    using shl_loop[of ?W a ?k ?s] by (auto simp: base_uint_shl_def)
  show lim: "limbs (base_uint_shl a n)" unfolding limbs_def set_conv_nth
    using nth len shl_limb_less[OF assms] by auto
  show "length (base_uint_shl a n) = ?W" by (fact len)
  have "val (base_uint_shl a n) = take_bit (32 * ?W) (push_bit n (val a))"
  proof (rule bit_eqI)
    fix m :: nat
    show "bit (val (base_uint_shl a n)) m = bit (take_bit (32 * ?W) (push_bit n (val a))) m"
    proof (cases "m < 32 * ?W")
      case True
      let ?j = "m div 32" and ?r = "m mod 32"
      have j: "?j < ?W" using True by (simp add: less_mult_imp_div_less mult.commute)
      have "bit (val (base_uint_shl a n)) m = bit (shl_limb a ?k ?s ?W ?j) ?r"
        using bit_val[OF lim, of m] nth[OF j] len j by simp
      also have "\<dots> = (n \<le> m \<and> bit (val a) (m - n))"
      proof (cases "?s \<le> ?r")
        case True
        have e: "bit (shl_limb a ?k ?s ?W ?j) ?r \<longleftrightarrow> ?k \<le> ?j \<and> bit (a ! (?j - ?k)) (?r - ?s)"
          using shl_limb_bit[OF assms j, of ?s ?r ?k] True by simp
        have "bit (val a) (m - n) = bit (a ! (?j - ?k)) (?r - ?s)" if "n \<le> m"
          unfolding bit_val[OF assms] sub32(2,3)[OF True that] using less_imp_diff_less[OF j, of ?k] by blast
        then show ?thesis unfolding e using sub32(1)[OF True] by blast
      next
        case False
        then have f: "?r < ?s" by simp
        have e: "bit (shl_limb a ?k ?s ?W ?j) ?r \<longleftrightarrow> ?k + 1 \<le> ?j \<and> bit (a ! (?j - ?k - 1)) (32 + ?r - ?s)"
          using shl_limb_bit[OF assms j, of ?s ?r ?k] False by simp
        have "bit (val a) (m - n) = bit (a ! (?j - ?k - 1)) (32 + ?r - ?s)" if "n \<le> m"
          unfolding bit_val[OF assms] sub32(5,6)[OF f that] using less_imp_diff_less[OF less_imp_diff_less[OF j, of ?k], of 1] by blast
        then show ?thesis unfolding e using sub32(4)[OF f] by blast
      qed
      finally show ?thesis using True by (simp add: bit_take_bit_iff bit_push_bit_iff)
    next
      case False
      then have "\<not> m div 32 < ?W" by simp
      then show ?thesis using False bit_val[OF lim, of m] len by (simp add: bit_take_bit_iff)
    qed
  qed
  then show "val (base_uint_shl a n) = val a * 2 ^ n mod u32 ^ ?W"
    by (simp add: take_bit_eq_mod push_bit_eq_mult power_mult)
qed

lemma shr_ok:
  assumes "limbs a"
  shows "val (base_uint_shr a n) = val a div 2 ^ n" "limbs (base_uint_shr a n)" "length (base_uint_shr a n) = length a"
proof -
  let ?k = "n div 32" and ?s = "n mod 32" and ?W = "length a"
  have len: "length (base_uint_shr a n) = ?W"
    and nth: "\<And>j. j < ?W \<Longrightarrow> base_uint_shr a n ! j = shr_limb a ?k ?s ?W j"
    using shr_loop[of ?W a ?k ?s] by (auto simp: base_uint_shr_def)
  show lim: "limbs (base_uint_shr a n)" unfolding limbs_def set_conv_nth
    using nth len shr_limb_less[OF assms refl] by auto
  show "length (base_uint_shr a n) = ?W" by (fact len)
  have "val (base_uint_shr a n) = drop_bit n (val a)"
  proof (rule bit_eqI)
    fix m :: nat
    let ?j = "m div 32" and ?r = "m mod 32"
    have split: "(if ?r + ?s < 32 then ?j + ?k < ?W \<and> bit (a ! (?j + ?k)) (?r + ?s)
        else ?j + ?k + 1 < ?W \<and> bit (a ! (?j + ?k + 1)) (?r + ?s - 32)) = bit (val a) (m + n)"
    proof (cases "?r + ?s < 32")
      case True
      then show ?thesis unfolding bit_val[OF assms, of "m + n"] add32(1,2)[OF True] by (simp only: if_True)
    next
      case False
      then show ?thesis unfolding bit_val[OF assms, of "m + n"] add32(3,4)[OF False] by (simp only: if_False)
    qed
    show "bit (val (base_uint_shr a n)) m = bit (drop_bit n (val a)) m"
    proof (cases "?j < ?W")
      case True
      have "bit (val (base_uint_shr a n)) m = bit (shr_limb a ?k ?s ?W ?j) ?r"
        using bit_val[OF lim, of m] nth[OF True] len True by simp
      also have "\<dots> = bit (val a) (m + n)"
        unfolding split[symmetric] by (rule shr_limb_bit[OF assms]) simp_all
      finally show ?thesis by (simp add: bit_drop_bit_eq add.commute)
    next
      case False
      then have "\<not> (m + n) div 32 < ?W" using div_le_mono[of m "m + n" 32] by simp
      then show ?thesis using False bit_val[OF lim, of m] bit_val[OF assms, of "m + n"] len
        by (simp add: bit_drop_bit_eq add.commute)
    qed
  qed
  then show "val (base_uint_shr a n) = val a div 2 ^ n" by (simp add: drop_bit_eq_div)
qed

section \<open>Comparison and size\<close>

lemma compare_loop_ok:
  assumes "length xs = length ys" "limbs xs" "limbs ys"
  shows "compare_loop xs ys = (if val (rev xs) < val (rev ys) then -1 else if val (rev xs) > val (rev ys) then 1 else 0)"
  using assms
proof (induction xs ys rule: list_induct2)
  case (Cons x xs y ys)
  let ?B = "u32 ^ length ys"
  have lt: "val (rev xs) < ?B" "val (rev ys) < ?B"
    using val_less[of "rev xs"] val_less[of "rev ys"] Cons by auto
  have v: "val (rev (x # xs)) = val (rev xs) + ?B * x" "val (rev (y # ys)) = val (rev ys) + ?B * y"
    using Cons.hyps by (simp_all add: val_append)
  have carry: "p + ?B * c < q + ?B * d" if "c < d" "p < ?B" for p q c d
  proof -
    have "?B * (c + 1) \<le> ?B * d" using that(1) by (intro mult_le_mono) auto
    then show ?thesis using that(2) by simp
  qed
  consider "x < y" | "y < x" | "x = y" by linarith
  then show ?case
  proof cases
    case 1
    then show ?thesis using carry[OF 1 lt(1), of "val (rev ys)"] unfolding v by simp
  next
    case 2
    then show ?thesis using carry[OF 2 lt(2), of "val (rev xs)"] unfolding v by simp
  next
    case 3
    then show ?thesis using Cons unfolding v by simp
  qed
qed simp

lemma CompareTo_ok:
  assumes "length a = length b" "limbs a" "limbs b"
  shows "CompareTo a b = (if val a < val b then -1 else if val a > val b then 1 else 0)"
  using compare_loop_ok[of "rev a" "rev b"] assms by (simp add: CompareTo_def)

lemma EqualTo_ok:
  assumes "limbs pn" "2 \<le> length pn" "b < u64"
  shows "EqualTo pn b \<longleftrightarrow> val pn = b"
proof -
  obtain x y r where pn: "pn = x # y # r" using assms(2) by (cases pn; cases "tl pn") auto
  have xy: "x < u32" "y < u32" using assms(1) pn by auto
  have zero: "list_ex (\<lambda>x. x \<noteq> 0) r \<longleftrightarrow> val r \<noteq> 0"
    using IsNull_iff[of r] by (auto simp: base_uint_IsNull_def list_all_iff list_ex_iff)
  show ?thesis
  proof (cases "val r = 0")
    case True
    have "y = b div u32 \<and> x = b mod u32 \<longleftrightarrow> x + u32 * y = b" using xy(1) by auto
    then show ?thesis using True zero by (auto simp: pn EqualTo_def)
  next
    case False
    then have "u64 \<le> u32 * (u32 * val r)" by simp
    then have "val pn \<noteq> b" using assms(3) by (simp add: pn algebra_simps)
    then show ?thesis using False zero by (simp add: pn EqualTo_def)
  qed
qed

lemma top_bit_ok:
  assumes "x \<noteq> 0" "x < 2 ^ (n + 1)"
  shows "x < 2 ^ top_bit x n \<and> 2 ^ (top_bit x n - 1) \<le> x \<and> 0 < top_bit x n \<and> top_bit x n \<le> n + 1"
  using assms
proof (induction n)
  case 0
  then show ?case by simp
next
  case (Suc n)
  show ?case
  proof (cases "bit x (Suc n)")
    case True
    then have "odd (x div 2 ^ Suc n)" unfolding bit_iff_odd .
    then have "x div 2 ^ Suc n \<noteq> 0" by (metis even_zero)
    then have "2 ^ Suc n \<le> x" by (metis div_eq_0_iff not_less)
    then show ?thesis using True Suc.prems by simp
  next
    case False
    have "x div 2 ^ Suc n < 2" using Suc.prems(2) by (simp add: less_mult_imp_div_less mult.commute)
    moreover have "even (x div 2 ^ Suc n)" using False by (simp add: bit_iff_odd)
    ultimately have "x div 2 ^ Suc n = 0" by (auto simp: less_2_cases_iff)
    then have "x < 2 ^ (n + 1)" by (simp add: div_eq_0_iff)
    with Suc.IH[OF Suc.prems(1)] False show ?thesis by auto
  qed
qed

lemma bits_loop_ok:
  assumes "limbs xs"
  shows "val (rev xs) < 2 ^ bits_loop xs \<and> (val (rev xs) \<noteq> 0 \<longrightarrow> 0 < bits_loop xs \<and> 2 ^ (bits_loop xs - 1) \<le> val (rev xs)) \<and>
    bits_loop xs \<le> 32 * length xs \<and> (val (rev xs) = 0 \<longrightarrow> bits_loop xs = 0)"
  using assms
proof (induction xs)
  case (Cons x xs)
  show ?case
  proof (cases "x = 0")
    case True
    then show ?thesis using Cons by (auto simp: val_append)
  next
    case False
    let ?t = "top_bit x 31"
    have t: "x < 2 ^ ?t" "2 ^ (?t - 1) \<le> x" "0 < ?t" "?t \<le> 32" using top_bit_ok[of x 31] False Cons.prems by auto
    have p: "u32 ^ length xs = (2 :: nat) ^ (32 * length xs)" by (simp add: power_mult)
    have lt: "val (rev xs) < 2 ^ (32 * length xs)" using val_less[of "rev xs"] Cons.prems p by simp
    have v: "val (rev (x # xs)) = val (rev xs) + 2 ^ (32 * length xs) * x" by (simp add: val_append p)
    have "(2 :: nat) ^ (32 * length xs) * (x + 1) \<le> 2 ^ (32 * length xs) * 2 ^ ?t" using t(1) by (intro mult_le_mono) auto
    then have "val (rev (x # xs)) < 2 ^ (32 * length xs + ?t)" using lt unfolding v by (simp add: power_add)
    moreover have "(2 :: nat) ^ (32 * length xs + ?t - 1) = 2 ^ (32 * length xs) * 2 ^ (?t - 1)"
      using t(3) by (simp add: power_add[symmetric])
    then have "2 ^ (32 * length xs + ?t - 1) \<le> val (rev (x # xs))"
      using t(2) unfolding v by (simp add: trans_le_add2)
    moreover have "val (rev (x # xs)) \<noteq> 0" unfolding v using False by simp
    ultimately show ?thesis using False t(3,4) by simp
  qed
qed simp

lemma bits_ok:
  assumes "limbs pn"
  shows "val pn < 2 ^ base_uint_bits pn" "val pn \<noteq> 0 \<Longrightarrow> 0 < base_uint_bits pn \<and> 2 ^ (base_uint_bits pn - 1) \<le> val pn"
    "base_uint_bits pn \<le> 32 * length pn" "base_uint_bits pn = 0 \<longleftrightarrow> val pn = 0"
  using bits_loop_ok[of "rev pn"] assms by (auto simp: base_uint_bits_def)

section \<open>Division\<close>

lemma set_bit_ok:
  assumes "limbs pn" "s < 32 * length pn" "2 ^ Suc s dvd val pn"
  shows "val (pn[s div 32 := pn ! (s div 32) OR push_bit (s mod 32) 1]) = val pn + 2 ^ s"
    "limbs (pn[s div 32 := pn ! (s div 32) OR push_bit (s mod 32) 1])"
proof -
  let ?q = "pn[s div 32 := pn ! (s div 32) OR push_bit (s mod 32) 1]"
  have i: "s div 32 < length pn" using assms(2) by (simp add: less_mult_imp_div_less mult.commute)
  have "(2 :: nat) ^ (s mod 32) < 2 ^ 32" by (intro power_strict_increasing) auto
  then have "pn ! (s div 32) OR push_bit (s mod 32) 1 < u32"
    using limbs_nth[OF assms(1) i] by (intro or_limb) (simp_all add: push_bit_eq_mult)
  then show lim: "limbs ?q" using assms(1) by (auto simp: limbs_def dest!: set_update_subset_insert[THEN subsetD])
  have "val ?q = val pn OR push_bit s 1"
  proof (rule bit_eqI)
    fix m :: nat
    have ms: "m = s \<longleftrightarrow> m div 32 = s div 32 \<and> m mod 32 = s mod 32" by (metis div_mult_mod_eq)
    have "bit (val ?q) m \<longleftrightarrow> m div 32 < length pn \<and> (bit (pn ! (m div 32)) (m mod 32) \<or> m = s)"
      unfolding bit_val[OF lim] ms using i by (auto simp: nth_list_update bit_or_iff bit_exp_iff)
    then show "bit (val ?q) m = bit (val pn OR push_bit s 1) m"
      using i bit_val[OF assms(1), of m] by (auto simp: bit_or_iff bit_exp_iff)
  qed
  also have "\<dots> = val pn + 2 ^ s"
  proof -
    have "\<not> bit (val pn) s" using assms(3) by (auto simp: bit_iff_odd elim!: dvdE)
    then show ?thesis by (subst disjunctive_add[symmetric]) (auto simp: bit_exp_iff)
  qed
  finally show "val ?q = val pn + 2 ^ s" .
qed

lemma div_loop_ok:
  assumes "limbs num" "limbs dv" "limbs pn" "length num = W" "length dv = W" "length pn = W" "n \<le> 32 * W" "0 < b"
    and "val dv = (if n = 0 then val dv else b * 2 ^ (n - 1))" "val num < b * 2 ^ n" "2 ^ n dvd val pn" "A = b * val pn + val num"
  shows "\<exists>r. A = b * val (div_loop n num dv pn) + r \<and> r < b \<and> limbs (div_loop n num dv pn) \<and> length (div_loop n num dv pn) = W"
  using assms
proof (induction n arbitrary: num dv pn)
  case 0
  then show ?case by (intro exI[of _ "val num"]) simp
next
  case (Suc s)
  let ?pn = "pn[s div 32 := pn ! (s div 32) OR push_bit (s mod 32) 1]"
  have d: "val dv = b * 2 ^ s" using Suc.prems(9) by simp
  note h = shr_ok[OF Suc.prems(2), of 1]
  have h2: "val (base_uint_shr dv 1) = (if s = 0 then val (base_uint_shr dv 1) else b * 2 ^ (s - 1))"
    using h(1) d by (cases s) simp_all
  have dvd: "2 ^ s dvd val pn" using Suc.prems(11) by (metis dvd_trans le_imp_power_dvd lessI less_imp_le)
  show ?case
  proof (cases "CompareTo num dv \<ge> 0")
    case True
    then have ge: "val dv \<le> val num" using CompareTo_ok[of num dv] Suc.prems by (auto split: if_splits)
    note q = set_bit_ok[OF Suc.prems(3), of s]
    have sub: "val (base_uint_sub num dv) = val num - b * 2 ^ s" "limbs (base_uint_sub num dv)" "length (base_uint_sub num dv) = W"
      using sub_exact[of num dv] sub_ok[of num dv] ge Suc.prems d by simp_all
    have "\<exists>r. A = b * val (div_loop s (base_uint_sub num dv) (base_uint_shr dv 1) ?pn) + r \<and> r < b \<and>
        limbs (div_loop s (base_uint_sub num dv) (base_uint_shr dv 1) ?pn) \<and>
        length (div_loop s (base_uint_sub num dv) (base_uint_shr dv 1) ?pn) = W"
    proof (rule Suc.IH)
      show "val (base_uint_sub num dv) < b * 2 ^ s" using Suc.prems(10) sub(1) by simp
      show "2 ^ s dvd val ?pn" using q Suc.prems dvd by simp
      show "A = b * val ?pn + val (base_uint_sub num dv)" using q Suc.prems sub(1) ge d by (simp add: algebra_simps)
    qed (use Suc.prems h h2 q sub in auto)
    then show ?thesis using True by simp
  next
    case False
    then have lt: "val num < b * 2 ^ s" using CompareTo_ok[of num dv] Suc.prems d by (auto split: if_splits)
    have "\<exists>r. A = b * val (div_loop s num (base_uint_shr dv 1) pn) + r \<and> r < b \<and>
        limbs (div_loop s num (base_uint_shr dv 1) pn) \<and> length (div_loop s num (base_uint_shr dv 1) pn) = W"
      by (rule Suc.IH) (use Suc.prems h h2 lt dvd in auto)
    then show ?thesis using False by simp
  qed
qed

lemma div_ok:
  assumes "limbs a" "limbs b" "length a = length b"
  shows "base_uint_div a b = None \<longleftrightarrow> val b = 0"
    and "base_uint_div a b = Some q \<Longrightarrow> val q = val a div val b \<and> limbs q \<and> length q = length a"
proof -
  let ?n = "base_uint_bits a" and ?d = "base_uint_bits b" and ?W = "length a"
  note na = bits_ok[OF assms(1)] and nb = bits_ok[OF assms(2)]
  show "base_uint_div a b = None \<longleftrightarrow> val b = 0" using nb(4) by (simp add: base_uint_div_def Let_def)
  assume q: "base_uint_div a b = Some q"
  then have b: "val b \<noteq> 0" "?d \<noteq> 0" using nb(4) by (auto simp: base_uint_div_def Let_def)
  show "val q = val a div val b \<and> limbs q \<and> length q = ?W"
  proof (cases "?d > ?n")
    case True
    have "(2 :: nat) ^ ?n \<le> 2 ^ (?d - 1)" using True by (intro power_increasing) auto
    then have "val a < val b" using na(1) nb(2)[OF b(1)] by linarith
    then show ?thesis using True q b by (auto simp: base_uint_div_def Let_def)
  next
    case False
    define s where "s = ?n - ?d"
    have n: "?n = s + ?d" using False by (simp add: s_def)
    have p: "u32 ^ ?W = (2 :: nat) ^ (32 * ?W)" by (simp add: power_mult)
    have "val b * 2 ^ s < 2 ^ ?d * 2 ^ s" using nb(1) by simp
    also have "\<dots> = 2 ^ ?n" by (simp add: n power_add)
    also have "\<dots> \<le> 2 ^ (32 * ?W)" using na(3) by (intro power_increasing) auto
    finally have shl: "val (base_uint_shl b s) = val b * 2 ^ s" using shl_ok(1)[OF assms(2), of s] p assms(3) by simp
    have "?n = (?d - 1) + (s + 1)" using b(2) n by simp
    then have "(2 :: nat) ^ ?n = 2 ^ (?d - 1) * 2 ^ (s + 1)" by (simp only: power_add)
    also have "\<dots> \<le> val b * 2 ^ (s + 1)" using nb(2)[OF b(1)] by (intro mult_le_mono) auto
    finally have lt: "val a < val b * 2 ^ (s + 1)" using na(1) by linarith
    have sw: "s + 1 \<le> 32 * ?W" using n b(2) na(3) by simp
    obtain r where r: "val a = val b * val (div_loop (s + 1) a (base_uint_shl b s) (base_uint_zero ?W)) + r" "r < val b"
      "limbs (div_loop (s + 1) a (base_uint_shl b s) (base_uint_zero ?W))" "length (div_loop (s + 1) a (base_uint_shl b s) (base_uint_zero ?W)) = ?W"
      using div_loop_ok[of a "base_uint_shl b s" "base_uint_zero ?W" ?W "s + 1" "val b" "val a"]
        shl shl_ok(2,3)[OF assms(2), of s] lt sw assms b(1) by auto
    have "q = div_loop (s + 1) a (base_uint_shl b s) (base_uint_zero ?W)"
      using q False b(2) by (simp add: base_uint_div_def Let_def s_def)
    then show ?thesis using r b(1) by (metis div_mult_self4 div_less add.commute add_0)
  qed
qed

section \<open>The compact form\<close>

lemma GetLow64_ok:
  assumes "limbs pn" "2 \<le> length pn"
  shows "GetLow64 pn = val pn mod u64"
proof -
  obtain x y r where pn: "pn = x # y # r" using assms(2) by (cases pn; cases "tl pn") auto
  have x: "x < 2 ^ 32" and y: "y < u32" using assms(1) pn by auto
  have "x OR push_bit 32 y = x + push_bit 32 y"
    using bit_beyond[OF x] by (subst disjunctive_add) (auto simp: bit_push_bit_iff not_le)
  then have "GetLow64 pn = x + u32 * y" by (simp add: pn GetLow64_def push_bit_eq_mult)
  moreover have "val pn = (x + u32 * y) + u64 * val r" by (simp add: pn algebra_simps)
  moreover have "x + u32 * y < u64" using x y by simp
  ultimately show ?thesis by simp
qed

lemma pow256_u32: "3 \<le> n \<Longrightarrow> (256 :: nat) ^ n = 16777216 * 256 ^ (n - 3)"
  using power_add[of "256 :: nat" 3 "n - 3"] by simp

text \<open>
  The exponent of \<open>v\<close> is the number of base-256 digits that keep the sign bit clear; the mantissa
  are the three topmost of them.
\<close>

definition compact_size :: "nat \<Rightarrow> nat \<Rightarrow> bool" where
  "compact_size v S \<longleftrightarrow> 2 * v < 256 ^ S \<and> (S = 0 \<or> 256 ^ (S - 1) \<le> 2 * v)"

definition compact_word :: "nat \<Rightarrow> nat \<Rightarrow> nat" where
  "compact_word v S = (if S \<le> 3 then v * 256 ^ (3 - S) else v div 256 ^ (S - 3))"

lemma compact_size_unique:
  assumes "compact_size v S" "compact_size v S'"
  shows "S = S'"
proof (rule ccontr)
  have less: False if "S1 < S2" "compact_size v S1" "compact_size v S2" for S1 S2
  proof -
    have "(256 :: nat) ^ S1 \<le> 256 ^ (S2 - 1)" using that(1) by (intro power_increasing) auto
    moreover have "2 * v < 256 ^ S1" "256 ^ (S2 - 1) \<le> 2 * v" using that by (auto simp: compact_size_def)
    ultimately show False by linarith
  qed
  assume "S \<noteq> S'"
  then show False using less[of S S'] less[of S' S] assms by linarith
qed

lemma compact_word_less:
  assumes "compact_size v S"
  shows "compact_word v S < 2 ^ 23"
proof (cases "S \<le> 3")
  case True
  have "(256 :: nat) ^ S * 256 ^ (3 - S) = 256 ^ 3" using True by (simp add: power_add[symmetric])
  moreover have "2 * v * 256 ^ (3 - S) < 256 ^ S * 256 ^ (3 - S)" using assms by (simp add: compact_size_def)
  ultimately show ?thesis using True by (simp add: compact_word_def)
next
  case False
  have "(256 :: nat) ^ S = 16777216 * 256 ^ (S - 3)" using False by (intro pow256_u32) simp
  then have "v < 2 ^ 23 * 256 ^ (S - 3)" using assms by (simp add: compact_size_def)
  then show ?thesis using False by (simp add: compact_word_def less_mult_imp_div_less)
qed

lemma compact_word_sign: "2 ^ 23 \<le> compact_word v N \<longleftrightarrow> 256 ^ N \<le> 2 * v"
proof (cases "N \<le> 3")
  case True
  have e: "(256 :: nat) ^ N * 256 ^ (3 - N) = 2 * 2 ^ 23" using True by (simp add: power_add[symmetric])
  have "256 ^ N \<le> 2 * v \<longleftrightarrow> 256 ^ N * 256 ^ (3 - N) \<le> 2 * v * 256 ^ (3 - N)" by simp
  then show ?thesis using True unfolding e by (simp add: compact_word_def)
next
  case False
  have "(256 :: nat) ^ N = 2 * (2 ^ 23 * 256 ^ (N - 3))" using False pow256_u32[of N] by simp
  then have "256 ^ N \<le> 2 * v \<longleftrightarrow> 2 ^ 23 * 256 ^ (N - 3) \<le> v" by simp
  also have "\<dots> \<longleftrightarrow> 2 ^ 23 \<le> v div 256 ^ (N - 3)" by (simp add: less_eq_div_iff_mult_less_eq)
  finally show ?thesis using False by (simp add: compact_word_def)
qed

lemma compact_word_Suc: "compact_word v N div 2 ^ 8 = compact_word v (N + 1)"
proof -
  consider "N \<le> 2" | "N = 3" | "3 < N" by linarith
  then show ?thesis
  proof cases
    case 1
    then have "3 - N = Suc (3 - (N + 1))" by simp
    then show ?thesis using 1 by (simp add: compact_word_def)
  next
    case 2
    then show ?thesis by (simp add: compact_word_def)
  next
    case 3
    then have "N + 1 - 3 = Suc (N - 3)" by simp
    then have "v div 256 ^ (N + 1 - 3) = v div 256 ^ (N - 3) div 2 ^ 8"
      by (simp add: div_mult2_eq[symmetric] mult.commute)
    then show ?thesis using 3 unfolding compact_word_def by simp
  qed
qed

lemma bytes_of_bits:
  fixes v n :: nat
  assumes "v < 2 ^ n" "v \<noteq> 0 \<Longrightarrow> 0 < n \<and> 2 ^ (n - 1) \<le> v" "n = 0 \<longleftrightarrow> v = 0"
  defines "N \<equiv> (n + 7) div 8"
  shows "v < 256 ^ N" "v \<noteq> 0 \<Longrightarrow> 0 < N \<and> 256 ^ (N - 1) \<le> v" "N = 0 \<longleftrightarrow> v = 0"
proof -
  have p: "(256 :: nat) ^ k = 2 ^ (8 * k)" for k by (simp add: power_mult)
  have "n \<le> 8 * N" by (simp add: N_def) 
  then have "(2 :: nat) ^ n \<le> 2 ^ (8 * N)" by (intro power_increasing) auto
  then show "v < 256 ^ N" using assms(1) unfolding p by linarith
  show N: "N = 0 \<longleftrightarrow> v = 0" using assms(3) by (auto simp: N_def)
  assume v: "v \<noteq> 0"
  then have "8 * (N - 1) \<le> n - 1" using assms(3) by (simp add: N_def)
  then have "(2 :: nat) ^ (8 * (N - 1)) \<le> 2 ^ (n - 1)" by (intro power_increasing) auto
  then show "0 < N \<and> 256 ^ (N - 1) \<le> v" using assms(2)[OF v] N v unfolding p by linarith
qed

lemma GetCompact_ok:
  assumes "limbs pn" "length pn = 8"
  obtains S where "compact_size (val pn) S" "S \<le> 33"
    "GetCompact neg pn = Some (compact_word (val pn) S + S * 2 ^ 24 + (if neg \<and> compact_word (val pn) S \<noteq> 0 then 2 ^ 23 else 0))"
proof -
  define v where "v = val pn"
  define N where "N = (base_uint_bits pn + 7) div 8"
  note b = bits_ok[OF assms(1), folded v_def]
  have N: "v < 256 ^ N" "v \<noteq> 0 \<Longrightarrow> 0 < N \<and> 256 ^ (N - 1) \<le> v" "N = 0 \<longleftrightarrow> v = 0" and N32: "N \<le> 32"
    using bytes_of_bits[of v "base_uint_bits pn"] b assms(2) by (auto simp: N_def)
  define c where "c = compact_word v N"
  have c24: "c < 2 ^ 24"
  proof (cases "N \<le> 3")
    case True
    have "(256 :: nat) ^ N * 256 ^ (3 - N) = 256 ^ 3" using True by (simp add: power_add[symmetric])
    moreover have "v * 256 ^ (3 - N) < 256 ^ N * 256 ^ (3 - N)" using N(1) by simp
    ultimately show ?thesis using True by (simp add: c_def compact_word_def)
  next
    case False
    have "(256 :: nat) ^ N = 16777216 * 256 ^ (N - 3)" using False by (intro pow256_u32) simp
    then show ?thesis using False N(1) by (simp add: c_def compact_word_def less_mult_imp_div_less)
  qed
  have run: "(if N \<le> 3 then GetLow64 pn * 2 ^ (8 * (3 - N)) mod u64 mod u32
      else GetLow64 (base_uint_shr pn (8 * (N - 3))) mod u32) = c"
  proof (cases "N \<le> 3")
    case True
    have "(256 :: nat) ^ N \<le> 256 ^ 3" using True by (intro power_increasing) auto
    then have "GetLow64 pn = v" using GetLow64_ok[OF assms(1)] assms(2) N(1) by (simp add: v_def)
    then show ?thesis using True c24 by (simp add: c_def compact_word_def power_mult)
  next
    case False
    have "GetLow64 (base_uint_shr pn (8 * (N - 3))) = v div 256 ^ (N - 3) mod u64"
      using GetLow64_ok[of "base_uint_shr pn (8 * (N - 3))"] shr_ok[OF assms(1), of "8 * (N - 3)"] assms(2)
      by (simp add: v_def power_mult)
    then show ?thesis using False c24 by (simp add: c_def compact_word_def)
  qed
  define hi where "hi = bit c 23"
  have hi_iff: "hi \<longleftrightarrow> 2 ^ 23 \<le> c"
  proof -
    have "c div 2 ^ 23 < 2" using c24 by (simp add: less_mult_imp_div_less)
    then show ?thesis unfolding hi_def bit_iff_odd by (auto simp: less_2_cases_iff div_eq_0_iff not_less)
  qed
  define S where "S = (if hi then N + 1 else N)"
  have c23: "2 ^ 23 \<le> c \<longleftrightarrow> 256 ^ N \<le> 2 * v" unfolding c_def by (rule compact_word_sign)
  have sz: "compact_size v S"
    using N c23 hi_iff by (cases "v = 0") (auto simp: S_def compact_size_def)
  have word: "(if hi then c div 2 ^ 8 else c) = compact_word v S"
    unfolding S_def c_def using compact_word_Suc[of v N] by simp
  have "S \<le> 33" using N32 by (simp add: S_def)
  moreover have "GetCompact neg pn = Some (compact_word v S + S * 2 ^ 24 + (if neg \<and> compact_word v S \<noteq> 0 then 2 ^ 23 else 0))"
    using compact_word_less[OF sz] \<open>S \<le> 33\<close> unfolding GetCompact_def N_def[symmetric] run hi_def[symmetric] Let_def
    by (simp add: word[symmetric] S_def[symmetric] hi_def[symmetric])
  ultimately show ?thesis using that sz by (simp add: v_def)
qed

text \<open>The number that a compact form stands for, without any bound.\<close>

definition compact_target :: "nat \<Rightarrow> nat" where
  "compact_target n =
     (let S = n div 2 ^ 24; w = n mod 2 ^ 23 in if S \<le> 3 then w div 256 ^ (3 - S) else w * 256 ^ (S - 3))"

lemma compact_overflow:
  fixes w S :: nat
  assumes "w < 2 ^ 23" "3 < S"
  shows "w \<noteq> 0 \<and> (S > 34 \<or> w > 0xff \<and> S > 33 \<or> w > 0xffff \<and> S > 32) \<longleftrightarrow> 2 ^ 256 \<le> w * 256 ^ (S - 3)"
proof -
  have p: "(256 :: nat) ^ k = 2 ^ (8 * k)" for k by (simp add: power_mult)
  have mono: "(2 :: nat) ^ a \<le> 2 ^ b" if "a \<le> b" for a b using that by (intro power_increasing) auto
  have eq: "2 ^ 256 \<le> w * 2 ^ k \<longleftrightarrow> 2 ^ (256 - k) \<le> w" if "k \<le> 256" for k
  proof -
    have e: "(2 :: nat) ^ 256 = 2 ^ (256 - k) * 2 ^ k" unfolding power_add[symmetric] using that by simp
    show ?thesis unfolding e mult_le_cancel2 by simp
  qed
  consider "S \<le> 32" | "S = 33" | "S = 34" | "34 < S" by linarith
  then show ?thesis
  proof cases
    case 1
    then have "(2 :: nat) ^ 24 \<le> 2 ^ (256 - 8 * (S - 3))" by (intro mono) simp
    then have "\<not> 2 ^ (256 - 8 * (S - 3)) \<le> w" using assms(1) by simp
    then show ?thesis unfolding p using 1 eq[of "8 * (S - 3)"] by simp
  next
    case 2
    then show ?thesis unfolding p using eq[of 240] by auto
  next
    case 3
    then show ?thesis unfolding p using eq[of 248] by auto
  next
    case 4
    then have "(2 :: nat) ^ 256 \<le> 2 ^ (8 * (S - 3))" by (intro mono) simp
    then have "2 ^ 256 \<le> w * 2 ^ (8 * (S - 3))" if "w \<noteq> 0" using that mult_le_mono[of 1 w "2 ^ 256" "2 ^ (8 * (S - 3))"] by simp
    then show ?thesis unfolding p using 4 by (cases "w = 0") auto
  qed
qed

lemma SetCompact_ok:
  obtains r neg ov where "SetCompact n = (r, neg, ov)" "limbs r" "length r = 8" "val r = compact_target n mod 2 ^ 256"
    "neg \<longleftrightarrow> compact_target n \<noteq> 0 \<and> bit n 23" "ov \<longleftrightarrow> 2 ^ 256 \<le> compact_target n"
proof -
  define S w where "S = n div 2 ^ 24" "w = n mod 2 ^ 23"
  have w: "w < 2 ^ 23" by (simp add: S_w_def)
  have le: "w div 256 ^ (3 - S) \<le> w" by (rule div_le_dividend)
  have t: "compact_target n = (if S \<le> 3 then w div 256 ^ (3 - S) else w * 256 ^ (S - 3))"
    by (simp add: compact_target_def S_w_def Let_def)
  have word: "val (base_uint_of_u64 8 x) = x" "limbs (base_uint_of_u64 8 x)" "length (base_uint_of_u64 8 x) = 8" if "x \<le> w" for x
    using val_base_uint_of_u64[of x 8] that w by auto
  have p: "(2 :: nat) ^ (8 * k) = 256 ^ k" for k by (simp add: power_mult)
  have run: "SetCompact n = (if S \<le> 3
      then (base_uint_of_u64 8 (w div 256 ^ (3 - S)), w div 256 ^ (3 - S) \<noteq> 0 \<and> bit n 23, False)
      else (base_uint_shl (base_uint_of_u64 8 w) (8 * (S - 3)), w \<noteq> 0 \<and> bit n 23,
          w \<noteq> 0 \<and> (S > 34 \<or> w > 0xff \<and> S > 33 \<or> w > 0xffff \<and> S > 32)))"
    unfolding SetCompact_def S_w_def[symmetric] Let_def p by auto
  have M: "u32 ^ 8 = (2 :: nat) ^ 256" by simp
  show ?thesis
  proof (cases "S \<le> 3")
    case True
    have "compact_target n < 2 ^ 23" using le_less_trans[OF le w] t True by simp
    then have small: "compact_target n < 2 ^ 256" by simp
    show ?thesis by (rule that[of "base_uint_of_u64 8 (w div 256 ^ (3 - S))"])
      (use run True word[OF le] t small in auto)
  next
    case False
    note sh = shl_ok[OF word(2)[OF le_refl], of "8 * (S - 3)"]
    have nz: "compact_target n = 0 \<longleftrightarrow> w = 0" using False t by simp
    show ?thesis
    proof (rule that)
      show "SetCompact n = (base_uint_shl (base_uint_of_u64 8 w) (8 * (S - 3)), w \<noteq> 0 \<and> bit n 23,
          w \<noteq> 0 \<and> (S > 34 \<or> w > 0xff \<and> S > 33 \<or> w > 0xffff \<and> S > 32))"
        using run False by simp
      show "val (base_uint_shl (base_uint_of_u64 8 w) (8 * (S - 3))) = compact_target n mod 2 ^ 256"
        unfolding sh(1) word(1,3)[OF le_refl] M t using False by (simp add: power_mult)
      show "(w \<noteq> 0 \<and> (S > 34 \<or> w > 0xff \<and> S > 33 \<or> w > 0xffff \<and> S > 32)) = (2 ^ 256 \<le> compact_target n)"
        unfolding t using compact_overflow[OF w, of S] False by simp
    qed (use sh word nz in auto)
  qed
qed

lemma val_UintToArith256:
  assumes "length h = 32"
  shows "val (UintToArith256 h) = le_val h" "limbs (UintToArith256 h)" "length (UintToArith256 h) = 8"
proof -
  have len4: "ReadLE32 x < u32" for x
    using le_val_less[of "take 4 x"] power_increasing[of "min (length x) 4" 4 "256 :: nat"] by (simp add: ReadLE32_def)
  show "limbs (UintToArith256 h)" using len4 by (auto simp: UintToArith256_def limbs_def)
  show "length (UintToArith256 h) = 8" by (simp add: UintToArith256_def)
  have "val (map (\<lambda>x. ReadLE32 (drop (4 * x) g)) [0..<n]) = le_val g" if "length g = 4 * n" for g n
    using that
  proof (induction n arbitrary: g)
    case (Suc n)
    have m: "map (\<lambda>x. ReadLE32 (drop (4 * x) g)) [0..<Suc n] =
        ReadLE32 g # map (\<lambda>x. ReadLE32 (drop (4 * x) (drop 4 g))) [0..<n]"
      by (simp add: upt_conv_Cons map_Suc_upt[symmetric] del: upt_Suc) (simp add: comp_def add.commute)
    have "le_val g = le_val (take 4 g @ drop 4 g)" by simp
    also have "\<dots> = ReadLE32 g + u32 * le_val (drop 4 g)"
      unfolding le_val_append using Suc.prems by (simp add: ReadLE32_def)
    finally show ?case unfolding m using Suc.IH[of "drop 4 g"] Suc.prems by simp
  qed simp
  from this[of h 8] show "val (UintToArith256 h) = le_val h" using assms by (simp add: UintToArith256_def)
qed

lemma compact_target_word:
  assumes "compact_size v S"
  shows "compact_target (compact_word v S + S * 2 ^ 24) = (if S \<le> 3 then v else v div 256 ^ (S - 3) * 256 ^ (S - 3))"
proof -
  have w: "compact_word v S < 2 ^ 23" by (rule compact_word_less[OF assms])
  have a: "(compact_word v S + S * 2 ^ 24) mod 2 ^ 23 = compact_word v S"
    using w mod_mult_self1[of "compact_word v S" "2 * S" "2 ^ 23"] by (simp add: mult.commute)
  have b: "(compact_word v S + S * 2 ^ 24) div 2 ^ 24 = S" using w by simp
  show ?thesis unfolding compact_target_def Let_def a b by (simp add: compact_word_def)
qed

lemma pow256_pred: "3 < S \<Longrightarrow> (256 :: nat) ^ (S - 1) = 2 * (32768 * 256 ^ (S - 3))"
proof -
  assume "3 < S"
  then have e: "S - 1 = 2 + (S - 3)" by simp
  show "(256 :: nat) ^ (S - 1) = 2 * (32768 * 256 ^ (S - 3))" unfolding e power_add by simp
qed

lemma compact_size_round:
  assumes "compact_size v S" "3 < S"
  shows "compact_size (v div 256 ^ (S - 3) * 256 ^ (S - 3)) S"
proof -
  let ?q = "(256 :: nat) ^ (S - 3)" and ?r = "v div 256 ^ (S - 3) * 256 ^ (S - 3)"
  have r: "?r \<le> v" by simp
  have p: "(256 :: nat) ^ (S - 1) = 2 * (32768 * ?q)" by (rule pow256_pred[OF assms(2)])
  then have "32768 * ?q \<le> v" using assms by (simp add: compact_size_def)
  then have "32768 \<le> v div ?q" by (simp add: less_eq_div_iff_mult_less_eq)
  then have "32768 * ?q \<le> ?r" by (intro mult_le_mono) auto
  moreover have "2 * ?r < 256 ^ S" using r assms(1) unfolding compact_size_def by linarith
  ultimately show ?thesis using assms(2) p unfolding compact_size_def by simp
qed

text \<open>
  (C21) The big-integer arithmetic is exact.  On arrays of the same length, addition, subtraction,
  multiplication (by a 32-bit word and by a big integer) and the left shift compute modulo \<open>2 ^ (32 * WIDTH)\<close>,
  the right shift and the bit-by-bit long division compute the floor of the quotient, the division
  throws exactly for a zero divisor, and \<open>CompareTo\<close> orders the arrays as their values.
\<close>

theorem base_uint_arithmetic:
  assumes "limbs a" "limbs b" "length a = length b" "b32 < 2 ^ 32"
  shows "val (base_uint_add a b) = (val a + val b) mod 2 ^ (32 * length a) \<and>
    int (val (base_uint_sub a b)) = (int (val a) - int (val b)) mod 2 ^ (32 * length a) \<and>
    val (base_uint_mul32 a b32) = val a * b32 mod 2 ^ (32 * length a) \<and>
    val (base_uint_mul a b) = val a * val b mod 2 ^ (32 * length a) \<and>
    val (base_uint_shl a n) = val a * 2 ^ n mod 2 ^ (32 * length a) \<and>
    val (base_uint_shr a n) = val a div 2 ^ n \<and>
    map_option val (base_uint_div a b) = (if val b = 0 then None else Some (val a div val b)) \<and>
    CompareTo a b = sgn (int (val a) - int (val b))"
proof -
  have p: "u32 ^ length a = (2 :: nat) ^ (32 * length a)" by (simp add: power_mult)
  have "int (val (base_uint_sub a b)) = (int (val a) - int (val b)) mod 2 ^ (32 * length a)"
  proof -
    have "val b \<le> 2 ^ (32 * length a)" using val_less[OF assms(2)] p assms(3) by simp
    then have e: "int (val a + (2 ^ (32 * length a) - val b)) = int (val a) - int (val b) + 2 ^ (32 * length a)"
      by (simp add: of_nat_diff)
    show ?thesis unfolding sub_ok(1)[OF assms(3,1,2)] p zmod_int e
      by (simp only: of_nat_power of_nat_numeral mod_add_self2)
  qed
  moreover have "val (base_uint_add a b) = (val a + val b) mod 2 ^ (32 * length a)"
    "val (base_uint_mul a b) = val a * val b mod 2 ^ (32 * length a)"
    "val (base_uint_shl a n) = val a * 2 ^ n mod 2 ^ (32 * length a)"
    "val (base_uint_shr a n) = val a div 2 ^ n"
    "val (base_uint_mul32 a b32) = val a * b32 mod 2 ^ (32 * length a)"
    using base_uint_add_ok[OF assms(3,1,2)] mul_ok(1)[OF assms(3,1,2)] shl_ok(1)[OF assms(1), of n]
      shr_ok(1)[OF assms(1), of n] mul32_loop_ok[OF assms(1), of b32 0] assms(4) unfolding p
    by (simp_all add: base_uint_mul32_def mult.commute)
  moreover have "map_option val (base_uint_div a b) = (if val b = 0 then None else Some (val a div val b))"
    using div_ok[OF assms(1-3)] by (cases "base_uint_div a b") auto
  moreover have "CompareTo a b = sgn (int (val a) - int (val b))"
    using CompareTo_ok[OF assms(3,1,2)] by simp
  ultimately show ?thesis by blast
qed

theorem base_uint_arithmetic_witness:
  "map_option val (base_uint_div [5, 7] [3, 0]) = Some (30064771077 div 3) \<and> val (base_uint_mul [5, 7] [3, 0]) = 90194313231"
proof -
  have "limbs [5, 7]" "limbs [3, 0]" "length [5, 7 :: nat] = length [3, 0 :: nat]" "(0 :: nat) < 2 ^ 32" by simp_all
  from base_uint_arithmetic[OF this] show ?thesis by simp
qed

text \<open>
  (C38) The compact form of a 256-bit target keeps its leading digits.  \<open>GetCompact\<close> never runs into its
  assertions, \<open>SetCompact\<close> reads its result back without the sign or overflow flag as a number that is not above the
  original and misses it by less than one part in \<open>2 ^ 15\<close>, and encoding that number again gives the same
  compact form.
\<close>

theorem compact_roundtrip:
  assumes "limbs a" "length a = 8"
  shows "\<exists>c r. GetCompact False a = Some c \<and> SetCompact c = (r, False, False) \<and> GetCompact False r = Some c \<and>
    val r \<le> val a \<and> (val a - val r) * 2 ^ 15 \<le> val a"
proof -
  let ?v = "val a"
  obtain S where S: "compact_size ?v S" "S \<le> 33" and c: "GetCompact False a = Some (compact_word ?v S + S * 2 ^ 24)"
    using GetCompact_ok[OF assms, of False] by auto
  define c where "c = compact_word ?v S + S * 2 ^ 24"
  define t where "t = (if S \<le> 3 then ?v else ?v div 256 ^ (S - 3) * 256 ^ (S - 3))"
  have t: "compact_target c = t" "t \<le> ?v" unfolding c_def t_def using compact_target_word[OF S(1)] by auto
  have w: "compact_word ?v S < 2 ^ 23" by (rule compact_word_less[OF S(1)])
  have "\<not> bit c 23"
  proof -
    have "c div 2 ^ 23 = 2 * S" using w by (simp add: c_def)
    then show ?thesis by (simp add: bit_iff_odd)
  qed
  moreover have t256: "t < 2 ^ 256" using val_less[OF assms(1)] assms(2) t(2) by simp
  ultimately obtain r where r: "SetCompact c = (r, False, False)" "limbs r" "length r = 8" "val r = t"
    by (rule_tac SetCompact_ok[of c]) (simp add: t(1))
  have st: "compact_size t S" "compact_word t S = compact_word ?v S"
    using S(1) compact_size_round[OF S(1)] by (auto simp: t_def compact_word_def)
  obtain S' where "compact_size t S'" "GetCompact False r = Some (compact_word t S' + S' * 2 ^ 24)"
    using GetCompact_ok[OF r(2,3), of False] r(4) by auto
  then have again: "GetCompact False r = Some c" using compact_size_unique[OF st(1)] st(2) by (auto simp: c_def)
  have "(?v - t) * 2 ^ 15 \<le> ?v"
  proof (cases "S \<le> 3")
    case False
    have "?v - t = ?v mod 256 ^ (S - 3)" using False by (simp add: t_def minus_div_mult_eq_mod)
    then have "?v - t \<le> 256 ^ (S - 3)" by (simp add: less_imp_le)
    moreover have "(256 :: nat) ^ (S - 1) = 2 * (32768 * 256 ^ (S - 3))" using False by (intro pow256_pred) simp
    then have "32768 * 256 ^ (S - 3) \<le> ?v" using S(1) False by (simp add: compact_size_def)
    ultimately show ?thesis by simp
  qed (simp add: t_def)
  then show ?thesis using c r again t(2) unfolding c_def[symmetric] by blast
qed

theorem compact_roundtrip_witness:
  "\<exists>c r. GetCompact False [0x80000001, 0, 0, 0, 0, 0, 0, 0] = Some c \<and> SetCompact c = (r, False, False) \<and> GetCompact False r = Some c"
proof -
  have "limbs [0x80000001, 0, 0, 0, 0, 0, 0, 0]" "length [0x80000001 :: nat, 0, 0, 0, 0, 0, 0, 0] = 8" by simp_all
  from compact_roundtrip[OF this] show ?thesis by blast
qed

end
