(* ===== verification/Pow.thy ===== *)
theory Pow
imports ArithU256
begin

text \<open>
  Difficulty (\<open>pow.cpp\<close>) and the time rules of a block (\<open>chain.cpp\<close>, \<open>CheckBlockTime\<close> of
  \<open>validation.cpp\<close>).

  The block index entries that the code reaches through \<open>pprev\<close> are given as the list from the last
  block down to the genesis block.  The retarget rules are also stated on plain numbers (\<open>next_target\<close>), as the
  reference that the limb arithmetic is shown to compute.
\<close>

section \<open>Block index entries\<close>

record pow_index =
  pi_nHeight :: int
  pi_nTime :: nat
  pi_nBits :: nat

definition pi_GetBlockTime :: "pow_index \<Rightarrow> int" where
  "pi_GetBlockTime i = int (pi_nTime i)"

definition IsRegTestNet :: "CChainParams \<Rightarrow> bool" where
  "IsRegTestNet cp \<longleftrightarrow> strNetworkID cp = ''regtest''"

section \<open>The next target\<close>

text \<open>
  The factors are \<open>int64_t\<close> values: \<open>operator*=\<close> takes them as \<open>uint32_t\<close>, \<open>operator/=\<close> as \<open>uint64_t\<close>.
  \<open>None\<close> is a division by zero or a failed assertion.
\<close>

definition mul_int64 :: "base_uint \<Rightarrow> int \<Rightarrow> base_uint" where
  "mul_int64 a x = base_uint_mul32 a (nat (x mod 2 ^ 32))"

definition div_int64 :: "base_uint \<Rightarrow> int \<Rightarrow> base_uint option" where
  "div_int64 a x = base_uint_div a (base_uint_of_u64 8 (nat (x mod 2 ^ 64)))"

definition GetNextWorkRequired_PoS :: "CChainParams \<Rightarrow> pow_index \<Rightarrow> pow_index \<Rightarrow> nat option" where
  "GetNextWorkRequired_PoS cp pindexLast pprev =
     (let par = consensus cp; h = pi_nHeight pindexLast;
          fTimeV2 = (\<not> IsRegTestNet cp \<and> IsTimeProtocolV2 par (h + 1));
          bnTargetLimit = UintToArith256 (ProofOfStakeLimit par fTimeV2);
          spacing0 = (if h \<noteq> 0 then pi_GetBlockTime pindexLast - pi_GetBlockTime pprev else 0);
          spacing1 = (if spacing0 < 0 then 1 else spacing0);
          nActualSpacing = (if fTimeV2 \<and> spacing1 > nTargetSpacing par * 10 then nTargetSpacing par * 10 else spacing1);
          bn0 = fst (SetCompact (pi_nBits pindexLast));
          bn1 = (if fTimeV2 \<and> \<not> IsTimeProtocolV2 par h then base_uint_shl bn0 4 else bn0);
          nInterval = TargetTimespan par fTimeV2 div nTargetSpacing par;
          bn2 = mul_int64 bn1 ((nInterval - 1) * nTargetSpacing par + nActualSpacing + nActualSpacing)
      in case div_int64 bn2 ((nInterval + 1) * nTargetSpacing par) of
           None \<Rightarrow> None
         | Some bnNew \<Rightarrow>
             GetCompact False (if CompareTo bnNew (base_uint_of_u64 8 0) \<le> 0 \<or> CompareTo bnNew bnTargetLimit > 0
                               then bnTargetLimit else bnNew))"

text \<open>
  The loop of DarkGravity v3 from the entry \<open>CountBlocks + 1\<close> on: the running average, the time
  span and the number of blocks read.
\<close>

fun dgw_loop :: "pow_index list \<Rightarrow> nat \<Rightarrow> base_uint \<Rightarrow> int \<Rightarrow> int \<Rightarrow> (base_uint \<times> int \<times> nat) option" where
  "dgw_loop [] CountBlocks avg nActualTimespan LastBlockTime = Some (avg, nActualTimespan, CountBlocks)"
| "dgw_loop (BlockReading # rest) CountBlocks avg nActualTimespan LastBlockTime =
     (if \<not> pi_nHeight BlockReading > 0 \<or> CountBlocks + 1 > 24 then Some (avg, nActualTimespan, CountBlocks)
      else
        let n = CountBlocks + 1; bn = fst (SetCompact (pi_nBits BlockReading));
            avg' = (if n = 1 then Some bn else div_int64 (base_uint_add (mul_int64 avg (int n)) bn) (int n + 1));
            span = (if LastBlockTime > 0 then nActualTimespan + (LastBlockTime - pi_GetBlockTime BlockReading)
                    else nActualTimespan)
        in case avg' of
             None \<Rightarrow> None
           | Some a \<Rightarrow> dgw_loop rest n a span (pi_GetBlockTime BlockReading))"

definition GetNextWorkRequired :: "CChainParams \<Rightarrow> pow_index list \<Rightarrow> nat option" where
  "GetNextWorkRequired cp chain =
     (let par = consensus cp; limit = UintToArith256 (powLimit par)
      in if fPowNoRetargeting par then (case chain of [] \<Rightarrow> None | pindexLast # _ \<Rightarrow> Some (pi_nBits pindexLast))
         else case chain of
           [] \<Rightarrow> GetCompact False limit
         | pindexLast # rest \<Rightarrow>
             if pi_nHeight pindexLast = 0 \<or> pi_nHeight pindexLast < 24 then GetCompact False limit
             else if NetworkUpgradeActive par (pi_nHeight pindexLast + 1) UPGRADE_POS then
               (case rest of [] \<Rightarrow> None | pprev # _ \<Rightarrow> GetNextWorkRequired_PoS cp pindexLast pprev)
             else case dgw_loop chain 0 (base_uint_zero 8) 0 0 of
               None \<Rightarrow> None
             | Some (avg, span0, CountBlocks) \<Rightarrow>
                 let nTarget = int CountBlocks * nTargetSpacing par;
                     span1 = (if span0 < nTarget div 3 then nTarget div 3 else span0);
                     span2 = (if span1 > nTarget * 3 then nTarget * 3 else span1)
                 in case div_int64 (mul_int64 avg span2) nTarget of
                      None \<Rightarrow> None
                    | Some bnNew \<Rightarrow> GetCompact False (if CompareTo bnNew limit > 0 then limit else bnNew))"

definition CheckProofOfWork :: "Params \<Rightarrow> uint256 \<Rightarrow> nat \<Rightarrow> bool" where
  "CheckProofOfWork par hash nBits \<longleftrightarrow>
     (let (bnTarget, fNegative, fOverflow) = SetCompact nBits
      in if fNegative \<or> base_uint_IsNull bnTarget \<or> fOverflow \<or> CompareTo bnTarget (UintToArith256 (powLimit par)) > 0
         then False
         else if CompareTo (UintToArith256 hash) bnTarget > 0 then False
         else True)"

text \<open>\<open>(~target / (target + 1)) + 1\<close>.\<close>

definition GetBlockProof :: "nat \<Rightarrow> base_uint option" where
  "GetBlockProof nBits =
     (let (bnTarget, fNegative, fOverflow) = SetCompact nBits
      in if fNegative \<or> fOverflow \<or> base_uint_IsNull bnTarget then Some (base_uint_zero 8)
         else map_option (\<lambda>q. base_uint_add q (base_uint_of_u64 8 1))
                (base_uint_div (base_uint_not bnTarget) (base_uint_add bnTarget (base_uint_of_u64 8 1))))"

section \<open>The time of a block\<close>

definition GetMedianTimePast :: "pow_index list \<Rightarrow> int" where
  "GetMedianTimePast chain = (let ts = sort (map pi_GetBlockTime (take 11 chain)) in ts ! (length ts div 2))"

text \<open>\<open>now\<close> is \<open>GetAdjustedTime()\<close>.\<close>

definition MaxFutureBlockTime :: "int \<Rightarrow> Params \<Rightarrow> pow_index list \<Rightarrow> int" where
  "MaxFutureBlockTime now par chain = now + FutureBlockTimeDrift par (pi_nHeight (hd chain) + 1)"

definition MinPastBlockTime :: "Params \<Rightarrow> pow_index list \<Rightarrow> int" where
  "MinPastBlockTime par chain =
     (let h = pi_nHeight (hd chain)
      in if \<not> IsTimeProtocolV2 par (h + 1) then GetMedianTimePast chain
         else if h + 1 = vUpgrades par ! UPGRADE_V4_0
         then pi_GetBlockTime (hd chain) - FutureBlockTimeDrift par h + FutureBlockTimeDrift par (h + 1)
         else pi_GetBlockTime (hd chain))"

definition CheckBlockTime :: "int \<Rightarrow> CChainParams \<Rightarrow> pow_index list \<Rightarrow> CBlock \<Rightarrow> (int \<times> string) + unit" where
  "CheckBlockTime now cp chain block =
     (if IsRegTestNet cp then Inr ()
      else
        let blockTime = int (bh_nTime block); blockHeight = pi_nHeight (hd chain) + 1; par = consensus cp
        in if blockTime > MaxFutureBlockTime now par chain then Inl (0, ''time-too-new'')
           else if blockTime \<le> MinPastBlockTime par chain then Inl (50, ''time-too-old'')
           else if \<not> IsValidBlockTimeStamp par blockTime blockHeight then Inl (100, ''invalid-time-mask'')
           else Inr ())"

section \<open>What the checks decide\<close>

lemma CompareTo_pos:
  assumes "length a = length b" "limbs a" "limbs b"
  shows "CompareTo a b > 0 \<longleftrightarrow> val a > val b" "CompareTo a b \<le> 0 \<longleftrightarrow> val a \<le> val b"
  using CompareTo_ok[OF assms] by auto

lemma le_val_256: "length h = 32 \<Longrightarrow> le_val h < 2 ^ 256"
  using le_val_less[of h] by simp

lemma CheckProofOfWork_iff:
  assumes "length hash = 32" "length (powLimit par) = 32"
  shows "CheckProofOfWork par hash nBits \<longleftrightarrow>
    \<not> bit nBits 23 \<and> 0 < compact_target nBits \<and> compact_target nBits \<le> le_val (powLimit par) \<and> le_val hash \<le> compact_target nBits"
proof -
  obtain r neg ov where r: "SetCompact nBits = (r, neg, ov)" "limbs r" "length r = 8" "val r = compact_target nBits mod 2 ^ 256"
    "neg \<longleftrightarrow> compact_target nBits \<noteq> 0 \<and> bit nBits 23" "ov \<longleftrightarrow> 2 ^ 256 \<le> compact_target nBits"
    by (rule SetCompact_ok)
  note h = val_UintToArith256[OF assms(1)] and l = val_UintToArith256[OF assms(2)]
  have cl: "CompareTo r (UintToArith256 (powLimit par)) > 0 \<longleftrightarrow> val r > le_val (powLimit par)"
    "CompareTo (UintToArith256 hash) r > 0 \<longleftrightarrow> le_val hash > val r"
    using CompareTo_pos(1)[of r] CompareTo_pos(1)[of _ r] r h l by auto
  show ?thesis
  proof (cases "2 ^ 256 \<le> compact_target nBits")
    case True
    then show ?thesis using r(1,6) le_val_256[OF assms(2)] by (auto simp: CheckProofOfWork_def)
  next
    case False
    then have v: "val r = compact_target nBits" using r(4) by simp
    show ?thesis using False r(1,5,6) cl unfolding v
      by (auto simp: CheckProofOfWork_def IsNull_iff v)
  qed
qed

lemma GetBlockProof_ok:
  assumes "\<not> bit nBits 23" "0 < compact_target nBits" "compact_target nBits + 1 < 2 ^ 256"
  shows "map_option val (GetBlockProof nBits) = Some (2 ^ 256 div (compact_target nBits + 1))"
proof -
  let ?t = "compact_target nBits"
  obtain r where r: "SetCompact nBits = (r, False, False)" "limbs r" "length r = 8" "val r = ?t"
    by (rule SetCompact_ok[of nBits]) (use assms in auto)
  have one: "val (base_uint_of_u64 8 1) = 1" "limbs (base_uint_of_u64 8 1)" "length (base_uint_of_u64 8 1) = 8"
    using val_base_uint_of_u64[of 1 8] by auto
  have n: "val (base_uint_not r) + ?t + 1 = 2 ^ 256" "limbs (base_uint_not r)" "length (base_uint_not r) = 8"
    using not_ok[OF r(2)] r(3,4) by (auto simp: base_uint_not_def)
  define d where "d = base_uint_add r (base_uint_of_u64 8 1)"
  have d: "val d = (?t + 1) mod 2 ^ 256" "limbs d" "length d = 8"
    using base_uint_add_ok[of r "base_uint_of_u64 8 1"] one r by (auto simp: d_def)
  have dv: "val d = ?t + 1" using d(1) assms(3) by simp
  obtain q where q: "base_uint_div (base_uint_not r) d = Some q"
    using div_ok(1)[OF n(2) d(2)] n(3) d(3) dv by (cases "base_uint_div (base_uint_not r) d") auto
  have nv: "val (base_uint_not r) = 2 ^ 256 - (?t + 1)" using n(1) by linarith
  have vq: "val q = (2 ^ 256 - (?t + 1)) div (?t + 1)" "limbs q" "length q = 8"
    using div_ok(2)[OF n(2) d(2) _ q] n(3) d(3) unfolding dv nv by auto
  have e: "(2 ^ 256 - (?t + 1)) div (?t + 1) + 1 = 2 ^ 256 div (?t + 1)"
    using assms(3) by (simp add: le_div_geq)
  have "2 ^ 256 div (?t + 1) < 2 ^ 256" using assms(2) by (intro div_less_dividend) auto
  then have "val (base_uint_add q (base_uint_of_u64 8 1)) = 2 ^ 256 div (?t + 1)"
    using base_uint_add_ok[of q "base_uint_of_u64 8 1"] vq one e by simp
  moreover have "GetBlockProof nBits = Some (base_uint_add q (base_uint_of_u64 8 1))"
    using r(1,4) assms(2) q by (simp add: GetBlockProof_def IsNull_iff d_def)
  ultimately show ?thesis by simp
qed

section \<open>The next target stays below the limit\<close>

lemma mul_int64_val:
  assumes "limbs a" "length a = 8"
  shows "val (mul_int64 a x) = val a * nat (x mod 2 ^ 32) mod 2 ^ 256" "limbs (mul_int64 a x)" "length (mul_int64 a x) = 8"
  using mul32_loop_ok[OF assms(1), of "nat (x mod 2 ^ 32)" 0] assms(2)
  by (simp_all add: mul_int64_def base_uint_mul32_def nat_less_iff mult.commute)

lemma div_int64_ok:
  assumes "limbs a" "length a = 8" "0 < x" "x < 2 ^ 64"
  obtains q where "div_int64 a x = Some q" "limbs q" "length q = 8" "val q = val a div nat x"
proof -
  define b where "b = base_uint_of_u64 8 (nat x)"
  have b: "val b = nat x" "limbs b" "length b = 8"
    using val_base_uint_of_u64[of "nat x" 8] assms(3,4) by (simp_all add: b_def nat_less_iff)
  have run: "div_int64 a x = base_uint_div a b"
    using assms(3,4) by (simp add: div_int64_def b_def)
  have len: "length a = length b" using b(3) assms(2) by simp
  have "base_uint_div a b \<noteq> None" using div_ok(1)[OF assms(1) b(2) len] b(1) assms(3) by simp
  then obtain q where q: "base_uint_div a b = Some q" by blast
  show ?thesis using that[of q] div_ok(2)[OF assms(1) b(2) len q] q b(1) assms(2) run by simp
qed

lemma SetCompact_shape: "limbs (fst (SetCompact n)) \<and> length (fst (SetCompact n)) = 8"
  by (rule SetCompact_ok[of n]) auto

lemma SetCompact_val: "val (fst (SetCompact n)) = compact_target n mod 2 ^ 256"
  by (rule SetCompact_ok[of n]) simp

text \<open>The retarget rules on numbers: the reference for the code, which computes on limbs.\<close>

fun dgw_average :: "pow_index list \<Rightarrow> nat \<Rightarrow> nat \<Rightarrow> int \<Rightarrow> int \<Rightarrow> nat \<times> int \<times> nat" where
  "dgw_average [] n avg span tm = (avg, span, n)"
| "dgw_average (b # rest) n avg span tm =
     (if pi_nHeight b \<le> 0 \<or> n = 24 then (avg, span, n)
      else
        let t = compact_target (pi_nBits b) mod 2 ^ 256;
            avg' = (if n = 0 then t else (avg * (n + 1) mod 2 ^ 256 + t) mod 2 ^ 256 div (n + 2));
            span' = (if tm > 0 then span + (tm - pi_GetBlockTime b) else span)
        in dgw_average rest (n + 1) avg' span' (pi_GetBlockTime b))"

definition pow_target :: "Params \<Rightarrow> pow_index list \<Rightarrow> nat" where
  "pow_target par chain =
     (let (avg, span, n) = dgw_average chain 0 0 0 0;
          T = int n * nTargetSpacing par;
          span' = min (max span (T div 3)) (T * 3)
      in min (le_val (powLimit par)) (avg * nat (span' mod 2 ^ 32) mod 2 ^ 256 div nat T))"

definition pos_target :: "CChainParams \<Rightarrow> pow_index \<Rightarrow> pow_index \<Rightarrow> nat" where
  "pos_target cp lst prev =
     (let par = consensus cp; h = pi_nHeight lst; spc = nTargetSpacing par;
          V2 = (\<not> IsRegTestNet cp \<and> IsTimeProtocolV2 par (h + 1));
          dt = (if h = 0 then 0 else pi_GetBlockTime lst - pi_GetBlockTime prev);
          dt' = (if dt < 0 then 1 else if V2 then min dt (spc * 10) else dt);
          t = compact_target (pi_nBits lst) mod 2 ^ 256;
          t' = (if V2 \<and> \<not> IsTimeProtocolV2 par h then t * 16 mod 2 ^ 256 else t);
          n = TargetTimespan par V2 div spc;
          x = t' * nat (((n - 1) * spc + 2 * dt') mod 2 ^ 32) mod 2 ^ 256 div nat ((n + 1) * spc);
          limit = le_val (ProofOfStakeLimit par V2)
      in if x = 0 \<or> limit < x then limit else x)"

lemma dgw_loop_average:
  assumes "limbs avg" "length avg = 8" "CountBlocks \<le> 24"
  obtains a where "dgw_loop chain CountBlocks avg s0 t = Some (a, snd (dgw_average chain CountBlocks (val avg) s0 t))"
    "limbs a" "length a = 8" "val a = fst (dgw_average chain CountBlocks (val avg) s0 t)"
  using assms
proof (induction chain arbitrary: CountBlocks avg s0 t thesis)
  case Nil
  then show ?case by simp
next
  case (Cons i rest)
  show ?case
  proof (cases "pi_nHeight i \<le> 0 \<or> CountBlocks = 24")
    case True
    then have "dgw_loop (i # rest) CountBlocks avg s0 t = Some (avg, s0, CountBlocks)"
      "dgw_average (i # rest) CountBlocks (val avg) s0 t = (val avg, s0, CountBlocks)"
      by (auto simp: not_less)
    then show ?thesis using Cons.prems by (metis fst_conv snd_conv)
  next
    case False
    define bn s1 where "bn = fst (SetCompact (pi_nBits i))" and "s1 = (if t > 0 then s0 + (t - pi_GetBlockTime i) else s0)"
    define v where "v = (if CountBlocks = 0 then val bn else (val avg * (CountBlocks + 1) mod 2 ^ 256 + val bn) mod 2 ^ 256 div (CountBlocks + 2))"
    have bn: "limbs bn" "length bn = 8" "val bn = compact_target (pi_nBits i) mod 2 ^ 256"
      using SetCompact_shape[of "pi_nBits i"] by (simp_all add: bn_def SetCompact_val)
    obtain a where a: "(if CountBlocks + 1 = 1 then Some bn
        else div_int64 (base_uint_add (mul_int64 avg (int (CountBlocks + 1))) bn) (int (CountBlocks + 1) + 1)) = Some a"
      "limbs a" "length a = 8" "val a = v"
    proof (cases "CountBlocks = 0")
      case True
      then show ?thesis using that[of bn] bn by (simp add: v_def)
    next
      case n: False
      define m where "m = base_uint_add (mul_int64 avg (int (CountBlocks + 1))) bn"
      have "nat (int (CountBlocks + 1) mod 2 ^ 32) = CountBlocks + 1" using Cons.prems(4) by (simp add: nat_mod_as_int)
      note mv = mul_int64_val[OF Cons.prems(2,3), of "int (CountBlocks + 1)", unfolded this]
      have m: "val m = (val avg * (CountBlocks + 1) mod 2 ^ 256 + val bn) mod 2 ^ 256" "limbs m" "length m = 8"
        using base_uint_add_ok[of "mul_int64 avg (int (CountBlocks + 1))" bn] mv bn by (simp_all add: m_def)
      obtain q where q: "div_int64 m (int (CountBlocks + 1) + 1) = Some q" "limbs q" "length q = 8"
        "val q = val m div nat (int (CountBlocks + 1) + 1)"
        by (rule div_int64_ok[OF m(2,3), of "int (CountBlocks + 1) + 1"]) (use Cons.prems(4) in simp_all)
      have "nat (int (CountBlocks + 1) + 1) = CountBlocks + 2" by simp
      then show ?thesis using that[of q] q m(1) n by (simp add: v_def m_def)
    qed
    obtain a' where r: "dgw_loop rest (CountBlocks + 1) a s1 (pi_GetBlockTime i) =
        Some (a', snd (dgw_average rest (CountBlocks + 1) v s1 (pi_GetBlockTime i)))" "limbs a'" "length a' = 8"
      "val a' = fst (dgw_average rest (CountBlocks + 1) v s1 (pi_GetBlockTime i))"
      using Cons.IH[OF _ a(2,3), of "CountBlocks + 1" s1 "pi_GetBlockTime i"] False Cons.prems(4) unfolding a(4) by fastforce
    have "dgw_loop (i # rest) CountBlocks avg s0 t = dgw_loop rest (CountBlocks + 1) a s1 (pi_GetBlockTime i)"
      unfolding dgw_loop.simps Let_def bn_def[symmetric] a(1) s1_def[symmetric] using False Cons.prems(4)
      by (simp only: if_False option.case) (simp add: not_less)
    moreover have "dgw_average (i # rest) CountBlocks (val avg) s0 t = dgw_average rest (CountBlocks + 1) v s1 (pi_GetBlockTime i)"
      using False bn(3) by (simp add: v_def s1_def Let_def)
    ultimately show ?thesis using Cons.prems(1)[of a'] r by simp
  qed
qed

lemma GetCompact_bounded:
  assumes "limbs a" "length a = 8"
  obtains c where "GetCompact False a = Some c" "compact_target c \<le> val a"
proof -
  obtain S where S: "compact_size (val a) S" "GetCompact False a = Some (compact_word (val a) S + S * 2 ^ 24)"
    using GetCompact_ok[OF assms, of False] by auto
  then show ?thesis using that compact_target_word[OF S(1)] by auto
qed

text \<open>
  (C39) Proof of work means what it says.  A header hash is accepted exactly when the target that
  \<open>nBits\<close> stands for, taken as an unbounded number, is positive, not marked negative and not above the
  network's limit, and the hash read as a number is not above it; an accepted block counts for
  exactly \<open>2 ^ 256 / (target + 1)\<close> hashes in the work of its chain, although neither \<open>2 ^ 256\<close> nor an
  oversized target fits into the 256-bit type.
\<close>

theorem proof_of_work_exact:
  assumes "length hash = 32" "length (powLimit par) = 32" "le_val (powLimit par) + 1 < 2 ^ 256"
  shows "(CheckProofOfWork par hash nBits \<longleftrightarrow>
      \<not> bit nBits 23 \<and> 0 < compact_target nBits \<and> compact_target nBits \<le> le_val (powLimit par) \<and> le_val hash \<le> compact_target nBits) \<and>
    (CheckProofOfWork par hash nBits \<longrightarrow>
      map_option val (GetBlockProof nBits) = Some (2 ^ 256 div (compact_target nBits + 1)))"
proof -
  note iff = CheckProofOfWork_iff[OF assms(1,2), of nBits]
  have "map_option val (GetBlockProof nBits) = Some (2 ^ 256 div (compact_target nBits + 1))"
    if "CheckProofOfWork par hash nBits"
    using that[unfolded iff] assms(3) by (intro GetBlockProof_ok) auto
  with iff show ?thesis by blast
qed

theorem proof_of_work_exact_witness:
  "CheckProofOfWork (CMainParams_consensus\<lparr>powLimit := le_bytes 32 1000\<rparr>) (le_bytes 32 7) 0x03000010 \<and>
   map_option val (GetBlockProof 0x03000010) = Some (2 ^ 256 div 17)"
proof -
  have v: "le_val (le_bytes 32 1000) = 1000" "le_val (le_bytes 32 7) = 7" by (simp_all add: le_val_le_bytes)
  have t: "compact_target 0x03000010 = 16" "\<not> bit (0x03000010 :: nat) 23"
    by (simp_all add: compact_target_def Let_def bit_iff_odd)
  show ?thesis
    using proof_of_work_exact[of "le_bytes 32 7" "CMainParams_consensus\<lparr>powLimit := le_bytes 32 1000\<rparr>" "0x03000010"]
    by (simp add: v t)
qed

text \<open>A number as the compact form that the code returns.\<close>

definition compact_of :: "nat \<Rightarrow> nat \<Rightarrow> bool" where
  "compact_of t bits \<longleftrightarrow> (\<exists>a. limbs a \<and> length a = 8 \<and> val a = t \<and> GetCompact False a = Some bits)"

lemma compact_of_bound: "compact_of t bits \<Longrightarrow> compact_target bits \<le> t"
proof -
  assume "compact_of t bits"
  then obtain a where "limbs a" "length a = 8" "val a = t" "GetCompact False a = Some bits" by (auto simp: compact_of_def)
  then show ?thesis using GetCompact_bounded[of a] by fastforce
qed

lemma compact_of_ex: "limbs a \<Longrightarrow> length a = 8 \<Longrightarrow> \<exists>bits. GetCompact False a = Some bits \<and> compact_of (val a) bits"
  using GetCompact_bounded[of a] unfolding compact_of_def by metis

lemma GetNextWorkRequired_PoS_exact:
  assumes "0 < nTargetSpacing (consensus cp)" "nTargetSpacing (consensus cp) < 2 ^ 32"
    and "\<forall>b. 0 \<le> TargetTimespan (consensus cp) b \<and> TargetTimespan (consensus cp) b < 2 ^ 32"
    and "\<forall>b. length (ProofOfStakeLimit (consensus cp) b) = 32"
  shows "\<exists>bits. GetNextWorkRequired_PoS cp pindexLast pprev = Some bits \<and> compact_of (pos_target cp pindexLast pprev) bits"
proof -
  define par where "par = consensus cp"
  define V2 where "V2 = (\<not> IsRegTestNet cp \<and> IsTimeProtocolV2 par (pi_nHeight pindexLast + 1))"
  define n where "n = TargetTimespan par V2 div nTargetSpacing par"
  define m where "m = (n + 1) * nTargetSpacing par"
  define lim where "lim = UintToArith256 (ProofOfStakeLimit par V2)"
  have l: "val lim = le_val (ProofOfStakeLimit par V2)" "limbs lim" "length lim = 8"
    using val_UintToArith256[of "ProofOfStakeLimit par V2"] assms(4) by (auto simp: lim_def par_def)
  have n0: "0 \<le> n" using assms(1,3) by (simp add: n_def par_def pos_imp_zdiv_nonneg_iff)
  have "n * nTargetSpacing par + TargetTimespan par V2 mod nTargetSpacing par = TargetTimespan par V2"
    by (simp add: n_def)
  moreover have "0 \<le> TargetTimespan par V2 mod nTargetSpacing par" using assms(1) by (simp add: par_def)
  moreover have "TargetTimespan par V2 < 4294967296" "nTargetSpacing par < 4294967296" "0 \<le> n * nTargetSpacing par" using assms(1-3) n0 by (simp_all add: par_def)
  moreover have "m = n * nTargetSpacing par + nTargetSpacing par" by (simp add: m_def algebra_simps)
  ultimately have "0 < m" "m < 8589934592" using assms(1) unfolding par_def by linarith+
  then have m: "0 < m" "m < 2 ^ 64" by simp_all
  have z: "val (base_uint_of_u64 8 0) = 0" "limbs (base_uint_of_u64 8 0)" "length (base_uint_of_u64 8 0) = 8"
    using val_base_uint_of_u64[of 0 8] by auto
  have step: "\<exists>bits. (case div_int64 (mul_int64 a x) m of None \<Rightarrow> None
      | Some bn \<Rightarrow> GetCompact False (if CompareTo bn (base_uint_of_u64 8 0) \<le> 0 \<or> CompareTo bn lim > 0 then lim else bn)) = Some bits \<and>
      compact_of (let y = val a * nat (x mod 2 ^ 32) mod 2 ^ 256 div nat m in if y = 0 \<or> val lim < y then val lim else y) bits"
    if a: "limbs a" "length a = 8" for a x
  proof -
    note mu = mul_int64_val[OF a, of x]
    obtain q where q: "div_int64 (mul_int64 a x) m = Some q" "limbs q" "length q = 8" "val q = val (mul_int64 a x) div nat m"
      by (rule div_int64_ok[OF mu(2,3) m])
    define y where "y = (if CompareTo q (base_uint_of_u64 8 0) \<le> 0 \<or> CompareTo q lim > 0 then lim else q)"
    have y: "limbs y" "length y = 8" using q l by (auto simp: y_def)
    have vy: "val y = (if val q = 0 \<or> val lim < val q then val lim else val q)"
      using q l z CompareTo_pos(1)[of q lim] CompareTo_pos(2)[of q "base_uint_of_u64 8 0"] by (auto simp: y_def)
    show ?thesis
      using compact_of_ex[OF y] unfolding q(1) option.case y_def[symmetric] vy q(4) mu(1) Let_def .
  qed
  define bn where "bn = fst (SetCompact (pi_nBits pindexLast))"
  define bn1 where "bn1 = (if V2 \<and> \<not> IsTimeProtocolV2 par (pi_nHeight pindexLast) then base_uint_shl bn 4 else bn)"
  have bn: "limbs bn" "length bn = 8" "val bn = compact_target (pi_nBits pindexLast) mod 2 ^ 256"
    using SetCompact_shape[of "pi_nBits pindexLast"] by (simp_all add: bn_def SetCompact_val)
  have bn1: "limbs bn1" "length bn1 = 8"
    "val bn1 = (if V2 \<and> \<not> IsTimeProtocolV2 par (pi_nHeight pindexLast) then val bn * 16 mod 2 ^ 256 else val bn)"
    using bn shl_ok[OF bn(1), of 4] by (simp_all add: bn1_def)
  define sp where "sp = (if pi_nHeight pindexLast \<noteq> 0 then pi_GetBlockTime pindexLast - pi_GetBlockTime pprev else 0)"
  define sp1 where "sp1 = (if sp < 0 then 1 else sp)"
  define sp2 where "sp2 = (if V2 \<and> sp1 > nTargetSpacing par * 10 then nTargetSpacing par * 10 else sp1)"
  have sp2: "sp2 = (if sp < 0 then 1 else if V2 then min sp (nTargetSpacing par * 10) else sp)"
    using assms(1) by (auto simp: sp2_def sp1_def par_def)
  have run: "GetNextWorkRequired_PoS cp pindexLast pprev =
      (case div_int64 (mul_int64 bn1 ((n - 1) * nTargetSpacing par + sp2 + sp2)) m of None \<Rightarrow> None
       | Some bnNew \<Rightarrow> GetCompact False (if CompareTo bnNew (base_uint_of_u64 8 0) \<le> 0 \<or> CompareTo bnNew lim > 0 then lim else bnNew))"
    unfolding GetNextWorkRequired_PoS_def Let_def par_def[symmetric] V2_def[symmetric] n_def[symmetric] m_def[symmetric] lim_def[symmetric]
      bn_def[symmetric] bn1_def[symmetric] sp_def[symmetric] sp1_def[symmetric] sp2_def[symmetric] ..
  have tgt: "pos_target cp pindexLast pprev = (let y = val bn1 * nat (((n - 1) * nTargetSpacing par + sp2 + sp2) mod 2 ^ 32) mod 2 ^ 256 div nat m
      in if y = 0 \<or> val lim < y then val lim else y)"
  proof -
    have sw: "(if pi_nHeight pindexLast = 0 then 0 else pi_GetBlockTime pindexLast - pi_GetBlockTime pprev) = sp" by (simp add: sp_def)
    have dbl: "(n - 1) * nTargetSpacing par + 2 * sp2 = (n - 1) * nTargetSpacing par + sp2 + sp2" by simp
    show ?thesis
      unfolding pos_target_def Let_def par_def[symmetric] V2_def[symmetric] n_def[symmetric] m_def[symmetric] l(1) bn1(3) bn(3) sw sp2[symmetric] dbl ..
  qed
  show ?thesis unfolding run tgt by (rule step[OF bn1(1,2)])
qed

text \<open>
  The target of the block on top of \<open>chain\<close>, which has length \<open>height\<close>: the proof-of-work limit for the first blocks,
  then the average of the last targets, or the staking rule once that phase has begun; and the limit of its kind.
\<close>

definition next_target :: "CChainParams \<Rightarrow> pow_index list \<Rightarrow> nat" where
  "next_target cp chain =
     (let par = consensus cp
      in if length chain \<le> 24 then le_val (powLimit par)
         else if NetworkUpgradeActive par (int (length chain)) UPGRADE_POS then pos_target cp (hd chain) (chain ! 1)
         else pow_target par chain)"

definition target_limit :: "CChainParams \<Rightarrow> nat \<Rightarrow> nat" where
  "target_limit cp height =
     (let par = consensus cp
      in if 24 < height \<and> NetworkUpgradeActive par (int height) UPGRADE_POS
         then le_val (if IsTimeProtocolV2 par (int height) then posLimitV2 par else posLimitV1 par)
         else le_val (powLimit par))"

lemma clamp_le: "(if x = 0 \<or> l < x then l else x) \<le> l" for x l :: nat
  by simp

lemma pos_target_limit:
  "pos_target cp lst prev \<le> le_val (ProofOfStakeLimit (consensus cp) (\<not> IsRegTestNet cp \<and> IsTimeProtocolV2 (consensus cp) (pi_nHeight lst + 1)))"
  unfolding pos_target_def Let_def by (rule clamp_le)

lemma pow_target_limit: "pow_target par chain \<le> le_val (powLimit par)"
  unfolding pow_target_def Let_def split_beta by (rule min.cobounded1)

lemma next_target_limit:
  assumes "\<not> IsRegTestNet cp" "chain \<noteq> []" "pi_nHeight (hd chain) + 1 = int (length chain)"
  shows "next_target cp chain \<le> target_limit cp (length chain)"
  using pos_target_limit[of cp "hd chain" "chain ! 1"] pow_target_limit[of "consensus cp" chain] assms
  by (simp add: next_target_def target_limit_def ProofOfStakeLimit_def Let_def)

lemma dgw_average_step:
  "\<not> (pi_nHeight b \<le> 0 \<or> n = 24) \<Longrightarrow> \<exists>a' u' v'. dgw_average (b # rest) n a u v = dgw_average rest (n + 1) a' u' v'"
  unfolding dgw_average.simps Let_def by (simp only: if_False) blast

lemma dgw_average_count:
  assumes "chain \<noteq> []" "pi_nHeight (hd chain) > 0"
  shows "0 < snd (snd (dgw_average chain 0 avg s t))" "snd (snd (dgw_average chain 0 avg s t)) \<le> 24"
proof -
  have up: "n \<le> 24 \<Longrightarrow> n \<le> snd (snd (dgw_average c n a u v)) \<and> snd (snd (dgw_average c n a u v)) \<le> 24" for c n a u v
  proof (induction c arbitrary: n a u v)
    case (Cons b rest)
    show ?case
    proof (cases "pi_nHeight b \<le> 0 \<or> n = 24")
      case False
      then obtain a' u' v' where "dgw_average (b # rest) n a u v = dgw_average rest (n + 1) a' u' v'"
        using dgw_average_step by blast
      then show ?thesis using Cons.IH[of "n + 1" a' u' v'] Cons.prems False by simp
    qed (use Cons.prems in auto)
  qed simp
  obtain b rest where c: "chain = b # rest" using assms(1) by (cases chain) auto
  show "0 < snd (snd (dgw_average chain 0 avg s t))"
  proof -
    obtain a' u' v' where "dgw_average (b # rest) 0 avg s t = dgw_average rest (0 + 1) a' u' v'"
      using dgw_average_step[of b 0] assms(2) c by fastforce
    then show ?thesis using up[of 1 rest a' u' v'] by (simp add: c)
  qed
  show "snd (snd (dgw_average chain 0 avg s t)) \<le> 24" using up[of 0] by blast
qed

lemma GetNextWorkRequired_exact:
  assumes "\<not> fPowNoRetargeting (consensus cp)" "0 < nTargetSpacing (consensus cp)" "nTargetSpacing (consensus cp) < 2 ^ 32"
    and "\<forall>b. 0 \<le> TargetTimespan (consensus cp) b \<and> TargetTimespan (consensus cp) b < 2 ^ 32"
    and "\<forall>b. length (ProofOfStakeLimit (consensus cp) b) = 32" "length (powLimit (consensus cp)) = 32"
    and "chain \<noteq> []" "map pi_nHeight chain = rev (map int [0..<length chain])"
  shows "\<exists>bits. GetNextWorkRequired cp chain = Some bits \<and> compact_of (next_target cp chain) bits"
proof -
  define par where "par = consensus cp"
  define lim where "lim = UintToArith256 (powLimit par)"
  have l: "val lim = le_val (powLimit par)" "limbs lim" "length lim = 8"
    using val_UintToArith256[of "powLimit par"] assms(6) by (auto simp: lim_def par_def)
  obtain i rest where c: "chain = i # rest" using assms(7) by (cases chain) auto
  have h: "pi_nHeight i = int (length rest)" using assms(8) by (simp add: c)
  note unf = GetNextWorkRequired_def Let_def par_def[symmetric] lim_def[symmetric]
  consider "length chain \<le> 24"
    | "\<not> length chain \<le> 24" "NetworkUpgradeActive par (pi_nHeight i + 1) UPGRADE_POS"
    | "\<not> length chain \<le> 24" "\<not> NetworkUpgradeActive par (pi_nHeight i + 1) UPGRADE_POS" by blast
  then show ?thesis
  proof cases
    case 1
    then have "GetNextWorkRequired cp chain = GetCompact False lim" using assms(1) h unfolding unf c by (simp add: par_def)
    then show ?thesis using compact_of_ex[OF l(2,3)] 1 l(1) by (simp add: next_target_def par_def Let_def)
  next
    case 2
    obtain p rest' where p: "rest = p # rest'" using 2(1) c by (cases rest) auto
    have "NetworkUpgradeActive par (int (length chain)) UPGRADE_POS" using 2(2) h by (simp add: c add.commute)
    then have "next_target cp chain = pos_target cp i p" using 2(1) by (simp add: next_target_def c p par_def Let_def)
    moreover have "GetNextWorkRequired cp chain = GetNextWorkRequired_PoS cp i p"
      using 2 assms(1) h unfolding unf c p by (simp add: par_def)
    ultimately show ?thesis using GetNextWorkRequired_PoS_exact[OF assms(2-5), of i p] by simp
  next
    case 3
    obtain avg span n where d: "dgw_average chain 0 0 0 0 = (avg, span, n)" by (metis prod_cases3)
    have "pi_nHeight (hd chain) > 0" using 3(1) h c by auto
    note n = dgw_average_count[OF assms(7) this, of 0 0 0, unfolded d snd_conv]
    have z: "limbs (base_uint_zero 8)" "length (base_uint_zero 8) = 8" "val (base_uint_zero 8) = 0" by simp_all
    obtain a where a: "dgw_loop chain 0 (base_uint_zero 8) 0 0 = Some (a, span, n)" "limbs a" "length a = 8" "val a = avg"
      by (rule dgw_loop_average[OF z(1,2), of 0 chain 0 0, unfolded z(3) d fst_conv snd_conv]) simp_all
    define T where "T = int n * nTargetSpacing par"
    define s1 where "s1 = (if span < T div 3 then T div 3 else span)"
    define s2 where "s2 = (if s1 > T * 3 then T * 3 else s1)"
    have "T \<le> 24 * 2 ^ 32" using n(2) assms(2,3) unfolding T_def par_def by (intro mult_mono) auto
    then have T: "0 < T" "T < 2 ^ 64" using n(1) assms(2) by (simp_all add: T_def par_def)
    have s2: "s2 = min (max span (T div 3)) (T * 3)" by (auto simp: s2_def s1_def)
    note mu = mul_int64_val[OF a(2,3), of s2]
    obtain q where q: "div_int64 (mul_int64 a s2) T = Some q" "limbs q" "length q = 8" "val q = val (mul_int64 a s2) div nat T"
      by (rule div_int64_ok[OF mu(2,3) T])
    define y where "y = (if CompareTo q lim > 0 then lim else q)"
    have y: "limbs y" "length y = 8" "val y = min (val lim) (val q)"
      using q l CompareTo_pos(1)[of q lim] by (auto simp: y_def)
    have run: "GetNextWorkRequired cp chain = GetCompact False y"
      unfolding unf a(1) option.case prod.case T_def[symmetric] s1_def[symmetric] s2_def[symmetric] q(1) y_def[symmetric]
      using 3 assms(1) h by (auto simp: c par_def[symmetric])
    have "\<not> NetworkUpgradeActive par (int (length chain)) UPGRADE_POS" using 3(2) h by (simp add: c add.commute)
    then have "next_target cp chain = pow_target par chain" using 3(1) by (simp add: next_target_def par_def Let_def)
    also have "\<dots> = val y"
      unfolding pow_target_def d Let_def prod.case T_def[symmetric] s2[symmetric] y(3) l(1) q(4) mu(1) a(4) ..
    finally show ?thesis using compact_of_ex[OF y(1,2)] run by simp
  qed
qed

lemma network_facts:
  assumes "cp \<in> {CMainParams, CTestNetParams, CRegTestParams}"
  shows "nTargetSpacing (consensus cp) = 60" "nTargetTimespan (consensus cp) = 40 * 60" "nTargetTimespanV2 (consensus cp) = 30 * 60"
    "length (powLimit (consensus cp)) = 32" "length (posLimitV1 (consensus cp)) = 32" "length (posLimitV2 (consensus cp)) = 32"
    "fPowNoRetargeting (consensus cp) = IsRegTestNet cp"
proof -
  have len: "length (uint256S str) = 32" for str
    by (simp add: uint256S_def SetHex_def Let_def)
  have c: "consensus CMainParams = CMainParams_consensus" "consensus CTestNetParams = CTestNetParams_consensus"
    "consensus CRegTestParams = CRegTestParams_consensus"
    unfolding CMainParams_def CTestNetParams_def CRegTestParams_def by (simp_all only: CChainParams.select_convs)
  have r: "\<not> IsRegTestNet CMainParams" "\<not> IsRegTestNet CTestNetParams" "IsRegTestNet CRegTestParams"
    unfolding CMainParams_def CTestNetParams_def CRegTestParams_def IsRegTestNet_def CChainParams.select_convs by simp_all
  note defs = CMainParams_consensus_def CTestNetParams_consensus_def CRegTestParams_consensus_def
  consider "cp = CMainParams" | "cp = CTestNetParams" | "cp = CRegTestParams" using assms by blast
  then show "nTargetSpacing (consensus cp) = 60" "nTargetTimespan (consensus cp) = 40 * 60" "nTargetTimespanV2 (consensus cp) = 30 * 60"
    "length (powLimit (consensus cp)) = 32" "length (posLimitV1 (consensus cp)) = 32" "length (posLimitV2 (consensus cp)) = 32"
    "fPowNoRetargeting (consensus cp) = IsRegTestNet cp"
    by (cases; simp only: c r; simp only: defs Params.Params.select_convs len)+
qed

text \<open>
  (C22) The required difficulty is the one of the rules.  On each of the three networks and for every chain from the
  genesis block up, whatever targets and times its blocks carry, \<open>GetNextWorkRequired\<close> returns: it neither divides by zero nor
  fails an assertion nor follows a null pointer.  On the regression test network it returns the bits of the last
  block.  On the others it returns the compact form of \<open>next_target\<close>, the retarget rules computed on
  numbers, which is at most the limit for the kind of the block: the proof-of-stake limit of its time protocol once
  that phase has begun, the proof-of-work limit before.
\<close>

theorem next_work_bounded:
  assumes "cp \<in> {CMainParams, CTestNetParams, CRegTestParams}" "chain \<noteq> []" "map pi_nHeight chain = rev (map int [0..<length chain])"
  shows "\<exists>bits. GetNextWorkRequired cp chain = Some bits \<and>
    (if fPowNoRetargeting (consensus cp) then bits = pi_nBits (hd chain)
     else compact_of (next_target cp chain) bits \<and>
          compact_target bits \<le> next_target cp chain \<and> next_target cp chain \<le> target_limit cp (length chain))"
proof (cases "fPowNoRetargeting (consensus cp)")
  case True
  then show ?thesis using assms(2) by (cases chain) (simp_all add: GetNextWorkRequired_def)
next
  case False
  note N = network_facts[OF assms(1)]
  have "pi_nHeight (hd chain) + 1 = int (length chain)" using assms(2,3) by (cases chain) simp_all
  then have "next_target cp chain \<le> target_limit cp (length chain)" using False N(7) assms(2) by (intro next_target_limit) simp_all
  moreover have "\<exists>bits. GetNextWorkRequired cp chain = Some bits \<and> compact_of (next_target cp chain) bits"
    using False N(1-6) assms(2,3) by (intro GetNextWorkRequired_exact) (simp_all add: TargetTimespan_def ProofOfStakeLimit_def)
  ultimately show ?thesis using False compact_of_bound by auto
qed

text \<open>A chain with one block a minute, at the initial difficulty of the main network.\<close>

definition example_headers :: "nat \<Rightarrow> pow_index list" where
  "example_headers n = rev (map (\<lambda>h. \<lparr>pi_nHeight = int h, pi_nTime = 60 * h, pi_nBits = 0x1e0ffff0\<rparr>) [0..<n])"

lemma example_headers_chain: "map pi_nHeight (example_headers n) = rev (map int [0..<length (example_headers n)])"
  by (simp add: example_headers_def rev_map[symmetric] comp_def)

lemma main_pos_limit: "le_val (posLimitV2 CMainParams_consensus) = 2 ^ 236 - 1"
proof -
  have "posLimitV2 CMainParams_consensus = uint256S ''0x00000fffffffffffffffffffffffffffffffffffffffffffffffffffffffffff''"
    unfolding CMainParams_consensus_def by (simp only: Params.Params.select_convs)
  moreover have "uint256S ''0x00000fffffffffffffffffffffffffffffffffffffffffffffffffffffffffff'' = [0xff, 0xff, 0xff, 0xff, 0xff, 0xff, 0xff, 0xff, 0xff, 0xff, 0xff, 0xff, 0xff, 0xff, 0xff, 0xff, 0xff, 0xff, 0xff, 0xff, 0xff, 0xff, 0xff, 0xff, 0xff, 0xff, 0xff, 0xff, 0xff, 0x0f, 0, 0]" by code_simp
  moreover have "le_val ([0xff, 0xff, 0xff, 0xff, 0xff, 0xff, 0xff, 0xff, 0xff, 0xff, 0xff, 0xff, 0xff, 0xff, 0xff, 0xff, 0xff, 0xff, 0xff, 0xff, 0xff, 0xff, 0xff, 0xff, 0xff, 0xff, 0xff, 0xff, 0xff, 0x0f, 0, 0]) = 2 ^ 236 - 1" by simp
  ultimately show ?thesis by simp
qed

theorem next_work_bounded_witness:
  "(\<exists>bits. GetNextWorkRequired CMainParams (example_headers 700) = Some bits \<and>
      compact_of (next_target CMainParams (example_headers 700)) bits \<and> compact_target bits < 2 ^ 236) \<and>
   (\<exists>bits. GetNextWorkRequired CMainParams (example_headers 30) = Some bits \<and>
      compact_of (next_target CMainParams (example_headers 30)) bits \<and> compact_target bits \<le> le_val (powLimit CMainParams_consensus)) \<and>
   GetNextWorkRequired CRegTestParams (example_headers 30) = Some 0x1e0ffff0"
proof -
  have c: "consensus CMainParams = CMainParams_consensus" unfolding CMainParams_def by (simp only: CChainParams.select_convs)
  have r: "\<not> fPowNoRetargeting (consensus CMainParams)" "fPowNoRetargeting (consensus CRegTestParams)"
    using network_facts(7)[of CMainParams] network_facts(7)[of CRegTestParams]
    by (simp_all add: IsRegTestNet_def CMainParams_def CRegTestParams_def)
  have u: "vUpgrades CMainParams_consensus ! UPGRADE_POS = 601" "vUpgrades CMainParams_consensus ! UPGRADE_V4_0 = ALWAYS_ACTIVE"
    unfolding CMainParams_consensus_def by (simp_all only: Params.Params.select_convs) simp_all
  have lim: "target_limit CMainParams 700 = le_val (posLimitV2 CMainParams_consensus)"
    "target_limit CMainParams 30 = le_val (powLimit CMainParams_consensus)"
    using u by (simp_all add: target_limit_def c IsTimeProtocolV2_def NetworkUpgradeActive_def NetworkUpgradeState_def Let_def)
  have ex: "example_headers 30 \<noteq> []" "example_headers 700 \<noteq> []" "length (example_headers n) = n" for n
    by (simp_all add: example_headers_def)
  have h: "pi_nBits (hd (example_headers 30)) = 0x1e0ffff0" by (simp add: example_headers_def hd_rev last_map)
  note w = next_work_bounded[OF _ _ example_headers_chain, unfolded ex(3)]
  have "\<exists>bits. GetNextWorkRequired CMainParams (example_headers 700) = Some bits \<and>
      compact_of (next_target CMainParams (example_headers 700)) bits \<and> compact_target bits \<le> 2 ^ 236 - 1"
    using w[of CMainParams 700] r(1) ex(2) lim(1) main_pos_limit by auto
  moreover have "\<exists>bits. GetNextWorkRequired CMainParams (example_headers 30) = Some bits \<and>
      compact_of (next_target CMainParams (example_headers 30)) bits \<and> compact_target bits \<le> le_val (powLimit CMainParams_consensus)"
    using w[of CMainParams 30] r(1) ex(1) lim(2) by auto
  moreover have "GetNextWorkRequired CRegTestParams (example_headers 30) = Some 0x1e0ffff0"
    using w[of CRegTestParams 30] r(2) ex(1) h by auto
  ultimately show ?thesis by fastforce
qed

end
