(* ===== verification/Chain.thy ===== *)
theory Chain
imports Pow
begin

text \<open>
  The tree of block headers and the active chain (\<open>chain.h\<close>, \<open>chain.cpp\<close>, \<open>AddToBlockIndex\<close> of
  \<open>validation.cpp\<close>).

  A \<open>CBlockIndex*\<close> is a number into a store of entries, \<open>nullptr\<close> is \<open>None\<close>.  A function that follows
  pointers returns an option: \<open>None\<close> stands for dereferencing a null pointer, a failed
  assertion, or a loop that does not end.
\<close>

section \<open>Entries\<close>

type_synonym index_ptr = nat

record CBlockIndex =
  ci_pprev :: "index_ptr option"
  ci_pskip :: "index_ptr option"
  ci_nHeight :: nat
  ci_nTime :: nat
  ci_nTimeMax :: nat
  ci_nBits :: nat
  ci_nChainWork :: base_uint
  ci_vStakeModifier :: bytes
  ci_nStatus :: nat
  ci_hash :: uint256

type_synonym index_store = "index_ptr \<Rightarrow> CBlockIndex option"

abbreviation (input) BLOCK_VALID_TREE :: nat where "BLOCK_VALID_TREE \<equiv> 2"
abbreviation (input) BLOCK_VALID_MASK :: nat where "BLOCK_VALID_MASK \<equiv> 7"
abbreviation (input) BLOCK_FAILED_MASK :: nat where "BLOCK_FAILED_MASK \<equiv> 96"

definition IsValid :: "CBlockIndex \<Rightarrow> nat \<Rightarrow> bool" where
  "IsValid e nUpTo \<longleftrightarrow> (if ci_nStatus e AND BLOCK_FAILED_MASK \<noteq> 0 then False else ci_nStatus e AND BLOCK_VALID_MASK \<ge> nUpTo)"

definition RaiseValidity :: "nat \<Rightarrow> CBlockIndex \<Rightarrow> bool \<times> CBlockIndex" where
  "RaiseValidity nUpTo e =
     (if ci_nStatus e AND BLOCK_FAILED_MASK \<noteq> 0 then (False, e)
      else if ci_nStatus e AND BLOCK_VALID_MASK < nUpTo
      then (True, e\<lparr>ci_nStatus := ci_nStatus e div 8 * 8 OR nUpTo\<rparr>)
      else (False, e))"

section \<open>Ancestors\<close>

definition InvertLowestOne :: "nat \<Rightarrow> nat" where
  "InvertLowestOne n = n AND (n - 1)"

definition GetSkipHeight :: "nat \<Rightarrow> nat" where
  "GetSkipHeight height =
     (if height < 2 then 0
      else if odd height then InvertLowestOne (InvertLowestOne (height - 1)) + 1 else InvertLowestOne height)"

lemma and_le_nat: "m AND n \<le> m" "m AND n \<le> n" for m n :: nat
proof -
  have "int (m AND n) \<le> int m" "int (m AND n) \<le> int n"
    unfolding of_nat_and_eq by (rule AND_upper1, simp, rule AND_upper2, simp)
  then show "m AND n \<le> m" "m AND n \<le> n" by simp_all
qed

lemma and_pred_less: "0 < n \<Longrightarrow> n AND (n - 1) < n" for n :: nat
proof -
  assume "0 < n"
  have "n AND (n - 1) \<le> n - 1" by (rule and_le_nat)
  then show "n AND (n - 1) < n" using \<open>0 < n\<close> by linarith
qed

lemma GetSkipHeight_less: "0 < n \<Longrightarrow> GetSkipHeight n < n"
proof (cases "n < 2 \<or> even n")
  case True
  assume "0 < n"
  then show ?thesis using True and_pred_less[of n] by (auto simp: GetSkipHeight_def InvertLowestOne_def)
next
  case False
  then have "2 < n" "InvertLowestOne (n - 1) < n - 1" using and_pred_less[of "n - 1"] by (auto simp: InvertLowestOne_def) presburger
  moreover have "InvertLowestOne (InvertLowestOne (n - 1)) \<le> InvertLowestOne (n - 1)"
    unfolding InvertLowestOne_def by (rule and_le_nat)
  ultimately show ?thesis using False by (simp add: GetSkipHeight_def)
qed

function GetAncestor_loop :: "index_store \<Rightarrow> index_ptr option \<Rightarrow> nat \<Rightarrow> nat \<Rightarrow> index_ptr option option" where
  "GetAncestor_loop st pindexWalk heightWalk height =
     (if heightWalk > height then
        (case Option.bind pindexWalk st of
           None \<Rightarrow> None
         | Some e \<Rightarrow>
             let heightSkip = GetSkipHeight heightWalk; heightSkipPrev = GetSkipHeight (heightWalk - 1)
             in if heightSkip = height \<or>
                   heightSkip > height \<and> \<not> (heightSkipPrev + 2 < heightSkip \<and> heightSkipPrev \<ge> height)
                then GetAncestor_loop st (ci_pskip e) heightSkip height
                else case ci_pprev e of
                       None \<Rightarrow> None
                     | Some q \<Rightarrow> GetAncestor_loop st (Some q) (heightWalk - 1) height)
      else Some pindexWalk)"
  by pat_completeness auto
termination
  by (relation "measure (\<lambda>(st, p, hw, h). hw)") (auto intro: GetSkipHeight_less)

declare GetAncestor_loop.simps [simp del]

text \<open>\<open>Some None\<close> is the null pointer as a result.\<close>

definition GetAncestor :: "index_store \<Rightarrow> index_ptr \<Rightarrow> int \<Rightarrow> index_ptr option option" where
  "GetAncestor st this height =
     (case st this of
        None \<Rightarrow> None
      | Some e \<Rightarrow>
          if height > int (ci_nHeight e) \<or> height < 0 then Some None
          else GetAncestor_loop st (Some this) (ci_nHeight e) (nat height))"

definition BuildSkip :: "index_store \<Rightarrow> CBlockIndex \<Rightarrow> CBlockIndex option" where
  "BuildSkip st e =
     (case ci_pprev e of
        None \<Rightarrow> Some e
      | Some q \<Rightarrow> map_option (\<lambda>r. e\<lparr>ci_pskip := r\<rparr>) (GetAncestor st q (int (GetSkipHeight (ci_nHeight e)))))"

partial_function (option) lca_loop :: "index_store \<Rightarrow> index_ptr option \<Rightarrow> index_ptr option \<Rightarrow> index_ptr option option" where
  "lca_loop st pa pb =
     (if pa = pb then Some pa
      else case (pa, pb) of
             (Some a, Some b) \<Rightarrow>
               (case (st a, st b) of
                  (Some ea, Some eb) \<Rightarrow> lca_loop st (ci_pprev ea) (ci_pprev eb)
                | _ \<Rightarrow> None)
           | _ \<Rightarrow> None)"

definition LastCommonAncestor :: "index_store \<Rightarrow> index_ptr \<Rightarrow> index_ptr \<Rightarrow> index_ptr option option" where
  "LastCommonAncestor st pa pb =
     (case (st pa, st pb) of
        (Some ea, Some eb) \<Rightarrow>
          if ci_nHeight ea > ci_nHeight eb
          then Option.bind (GetAncestor st pa (int (ci_nHeight eb))) (\<lambda>a. lca_loop st a (Some pb))
          else if ci_nHeight eb > ci_nHeight ea
          then Option.bind (GetAncestor st pb (int (ci_nHeight ea))) (\<lambda>b. lca_loop st (Some pa) b)
          else lca_loop st (Some pa) (Some pb)
      | _ \<Rightarrow> None)"

section \<open>The active chain\<close>

type_synonym vChain = "index_ptr option list"

definition Chain_Height :: "vChain \<Rightarrow> int" where
  "Chain_Height v = int (length v) - 1"

definition Chain_at :: "vChain \<Rightarrow> int \<Rightarrow> index_ptr option" where
  "Chain_at v nHeight = (if nHeight < 0 \<or> nHeight \<ge> int (length v) then None else v ! nat nHeight)"

definition Chain_Tip :: "vChain \<Rightarrow> index_ptr option" where
  "Chain_Tip v = (if length v < 1 then None else v ! (length v - 1))"

definition Chain_Contains :: "index_store \<Rightarrow> vChain \<Rightarrow> index_ptr \<Rightarrow> bool option" where
  "Chain_Contains st v pindex = map_option (\<lambda>e. Chain_at v (int (ci_nHeight e)) = Some pindex) (st pindex)"

definition Chain_Next :: "index_store \<Rightarrow> vChain \<Rightarrow> index_ptr \<Rightarrow> index_ptr option option" where
  "Chain_Next st v pindex =
     (case Chain_Contains st v pindex of
        None \<Rightarrow> None
      | Some c \<Rightarrow> if c then map_option (\<lambda>e. Chain_at v (int (ci_nHeight e) + 1)) (st pindex) else Some None)"

text \<open>An access outside the vector is \<open>None\<close> as well.\<close>

partial_function (option) SetTip_loop :: "index_store \<Rightarrow> index_ptr option \<Rightarrow> vChain \<Rightarrow> vChain option" where
  "SetTip_loop st pindex v =
     (case pindex of
        None \<Rightarrow> Some v
      | Some p \<Rightarrow>
          (case st p of
             None \<Rightarrow> None
           | Some e \<Rightarrow>
               if ci_nHeight e \<ge> length v then None
               else if v ! ci_nHeight e = Some p then Some v
               else SetTip_loop st (ci_pprev e) (v[ci_nHeight e := Some p])))"

definition vector_resize :: "nat \<Rightarrow> vChain \<Rightarrow> vChain" where
  "vector_resize n v = take n v @ replicate (n - length v) None"

definition Chain_SetTip :: "index_store \<Rightarrow> index_ptr option \<Rightarrow> vChain \<Rightarrow> vChain option" where
  "Chain_SetTip st pindex v =
     (case pindex of
        None \<Rightarrow> Some []
      | Some p \<Rightarrow>
          (case st p of
             None \<Rightarrow> None
           | Some e \<Rightarrow> SetTip_loop st pindex (vector_resize (ci_nHeight e + 1) v)))"

partial_function (option) FindFork_loop :: "index_store \<Rightarrow> vChain \<Rightarrow> index_ptr option \<Rightarrow> index_ptr option option" where
  "FindFork_loop st v pindex =
     (case pindex of
        None \<Rightarrow> Some None
      | Some p \<Rightarrow>
          (case st p of
             None \<Rightarrow> None
           | Some e \<Rightarrow>
               if Chain_at v (int (ci_nHeight e)) = Some p then Some pindex
               else FindFork_loop st v (ci_pprev e)))"

definition Chain_FindFork :: "index_store \<Rightarrow> vChain \<Rightarrow> index_ptr option \<Rightarrow> index_ptr option option" where
  "Chain_FindFork st v pindex =
     (case pindex of
        None \<Rightarrow> Some None
      | Some p \<Rightarrow>
          (case st p of
             None \<Rightarrow> None
           | Some e \<Rightarrow>
               if int (ci_nHeight e) > Chain_Height v
               then Option.bind (GetAncestor st p (Chain_Height v)) (FindFork_loop st v)
               else FindFork_loop st v pindex))"

text \<open>\<open>n\<close> is the number of hashes collected so far.\<close>

partial_function (option) GetLocator_loop :: "index_store \<Rightarrow> vChain \<Rightarrow> nat \<Rightarrow> nat \<Rightarrow> index_ptr option \<Rightarrow> uint256 list option" where
  "GetLocator_loop st v nStep n pindex =
     (case pindex of
        None \<Rightarrow> Some []
      | Some p \<Rightarrow>
          (case st p of
             None \<Rightarrow> None
           | Some e \<Rightarrow>
               if ci_nHeight e = 0 then Some [ci_hash e]
               else
                 let nHeight = ci_nHeight e - nStep
                 in Option.bind (if Chain_at v (int (ci_nHeight e)) = Some p then Some (Chain_at v (int nHeight))
                                 else GetAncestor st p (int nHeight)) (\<lambda>q.
                    Option.bind (GetLocator_loop st v (if n + 1 > 10 then nStep * 2 else nStep) (n + 1) q) (\<lambda>vHave.
                      Some (ci_hash e # vHave)))))"

definition Chain_GetLocator :: "index_store \<Rightarrow> vChain \<Rightarrow> index_ptr option \<Rightarrow> uint256 list option" where
  "Chain_GetLocator st v pindex = GetLocator_loop st v 1 0 (case pindex of None \<Rightarrow> Chain_Tip v | Some p \<Rightarrow> Some p)"

section \<open>Adding a header\<close>

record block_tree =
  bt_store :: index_store
  mapBlockIndex :: "uint256 \<Rightarrow> index_ptr option"
  pindexBestHeader :: "index_ptr option"

definition GetStakeModifierV2 :: "Params \<Rightarrow> CBlockIndex \<Rightarrow> uint256" where
  "GetStakeModifierV2 par e =
     (if ci_vStakeModifier e = [] \<or> \<not> NetworkUpgradeActive par (int (ci_nHeight e)) UPGRADE_V3_4 then null_hash
      else take 32 (ci_vStakeModifier e @ replicate 32 0))"

definition SetNewStakeModifier :: "Params \<Rightarrow> index_store \<Rightarrow> uint256 \<Rightarrow> CBlockIndex \<Rightarrow> CBlockIndex option" where
  "SetNewStakeModifier par st prevoutId e =
     (if \<not> NetworkUpgradeActive par (int (ci_nHeight e)) UPGRADE_V3_4 then Some e
      else case Option.bind (ci_pprev e) st of
             None \<Rightarrow> None
           | Some ep \<Rightarrow> Some (e\<lparr>ci_vStakeModifier := Hash (prevoutId @ GetStakeModifierV2 par ep)\<rparr>))"

text \<open>
  What depends on the previous block; \<open>v1\<close> gives the legacy stake modifier of a block.  The second
  transaction of the block is read without looking whether there is one.
\<close>

definition link_index :: "Params \<Rightarrow> (CBlockIndex \<Rightarrow> bytes) \<Rightarrow> index_store \<Rightarrow> CBlock \<Rightarrow> index_ptr \<Rightarrow> CBlockIndex \<Rightarrow> CBlockIndex \<Rightarrow>
    CBlockIndex option" where
  "link_index par v1 st block q ep e =
     Option.bind (BuildSkip st (e\<lparr>ci_pprev := Some q, ci_nHeight := ci_nHeight ep + 1\<rparr>)) (\<lambda>e1.
       if \<not> NetworkUpgradeActive par (int (ci_nHeight e1)) UPGRADE_V3_4 then Some (e1\<lparr>ci_vStakeModifier := v1 e1\<rparr>)
       else if length (vtx block) > 1 \<and> vin (vtx block ! 1) \<noteq> []
       then SetNewStakeModifier par st (out_hash (prevout (vin (vtx block ! 1) ! 0))) e1
       else None)"

definition new_index :: "uint256 \<Rightarrow> CBlock \<Rightarrow> CBlockIndex" where
  "new_index hash block =
     \<lparr>ci_pprev = None, ci_pskip = None, ci_nHeight = 0, ci_nTime = bh_nTime block, ci_nTimeMax = 0,
      ci_nBits = bh_nBits block, ci_nChainWork = base_uint_zero 8, ci_vStakeModifier = [], ci_nStatus = 0, ci_hash = hash\<rparr>"

text \<open>
  \<open>p\<close> is the address of the new entry; a pointer in the map always has an entry.  The previous block is looked
  up among the earlier entries: a header that names its own hash as its predecessor is not considered.  The set of
  dirty entries, the sequence number and the multimap of successors are left out.
\<close>

definition AddToBlockIndex :: "Params \<Rightarrow> (bytes \<Rightarrow> uint256) \<Rightarrow> (CBlockIndex \<Rightarrow> bytes) \<Rightarrow> index_ptr \<Rightarrow> CBlock \<Rightarrow> block_tree \<Rightarrow>
    (index_ptr \<times> block_tree) option" where
  "AddToBlockIndex par HashQuark v1 p block t =
     (let hash = GetBlockHash HashQuark block; st = bt_store t
      in case mapBlockIndex t hash of
           Some q \<Rightarrow> Some (q, t)
         | None \<Rightarrow>
             let prev = Option.bind (mapBlockIndex t (hashPrevBlock block)) (\<lambda>q. map_option (Pair q) (st q))
             in Option.bind (case prev of None \<Rightarrow> Some (new_index hash block)
                             | Some (q, ep) \<Rightarrow> link_index par v1 st block q ep (new_index hash block)) (\<lambda>e1.
                Option.bind (GetBlockProof (bh_nBits block)) (\<lambda>work.
                  let e2 = e1\<lparr>ci_nTimeMax := (case prev of None \<Rightarrow> bh_nTime block | Some (q, ep) \<Rightarrow> max (ci_nTimeMax ep) (bh_nTime block)),
                              ci_nChainWork := base_uint_add (case prev of None \<Rightarrow> base_uint_zero 8 | Some (q, ep) \<Rightarrow> ci_nChainWork ep) work\<rparr>;
                      e3 = snd (RaiseValidity BLOCK_VALID_TREE e2);
                      best = (case Option.bind (pindexBestHeader t) st of
                                None \<Rightarrow> Some p
                              | Some b \<Rightarrow> if CompareTo (ci_nChainWork b) (ci_nChainWork e3) < 0 then Some p else pindexBestHeader t)
                  in Some (p, t\<lparr>bt_store := st(p \<mapsto> e3), mapBlockIndex := (mapBlockIndex t)(hash \<mapsto> p), pindexBestHeader := best\<rparr>))))"

section \<open>The tree of headers\<close>

text \<open>The ancestor \<open>n\<close> steps back along \<open>pprev\<close>.\<close>

fun anc :: "index_store \<Rightarrow> nat \<Rightarrow> index_ptr \<Rightarrow> index_ptr option" where
  "anc st 0 p = Some p"
| "anc st (Suc n) p = Option.bind (Option.bind (st p) ci_pprev) (anc st n)"

text \<open>
  Heights count the steps to the root, the skip pointer leads to the ancestor at the skip height,
  and the work is that of all the blocks up to the root.
\<close>

definition entry_ok :: "index_store \<Rightarrow> index_ptr \<Rightarrow> CBlockIndex \<Rightarrow> bool" where
  "entry_ok st p e \<longleftrightarrow>
     (case ci_pprev e of
        None \<Rightarrow> ci_nHeight e = 0
      | Some q \<Rightarrow> (\<exists>ep. st q = Some ep \<and> ci_nHeight e = ci_nHeight ep + 1 \<and>
          ci_pskip e = anc st (ci_nHeight ep - GetSkipHeight (ci_nHeight e)) q))"

definition index_ok :: "index_store \<Rightarrow> bool" where
  "index_ok st \<longleftrightarrow> (\<forall>p e. st p = Some e \<longrightarrow> entry_ok st p e)"

lemma index_okE:
  assumes "index_ok st" "st p = Some e"
  obtains "ci_pprev e = None" "ci_nHeight e = 0"
  | q ep where "ci_pprev e = Some q" "st q = Some ep" "ci_nHeight e = Suc (ci_nHeight ep)"
      "ci_pskip e = anc st (ci_nHeight ep - GetSkipHeight (ci_nHeight e)) q"
proof -
  have "entry_ok st p e" using assms unfolding index_ok_def by blast
  then show thesis using that by (cases "ci_pprev e") (auto simp: entry_ok_def)
qed

lemma anc_add: "anc st (m + n) p = Option.bind (anc st m p) (anc st n)"
proof (induction m arbitrary: p)
  case (Suc m)
  then show ?case by (cases "Option.bind (st p) ci_pprev") auto
qed simp

lemma anc_exists:
  assumes "index_ok st" "st p = Some e" "n \<le> ci_nHeight e"
  obtains q eq where "anc st n p = Some q" "st q = Some eq" "ci_nHeight eq = ci_nHeight e - n"
  using assms
proof (induction n arbitrary: p e thesis)
  case (Suc n)
  from Suc.prems(2,3) show ?case
  proof (cases rule: index_okE)
    case 1
    then show ?thesis using Suc.prems(4) by simp
  next
    case (2 q ep)
    have "n \<le> ci_nHeight ep" using Suc.prems(4) 2(3) by simp
    from Suc.IH[OF _ Suc.prems(2) 2(2) this] obtain r er where "anc st n q = Some r" "st r = Some er" "ci_nHeight er = ci_nHeight ep - n" .
    then show ?thesis using Suc.prems(1,3) 2 by simp
  qed
qed simp

text \<open>The walk over skip and previous pointers finds the ancestor.\<close>

lemma GetAncestor_loop_ok:
  assumes "index_ok st" "st p = Some e" "ci_nHeight e = hw" "h \<le> hw"
  shows "GetAncestor_loop st (Some p) hw h = Some (anc st (hw - h) p)"
  using assms(2-4)
proof (induction hw arbitrary: p e rule: less_induct)
  case (less hw)
  show ?case
  proof (cases "hw = h")
    case True
    then show ?thesis by (subst GetAncestor_loop.simps) simp
  next
    case False
    then have gt: "h < hw" using less.prems(3) by simp
    from assms(1) less.prems(1) obtain q ep where q: "ci_pprev e = Some q" "st q = Some ep" "ci_nHeight e = Suc (ci_nHeight ep)"
      "ci_pskip e = anc st (ci_nHeight ep - GetSkipHeight (ci_nHeight e)) q"
      by (cases rule: index_okE) (use less.prems(2) gt in auto)
    have hw: "hw = Suc (ci_nHeight ep)" using q(3) less.prems(2) by simp
    let ?s = "GetSkipHeight hw"
    have s: "?s < hw" using gt by (intro GetSkipHeight_less) simp
    have prev: "GetAncestor_loop st (Some q) (hw - 1) h = Some (anc st (hw - h) p)"
    proof -
      have "GetAncestor_loop st (Some q) (hw - 1) h = Some (anc st (hw - 1 - h) q)"
        using gt hw q(2) by (intro less.IH) auto
      moreover have "hw - h = Suc (hw - 1 - h)" using gt by simp
      ultimately show ?thesis using less.prems(1) q(1) by simp
    qed
    have skip: "GetAncestor_loop st (ci_pskip e) ?s h = Some (anc st (hw - h) p)" if "h \<le> ?s"
    proof -
      have "ci_nHeight ep - ?s \<le> ci_nHeight ep" by simp
      from anc_exists[OF assms(1) q(2) this] obtain r er where
        r: "anc st (ci_nHeight ep - ?s) q = Some r" "st r = Some er" "ci_nHeight er = ci_nHeight ep - (ci_nHeight ep - ?s)" .
      have rs: "ci_nHeight er = ?s" using r(3) s hw by simp
      have "ci_pskip e = Some r" using q(4) r(1) less.prems(2) by simp
      moreover have "GetAncestor_loop st (Some r) ?s h = Some (anc st (?s - h) r)"
        using r(2) rs that s by (intro less.IH) auto
      moreover have "anc st (hw - h) p = anc st (?s - h) r"
      proof -
        have "hw - h = Suc ((ci_nHeight ep - ?s) + (?s - h))" using that s hw by simp
        then show ?thesis using less.prems(1) q(1) r(1) by (simp add: anc_add)
      qed
      ultimately show ?thesis by simp
    qed
    show ?thesis
      by (subst GetAncestor_loop.simps) (use gt less.prems(1) q(1) prev skip in \<open>auto simp: Let_def\<close>)
  qed
qed

lemma GetAncestor_ok:
  assumes "index_ok st" "st p = Some e"
  shows "GetAncestor st p h = Some (if 0 \<le> h \<and> h \<le> int (ci_nHeight e) then anc st (ci_nHeight e - nat h) p else None)"
  using GetAncestor_loop_ok[OF assms refl, of "nat h"] assms(2) by (auto simp: GetAncestor_def)

lemma GetAncestor_height:
  assumes "index_ok st" "st p = Some e" "0 \<le> h" "h \<le> int (ci_nHeight e)"
  obtains q eq where "GetAncestor st p h = Some (Some q)" "anc st (ci_nHeight e - nat h) p = Some q" "st q = Some eq" "ci_nHeight eq = nat h"
proof -
  obtain q eq where "anc st (ci_nHeight e - nat h) p = Some q" "st q = Some eq" "ci_nHeight eq = ci_nHeight e - (ci_nHeight e - nat h)"
    using anc_exists[OF assms(1,2), of "ci_nHeight e - nat h"] by auto
  then show ?thesis using that GetAncestor_ok[OF assms(1,2), of h] assms(3,4) by simp
qed

lemma anc_height:
  assumes "index_ok st" "st p = Some e" "anc st n p = Some q"
  obtains eq where "st q = Some eq" "n \<le> ci_nHeight e" "ci_nHeight eq = ci_nHeight e - n"
proof (cases "n \<le> ci_nHeight e")
  case True
  then show ?thesis using anc_exists[OF assms(1,2) True] assms(3) that by (metis option.inject)
next
  case False
  obtain r er where r: "anc st (ci_nHeight e) p = Some r" "st r = Some er" "ci_nHeight er = 0"
    using anc_exists[OF assms(1,2) le_refl] by auto
  have "anc st n p = anc st (n - ci_nHeight e) r"
    using anc_add[of st "ci_nHeight e" "n - ci_nHeight e" p] False r(1) by simp
  moreover obtain k where "n - ci_nHeight e = Suc k" using False by (metis Suc_diff_Suc not_le)
  moreover have "ci_pprev er = None" using assms(1) r(2,3) by (cases rule: index_okE) auto
  ultimately show ?thesis using assms(3) r(2) by simp
qed

section \<open>The last common ancestor\<close>

definition single_root :: "index_store \<Rightarrow> bool" where
  "single_root st \<longleftrightarrow> (\<forall>p q e f. st p = Some e \<longrightarrow> st q = Some f \<longrightarrow> ci_pprev e = None \<longrightarrow> ci_pprev f = None \<longrightarrow> p = q)"

lemma lca_loop_ok:
  assumes "index_ok st" "single_root st" "st a = Some ea" "st b = Some eb" "ci_nHeight ea = k" "ci_nHeight eb = k"
  shows "\<exists>n c. lca_loop st (Some a) (Some b) = Some (Some c) \<and> anc st n a = Some c \<and> anc st n b = Some c \<and>
    (\<forall>m<n. anc st m a \<noteq> anc st m b)"
  using assms(3-6)
proof (induction k arbitrary: a b ea eb)
  case 0
  have "ci_pprev ea = None" using assms(1) "0.prems"(1) by (cases rule: index_okE) (use "0.prems"(3) in auto)
  moreover have "ci_pprev eb = None" using assms(1) "0.prems"(2) by (cases rule: index_okE) (use "0.prems"(4) in auto)
  ultimately have "a = b" using assms(2) "0.prems" unfolding single_root_def by blast
  then show ?case by (intro exI[of _ 0] exI[of _ a]) (simp add: lca_loop.simps)
next
  case (Suc k)
  show ?case
  proof (cases "a = b")
    case True
    then show ?thesis by (intro exI[of _ 0] exI[of _ a]) (simp add: lca_loop.simps)
  next
    case False
    obtain a' ea' where a': "ci_pprev ea = Some a'" "st a' = Some ea'" "ci_nHeight ea' = k"
      using assms(1) Suc.prems(1) by (cases rule: index_okE) (use Suc.prems(3) in auto)
    obtain b' eb' where b': "ci_pprev eb = Some b'" "st b' = Some eb'" "ci_nHeight eb' = k"
      using assms(1) Suc.prems(2) by (cases rule: index_okE) (use Suc.prems(4) in auto)
    obtain n c where n: "lca_loop st (Some a') (Some b') = Some (Some c)" "anc st n a' = Some c" "anc st n b' = Some c"
      "\<forall>m<n. anc st m a' \<noteq> anc st m b'"
      using Suc.IH[OF a'(2) b'(2) a'(3) b'(3)] by blast
    have run: "lca_loop st (Some a) (Some b) = lca_loop st (Some a') (Some b')"
      using False Suc.prems(1,2) a'(1) b'(1) by (subst lca_loop.simps) simp
    have "anc st m a \<noteq> anc st m b" if "m < Suc n" for m
      using that False Suc.prems(1,2) a'(1) b'(1) n(4) by (cases m) auto
    then show ?thesis using n(1-3) run Suc.prems(1,2) a'(1) b'(1)
      by (intro exI[of _ "Suc n"] exI[of _ c]) simp
  qed
qed

definition is_anc :: "index_store \<Rightarrow> index_ptr \<Rightarrow> index_ptr \<Rightarrow> bool" where
  "is_anc st p q \<longleftrightarrow> (\<exists>n. anc st n p = Some q)"

lemma is_anc_trans: "is_anc st p q \<Longrightarrow> is_anc st q r \<Longrightarrow> is_anc st p r"
  unfolding is_anc_def by (metis anc_add bind.bind_lunit)

lemma is_anc_refl [simp]: "is_anc st p p"
  unfolding is_anc_def by (intro exI[of _ 0]) simp

lemma is_anc_height:
  assumes "index_ok st" "st p = Some e" "is_anc st p q"
  obtains f where "st q = Some f" "ci_nHeight f \<le> ci_nHeight e"
proof -
  obtain n where "anc st n p = Some q" using assms(3) by (auto simp: is_anc_def)
  then obtain f where "st q = Some f" "ci_nHeight f = ci_nHeight e - n"
    by (rule anc_height[OF assms(1,2)])
  then show thesis using that by simp
qed

lemma anc_steps:
  assumes "index_ok st" "st p = Some e" "anc st n p = Some q" "st q = Some f"
  shows "n = ci_nHeight e - ci_nHeight f"
proof -
  obtain g where "st q = Some g" "n \<le> ci_nHeight e" "ci_nHeight g = ci_nHeight e - n"
    using assms(1-3) by (rule anc_height)
  then show ?thesis using assms(4) by simp
qed

text \<open>Two ancestors of one block are ordered by their heights.\<close>

lemma is_anc_linear:
  assumes "index_ok st" "st p = Some e" "is_anc st p q" "is_anc st p r" "st q = Some eq" "st r = Some er" "ci_nHeight er \<le> ci_nHeight eq"
  shows "is_anc st q r"
proof -
  obtain m n where m: "anc st m p = Some q" "anc st n p = Some r" using assms(3,4) by (auto simp: is_anc_def)
  obtain f where f: "st q = Some f" "m \<le> ci_nHeight e" "ci_nHeight f = ci_nHeight e - m"
    using anc_height[OF assms(1,2) m(1)] .
  obtain g where g: "st r = Some g" "n \<le> ci_nHeight e" "ci_nHeight g = ci_nHeight e - n"
    using anc_height[OF assms(1,2) m(2)] .
  have "m \<le> n" using f g assms(5-7) by simp
  then have "anc st n p = Option.bind (anc st m p) (anc st (n - m))" using anc_add[of st m "n - m" p] by simp
  then show ?thesis using m by (auto simp: is_anc_def)
qed

lemma LastCommonAncestor_ok:
  assumes "index_ok st" "single_root st" "st a = Some ea" "st b = Some eb"
  shows "\<exists>c. LastCommonAncestor st a b = Some (Some c) \<and> is_anc st a c \<and> is_anc st b c \<and>
    (\<forall>d. is_anc st a d \<and> is_anc st b d \<longrightarrow> is_anc st c d)"
proof -
  define k where "k = min (ci_nHeight ea) (ci_nHeight eb)"
  obtain a' ea' where a': "GetAncestor st a (int k) = Some (Some a')" "anc st (ci_nHeight ea - k) a = Some a'" "st a' = Some ea'" "ci_nHeight ea' = k"
    using GetAncestor_height[OF assms(1,3), of "int k"] by (auto simp: k_def)
  obtain b' eb' where b': "GetAncestor st b (int k) = Some (Some b')" "anc st (ci_nHeight eb - k) b = Some b'" "st b' = Some eb'" "ci_nHeight eb' = k"
    using GetAncestor_height[OF assms(1,4), of "int k"] by (auto simp: k_def)
  obtain n c where n: "lca_loop st (Some a') (Some b') = Some (Some c)" "anc st n a' = Some c" "anc st n b' = Some c"
    "\<forall>m<n. anc st m a' \<noteq> anc st m b'"
    using lca_loop_ok[OF assms(1,2) a'(3) b'(3) a'(4) b'(4)] by blast
  have run: "LastCommonAncestor st a b = Some (Some c)"
  proof (cases "ci_nHeight ea > ci_nHeight eb")
    case True
    then have "k = ci_nHeight eb" "b' = b" using b'(2) by (simp_all add: k_def)
    then show ?thesis using True a'(1) n(1) assms(3,4) by (simp add: LastCommonAncestor_def)
  next
    case False
    then have "k = ci_nHeight ea" "a' = a" using a'(2) by (simp_all add: k_def)
    then show ?thesis using False b'(1,2) n(1) assms(3,4) by (auto simp: LastCommonAncestor_def)
  qed
  have ac: "is_anc st a c" "is_anc st b c"
    using a'(2) b'(2) n(2,3) is_anc_trans[of st a a' c] is_anc_trans[of st b b' c] by (auto simp: is_anc_def)
  have "is_anc st c d" if d: "is_anc st a d" "is_anc st b d" for d
  proof -
    obtain ed where ed: "st d = Some ed" "ci_nHeight ed \<le> ci_nHeight ea"
      using is_anc_height[OF assms(1,3) d(1)] .
    have "ci_nHeight ed \<le> ci_nHeight eb"
      using is_anc_height[OF assms(1,4) d(2)] ed(1) by (metis option.inject)
    then have dk: "ci_nHeight ed \<le> k" using ed(2) by (simp add: k_def)
    obtain fc where fc: "st c = Some fc" "n \<le> k" "ci_nHeight fc = k - n" using anc_height[OF assms(1) a'(3) n(2)] a'(4) by auto
    have da: "is_anc st a' d" using is_anc_linear[OF assms(1,3) _ d(1) a'(3) ed(1)] a'(2,4) dk by (auto simp: is_anc_def)
    have db: "is_anc st b' d" using is_anc_linear[OF assms(1,4) _ d(2) b'(3) ed(1)] b'(2,4) dk by (auto simp: is_anc_def)
    obtain i where i: "anc st i a' = Some d" using da by (auto simp: is_anc_def)
    obtain j where j: "anc st j b' = Some d" using db by (auto simp: is_anc_def)
    have "i = k - ci_nHeight ed"
      using anc_steps[OF assms(1) a'(3) i ed(1)] a'(4) by simp
    moreover have "j = k - ci_nHeight ed"
      using anc_steps[OF assms(1) b'(3) j ed(1)] b'(4) by simp
    ultimately have "n \<le> i" using n(4) i j by (metis not_le)
    then show ?thesis using anc_add[of st n "i - n" a'] n(2) i by (auto simp: is_anc_def)
  qed
  then show ?thesis using run ac by blast
qed

section \<open>The active chain\<close>

text \<open>The vector holds the ancestors of a tip, each at its height.\<close>

definition chain_of :: "index_store \<Rightarrow> vChain \<Rightarrow> index_ptr \<Rightarrow> bool" where
  "chain_of st v p \<longleftrightarrow>
     (\<exists>e. st p = Some e \<and> length v = ci_nHeight e + 1 \<and> (\<forall>i<length v. v ! i = anc st (ci_nHeight e - i) p))"

definition active_ok :: "index_store \<Rightarrow> vChain \<Rightarrow> bool" where
  "active_ok st v \<longleftrightarrow> v = [] \<or> (\<exists>p. chain_of st v p)"

text \<open>Below index \<open>k\<close> every entry stands on its ancestors.\<close>

definition closed_below :: "index_store \<Rightarrow> nat \<Rightarrow> vChain \<Rightarrow> bool" where
  "closed_below st k v \<longleftrightarrow> (\<forall>i<k. \<forall>r. v ! i = Some r \<longrightarrow> (\<forall>j\<le>i. v ! j = anc st (i - j) r))"

lemma chain_of_closed:
  assumes "index_ok st" "chain_of st v p" "i < length v" "v ! i = Some r" "j \<le> i"
  shows "v ! j = anc st (i - j) r"
proof -
  obtain e where e: "st p = Some e" "length v = ci_nHeight e + 1" "\<forall>i<length v. v ! i = anc st (ci_nHeight e - i) p"
    using assms(2) by (auto simp: chain_of_def)
  have "v ! j = anc st ((ci_nHeight e - i) + (i - j)) p" using e assms(3,5) by simp
  also have "\<dots> = anc st (i - j) r" unfolding anc_add using e(3) assms(3,4) by simp
  finally show ?thesis .
qed

lemma vector_resize_length [simp]: "length (vector_resize n v) = n"
  by (simp add: vector_resize_def)

lemma vector_resize_nth: "i < n \<Longrightarrow> vector_resize n v ! i = (if i < length v then v ! i else None)"
  by (simp add: vector_resize_def nth_append)

lemma resize_closed:
  assumes "index_ok st" "active_ok st v"
  shows "closed_below st n (vector_resize n v)"
  unfolding closed_below_def
proof (intro allI impI)
  fix i r j assume i: "i < n" "vector_resize n v ! i = Some r" "j \<le> i"
  then have l: "i < length v" "v ! i = Some r" by (auto simp: vector_resize_nth split: if_splits)
  then obtain p where "chain_of st v p" using assms(2) by (auto simp: active_ok_def)
  then have "v ! j = anc st (i - j) r" using chain_of_closed[OF assms(1) _ l i(3)] by simp
  then show "vector_resize n v ! j = anc st (i - j) r" using i l by (simp add: vector_resize_nth)
qed

lemma SetTip_loop_ok:
  assumes "index_ok st" "st q = Some e" "k = ci_nHeight e" "k < length v" "closed_below st (Suc k) v"
  shows "\<exists>w. SetTip_loop st (Some q) v = Some w \<and> length w = length v \<and>
    (\<forall>i\<le>k. w ! i = anc st (k - i) q) \<and> (\<forall>i>k. w ! i = v ! i)"
  using assms(2-)
proof (induction k arbitrary: q e v)
  case 0
  have n: "ci_pprev e = None" using assms(1) "0.prems"(1) by (cases rule: index_okE) (use "0.prems"(2) in auto)
  show ?case
    using "0.prems" n list_update_id[of v 0]
    by (intro exI[of _ "v[0 := Some q]"]) (auto simp: SetTip_loop.simps simp del: list_update_id)
next
  case (Suc k)
  show ?case
  proof (cases "v ! Suc k = Some q")
    case True
    then have "\<forall>i\<le>Suc k. v ! i = anc st (Suc k - i) q" using Suc.prems(4) by (simp add: closed_below_def)
    moreover have "SetTip_loop st (Some q) v = Some v"
      using True Suc.prems by (subst SetTip_loop.simps) simp
    ultimately show ?thesis by blast
  next
    case False
    obtain q' e' where q': "ci_pprev e = Some q'" "st q' = Some e'" "ci_nHeight e' = k"
      using assms(1) Suc.prems(1) by (cases rule: index_okE) (use Suc.prems(2) in auto)
    let ?v = "v[Suc k := Some q]"
    have "closed_below st (Suc k) ?v"
      using Suc.prems(4) unfolding closed_below_def by simp
    then obtain w where w: "SetTip_loop st (Some q') ?v = Some w" "length w = length v"
      "\<forall>i\<le>k. w ! i = anc st (k - i) q'" "\<forall>i>k. w ! i = ?v ! i"
      using Suc.IH[OF q'(2) q'(3)[symmetric], of ?v] Suc.prems(3) by auto
    have "SetTip_loop st (Some q) v = Some w"
      using False Suc.prems w(1) q'(1) by (subst SetTip_loop.simps) simp
    moreover have "w ! i = anc st (Suc k - i) q" if "i \<le> Suc k" for i
      using that w(3,4) Suc.prems(1,3) q'(1) by (cases "i = Suc k") (auto simp: Suc_diff_le)
    ultimately show ?thesis using w(2,4) by auto
  qed
qed

lemma SetTip_ok:
  assumes "index_ok st" "active_ok st v" "st p = Some e"
  shows "\<exists>w. Chain_SetTip st (Some p) v = Some w \<and> chain_of st w p"
proof -
  let ?v = "vector_resize (ci_nHeight e + 1) v"
  obtain w where w: "SetTip_loop st (Some p) ?v = Some w" "length w = length ?v"
    "\<forall>i\<le>ci_nHeight e. w ! i = anc st (ci_nHeight e - i) p"
    using SetTip_loop_ok[OF assms(1,3) refl, of ?v] resize_closed[OF assms(1,2), of "Suc (ci_nHeight e)"] by auto
  then have "chain_of st w p" using assms(3) by (simp add: chain_of_def)
  then show ?thesis using w(1) assms(3) by (simp add: Chain_SetTip_def)
qed

lemma chain_of_contains:
  assumes "index_ok st" "chain_of st v p" "st q = Some e"
  shows "Chain_at v (int (ci_nHeight e)) = Some q \<longleftrightarrow> is_anc st p q"
proof -
  obtain ep where ep: "st p = Some ep" "length v = ci_nHeight ep + 1" "\<forall>i<length v. v ! i = anc st (ci_nHeight ep - i) p"
    using assms(2) by (auto simp: chain_of_def)
  show ?thesis
  proof
    assume a: "Chain_at v (int (ci_nHeight e)) = Some q"
    then have "ci_nHeight e < length v" "v ! ci_nHeight e = Some q" by (auto simp: Chain_at_def split: if_splits)
    then show "is_anc st p q" using ep(3) by (auto simp: is_anc_def)
  next
    assume "is_anc st p q"
    then obtain n where n: "anc st n p = Some q" by (auto simp: is_anc_def)
    obtain f where "st q = Some f" "n \<le> ci_nHeight ep" "ci_nHeight f = ci_nHeight ep - n"
      using assms(1) ep(1) n by (rule anc_height)
    then have "ci_nHeight e < length v" "ci_nHeight ep - ci_nHeight e = n" using ep(2) assms(3) by simp_all
    then show "Chain_at v (int (ci_nHeight e)) = Some q"
      using ep(3) n by (simp add: Chain_at_def)
  qed
qed

lemma chain_of_tip: "chain_of st v p \<Longrightarrow> Chain_Tip v = Some p"
  by (auto simp: chain_of_def Chain_Tip_def)

text \<open>The search for the fork point ends at the highest ancestor on the active chain.\<close>

lemma FindFork_loop_ok:
  assumes "index_ok st" "single_root st" "chain_of st v t" "st q = Some e" "k = ci_nHeight e"
  shows "\<exists>c. FindFork_loop st v (Some q) = Some (Some c) \<and> is_anc st q c \<and> is_anc st t c \<and>
    (\<forall>d. is_anc st q d \<longrightarrow> is_anc st t d \<longrightarrow> is_anc st c d)"
  using assms(4-)
proof (induction k arbitrary: q e)
  case 0
  obtain et where t: "st t = Some et" using assms(3) by (auto simp: chain_of_def)
  obtain r er where r: "anc st (ci_nHeight et) t = Some r" "st r = Some er" "ci_nHeight er = 0"
    using anc_exists[OF assms(1) t le_refl] by auto
  have "ci_pprev e = None" using assms(1) "0.prems"(1) by (cases rule: index_okE) (use "0.prems"(2) in auto)
  moreover have "ci_pprev er = None" using assms(1) r(2) by (cases rule: index_okE) (use r(3) in auto)
  ultimately have "q = r" using assms(2) "0.prems"(1) r(2) unfolding single_root_def by blast
  then have a: "is_anc st t q" using r(1) by (auto simp: is_anc_def)
  then have "FindFork_loop st v (Some q) = Some (Some q)"
    using chain_of_contains[OF assms(1,3) "0.prems"(1)] "0.prems"(1) by (subst FindFork_loop.simps) simp
  then show ?case using a by auto
next
  case (Suc k)
  show ?case
  proof (cases "is_anc st t q")
    case True
    then have "FindFork_loop st v (Some q) = Some (Some q)"
      using chain_of_contains[OF assms(1,3) Suc.prems(1)] Suc.prems(1) by (subst FindFork_loop.simps) simp
    then show ?thesis using True by auto
  next
    case False
    obtain q' e' where q': "ci_pprev e = Some q'" "st q' = Some e'" "ci_nHeight e' = k"
      using assms(1) Suc.prems(1) by (cases rule: index_okE) (use Suc.prems(2) in auto)
    obtain c where c: "FindFork_loop st v (Some q') = Some (Some c)" "is_anc st q' c" "is_anc st t c"
      "\<forall>d. is_anc st q' d \<longrightarrow> is_anc st t d \<longrightarrow> is_anc st c d"
      using Suc.IH[OF q'(2) q'(3)[symmetric]] by blast
    have run: "FindFork_loop st v (Some q) = Some (Some c)"
      using False chain_of_contains[OF assms(1,3) Suc.prems(1)] Suc.prems(1) q'(1) c(1) by (subst FindFork_loop.simps) simp
    have up: "is_anc st q q'" unfolding is_anc_def using Suc.prems(1) q'(1) by (intro exI[of _ 1]) simp
    have "is_anc st q' d" if d: "is_anc st q d" "is_anc st t d" for d
    proof -
      obtain n where n: "anc st n q = Some d" using d(1) by (auto simp: is_anc_def)
      then show ?thesis using d(2) False Suc.prems(1) q'(1) by (cases n) (auto simp: is_anc_def)
    qed
    then show ?thesis using run c(2-) is_anc_trans[OF up c(2)] by blast
  qed
qed

lemma FindFork_ok:
  assumes "index_ok st" "single_root st" "chain_of st v t" "st q = Some e"
  shows "\<exists>c. Chain_FindFork st v (Some q) = Some (Some c) \<and> is_anc st q c \<and> is_anc st t c \<and>
    (\<forall>d. is_anc st q d \<longrightarrow> is_anc st t d \<longrightarrow> is_anc st c d)"
proof (cases "int (ci_nHeight e) > Chain_Height v")
  case False
  then have "Chain_FindFork st v (Some q) = FindFork_loop st v (Some q)" using assms(4) by (simp add: Chain_FindFork_def)
  then show ?thesis using FindFork_loop_ok[OF assms refl] by simp
next
  case True
  obtain et where t: "st t = Some et" "Chain_Height v = int (ci_nHeight et)"
    using assms(3) by (auto simp: chain_of_def Chain_Height_def)
  obtain r er where r: "GetAncestor st q (Chain_Height v) = Some (Some r)"
    "anc st (ci_nHeight e - nat (Chain_Height v)) q = Some r" "st r = Some er" "ci_nHeight er = nat (Chain_Height v)"
    using GetAncestor_height[OF assms(1,4), of "Chain_Height v"] True t(2) by auto
  obtain c where c: "FindFork_loop st v (Some r) = Some (Some c)" "is_anc st r c" "is_anc st t c"
    "\<forall>d. is_anc st r d \<longrightarrow> is_anc st t d \<longrightarrow> is_anc st c d"
    using FindFork_loop_ok[OF assms(1-3) r(3) refl] by blast
  have up: "is_anc st q r" using r(2) by (auto simp: is_anc_def)
  have run: "Chain_FindFork st v (Some q) = Some (Some c)"
    using True assms(4) r(1) c(1) by (simp add: Chain_FindFork_def)
  have "is_anc st r d" if d: "is_anc st q d" "is_anc st t d" for d
  proof -
    obtain f where f: "st d = Some f" "ci_nHeight f \<le> ci_nHeight et"
      using assms(1) t(1) d(2) by (rule is_anc_height)
    show ?thesis using is_anc_linear[OF assms(1,4) up d(1) r(3) f(1)] f(2) r(4) t(2) by simp
  qed
  then show ?thesis using run c(2-) is_anc_trans[OF up c(2)] by blast
qed

section \<open>Locators\<close>

abbreviation hash_at :: "index_store \<Rightarrow> index_ptr \<Rightarrow> uint256" where
  "hash_at st q \<equiv> ci_hash (the (st q))"

lemma locator_next:
  assumes "index_ok st" "active_ok st v" "st p = Some e" "h \<le> ci_nHeight e"
  shows "(if Chain_at v (int (ci_nHeight e)) = Some p then Some (Chain_at v (int h)) else GetAncestor st p (int h)) =
    Some (anc st (ci_nHeight e - h) p)"
proof (cases "Chain_at v (int (ci_nHeight e)) = Some p")
  case True
  then have l: "ci_nHeight e < length v" "v ! ci_nHeight e = Some p" by (auto simp: Chain_at_def split: if_splits)
  then obtain t where "chain_of st v t" using assms(2) by (auto simp: active_ok_def)
  then have "v ! h = anc st (ci_nHeight e - h) p" using chain_of_closed[OF assms(1) _ l assms(4)] by simp
  then show ?thesis using True l(1) assms(4) by (simp add: Chain_at_def)
next
  case False
  then show ?thesis using GetAncestor_ok[OF assms(1,3), of "int h"] assms(4) by simp
qed

lemma GetLocator_loop_ok:
  assumes "index_ok st" "active_ok st v" "st p = Some e" "1 \<le> s" "ci_nHeight e < s * 2 ^ j"
  shows "\<exists>ps. GetLocator_loop st v s n (Some p) = Some (map (hash_at st) (p # ps)) \<and>
    (\<forall>q\<in>set ps. is_anc st p q) \<and> Some (last (p # ps)) = anc st (ci_nHeight e) p \<and>
    length ps \<le> (if ci_nHeight e = 0 then 0 else 10 - n + j + 1)"
  using assms(3-)
proof (induction "ci_nHeight e" arbitrary: p e s n j rule: less_induct)
  case less
  show ?case
  proof (cases "ci_nHeight e = 0")
    case True
    then show ?thesis using less.prems(1) by (intro exI[of _ "[]"]) (subst GetLocator_loop.simps, simp)
  next
    case False
    let ?h = "ci_nHeight e - s" and ?s = "if n + 1 > 10 then s * 2 else s"
    define d where "d = ci_nHeight e - ?h"
    obtain q f where q: "anc st d p = Some q" "st q = Some f" "ci_nHeight f = ?h"
      using anc_exists[OF assms(1) less.prems(1), of d] by (auto simp: d_def)
    define j' where "j' = (if n + 1 > 10 then j - 1 else j)"
    have "ci_nHeight f < ?s * 2 ^ j'"
    proof (cases "n + 1 > 10 \<and> 0 < j")
      case True
      then have "?s * 2 ^ j' = s * 2 ^ j" by (cases j) (auto simp: j'_def)
      then show ?thesis using less.prems(3) q(3) by linarith
    next
      case False
      then show ?thesis using less.prems(2,3) q(3) by (auto simp: j'_def)
    qed
    moreover have "ci_nHeight f < ci_nHeight e" "1 \<le> ?s" using False less.prems(2) q(3) by auto
    ultimately obtain ps where ps: "GetLocator_loop st v ?s (n + 1) (Some q) = Some (map (hash_at st) (q # ps))"
      "\<forall>r\<in>set ps. is_anc st q r" "Some (last (q # ps)) = anc st (ci_nHeight f) q"
      "length ps \<le> (if ci_nHeight f = 0 then 0 else 10 - (n + 1) + j' + 1)"
      using less.hyps[OF _ q(2), of ?s j' "n + 1"] by blast
    have nxt: "(if Chain_at v (int (ci_nHeight e)) = Some p then Some (Chain_at v (int ?h)) else GetAncestor st p (int ?h)) = Some (Some q)"
      using locator_next[OF assms(1,2) less.prems(1), of ?h] q(1) by (simp add: d_def)
    have run: "GetLocator_loop st v s n (Some p) = Some (map (hash_at st) (p # q # ps))"
      by (subst GetLocator_loop.simps)
        (simp only: option.case less.prems(1) False if_False Let_def nxt bind.bind_lunit ps(1) list.map option.sel)
    have up: "is_anc st p q" using q(1) by (auto simp: is_anc_def)
    have "anc st (ci_nHeight e) p = anc st (d + ci_nHeight f) p" using q(3) by (simp add: d_def)
    then have la: "Some (last (p # q # ps)) = anc st (ci_nHeight e) p" unfolding anc_add using q(1) ps(3) by simp
    have "length (q # ps) \<le> 10 - n + j + 1"
      using ps(4) less.prems(2,3) q(3) by (cases "n < 10"; cases j) (auto simp: j'_def split: if_splits)
    then show ?thesis using run la False ps(2) is_anc_trans[OF up] up by (intro exI[of _ "q # ps"]) auto
  qed
qed

section \<open>Adding a header\<close>

lemma compact_target_pred: "compact_target n + 1 \<noteq> 2 ^ 256"
proof
  assume a: "compact_target n + 1 = 2 ^ 256"
  define S w where "S = n div 2 ^ 24" "w = n mod 2 ^ 23"
  have t: "compact_target n = (if S \<le> 3 then w div 256 ^ (3 - S) else w * 256 ^ (S - 3))"
    by (simp add: compact_target_def S_w_def Let_def)
  show False
  proof (cases "S \<le> 3")
    case True
    have "w div 256 ^ (3 - S) \<le> w" by (rule div_le_dividend)
    also have "w < 2 ^ 23" by (simp add: S_w_def)
    finally show False using a t True by simp
  next
    case False
    then have "even (compact_target n)" using t by simp
    then show False using a by (metis dvd_power even_plus_one_iff zero_less_numeral)
  qed
qed

lemma GetBlockProof_total: "\<exists>w. GetBlockProof n = Some w \<and> limbs w \<and> length w = 8"
proof -
  obtain r neg ov where r: "SetCompact n = (r, neg, ov)" "limbs r" "length r = 8" "val r = compact_target n mod 2 ^ 256"
    "ov \<longleftrightarrow> 2 ^ 256 \<le> compact_target n" by (rule SetCompact_ok[of n])
  show ?thesis
  proof (cases "neg \<or> ov \<or> base_uint_IsNull r")
    case True
    then show ?thesis using r(1) by (simp add: GetBlockProof_def)
  next
    case False
    have one: "val (base_uint_of_u64 8 1) = 1" "limbs (base_uint_of_u64 8 1)" "length (base_uint_of_u64 8 1) = 8"
      using val_base_uint_of_u64[of 1 8] by auto
    have n: "limbs (base_uint_not r)" "length (base_uint_not r) = 8"
      using not_ok[OF r(2)] r(3) by (auto simp: base_uint_not_def)
    define d where "d = base_uint_add r (base_uint_of_u64 8 1)"
    have d: "val d = (val r + 1) mod 2 ^ 256" "limbs d" "length d = 8"
      using base_uint_add_ok[of r "base_uint_of_u64 8 1"] one r by (auto simp: d_def)
    have "compact_target n < 2 ^ 256" using False r(5) by simp
    then have "val r = compact_target n" "val r + 1 < 2 ^ 256" using r(4) compact_target_pred[of n] by auto
    then have "val d \<noteq> 0" using d(1) by simp
    then obtain q where q: "base_uint_div (base_uint_not r) d = Some q"
      using div_ok(1)[OF n(1) d(2)] n(2) d(3) by (cases "base_uint_div (base_uint_not r) d") auto
    then have "limbs q" "length q = 8" using div_ok(2)[OF n(1) d(2) _ q] n(2) d(3) by auto
    then show ?thesis using False r(1) q base_uint_add_ok[of q "base_uint_of_u64 8 1"] one
      by (simp add: GetBlockProof_def d_def)
  qed
qed

definition prev_work :: "index_store \<Rightarrow> CBlockIndex \<Rightarrow> nat" where
  "prev_work st e = (case Option.bind (ci_pprev e) st of None \<Rightarrow> 0 | Some ep \<Rightarrow> val (ci_nChainWork ep))"

definition prev_time :: "index_store \<Rightarrow> CBlockIndex \<Rightarrow> nat" where
  "prev_time st e = (case Option.bind (ci_pprev e) st of None \<Rightarrow> 0 | Some ep \<Rightarrow> ci_nTimeMax ep)"

definition work_ok :: "index_store \<Rightarrow> CBlockIndex \<Rightarrow> bool" where
  "work_ok st e \<longleftrightarrow> limbs (ci_nChainWork e) \<and> length (ci_nChainWork e) = 8 \<and>
     ci_nTimeMax e = max (prev_time st e) (ci_nTime e) \<and>
     val (ci_nChainWork e) = (prev_work st e + val (the (GetBlockProof (ci_nBits e)))) mod 2 ^ 256"

text \<open>
  The block tree: the entries are linked up to their heights, skip pointers, work and times; the map finds exactly
  the entries by their hashes; no header has more work than the best one.
\<close>

definition tree_ok :: "block_tree \<Rightarrow> bool" where
  "tree_ok t \<longleftrightarrow> index_ok (bt_store t) \<and>
     (\<forall>p e. bt_store t p = Some e \<longrightarrow> work_ok (bt_store t) e \<and> mapBlockIndex t (ci_hash e) = Some p) \<and>
     (\<forall>h q. mapBlockIndex t h = Some q \<longrightarrow> (\<exists>e. bt_store t q = Some e \<and> ci_hash e = h)) \<and>
     (\<forall>p e. bt_store t p = Some e \<longrightarrow>
        (\<exists>b eb. pindexBestHeader t = Some b \<and> bt_store t b = Some eb \<and> val (ci_nChainWork e) \<le> val (ci_nChainWork eb)))"

lemma prev_in_store:
  assumes "index_ok st" "st p = Some e" "ci_pprev e = Some q"
  obtains f where "st q = Some f"
  using assms by (cases rule: index_okE) auto

lemma anc_extend:
  assumes "index_ok st" "st p = None" "st q = Some f"
  shows "anc (st(p \<mapsto> e)) n q = anc st n q"
  using assms(3)
proof (induction n arbitrary: q f)
  case (Suc n)
  have "q \<noteq> p" using assms(2) Suc.prems by auto
  show ?case
  proof (cases "ci_pprev f")
    case None
    then show ?thesis using Suc.prems \<open>q \<noteq> p\<close> by simp
  next
    case (Some r)
    then obtain g where "st r = Some g" by (rule prev_in_store[OF assms(1) Suc.prems])
    then show ?thesis using Some Suc.prems \<open>q \<noteq> p\<close> Suc.IH by simp
  qed
qed simp

lemma entry_ok_extend:
  assumes "index_ok st" "st p = None" "st q = Some f"
  shows "entry_ok (st(p \<mapsto> e)) q f"
proof (cases "ci_pprev f")
  case None
  have "ci_nHeight f = 0" using assms(1,3) by (cases rule: index_okE) (use None in auto)
  then show ?thesis using None by (simp add: entry_ok_def)
next
  case (Some r)
  then obtain g where g: "st r = Some g" by (rule prev_in_store[OF assms(1,3)])
  then have "r \<noteq> p" using assms(2) by auto
  moreover have "entry_ok st q f" using assms(1,3) by (simp add: index_ok_def)
  ultimately show ?thesis using Some g anc_extend[OF assms(1,2) g] by (simp add: entry_ok_def)
qed

lemma work_ok_extend:
  assumes "index_ok st" "st p = None" "st q = Some f" "work_ok st f"
  shows "work_ok (st(p \<mapsto> e)) f"
proof (cases "ci_pprev f")
  case None
  then show ?thesis using assms(4) by (simp add: work_ok_def prev_work_def prev_time_def)
next
  case (Some r)
  then obtain g where g: "st r = Some g" by (rule prev_in_store[OF assms(1,3)])
  then have "r \<noteq> p" using assms(2) by auto
  then show ?thesis using Some assms(4) by (simp add: work_ok_def prev_work_def prev_time_def)
qed

lemma index_ok_extend:
  assumes "index_ok st" "st p = None" "entry_ok (st(p \<mapsto> e)) p e"
  shows "index_ok (st(p \<mapsto> e))"
  unfolding index_ok_def
proof (intro allI impI)
  fix q f assume "(st(p \<mapsto> e)) q = Some f"
  then show "entry_ok (st(p \<mapsto> e)) q f"
    using entry_ok_extend[OF assms(1,2)] assms(3) by (cases "q = p") auto
qed

lemma tree_ok_extend:
  assumes "tree_ok t" "bt_store t p = None" "mapBlockIndex t (ci_hash e) = None"
    "entry_ok ((bt_store t)(p \<mapsto> e)) p e" "work_ok ((bt_store t)(p \<mapsto> e)) e"
    "best = (case Option.bind (pindexBestHeader t) (bt_store t) of
       None \<Rightarrow> Some p
     | Some b \<Rightarrow> if val (ci_nChainWork b) < val (ci_nChainWork e) then Some p else pindexBestHeader t)"
  shows "tree_ok (t\<lparr>bt_store := (bt_store t)(p \<mapsto> e), mapBlockIndex := (mapBlockIndex t)(ci_hash e \<mapsto> p), pindexBestHeader := best\<rparr>)"
proof -
  let ?st = "bt_store t" and ?st' = "(bt_store t)(p \<mapsto> e)" and ?m = "mapBlockIndex t"
  have ok: "index_ok ?st" and ent: "\<And>q f. ?st q = Some f \<Longrightarrow> work_ok ?st f \<and> ?m (ci_hash f) = Some q"
    and mp: "\<And>h q. ?m h = Some q \<Longrightarrow> \<exists>f. ?st q = Some f \<and> ci_hash f = h"
    and bst: "\<And>q f. ?st q = Some f \<Longrightarrow> \<exists>b eb. pindexBestHeader t = Some b \<and> ?st b = Some eb \<and> val (ci_nChainWork f) \<le> val (ci_nChainWork eb)"
    using assms(1) unfolding tree_ok_def by blast+
  have 1: "index_ok ?st'" using index_ok_extend[OF ok assms(2,4)] .
  have 2: "work_ok ?st' f \<and> (?m(ci_hash e \<mapsto> p)) (ci_hash f) = Some q" if f: "?st' q = Some f" for q f
  proof (cases "q = p")
    case True
    then show ?thesis using f assms(5) by simp
  next
    case False
    then have "?st q = Some f" using f by simp
    then show ?thesis using ent[of q f] work_ok_extend[OF ok assms(2)] assms(3) by auto
  qed
  have 3: "\<exists>f. ?st' q = Some f \<and> ci_hash f = h" if "(?m(ci_hash e \<mapsto> p)) h = Some q" for h q
    using that mp[of h q] assms(2) by (cases "h = ci_hash e"; cases "q = p") auto
  have 4: "\<exists>b eb. best = Some b \<and> ?st' b = Some eb \<and> val (ci_nChainWork f) \<le> val (ci_nChainWork eb)" if f: "?st' q = Some f" for q f
  proof (cases "Option.bind (pindexBestHeader t) ?st")
    case None
    then have "q = p" using f bst[of q f] by (cases "q = p") auto
    then show ?thesis using f None assms(6) by auto
  next
    case (Some eb)
    then obtain b where b: "pindexBestHeader t = Some b" "?st b = Some eb" by (auto simp: bind_eq_Some_conv)
    then have "b \<noteq> p" using assms(2) by auto
    have "val (ci_nChainWork f) \<le> val (ci_nChainWork eb)" if "q \<noteq> p" using that f bst[of q f] b by auto
    then show ?thesis using b \<open>b \<noteq> p\<close> f Some assms(6) by (cases "q = p") auto
  qed
  show ?thesis unfolding tree_ok_def using 1 2 3 4 by simp
qed

lemma RaiseValidity_fields [simp]:
  "ci_pprev (snd (RaiseValidity n e)) = ci_pprev e" "ci_pskip (snd (RaiseValidity n e)) = ci_pskip e"
  "ci_nHeight (snd (RaiseValidity n e)) = ci_nHeight e" "ci_nTime (snd (RaiseValidity n e)) = ci_nTime e"
  "ci_nTimeMax (snd (RaiseValidity n e)) = ci_nTimeMax e" "ci_nBits (snd (RaiseValidity n e)) = ci_nBits e"
  "ci_nChainWork (snd (RaiseValidity n e)) = ci_nChainWork e" "ci_hash (snd (RaiseValidity n e)) = ci_hash e"
  by (simp_all add: RaiseValidity_def)

lemma link_index_ok:
  assumes "index_ok st" "st q = Some ep" "link_index par v1 st block q ep e = Some e1"
  shows "ci_pprev e1 = Some q \<and> ci_nHeight e1 = ci_nHeight ep + 1 \<and>
    ci_pskip e1 = anc st (ci_nHeight ep - GetSkipHeight (ci_nHeight ep + 1)) q \<and>
    ci_nTime e1 = ci_nTime e \<and> ci_nBits e1 = ci_nBits e \<and> ci_hash e1 = ci_hash e"
proof -
  let ?h = "GetSkipHeight (ci_nHeight ep + 1)"
  have "?h \<le> ci_nHeight ep" using GetSkipHeight_less[of "ci_nHeight ep + 1"] by simp
  then have "GetAncestor st q (int ?h) = Some (anc st (ci_nHeight ep - ?h) q)"
    using GetAncestor_ok[OF assms(1,2), of "int ?h"] by simp
  then show ?thesis using assms(3)
    by (auto simp: link_index_def BuildSkip_def SetNewStakeModifier_def split: if_splits option.splits)
qed

text \<open>The new entry before its validity is raised.\<close>

lemma new_entry_ok:
  assumes "index_ok st" "st p = None" "case Option.bind (ci_pprev e) st of None \<Rightarrow> ci_pprev e = None \<and> ci_nHeight e = 0
    | Some ep \<Rightarrow> ci_nHeight e = ci_nHeight ep + 1 \<and>
        ci_pskip e = anc st (ci_nHeight ep - GetSkipHeight (ci_nHeight ep + 1)) (the (ci_pprev e))"
  shows "entry_ok (st(p \<mapsto> e)) p e"
proof (cases "ci_pprev e")
  case None
  then show ?thesis using assms(3) by (simp add: entry_ok_def)
next
  case (Some q)
  then obtain ep where ep: "st q = Some ep" using assms(3) by (cases "st q") auto
  then have "q \<noteq> p" using assms(2) by auto
  then show ?thesis using Some ep assms(3) anc_extend[OF assms(1,2) ep] by (simp add: entry_ok_def)
qed

lemma AddToBlockIndex_new:
  assumes "tree_ok t" "bt_store t p = None" "mapBlockIndex t (GetBlockHash HashQuark block) = None"
    "AddToBlockIndex par HashQuark v1 p block t = Some (r, t')"
  obtains e best where "r = p" "ci_hash e = GetBlockHash HashQuark block" "ci_nTime e = bh_nTime block" "ci_nBits e = bh_nBits block"
    "ci_pprev e = mapBlockIndex t (hashPrevBlock block)"
    "entry_ok ((bt_store t)(p \<mapsto> e)) p e" "work_ok ((bt_store t)(p \<mapsto> e)) e"
    "best = (case Option.bind (pindexBestHeader t) (bt_store t) of
       None \<Rightarrow> Some p
     | Some b \<Rightarrow> if val (ci_nChainWork b) < val (ci_nChainWork e) then Some p else pindexBestHeader t)"
    "t' = t\<lparr>bt_store := (bt_store t)(p \<mapsto> e), mapBlockIndex := (mapBlockIndex t)(ci_hash e \<mapsto> p), pindexBestHeader := best\<rparr>"
proof -
  let ?st = "bt_store t" and ?h = "GetBlockHash HashQuark block"
  define prev where "prev = Option.bind (mapBlockIndex t (hashPrevBlock block)) (\<lambda>q. map_option (Pair q) (?st q))"
  obtain w where w: "GetBlockProof (bh_nBits block) = Some w" "limbs w" "length w = 8" using GetBlockProof_total by blast
  obtain e1 where e1: "(case prev of None \<Rightarrow> Some (new_index ?h block) | Some (q, ep) \<Rightarrow> link_index par v1 ?st block q ep (new_index ?h block)) = Some e1"
    using assms(3,4) unfolding AddToBlockIndex_def Let_def prev_def[symmetric] by (auto simp: bind_eq_Some_conv)
  define e where "e = snd (RaiseValidity BLOCK_VALID_TREE
    (e1\<lparr>ci_nTimeMax := (case prev of None \<Rightarrow> bh_nTime block | Some (q, ep) \<Rightarrow> max (ci_nTimeMax ep) (bh_nTime block)),
        ci_nChainWork := base_uint_add (case prev of None \<Rightarrow> base_uint_zero 8 | Some (q, ep) \<Rightarrow> ci_nChainWork ep) w\<rparr>))"
  have ok: "index_ok ?st" using assms(1) by (simp add: tree_ok_def)
  have wk: "limbs (ci_nChainWork f) \<and> length (ci_nChainWork f) = 8" if "?st q = Some f" for q f
    using assms(1) that unfolding tree_ok_def work_ok_def by blast
  have fields: "ci_hash e = ?h" "ci_nTime e = bh_nTime block" "ci_nBits e = bh_nBits block"
    "ci_pprev e = mapBlockIndex t (hashPrevBlock block)" "entry_ok (?st(p \<mapsto> e)) p e" "work_ok (?st(p \<mapsto> e)) e"
  proof -
    have "ci_hash e = ?h \<and> ci_nTime e = bh_nTime block \<and> ci_nBits e = bh_nBits block \<and>
      ci_pprev e = mapBlockIndex t (hashPrevBlock block) \<and> entry_ok (?st(p \<mapsto> e)) p e \<and> work_ok (?st(p \<mapsto> e)) e"
    proof (cases "mapBlockIndex t (hashPrevBlock block)")
      case None
      then have p: "prev = None" by (simp add: prev_def)
      then have "e1 = new_index ?h block" using e1 by simp
      then show ?thesis
        using p None w base_uint_add_ok[of "base_uint_zero 8" w] new_entry_ok[OF ok assms(2), of e]
        by (simp add: e_def new_index_def work_ok_def prev_work_def prev_time_def)
    next
      case (Some q)
      then obtain ep where ep: "?st q = Some ep" using assms(1) unfolding tree_ok_def by blast
      then have p: "prev = Some (q, ep)" using Some by (simp add: prev_def)
      have "q \<noteq> p" using ep assms(2) by auto
      have l: "link_index par v1 ?st block q ep (new_index ?h block) = Some e1" using e1 p by simp
      note l = link_index_ok[OF ok ep l]
      show ?thesis
        using p Some ep w l \<open>q \<noteq> p\<close> base_uint_add_ok[of "ci_nChainWork ep" w] wk[OF ep] new_entry_ok[OF ok assms(2), of e]
        by (simp add: e_def new_index_def work_ok_def prev_work_def prev_time_def)
    qed
    then show "ci_hash e = ?h" "ci_nTime e = bh_nTime block" "ci_nBits e = bh_nBits block"
      "ci_pprev e = mapBlockIndex t (hashPrevBlock block)" "entry_ok (?st(p \<mapsto> e)) p e" "work_ok (?st(p \<mapsto> e)) e"
      by blast+
  qed
  define best where "best = (case Option.bind (pindexBestHeader t) ?st of None \<Rightarrow> Some p
    | Some b \<Rightarrow> if CompareTo (ci_nChainWork b) (ci_nChainWork e) < 0 then Some p else pindexBestHeader t)"
  have run: "r = p" "t' = t\<lparr>bt_store := ?st(p \<mapsto> e), mapBlockIndex := (mapBlockIndex t)(ci_hash e \<mapsto> p), pindexBestHeader := best\<rparr>"
    using assms(3,4) unfolding AddToBlockIndex_def Let_def prev_def[symmetric] e1 w(1) option.case bind.bind_lunit
      e_def[symmetric] best_def[symmetric] fields(1) by auto
  have "best = (case Option.bind (pindexBestHeader t) ?st of None \<Rightarrow> Some p
     | Some b \<Rightarrow> if val (ci_nChainWork b) < val (ci_nChainWork e) then Some p else pindexBestHeader t)"
  proof (cases "Option.bind (pindexBestHeader t) ?st")
    case (Some b)
    then obtain q where "?st q = Some b" by (auto simp: bind_eq_Some_conv)
    then show ?thesis using Some CompareTo_ok[of "ci_nChainWork b" "ci_nChainWork e"] wk fields(6)
      by (simp add: best_def work_ok_def)
  qed (simp add: best_def)
  then show thesis using that run fields by blast
qed

section \<open>Reachable block trees\<close>

text \<open>
  The trees that arise when headers are added one after the other, each but the first with a known predecessor
  (\<open>AcceptBlockHeader\<close> refuses the others).
\<close>

inductive tree_reach :: "Params \<Rightarrow> (bytes \<Rightarrow> uint256) \<Rightarrow> (CBlockIndex \<Rightarrow> bytes) \<Rightarrow> block_tree \<Rightarrow> bool"
  for par HashQuark v1 where
  reach_empty: "tree_reach par HashQuark v1 \<lparr>bt_store = Map.empty, mapBlockIndex = Map.empty, pindexBestHeader = None\<rparr>"
| reach_add: "tree_reach par HashQuark v1 t \<Longrightarrow> bt_store t p = None \<Longrightarrow>
    bt_store t = Map.empty \<or> mapBlockIndex t (hashPrevBlock block) \<noteq> None \<Longrightarrow>
    AddToBlockIndex par HashQuark v1 p block t = Some (r, t') \<Longrightarrow> tree_reach par HashQuark v1 t'"

lemma AddToBlockIndex_known:
  assumes "mapBlockIndex t (GetBlockHash HashQuark block) = Some q"
    "AddToBlockIndex par HashQuark v1 p block t = Some (r, t')"
  shows "r = q \<and> t' = t"
  using assms by (simp add: AddToBlockIndex_def Let_def)

lemma tree_ok_AddToBlockIndex:
  assumes "tree_ok t" "bt_store t p = None" "AddToBlockIndex par HashQuark v1 p block t = Some (r, t')"
  shows "tree_ok t'"
proof (cases "mapBlockIndex t (GetBlockHash HashQuark block)")
  case None
  show ?thesis
  proof (rule AddToBlockIndex_new[OF assms(1,2) None assms(3)])
    fix e best
    assume e: "ci_hash e = GetBlockHash HashQuark block" "entry_ok ((bt_store t)(p \<mapsto> e)) p e" "work_ok ((bt_store t)(p \<mapsto> e)) e"
      and best: "best = (case Option.bind (pindexBestHeader t) (bt_store t) of None \<Rightarrow> Some p
        | Some b \<Rightarrow> if val (ci_nChainWork b) < val (ci_nChainWork e) then Some p else pindexBestHeader t)"
      and t': "t' = t\<lparr>bt_store := (bt_store t)(p \<mapsto> e), mapBlockIndex := (mapBlockIndex t)(ci_hash e \<mapsto> p), pindexBestHeader := best\<rparr>"
    have "mapBlockIndex t (ci_hash e) = None" using e(1) None by simp
    from tree_ok_extend[OF assms(1,2) this e(2,3) best] show "tree_ok t'" unfolding t' .
  qed
next
  case (Some q)
  then show ?thesis using AddToBlockIndex_known[OF Some assms(3)] assms(1) by simp
qed

lemma single_root_AddToBlockIndex:
  assumes "tree_ok t" "bt_store t p = None" "AddToBlockIndex par HashQuark v1 p block t = Some (r, t')"
    "bt_store t = Map.empty \<or> mapBlockIndex t (hashPrevBlock block) \<noteq> None" "single_root (bt_store t)"
  shows "single_root (bt_store t')"
proof (cases "mapBlockIndex t (GetBlockHash HashQuark block)")
  case None
  then obtain e best where e: "ci_pprev e = mapBlockIndex t (hashPrevBlock block)"
    "t' = t\<lparr>bt_store := (bt_store t)(p \<mapsto> e), mapBlockIndex := (mapBlockIndex t)(ci_hash e \<mapsto> p), pindexBestHeader := best\<rparr>"
    by (rule AddToBlockIndex_new[OF assms(1,2) _ assms(3)])
  then show ?thesis using assms(4,5) by (auto simp: single_root_def)
next
  case (Some q)
  then show ?thesis using AddToBlockIndex_known[OF Some assms(3)] assms(5) by simp
qed

lemma tree_reach_ok: "tree_reach par HashQuark v1 t \<Longrightarrow> tree_ok t \<and> single_root (bt_store t)"
proof (induction rule: tree_reach.induct)
  case reach_empty
  then show ?case by (simp add: tree_ok_def single_root_def index_ok_def)
next
  case (reach_add t p block r t')
  then show ?case
    using tree_ok_AddToBlockIndex[OF _ reach_add.hyps(2,4)] single_root_AddToBlockIndex[OF _ reach_add.hyps(2,4,3)] by blast
qed

text \<open>A first header: a block without transactions and with a null target, as a concrete tree.\<close>

definition example_block_tree :: block_tree where
  "example_block_tree = snd (the (AddToBlockIndex CMainParams_consensus (\<lambda>_. null_hash) (\<lambda>_. []) 0
     ((CBlock_of_header CBlockHeader_SetNull)\<lparr>bh_nVersion := 1\<rparr>)
     \<lparr>bt_store = Map.empty, mapBlockIndex = Map.empty, pindexBestHeader = None\<rparr>))"

lemma CBlock_of_header_simps:
  "bh_nBits ((CBlock_of_header CBlockHeader_SetNull)\<lparr>bh_nVersion := 1\<rparr>) = 0"
  "bh_nTime ((CBlock_of_header CBlockHeader_SetNull)\<lparr>bh_nVersion := 1\<rparr>) = 0"
  by (simp_all add: CBlock_of_header_def CBlockHeader_SetNull_def CBlockHeader.extend_def)

lemma example_block_tree_reach:
  "tree_reach CMainParams_consensus (\<lambda>_. null_hash) (\<lambda>_. []) example_block_tree"
  "\<exists>e. bt_store example_block_tree = [0 \<mapsto> e] \<and> ci_nHeight e = 0 \<and> ci_pprev e = None"
proof -
  let ?t0 = "\<lparr>bt_store = Map.empty, mapBlockIndex = Map.empty, pindexBestHeader = None\<rparr>"
  let ?b = "(CBlock_of_header CBlockHeader_SetNull)\<lparr>bh_nVersion := 1\<rparr>"
  obtain w where w: "GetBlockProof 0 = Some w" using GetBlockProof_total by blast
  have "\<exists>t. AddToBlockIndex CMainParams_consensus (\<lambda>_. null_hash) (\<lambda>_. []) 0 ?b ?t0 = Some (0, t) \<and>
      (\<exists>e. bt_store t = [0 \<mapsto> e] \<and> ci_nHeight e = 0 \<and> ci_pprev e = None)"
    by (simp add: AddToBlockIndex_def Let_def CBlock_of_header_simps w new_index_def) (rule exI, rule conjI, rule refl, simp)
  then obtain t where t: "AddToBlockIndex CMainParams_consensus (\<lambda>_. null_hash) (\<lambda>_. []) 0 ?b ?t0 = Some (0, t)"
    "\<exists>e. bt_store t = [0 \<mapsto> e] \<and> ci_nHeight e = 0 \<and> ci_pprev e = None" by blast
  then have e: "example_block_tree = t" by (simp add: example_block_tree_def)
  show "tree_reach CMainParams_consensus (\<lambda>_. null_hash) (\<lambda>_. []) example_block_tree"
    unfolding e by (rule reach_add[OF reach_empty _ _ t(1)]) simp_all
  show "\<exists>e. bt_store example_block_tree = [0 \<mapsto> e] \<and> ci_nHeight e = 0 \<and> ci_pprev e = None" unfolding e by (rule t(2))
qed

text \<open>
  (C9) Every block tree that arises by adding headers with \<open>AddToBlockIndex\<close> is well formed: heights count the
  steps to the one root, skip pointers lead to the ancestor at the skip height, the work of an entry is the
  work of its predecessor plus its own proof and its maximal time that of its chain, the map finds exactly the
  entries by their hashes, and no header has more work than \<open>pindexBestHeader\<close>.
\<close>

theorem block_index_invariant:
  assumes "tree_reach par HashQuark v1 t"
  shows "tree_ok t \<and> single_root (bt_store t)"
  using assms by (rule tree_reach_ok)

theorem block_index_invariant_witness:
  "tree_ok example_block_tree \<and> single_root (bt_store example_block_tree) \<and> bt_store example_block_tree 0 \<noteq> None"
  using block_index_invariant[OF example_block_tree_reach(1)] example_block_tree_reach(2) by auto

text \<open>
  (C12) On every reachable block tree the walk along skip pointers ends, meets no null pointer and no failed
  assertion, and \<open>GetAncestor\<close> is the entry so many steps back along \<open>pprev\<close> (null outside the heights of the
  chain); the loop of \<open>LastCommonAncestor\<close> ends at a common ancestor of which every common ancestor is an
  ancestor.
\<close>

theorem ancestor_walks_terminate:
  assumes "tree_reach par HashQuark v1 t" "bt_store t a = Some ea" "bt_store t b = Some eb"
  shows "GetAncestor (bt_store t) a h =
      Some (if 0 \<le> h \<and> h \<le> int (ci_nHeight ea) then anc (bt_store t) (ci_nHeight ea - nat h) a else None) \<and>
    (\<exists>c. LastCommonAncestor (bt_store t) a b = Some (Some c) \<and> is_anc (bt_store t) a c \<and> is_anc (bt_store t) b c \<and>
      (\<forall>d. is_anc (bt_store t) a d \<and> is_anc (bt_store t) b d \<longrightarrow> is_anc (bt_store t) c d))"
proof -
  have ok: "index_ok (bt_store t)" "single_root (bt_store t)"
    using tree_reach_ok[OF assms(1)] by (simp_all add: tree_ok_def)
  show ?thesis using GetAncestor_ok[OF ok(1) assms(2)] LastCommonAncestor_ok[OF ok assms(2,3)] by blast
qed

theorem ancestor_walks_terminate_witness:
  "\<exists>c. GetAncestor (bt_store example_block_tree) 0 0 = Some (Some 0) \<and> LastCommonAncestor (bt_store example_block_tree) 0 0 = Some (Some c)"
proof -
  obtain e where e: "bt_store example_block_tree = [0 \<mapsto> e]" "ci_nHeight e = 0" using example_block_tree_reach(2) by blast
  then show ?thesis using ancestor_walks_terminate[OF example_block_tree_reach(1), of 0 e 0 e 0] by auto
qed

text \<open>
  (C25) The active chain.  From an empty or well-formed vector, \<open>SetTip\<close> stops at the first entry already in place
  and still leaves exactly the ancestors of the new tip, each at its height; \<open>Tip\<close> is that block and
  \<open>Contains\<close> holds exactly of its ancestors.  For any block of the tree \<open>FindFork\<close> ends at the highest ancestor that
  is on the chain, and \<open>GetLocator\<close> ends, starts with the block, ends with the root and has at
  most \<open>12 + j\<close> hashes when the height is below \<open>2 ^ j\<close>.
\<close>

theorem active_chain_queries:
  assumes "tree_reach par HashQuark v1 t" "active_ok (bt_store t) v"
    "bt_store t p = Some e" "bt_store t q = Some f" "ci_nHeight f < 2 ^ j"
  shows "\<exists>w c ps. Chain_SetTip (bt_store t) (Some p) v = Some w \<and> chain_of (bt_store t) w p \<and> Chain_Tip w = Some p \<and>
    (Chain_Contains (bt_store t) w q = Some (is_anc (bt_store t) p q)) \<and>
    Chain_FindFork (bt_store t) w (Some q) = Some (Some c) \<and> is_anc (bt_store t) q c \<and> is_anc (bt_store t) p c \<and>
    (\<forall>d. is_anc (bt_store t) q d \<longrightarrow> is_anc (bt_store t) p d \<longrightarrow> is_anc (bt_store t) c d) \<and>
    Chain_GetLocator (bt_store t) w (Some q) = Some (map (hash_at (bt_store t)) (q # ps)) \<and>
    Some (last (q # ps)) = anc (bt_store t) (ci_nHeight f) q \<and> length (q # ps) \<le> 12 + j"
proof -
  let ?st = "bt_store t"
  have ok: "index_ok ?st" "single_root ?st" using tree_reach_ok[OF assms(1)] by (simp_all add: tree_ok_def)
  obtain w where w: "Chain_SetTip ?st (Some p) v = Some w" "chain_of ?st w p" using SetTip_ok[OF ok(1) assms(2,3)] by blast
  have act: "active_ok ?st w" using w(2) by (auto simp: active_ok_def)
  have con: "Chain_Contains ?st w q = Some (is_anc ?st p q)"
    using chain_of_contains[OF ok(1) w(2) assms(4)] assms(4) by (simp add: Chain_Contains_def)
  obtain c where c: "Chain_FindFork ?st w (Some q) = Some (Some c)" "is_anc ?st q c" "is_anc ?st p c"
    "\<forall>d. is_anc ?st q d \<longrightarrow> is_anc ?st p d \<longrightarrow> is_anc ?st c d" using FindFork_ok[OF ok w(2) assms(4)] by blast
  have "ci_nHeight f < 1 * 2 ^ j" using assms(5) by simp
  then obtain ps where ps: "GetLocator_loop ?st w 1 0 (Some q) = Some (map (hash_at ?st) (q # ps))"
    "Some (last (q # ps)) = anc ?st (ci_nHeight f) q" "length ps \<le> (if ci_nHeight f = 0 then 0 else 10 - 0 + j + 1)"
    using GetLocator_loop_ok[OF ok(1) act assms(4) le_refl, of j 0] by blast
  have loc: "Chain_GetLocator ?st w (Some q) = Some (map (hash_at ?st) (q # ps))"
    using ps(1) unfolding Chain_GetLocator_def option.case .
  have len: "length (q # ps) \<le> 12 + j" using ps(3) by (cases "ci_nHeight f = 0") simp_all
  show ?thesis
    by (rule exI[of _ w], rule exI[of _ c], rule exI[of _ ps], intro conjI)
      (fact w c con chain_of_tip[OF w(2)] loc len ps(2))+
qed

theorem active_chain_queries_witness:
  "\<exists>w. Chain_SetTip (bt_store example_block_tree) (Some 0) [] = Some w \<and> Chain_Tip w = Some 0 \<and>
     Chain_FindFork (bt_store example_block_tree) w (Some 0) = Some (Some 0)"
proof -
  obtain e where e: "bt_store example_block_tree = [0 \<mapsto> e]" "ci_nHeight e = 0" "ci_pprev e = None" using example_block_tree_reach(2) by blast
  have root: "c = 0" if a: "is_anc [0 \<mapsto> e] 0 c" for c
  proof -
    obtain n where "anc [0 \<mapsto> e] n 0 = Some c" using a by (auto simp: is_anc_def)
    then show ?thesis using e(3) by (cases n) auto
  qed
  have e0: "bt_store example_block_tree 0 = Some e" using e(1) by simp
  have "active_ok (bt_store example_block_tree) []" by (simp add: active_ok_def)
  then obtain w c where "Chain_SetTip (bt_store example_block_tree) (Some 0) [] = Some w" "Chain_Tip w = Some 0"
    "Chain_FindFork (bt_store example_block_tree) w (Some 0) = Some (Some c)" "is_anc (bt_store example_block_tree) 0 c"
    using active_chain_queries[OF example_block_tree_reach(1) _ e0 e0, of "[]" 1] unfolding e(2) by (metis zero_less_power zero_less_numeral)
  then show ?thesis using root[of c] unfolding e(1) by blast
qed

text \<open>
  \<open>AddToBlockIndex\<close> reads the first input of the second transaction of the block before anything has checked
  that there is one: for a new block with a known predecessor at a height where \<open>UPGRADE_V3_4\<close> is active
  and fewer than two transactions the access is outside the vector.
\<close>

lemma AddToBlockIndex_unchecked_access:
  assumes "tree_reach par HashQuark v1 t" "mapBlockIndex t (GetBlockHash HashQuark block) = None"
    "mapBlockIndex t (hashPrevBlock block) = Some q" "bt_store t q = Some ep"
    "NetworkUpgradeActive par (int (ci_nHeight ep + 1)) UPGRADE_V3_4"
  shows "AddToBlockIndex par HashQuark v1 p block t = None \<longleftrightarrow> length (vtx block) < 2 \<or> vin (vtx block ! 1) = []"
proof -
  have ok: "index_ok (bt_store t)" using tree_reach_ok[OF assms(1)] by (simp add: tree_ok_def)
  obtain w where w: "GetBlockProof (bh_nBits block) = Some w" using GetBlockProof_total by blast
  let ?h = "GetSkipHeight (ci_nHeight ep + 1)"
  have "GetAncestor (bt_store t) q (int ?h) = Some (if 0 \<le> int ?h \<and> int ?h \<le> int (ci_nHeight ep) then anc (bt_store t) (ci_nHeight ep - nat (int ?h)) q else None)"
    by (rule GetAncestor_ok[OF ok assms(4)])
  then show ?thesis using assms(2-5) w
    by (auto simp: AddToBlockIndex_def Let_def link_index_def BuildSkip_def SetNewStakeModifier_def add.commute)
qed

end
