(* ===== verification/Validation.thy ===== *)
theory Validation
imports Utxo Chain
begin

text \<open>
  Checking and connecting blocks (\<open>CheckBlock\<close>, \<open>ContextualCheckBlockHeader\<close>, \<open>ContextualCheckBlock\<close>,
  \<open>CheckTxInputs\<close>, \<open>CheckInputs\<close> and \<open>ConnectBlock\<close> of \<open>validation.cpp\<close>, \<open>CheckBlockSignature\<close> of
  \<open>blocksignature.cpp\<close>).

  What the code reads from the node's state is the record \<open>node\<close>.  A function that fails drops the coins view:
  its callers do.  The signature cache is transparent; the checks that the worker threads run are collected
  and run when the queue is waited for.  Log messages, time measurements and the transaction index are left out.
\<close>

section \<open>The state of the node\<close>

record node =
  n_params :: CChainParams
  n_checkpoints :: bool
  n_crypto :: crypto
  n_HashQuark :: "bytes \<Rightarrow> uint256"
  n_tip :: "(uint256 \<times> int) option"
  n_LookupBlockIndex :: "uint256 \<Rightarrow> int option"
  n_blockAt :: "int \<Rightarrow> CBlock option"
  n_invalid :: "COutPoint \<Rightarrow> bool"
  n_InitialBlockDownload :: bool
  n_spork19 :: bool
  n_spork20 :: int
  n_nScriptCheckThreads :: nat
  n_undoWritten :: bool
  n_maxreorg :: int

abbreviation n_consensus :: "node \<Rightarrow> Params" where
  "n_consensus nd \<equiv> consensus (n_params nd)"

definition n_estimate :: "node \<Rightarrow> int" where
  "n_estimate nd = GetTotalBlocksEstimate (n_checkpoints nd) (mapCheckpoints (n_params nd))"

text \<open>\<open>latch\<close> is the flag that keeps the answer false once it has been; the second component is the new latch.\<close>

definition IsInitialBlockDownload :: "bool \<Rightarrow> bool \<Rightarrow> int \<Rightarrow> int \<Rightarrow> int \<Rightarrow> int \<Rightarrow> int \<Rightarrow> int \<Rightarrow> bool \<times> bool" where
  "IsInitialBlockDownload latch fImportingOrReindex chainHeight estimate bestHeaderHeight bestHeaderTime now nMaxTipAge =
     (if latch then (False, True)
      else if fImportingOrReindex \<or> chainHeight < estimate then (True, False)
      else let state = (chainHeight < bestHeaderHeight - 24 * 6 \<or> bestHeaderTime < now - nMaxTipAge)
           in (state, \<not> state))"

section \<open>Block signatures\<close>

text \<open>\<open>None\<close> is a read outside the script or a vector.\<close>

definition pubkey_after :: "bytes \<Rightarrow> nat \<Rightarrow> bytes option" where
  "pubkey_after sig start = CPubKey_Set (drop (start + 1) sig)"

definition sig_start :: "bytes \<Rightarrow> nat option" where
  "sig_start sig = (if sig = [] then None else Some (1 + unat (sig ! 0)))"

definition block_pubkey :: "txnouttype \<Rightarrow> bytes list \<Rightarrow> CTxIn list \<Rightarrow> bytes option option" where
  "block_pubkey whichType vSolutions ins =
     (if whichType = TX_PUBKEY then (if vSolutions = [] then None else Some (CPubKey_Set (vSolutions ! 0)))
      else if whichType = TX_PUBKEYHASH then
        (if ins = [] then None
         else let sig = scriptSig (ins ! 0)
              in if length sig = 73 then Some None
                 else case sig_start sig of
                        None \<Rightarrow> None
                      | Some start \<Rightarrow> if start \<ge> length sig - 1 then Some None else Some (pubkey_after sig start))
      else if whichType = TX_COLDSTAKE then
        (if ins = [] then None
         else let sig = scriptSig (ins ! 0)
              in case sig_start sig of
                   None \<Rightarrow> None
                 | Some start \<Rightarrow>
                     if start \<ge> length sig - 1 then Some None
                     else let start2 = start + 1 + unat (sig ! start)
                          in if start2 \<ge> length sig - 1 then Some None else Some (pubkey_after sig start2))
      else Some None)"

definition CheckBlockSignature :: "crypto \<Rightarrow> (bytes \<Rightarrow> uint256) \<Rightarrow> CBlock \<Rightarrow> bool option" where
  "CheckBlockSignature cr HashQuark block =
     (if IsProofOfWork block then Some (vchBlockSig block = [])
      else if vchBlockSig block = [] then Some False
      else if length (vout (vtx block ! 1)) < 2 then None
      else case Solver (scriptPubKey (vout (vtx block ! 1) ! 1)) of
             None \<Rightarrow> Some False
           | Some (whichType, vSolutions) \<Rightarrow>
               map_option (\<lambda>pubkey. case pubkey of
                   None \<Rightarrow> False
                 | Some k \<Rightarrow> c_verify cr k (GetBlockHash HashQuark block) (vchBlockSig block))
                 (block_pubkey whichType vSolutions (vin (vtx block ! 1))))"

section \<open>Checks without context\<close>

abbreviation (input) MAX_BLOCK_SIZE_CURRENT :: nat where "MAX_BLOCK_SIZE_CURRENT \<equiv> 2000000"
abbreviation (input) MAX_BLOCK_SHIELDED_TXES_SIZE :: nat where "MAX_BLOCK_SHIELDED_TXES_SIZE \<equiv> 750000"
abbreviation (input) MAX_BLOCK_SIGOPS_CURRENT :: nat where "MAX_BLOCK_SIGOPS_CURRENT \<equiv> 40000"

text \<open>\<open>None\<close> is the failed assertion or an access outside the outputs.\<close>

definition CheckColdStakeFreeOutput :: "CTransaction \<Rightarrow> bool option" where
  "CheckColdStakeFreeOutput tx =
     (if \<not> IsCoinStake tx \<or> length (vout tx) < 2 then None
      else if \<not> IsPayToColdStakingLOF (scriptPubKey (vout tx ! 1)) then Some True
      else let outs = length (vout tx); lastOut = vout tx ! (outs - 1)
           in Some (\<not> (outs \<ge> 3 \<and> scriptPubKey lastOut \<noteq> scriptPubKey (vout tx ! (outs - 2)))))"

definition GetTotalShieldedTxSize :: "CBlock \<Rightarrow> nat" where
  "GetTotalShieldedTxSize block =
     foldl (\<lambda>n tx. if IsShieldedTx tx then (n + GetTotalSize tx) mod 2 ^ 32 else n) 0 (vtx block)"

fun CheckBlock_txs :: "Params \<Rightarrow> bool \<Rightarrow> CTransaction list \<Rightarrow> reject + unit" where
  "CheckBlock_txs par fColdStakingActive [] = Inr ()"
| "CheckBlock_txs par fColdStakingActive (tx # txs) =
     bindE (CheckTransaction par tx fColdStakingActive) (\<lambda>_. CheckBlock_txs par fColdStakingActive txs)"

text \<open>
  Whether cold staking is active, after the check of the free output.  The height is that of the tip even when the
  block extends another one: the variable that would hold the entry of its predecessor is shadowed.
\<close>

definition CheckBlock_coldstake :: "node \<Rightarrow> CBlock \<Rightarrow> reject + bool" where
  "CheckBlock_coldstake nd block =
     (case n_tip nd of
        None \<Rightarrow> Inr True
      | Some (tipHash, tipHeight) \<Rightarrow>
          if uint256_IsNull (hashPrevBlock block) then Inr True
          else if tipHash \<noteq> hashPrevBlock block \<and> n_LookupBlockIndex nd (hashPrevBlock block) = None
          then Inl (StateError ''blk-out-of-order'')
          else
            let nHeight = tipHeight + 1
            in if nHeight \<noteq> 0 \<and> \<not> n_InitialBlockDownload nd then
                 if IsProofOfStake block
                 then (case CheckColdStakeFreeOutput (vtx block ! 1) of
                         None \<Rightarrow> Inl AssertFail
                       | Some ok \<Rightarrow> if \<not> ok then Inl (DoS 0 ''bad-p2cs-outs'') else Inr (\<not> n_spork19 nd))
                 else Inr (\<not> n_spork19 nd)
               else Inr True)"

text \<open>\<open>fChecked\<close> is the mutable flag of the block; the result is its new value.\<close>

definition CheckBlock :: "node \<Rightarrow> CBlock \<Rightarrow> bool \<Rightarrow> bool \<Rightarrow> bool \<Rightarrow> bool \<Rightarrow> reject + bool" where
  "CheckBlock nd block fChecked fCheckPOW fCheckMerkleRoot fCheckSig =
     (if fChecked then Inr True
      else
        let IsPoS = IsProofOfStake block; (root, mutated) = BlockMerkleRoot block;
            nBlockSize = length (SerializeBlock block) mod 2 ^ 32
        in if \<not> IsPoS \<and> fCheckPOW \<and> \<not> CheckProofOfWork (n_consensus nd) (GetBlockHash (n_HashQuark nd) block) (bh_nBits block)
           then Inl (DoS 50 ''high-hash'')
           else if fCheckMerkleRoot \<and> hashMerkleRoot block \<noteq> root then Inl (DoSCorrupt 100 ''bad-txnmrklroot'')
           else if fCheckMerkleRoot \<and> mutated then Inl (DoSCorrupt 100 ''bad-txns-duplicate'')
           else if vtx block = [] \<or> length (vtx block) > MAX_BLOCK_SIZE_CURRENT \<or> nBlockSize > MAX_BLOCK_SIZE_CURRENT
           then Inl (DoS 100 ''bad-blk-length'')
           else if nBlockSize > MAX_BLOCK_SHIELDED_TXES_SIZE \<and> GetTotalShieldedTxSize block > MAX_BLOCK_SHIELDED_TXES_SIZE
           then Inl (DoS 100 ''bad-blk-shielded-size'')
           else if \<not> IsCoinBase (vtx block ! 0) then Inl (DoS 100 ''bad-cb-missing'')
           else if list_ex IsCoinBase (tl (vtx block)) then Inl (DoS 100 ''bad-cb-multiple'')
           else if IsPoS \<and> list_ex IsCoinStake (drop 2 (vtx block)) then Inl (DoS 100 ''bad-cs-multiple'')
           else
             bindE (CheckBlock_coldstake nd block) (\<lambda>fColdStakingActive.
             bindE (CheckBlock_txs (n_consensus nd) fColdStakingActive (vtx block)) (\<lambda>_.
               if foldl (\<lambda>n tx. (n + GetLegacySigOpCount tx) mod 2 ^ 32) 0 (vtx block) > MAX_BLOCK_SIGOPS_CURRENT
               then Inl (DoSCorrupt 100 ''bad-blk-sigops'')
               else if fCheckSig then
                 (case CheckBlockSignature (n_crypto nd) (n_HashQuark nd) block of
                    None \<Rightarrow> Inl AssertFail
                  | Some ok \<Rightarrow> if \<not> ok then Inl (DoSCorrupt 100 ''bad-PoS-sig'') else Inr (fCheckPOW \<and> fCheckMerkleRoot))
               else Inr False)))"

section \<open>Checks in context\<close>

text \<open>The height of the highest checkpoint whose block is known; the list is in the order of the map.\<close>

definition GetLastCheckpoint :: "node \<Rightarrow> int option" where
  "GetLastCheckpoint nd =
     (if \<not> n_checkpoints nd then None
      else Option.bind (find (\<lambda>cp. n_LookupBlockIndex nd (snd cp) \<noteq> None) (rev (mapCheckpoints (n_params nd))))
             (\<lambda>cp. n_LookupBlockIndex nd (snd cp)))"

definition outdated_version :: "Params \<Rightarrow> int \<Rightarrow> int \<Rightarrow> bool" where
  "outdated_version par ver nHeight \<longleftrightarrow>
     ver < 3 \<and> nHeight \<ge> 1 \<or>
     ver < 4 \<and> NetworkUpgradeActive par nHeight UPGRADE_ZC \<or>
     ver < 5 \<and> NetworkUpgradeActive par nHeight UPGRADE_BIP65 \<or>
     ver < 6 \<and> NetworkUpgradeActive par nHeight UPGRADE_V3_4 \<or>
     ver < 7 \<and> NetworkUpgradeActive par nHeight UPGRADE_V4_0 \<or>
     ver < 8 \<and> NetworkUpgradeActive par nHeight UPGRADE_V5_0"

abbreviation (input) REJECT_OBSOLETE :: int where "REJECT_OBSOLETE \<equiv> 0x11"

definition time_reject :: "int \<times> string \<Rightarrow> reject" where
  "time_reject e = (case e of (nDoS, reason) \<Rightarrow> if nDoS = 0 then Invalid REJECT_INVALID reason else DoS nDoS reason)"

text \<open>
  \<open>prevChain\<close> is the entry of the previous block and those before it, as the time rules read them (\<open>Pow\<close>);
  \<open>now\<close> is the adjusted time.
\<close>

definition ContextualCheckBlockHeader :: "node \<Rightarrow> int \<Rightarrow> pow_index list \<Rightarrow> CBlock \<Rightarrow> reject + unit" where
  "ContextualCheckBlockHeader nd now prevChain block =
     (let par = n_consensus nd; hash = GetBlockHash (n_HashQuark nd) block
      in if hash = hashGenesisBlock par then Inr ()
         else if prevChain = [] then Inl AssertFail
         else
           let nHeight = pi_nHeight (hd prevChain) + 1;
               chainHeight = (case n_tip nd of None \<Rightarrow> - 1 | Some (_, h) \<Rightarrow> h)
           in if chainHeight - nHeight \<ge> n_maxreorg nd then Inl (DoS 1 '''')
              else case CheckBlockTime now (n_params nd) prevChain block of
                     Inl e \<Rightarrow> Inl (time_reject e)
                   | Inr _ \<Rightarrow>
                       if \<not> Checkpoints_CheckBlock (n_checkpoints nd) (mapCheckpoints (n_params nd)) nHeight hash False
                       then Inl (DoS 100 ''checkpoint mismatch'')
                       else if (case GetLastCheckpoint nd of None \<Rightarrow> False | Some h \<Rightarrow> nHeight < h) then Inl (DoS 0 '''')
                       else if outdated_version par (bh_nVersion block) nHeight
                       then Inl (Invalid REJECT_OBSOLETE ''bad-version'')
                       else Inr ())"

fun ContextualCheckBlock_txs :: "node \<Rightarrow> 'ctx sapling_verifier \<Rightarrow> int \<Rightarrow> int \<Rightarrow> int \<Rightarrow> CTransaction list \<Rightarrow> reject + unit" where
  "ContextualCheckBlock_txs nd sv now nHeight blockTime [] = Inr ()"
| "ContextualCheckBlock_txs nd sv now nHeight blockTime (tx # txs) =
     bindE (ContextualCheckTransaction (n_crypto nd) sv (n_consensus nd) tx nHeight True (n_InitialBlockDownload nd)) (\<lambda>_.
       if \<not> IsFinalTx now tx nHeight blockTime then Inl (DoS 10 ''bad-txns-nonfinal'')
       else ContextualCheckBlock_txs nd sv now nHeight blockTime txs)"

text \<open>\<open>pindexPrev\<close> is the height of the previous block.  The first transaction is a coinbase by \<open>CheckBlock\<close>.\<close>

definition ContextualCheckBlock :: "node \<Rightarrow> 'ctx sapling_verifier \<Rightarrow> int \<Rightarrow> int option \<Rightarrow> CBlock \<Rightarrow> reject + unit" where
  "ContextualCheckBlock nd sv now pindexPrev block =
     (let nHeight = (case pindexPrev of None \<Rightarrow> 0 | Some h \<Rightarrow> h + 1)
      in bindE (ContextualCheckBlock_txs nd sv now nHeight (int (bh_nTime block)) (vtx block)) (\<lambda>_.
         if pindexPrev \<noteq> None \<and>
            (let expect = push_int64 nHeight; sig = scriptSig (vin (vtx block ! 0) ! 0)
             in length sig < length expect \<or> take (length expect) sig \<noteq> expect)
         then Inl (DoS 100 ''bad-cb-height'')
         else if IsProofOfStake block \<and> length (vin (vtx block ! 1)) > 1 then Inl (DoS 100 ''bad-cs-multi-inputs'')
         else if IsProofOfStake block \<and> list_ex CTxOut_IsEmpty (tl (vout (vtx block ! 1)))
         then Inl (DoS 100 ''bad-txns-vout-empty'')
         else Inr ()))"

section \<open>The inputs of a transaction\<close>

definition value_throw :: "value_error + 'a \<Rightarrow> reject + 'a" where
  "value_throw r = (case r of Inl e \<Rightarrow> Inl (ValueThrow e) | Inr v \<Rightarrow> Inr v)"

definition GetSpendHeight :: "node \<Rightarrow> 'tree CCoinsView \<Rightarrow> 'tree CCoinsViewCache \<Rightarrow> (int \<times> 'tree CCoinsViewCache) option" where
  "GetSpendHeight nd base c =
     (let (hash, c') = GetBestBlock base c in map_option (\<lambda>h. (h + 1, c')) (n_LookupBlockIndex nd hash))"

fun CheckTxInputs_loop :: "Params \<Rightarrow> 'tree CCoinsView \<Rightarrow> int \<Rightarrow> CAmount \<Rightarrow> CTxIn list \<Rightarrow> 'tree CCoinsViewCache \<Rightarrow>
    reject + CAmount \<times> 'tree CCoinsViewCache" where
  "CheckTxInputs_loop par base nSpendHeight nValueIn [] c = Inr (nValueIn, c)"
| "CheckTxInputs_loop par base nSpendHeight nValueIn (txin # vins) c =
     (let (coin, c') = AccessCoin base (prevout txin) c; v = wrap64 (nValueIn + nValue (coin_out coin))
      in if Coin_IsSpent coin then Inl AssertFail
         else if (fCoinBase coin \<or> fCoinStake coin) \<and> nSpendHeight - int (coin_nHeight coin) < nCoinbaseMaturity par
         then Inl (Invalid REJECT_INVALID ''bad-txns-premature-spend-of-coinbase-coinstake'')
         else if \<not> MoneyRange par (nValue (coin_out coin)) \<or> \<not> MoneyRange par v
         then Inl (DoS 100 ''bad-txns-inputvalues-outofrange'')
         else CheckTxInputs_loop par base nSpendHeight v vins c')"

definition CheckTxInputs :: "Params \<Rightarrow> 'tree CCoinsView \<Rightarrow> CTransaction \<Rightarrow> int \<Rightarrow> 'tree CCoinsViewCache \<Rightarrow>
    reject + 'tree CCoinsViewCache" where
  "CheckTxInputs par base tx nSpendHeight c =
     (let (have, c1) = HaveInputs base tx c; (req, c2) = HaveShieldedRequirements base tx c1
      in if \<not> have then Inl (Invalid 0 '''')
         else if \<not> req then Inl (Invalid 0 '''')
         else bindE (CheckTxInputs_loop par base nSpendHeight 0 (vin tx) c2) (\<lambda>(v, c3).
           bindE (value_throw (GetShieldedValueIn tx)) (\<lambda>sh.
             let nValueIn = wrap64 (v + sh)
             in if IsCoinStake tx then Inr c3
                else bindE (value_throw (GetValueOut tx)) (\<lambda>nValueOut.
                  if nValueIn < nValueOut then Inl (DoS 100 ''bad-txns-in-belowout'')
                  else let nTxFee = wrap64 (nValueIn - nValueOut)
                       in if nTxFee < 0 then Inl (DoS 100 ''bad-txns-fee-negative'')
                          else if \<not> MoneyRange par nTxFee then Inl (DoS 100 ''bad-txns-fee-outofrange'')
                          else Inr c3))))"

text \<open>A script check: the output spent, the transaction, the input and the flags.\<close>

type_synonym script_check = "CTxOut \<times> CTransaction \<times> nat \<times> nat"

definition CScriptCheck :: "crypto \<Rightarrow> script_check \<Rightarrow> bool option" where
  "CScriptCheck cr ck =
     (case ck of (txout, tx, nIn, flags) \<Rightarrow>
        map_option is_Inr (VerifyScript (scriptSig (vin tx ! nIn)) (scriptPubKey txout) flags
          (TransactionSignatureChecker cr tx nIn (nValue txout) (Some (mk_PrecomputedTransactionData cr tx)))
          (GetRequiredSigVersion tx)))"

text \<open>DERSIG, STRICTENC, MINIMALDATA, NULLDUMMY, DISCOURAGE_UPGRADABLE_NOPS, CLEANSTACK, LOW_S and EXCHANGEADDR.\<close>

abbreviation (input) STANDARD_NOT_MANDATORY_VERIFY_FLAGS :: nat where "STANDARD_NOT_MANDATORY_VERIFY_FLAGS \<equiv> 1502"

definition run_check :: "crypto \<Rightarrow> script_check \<Rightarrow> reject + unit" where
  "run_check cr ck =
     (case CScriptCheck cr ck of
        None \<Rightarrow> Inl AssertFail
      | Some True \<Rightarrow> Inr ()
      | Some False \<Rightarrow>
          (case ck of (txout, tx, nIn, flags) \<Rightarrow>
             if flags AND STANDARD_NOT_MANDATORY_VERIFY_FLAGS \<noteq> 0 then
               (case CScriptCheck cr (txout, tx, nIn, flags - (flags AND STANDARD_NOT_MANDATORY_VERIFY_FLAGS)) of
                  None \<Rightarrow> Inl AssertFail
                | Some True \<Rightarrow> Inl (Invalid REJECT_NONSTANDARD ''non-mandatory-script-verify-flag'')
                | Some False \<Rightarrow> Inl (DoS 100 ''mandatory-script-verify-flag-failed''))
             else Inl (DoS 100 ''mandatory-script-verify-flag-failed'')))"

text \<open>With \<open>queued\<close> the checks are only collected.\<close>

fun CheckInputs_scripts :: "crypto \<Rightarrow> 'tree CCoinsView \<Rightarrow> bool \<Rightarrow> nat \<Rightarrow> CTransaction \<Rightarrow> nat \<Rightarrow> CTxIn list \<Rightarrow>
    'tree CCoinsViewCache \<Rightarrow> reject + script_check list \<times> 'tree CCoinsViewCache" where
  "CheckInputs_scripts cr base queued flags tx i [] c = Inr ([], c)"
| "CheckInputs_scripts cr base queued flags tx i (txin # vins) c =
     (let (coin, c') = AccessCoin base (prevout txin) c; ck = (coin_out coin, tx, i, flags)
      in if Coin_IsSpent coin then Inl AssertFail
         else bindE (if queued then Inr () else run_check cr ck) (\<lambda>_.
           bindE (CheckInputs_scripts cr base queued flags tx (i + 1) vins c') (\<lambda>(cks, c'').
             Inr (if queued then ck # cks else cks, c''))))"

definition CheckInputs :: "node \<Rightarrow> 'tree CCoinsView \<Rightarrow> CTransaction \<Rightarrow> bool \<Rightarrow> nat \<Rightarrow> bool \<Rightarrow> 'tree CCoinsViewCache \<Rightarrow>
    reject + script_check list \<times> 'tree CCoinsViewCache" where
  "CheckInputs nd base tx fScriptChecks flags queued c =
     (if IsCoinBase tx then Inr ([], c)
      else case GetSpendHeight nd base c of
             None \<Rightarrow> Inl AssertFail
           | Some (nSpendHeight, c1) \<Rightarrow>
               bindE (CheckTxInputs (n_consensus nd) base tx nSpendHeight c1) (\<lambda>c2.
                 if fScriptChecks then CheckInputs_scripts (n_crypto nd) base queued flags tx 0 (vin tx) c2
                 else Inr ([], c2)))"

section \<open>Connecting a block\<close>

definition GetBlockValue :: "int \<Rightarrow> CAmount option" where
  "GetBlockValue nHeight = (if nHeight = 1 then GetPremineTotal else Some 0)"

text \<open>The entry of the block, the hash and height of its predecessor, and the value of the shielded pool.\<close>

record connect_index =
  ix_entry :: CBlockIndex
  ix_pprev :: "(uint256 \<times> int) option"
  ix_nChainSaplingValue :: "CAmount option"

abbreviation ix_nHeight :: "connect_index \<Rightarrow> int" where
  "ix_nHeight pindex \<equiv> int (ci_nHeight (ix_entry pindex))"

text \<open>The local variables of the loop over the transactions.\<close>

record 'tree connect_state =
  s_view :: "'tree CCoinsViewCache"
  s_nFees :: CAmount
  s_nSigOps :: nat
  s_nValueOut :: CAmount
  s_nValueIn :: CAmount
  s_sapling_tree :: 'tree
  s_blockundo :: CBlockUndo
  s_checks :: "script_check list"

text \<open>A superblock contains a payout of the pool, unless the payout is zero or the cycle has no stakers.\<close>

fun found_payout :: "node \<Rightarrow> 'tree CCoinsView \<Rightarrow> int \<Rightarrow> CTransaction list \<Rightarrow> 'tree CCoinsViewCache \<Rightarrow>
    (bool \<times> 'tree CCoinsViewCache) option" where
  "found_payout nd base nHeight [] c = Some (False, c)"
| "found_payout nd base nHeight (tx # txs) c =
     (case CheckSuperblockPayoutTx (n_params nd) (n_blockAt nd) base tx nHeight c of
        None \<Rightarrow> None
      | Some (ok, c') \<Rightarrow> if ok then Some (True, c') else found_payout nd base nHeight txs c')"

definition ConnectBlock_superblock :: "node \<Rightarrow> 'tree CCoinsView \<Rightarrow> int \<Rightarrow> CTransaction list \<Rightarrow> 'tree CCoinsViewCache \<Rightarrow>
    reject + 'tree CCoinsViewCache" where
  "ConnectBlock_superblock nd base nHeight txs c =
     (if \<not> IsSuperblockHeight (n_consensus nd) nHeight then Inr c
      else case found_payout nd base nHeight txs c of
             None \<Rightarrow> Inl AssertFail
           | Some (foundValidPayout, c') \<Rightarrow>
               if foundValidPayout then Inr c'
               else case GetSuperblockPayout (n_consensus nd) nHeight of
                      None \<Rightarrow> Inl AssertFail
                    | Some payout \<Rightarrow>
                        if payout > 0 \<and> CycleHasStakers (n_consensus nd) (n_blockAt nd) nHeight
                        then Inl (DoS 100 ''bad-superblock-payout'') else Inr c')"

text \<open>What a transaction other than the coinbase must satisfy before its values are read; the new operation count.\<close>

definition ConnectBlock_inputs :: "'tree CCoinsView \<Rightarrow> CTransaction \<Rightarrow> nat \<Rightarrow> 'tree CCoinsViewCache \<Rightarrow>
    reject + nat \<times> 'tree CCoinsViewCache" where
  "ConnectBlock_inputs base tx nSigOps c =
     (if IsCoinBase tx then Inr (nSigOps, c)
      else let (have, c1) = HaveInputs base tx c; (req, c2) = HaveShieldedRequirements base tx c1;
               (n, c3) = GetP2SHSigOpCount base tx c2; nSigOps' = (nSigOps + n) mod 2 ^ 32
           in if \<not> have then Inl (DoS 100 ''bad-txns-inputs-missingorspent'')
              else if \<not> req then Inl (DoS 100 ''bad-txns-sapling-requirements-not-met'')
              else if nSigOps' > MAX_BLOCK_SIGOPS_CURRENT then Inl (DoS 100 ''bad-blk-sigops'')
              else Inr (nSigOps', c3))"

text \<open>The value of the inputs, the script checks and the view behind the input checks.\<close>

definition ConnectBlock_values :: "node \<Rightarrow> 'tree CCoinsView \<Rightarrow> bool \<Rightarrow> nat \<Rightarrow> CTransaction \<Rightarrow> 'tree CCoinsViewCache \<Rightarrow>
    reject + CAmount \<times> script_check list \<times> 'tree CCoinsViewCache" where
  "ConnectBlock_values nd base fScriptChecks flags tx c =
     (if IsCoinBase tx then Inr (0, [], c)
      else let (v, c1) = GetValueIn base tx c
           in bindE (value_throw v) (\<lambda>txValueIn.
              bindE (CheckInputs nd base tx fScriptChecks flags (n_nScriptCheckThreads nd \<noteq> 0) c1) (\<lambda>(vChecks, c2).
                Inr (txValueIn, vChecks, c2))))"

definition append_outputs :: "('tree \<Rightarrow> uint256 \<Rightarrow> 'tree) \<Rightarrow> CTransaction \<Rightarrow> 'tree \<Rightarrow> 'tree" where
  "append_outputs tappend tx tree =
     (case sapData tx of
        Some d \<Rightarrow> if IsShieldedTx tx then foldl (\<lambda>t od. tappend t (od_cmu od)) tree (vShieldedOutput d) else tree
      | None \<Rightarrow> tree)"

text \<open>The body of the loop; \<open>maintenance\<close> is set when shielded transactions are refused.\<close>

definition ConnectBlock_tx :: "node \<Rightarrow> ('tree \<Rightarrow> uint256 \<Rightarrow> 'tree) \<Rightarrow> 'tree CCoinsView \<Rightarrow> nat \<Rightarrow> bool \<Rightarrow> nat \<Rightarrow> bool \<Rightarrow> nat \<Rightarrow>
    CTransaction \<Rightarrow> 'tree connect_state \<Rightarrow> reject + 'tree connect_state" where
  "ConnectBlock_tx nd tappend base nHeight fScriptChecks flags maintenance i tx st =
     (let nSigOps = (s_nSigOps st + GetLegacySigOpCount tx) mod 2 ^ 32
      in if nSigOps > MAX_BLOCK_SIGOPS_CURRENT then Inl (DoS 100 ''bad-blk-sigops'')
         else if maintenance \<and> IsShieldedTx tx then Inl (DoS 100 '''')
         else
           bindE (ConnectBlock_inputs base tx nSigOps (s_view st)) (\<lambda>(nSigOps', c1).
           bindE (value_throw (GetValueOut tx)) (\<lambda>txValueOut.
           bindE (ConnectBlock_values nd base fScriptChecks flags tx c1) (\<lambda>(txValueIn, vChecks, c2).
             (case UpdateCoins base (n_invalid nd) tx nHeight (SkipInvalidUTXOS (n_params nd) (int nHeight)) c2 of
                Inl e \<Rightarrow> Inl (CoinsThrow e)
              | Inr (txundo, c3) \<Rightarrow>
                  Inr \<lparr>s_view = c3,
                       s_nFees = (if IsCoinBase tx \<or> IsCoinStake tx then s_nFees st
                                  else wrap64 (s_nFees st + wrap64 (txValueIn - txValueOut))),
                       s_nSigOps = nSigOps',
                       s_nValueOut = wrap64 (s_nValueOut st + txValueOut),
                       s_nValueIn = (if IsCoinBase tx then s_nValueIn st else wrap64 (s_nValueIn st + txValueIn)),
                       s_sapling_tree = append_outputs tappend tx (s_sapling_tree st),
                       s_blockundo = (if i > 0 then s_blockundo st @ [txundo] else s_blockundo st),
                       s_checks = s_checks st @ vChecks\<rparr>)))))"

fun ConnectBlock_txs :: "node \<Rightarrow> ('tree \<Rightarrow> uint256 \<Rightarrow> 'tree) \<Rightarrow> 'tree CCoinsView \<Rightarrow> nat \<Rightarrow> bool \<Rightarrow> nat \<Rightarrow> bool \<Rightarrow> nat \<Rightarrow>
    CTransaction list \<Rightarrow> 'tree connect_state \<Rightarrow> reject + 'tree connect_state" where
  "ConnectBlock_txs nd tappend base nHeight fScriptChecks flags maintenance i [] st = Inr st"
| "ConnectBlock_txs nd tappend base nHeight fScriptChecks flags maintenance i (tx # txs) st =
     bindE (ConnectBlock_tx nd tappend base nHeight fScriptChecks flags maintenance i tx st)
       (ConnectBlock_txs nd tappend base nHeight fScriptChecks flags maintenance (i + 1) txs)"

text \<open>\<open>CCheckQueueControl::Wait\<close>\<close>

definition run_queue :: "crypto \<Rightarrow> script_check list \<Rightarrow> reject + unit" where
  "run_queue cr cks =
     (if list_ex (\<lambda>ck. CScriptCheck cr ck = None) cks then Inl AssertFail
      else if list_all (\<lambda>ck. CScriptCheck cr ck = Some True) cks then Inr ()
      else Inl (DoS 100 ''block-validation-failed''))"

text \<open>The amounts of the block: what was minted against what the height allows.\<close>

definition ConnectBlock_amounts :: "node \<Rightarrow> int \<Rightarrow> bool \<Rightarrow> CTransaction \<Rightarrow> CAmount \<Rightarrow> CAmount \<Rightarrow> CAmount \<Rightarrow> reject + unit" where
  "ConnectBlock_amounts nd nHeight isPoSBlock coinbase nFees nValueOut nValueIn =
     (if nFees < 0 then Inl AssertFail
      else
        let nMint = wrap64 (wrap64 (nValueOut - nValueIn) + nFees)
        in case GetBlockValue nHeight of
             None \<Rightarrow> Inl AssertFail
           | Some nBlockValue \<Rightarrow>
               let nExpectedMint = (if isPoSBlock then nBlockValue else wrap64 (nBlockValue + nFees))
               in if nMint > nExpectedMint then Inl (DoS 100 ''bad-blk-amount'')
                  else if nHeight = 1 then
                    (case CheckPremineCoinbase (n_params nd) coinbase of
                       None \<Rightarrow> Inl AssertFail
                     | Some ok \<Rightarrow> if ok then Inr () else Inl (DoS 100 ''bad-premine-coinbase''))
                  else Inr ())"

abbreviation (input) BLOCK_HAVE_UNDO :: nat where "BLOCK_HAVE_UNDO \<equiv> 16"
abbreviation (input) BLOCK_VALID_SCRIPTS :: nat where "BLOCK_VALID_SCRIPTS \<equiv> 5"

text \<open>The undo data to be written, when the entry has none yet, and the entry afterwards.\<close>

definition ConnectBlock_undo :: "node \<Rightarrow> CBlockUndo \<Rightarrow> CBlockIndex \<Rightarrow> reject + CBlockUndo option \<times> CBlockIndex" where
  "ConnectBlock_undo nd blockundo e =
     (let noUndo = (ci_nStatus e AND BLOCK_HAVE_UNDO = 0)
      in if \<not> (noUndo \<or> \<not> Chain.IsValid e BLOCK_VALID_SCRIPTS) then Inr (None, e)
         else if noUndo \<and> \<not> n_undoWritten nd then Inl (StateError ''Failed to write undo data'')
         else let e1 = (if noUndo then e\<lparr>ci_nStatus := ci_nStatus e OR BLOCK_HAVE_UNDO\<rparr> else e)
              in Inr (if noUndo then Some blockundo else None, snd (RaiseValidity BLOCK_VALID_SCRIPTS e1)))"

definition connect_flags :: "Params \<Rightarrow> bool \<Rightarrow> (uint256 \<times> int) option \<Rightarrow> nat" where
  "connect_flags par fScriptChecks pprev =
     push_bit SCRIPT_VERIFY_P2SH 1 OR push_bit SCRIPT_VERIFY_DERSIG 1 OR
     (case pprev of
        None \<Rightarrow> 0
      | Some (_, h) \<Rightarrow>
          (if fScriptChecks \<and> NetworkUpgradeActive par h UPGRADE_BIP65 then push_bit SCRIPT_VERIFY_CHECKLOCKTIMEVERIFY 1 else 0) OR
          (if fScriptChecks \<and> NetworkUpgradeActive par h UPGRADE_V5_6 then push_bit SCRIPT_VERIFY_EXCHANGEADDR 1 else 0))"

text \<open>
  The transactions of the block, from the payout check to the script checks, on the view \<open>c\<close> and the Sapling tree \<open>tree\<close>.
\<close>

definition ConnectBlock_body :: "node \<Rightarrow> 'tree tree_ops \<Rightarrow> ('tree \<Rightarrow> uint256 \<Rightarrow> 'tree) \<Rightarrow> 'tree CCoinsView \<Rightarrow> connect_index \<Rightarrow> CBlock \<Rightarrow>
    'tree \<Rightarrow> 'tree CCoinsViewCache \<Rightarrow> reject + CBlockUndo \<times> 'tree CCoinsViewCache" where
  "ConnectBlock_body nd T tappend base pindex block tree c =
     (let nHeight = ix_nHeight pindex; par = n_consensus nd;
          fScriptChecks = (nHeight \<ge> n_estimate nd);
          maintenance = (\<not> n_InitialBlockDownload nd \<and> int (bh_nTime block) > n_spork20 nd)
      in bindE (ConnectBlock_superblock nd base nHeight (vtx block) c) (\<lambda>c1.
         bindE (ConnectBlock_txs nd tappend base (ci_nHeight (ix_entry pindex)) fScriptChecks (connect_flags par fScriptChecks (ix_pprev pindex))
            maintenance 0 (vtx block)
            \<lparr>s_view = c1, s_nFees = 0, s_nSigOps = 0, s_nValueOut = 0, s_nValueIn = 0, s_sapling_tree = tree,
             s_blockundo = [], s_checks = []\<rparr>) (\<lambda>st.
         if NetworkUpgradeActive par nHeight UPGRADE_V5_0 \<and> hashFinalSaplingRoot block \<noteq> tree_root T (s_sapling_tree st)
         then Inl (DoS 100 ''bad-sapling-root-in-block'')
         else
           bindE (ConnectBlock_amounts nd nHeight (IsProofOfStake block) (vtx block ! 0) (s_nFees st) (s_nValueOut st) (s_nValueIn st)) (\<lambda>_.
           bindE (run_queue (n_crypto nd) (s_checks st)) (\<lambda>_.
             Inr (s_blockundo st, PushAnchor T base (s_sapling_tree st) (s_view st)))))))"

text \<open>The result is the new view, the undo data written and the entry of the block.\<close>

definition ConnectBlock :: "node \<Rightarrow> 'tree tree_ops \<Rightarrow> ('tree \<Rightarrow> uint256 \<Rightarrow> 'tree) \<Rightarrow> 'tree CCoinsView \<Rightarrow> connect_index \<Rightarrow> CBlock \<Rightarrow>
    bool \<Rightarrow> bool \<Rightarrow> 'tree CCoinsViewCache \<Rightarrow> reject + 'tree CCoinsViewCache \<times> CBlockUndo option \<times> CBlockIndex" where
  "ConnectBlock nd T tappend base pindex block fChecked fJustCheck c =
     (case CheckBlock nd block fChecked (\<not> fJustCheck) (\<not> fJustCheck) (\<not> fJustCheck) of
        Inl (DoSCorrupt n reason) \<Rightarrow> Inl (StateError ''Corrupt block found indicating potential hardware failure; shutting down'')
      | Inl e \<Rightarrow> Inl e
      | Inr _ \<Rightarrow>
          let par = n_consensus nd; isPoSBlock = IsProofOfStake block; nHeight = ix_nHeight pindex;
              (best, c1) = GetBestBlock base c;
              isPoSActive = NetworkUpgradeActive par nHeight UPGRADE_POS
          in if best \<noteq> (case ix_pprev pindex of None \<Rightarrow> null_hash | Some (h, _) \<Rightarrow> h) then Inl AssertFail
             else if \<not> NetworkUpgradeActive par nHeight UPGRADE_V6_0 \<and> isPoSBlock \<and>
                     (length (vout (vtx block ! 0)) \<noteq> 1 \<or> \<not> CTxOut_IsEmpty (vout (vtx block ! 0) ! 0))
             then Inl (DoS 100 ''bad-cb-pos'')
             else if GetBlockHash (n_HashQuark nd) block = hashGenesisBlock par
             then Inr (if fJustCheck then c1 else SetBestBlock (ci_hash (ix_entry pindex)) c1, None, ix_entry pindex)
             else if \<not> isPoSActive \<and> isPoSBlock then Inl (DoS 100 ''PoS-early'')
             else if isPoSActive \<and> \<not> isPoSBlock then Inl (DoS 100 ''PoW-ended'')
             else if (case ix_nChainSaplingValue pindex of None \<Rightarrow> False | Some v \<Rightarrow> v < 0)
             then Inl (DoS 100 ''turnstile-violation-sapling-shielded-pool'')
             else
               let (anchor, c2) = GetBestAnchor base c1; (t, c3) = GetSaplingAnchorAt base anchor c2
               in case t of
                    None \<Rightarrow> Inl AssertFail
                  | Some tree \<Rightarrow>
                      bindE (ConnectBlock_body nd T tappend base pindex block tree c3) (\<lambda>(blockundo, c4).
                        if fJustCheck then Inr (c4, None, ix_entry pindex)
                        else bindE (ConnectBlock_undo nd blockundo (ix_entry pindex)) (\<lambda>(undo, e).
                          Inr (SetBestBlock (ci_hash (ix_entry pindex)) c4, undo, e))))"

end
