(* ===== verification/Connect.thy ===== *)
theory Connect
imports Validation
begin

text \<open>
  What \<open>ConnectBlock\<close> guarantees.  The functions that read the view leave the state it shows as it is.  The lemmas
  then follow the code: the inputs of one transaction (\<open>CheckTxInputs_ok\<close>, \<open>CheckInputs_ok\<close>), one step of the
  loop (\<open>ConnectBlock_tx_ok\<close>), the loop (\<open>ConnectBlock_txs_ok\<close>), its surroundings
  (\<open>ConnectBlock_body_ok\<close>) and the whole function (\<open>ConnectBlock_ok\<close>).  They give the validity of the
  block's transactions, the round trip with \<open>DisconnectBlock\<close> and the bound on the money supply.  The
  definitions of this theory are the specification and an example; the model is in \<open>Validation\<close>.
\<close>

section \<open>Reading through the cache\<close>

text \<open>Every function that only reads leaves the state that the cache shows as it is.\<close>

lemma cache_at_Access:
  assumes "cache_at T base c s"
  shows "cache_at T base (snd (AccessCoin base op c)) s"
  unfolding AccessCoin_sel(2) by (rule cache_at_Fetch[OF assms])

lemma Access_coin:
  assumes "cache_at T base c s"
  shows "Coin_IsSpent (fst (AccessCoin base op c)) \<longleftrightarrow> u_coins s op = None"
    and "u_coins s op = Some k \<Longrightarrow> fst (AccessCoin base op c) = k"
proof -
  have s: "u_coins s op = unspent (v_GetCoin (cache_view base c) op)" using assms by (auto simp: cache_at_def)
  show "Coin_IsSpent (fst (AccessCoin base op c)) \<longleftrightarrow> u_coins s op = None"
    unfolding s AccessCoin_sel(1) by (cases "v_GetCoin (cache_view base c) op") simp_all
  show "u_coins s op = Some k \<Longrightarrow> fst (AccessCoin base op c) = k"
    unfolding s AccessCoin_sel(1) by (cases "v_GetCoin (cache_view base c) op") (simp_all split: if_splits)
qed

lemma cache_at_view:
  assumes "cache_at T base c s" "cache_inv T base c'" "cache_view base c' = cache_view base c"
  shows "cache_at T base c' s"
  using assms unfolding cache_at_def by metis

lemma cache_at_Nullifier:
  assumes "cache_at T base c s"
  shows "cache_at T base (snd (GetNullifier base nf c)) s"
  using assms GetNullifier_cache[of T base c nf] by (intro cache_at_view[OF assms]) (auto simp: cache_at_def)

lemma Nullifier_known:
  assumes "cache_at T base c s"
  shows "fst (GetNullifier base nf c) \<longleftrightarrow> nf \<in> u_nullifiers s"
proof -
  have "u_nullifiers s = {nf. v_GetNullifier (cache_view base c) nf}" using assms unfolding cache_at_def by (metis abs_view_sel(2))
  then show ?thesis by (simp add: cache_view_def del: v_GetNullifier_cache)
qed

lemma cache_at_Anchor:
  assumes "view_ok T base" "cache_at T base c s"
  shows "cache_at T base (snd (GetSaplingAnchorAt base rt c)) s"
  using assms GetSaplingAnchorAt_cache[of T base c rt] by (intro cache_at_view[OF assms(2)]) (auto simp: cache_at_def)

lemma Anchor_known:
  assumes "cache_at T base c s"
  shows "fst (GetSaplingAnchorAt base rt c) \<noteq> None \<longleftrightarrow> rt \<in> u_anchors s"
proof -
  have "u_anchors s = {rt. v_GetSaplingAnchorAt (cache_view base c) rt \<noteq> None}" using assms unfolding cache_at_def by (metis abs_view_sel(3))
  then show ?thesis by (simp add: cache_view_def del: v_GetSaplingAnchorAt_cache)
qed

lemma Anchor_root:
  assumes "view_ok T base" "cache_at T base c s" "fst (GetSaplingAnchorAt base rt c) = Some t"
  shows "tree_root T t = rt"
proof -
  have "view_ok T (cache_view base c)" using cache_view_ok[OF assms(1)] assms(2) by (simp add: cache_at_def)
  then show ?thesis using view_okD(1)[of T "cache_view base c" rt t] assms(3)
    by (simp add: cache_view_def del: v_GetSaplingAnchorAt_cache)
qed

lemma cache_at_BestBlock:
  assumes "cache_at T base c s"
  shows "cache_at T base (snd (GetBestBlock base c)) s"
  by (rule cache_at_view[OF assms]) (use assms in \<open>auto simp: GetBestBlock_def cache_at_def cache_inv_def fun_eq_iff intro!: CCoinsView.equality\<close>)

lemma BestBlock_known:
  assumes "cache_at T base c s"
  shows "fst (GetBestBlock base c) = u_best_block s"
proof -
  have "u_best_block s = v_GetBestBlock (cache_view base c)" using assms unfolding cache_at_def by (metis abs_view_sel(4))
  then show ?thesis by (simp add: cache_view_def del: v_GetBestBlock_cache)
qed

lemma cache_at_BestAnchor:
  assumes "cache_at T base c s"
  shows "cache_at T base (snd (GetBestAnchor base c)) s" "fst (GetBestAnchor base c) = u_best_anchor s"
proof -
  show "cache_at T base (snd (GetBestAnchor base c)) s"
    by (rule cache_at_view[OF assms]) (use assms GetBestAnchor_cache[where base = base and c = c] in \<open>auto simp: cache_at_def\<close>)
  show "fst (GetBestAnchor base c) = u_best_anchor s"
    using GetBestAnchor_cache(1)[where base = base and c = c] assms unfolding cache_at_def by metis
qed

section \<open>The inputs of a transaction\<close>

lemma HaveInputs_loop_ok:
  assumes "cache_at T base c s"
  shows "cache_at T base (snd (HaveInputs_loop base ins c)) s"
    and "fst (HaveInputs_loop base ins c) \<longleftrightarrow> prevout ` set ins \<subseteq> dom (u_coins s)"
proof -
  have "cache_at T base (snd (HaveInputs_loop base ins c)) s \<and> (fst (HaveInputs_loop base ins c) \<longleftrightarrow> prevout ` set ins \<subseteq> dom (u_coins s))"
    using assms
  proof (induction ins arbitrary: c)
    case (Cons txin ins)
    note h = cache_at_Have[OF Cons.prems, of "prevout txin"]
    from Cons.IH[OF h(2)] show ?case using h by (auto simp: split_beta Let_def)
  qed simp
  then show "cache_at T base (snd (HaveInputs_loop base ins c)) s"
    "fst (HaveInputs_loop base ins c) \<longleftrightarrow> prevout ` set ins \<subseteq> dom (u_coins s)" by blast+
qed

lemma HaveInputs_ok:
  assumes "cache_at T base c s"
  shows "cache_at T base (snd (HaveInputs base tx c)) s"
    and "\<not> IsCoinBase tx \<Longrightarrow> \<not> HasZerocoinSpendInputs tx \<Longrightarrow> fst (HaveInputs base tx c) \<longleftrightarrow> prevout ` set (vin tx) \<subseteq> dom (u_coins s)"
  using HaveInputs_loop_ok[OF assms, of "vin tx"] assms by (simp_all add: HaveInputs_def)

lemma HaveShieldedRequirements_loop_ok:
  assumes "view_ok T base" "cache_at T base c s"
  shows "cache_at T base (snd (HaveShieldedRequirements_loop base sds c)) s \<and>
    (fst (HaveShieldedRequirements_loop base sds c) \<longleftrightarrow>
      (\<forall>sd\<in>set sds. sd_nullifier sd \<notin> u_nullifiers s \<and> sd_anchor sd \<in> u_anchors s))"
  using assms(2)
proof (induction sds arbitrary: c)
  case (Cons sd sds)
  note n = cache_at_Nullifier[OF Cons.prems, of "sd_nullifier sd"]
  note a = cache_at_Anchor[OF assms(1) n, of "sd_anchor sd"]
  from Cons.IH[OF a] show ?case
    using n a Nullifier_known[OF Cons.prems, of "sd_nullifier sd"] Anchor_known[OF n, of "sd_anchor sd"]
    by (auto simp: split_beta Let_def)
qed simp

definition shielded_ok :: "CTransaction \<Rightarrow> utxo_state \<Rightarrow> bool" where
  "shielded_ok tx s \<longleftrightarrow>
     (case sapData tx of
        None \<Rightarrow> True
      | Some d \<Rightarrow> IsShieldedTx tx \<longrightarrow> (\<forall>sd\<in>set (vShieldedSpend d). sd_nullifier sd \<notin> u_nullifiers s \<and> sd_anchor sd \<in> u_anchors s))"

lemma HaveShieldedRequirements_ok:
  assumes "view_ok T base" "cache_at T base c s"
  shows "cache_at T base (snd (HaveShieldedRequirements base tx c)) s"
    and "fst (HaveShieldedRequirements base tx c) \<longleftrightarrow> shielded_ok tx s"
  using HaveShieldedRequirements_loop_ok[OF assms] assms(2)
  by (auto simp: HaveShieldedRequirements_def shielded_ok_def split: option.split)

lemma GetP2SHSigOpCount_ok:
  assumes "cache_at T base c s"
  shows "cache_at T base (snd (GetP2SHSigOpCount base tx c)) s"
proof -
  have "cache_at T base (snd (GetP2SHSigOpCount_loop base n ins c)) s" for n ins
    using assms
  proof (induction ins arbitrary: n c)
    case (Cons txin ins)
    show ?case using Cons.IH[OF cache_at_Access[OF Cons.prems, of "prevout txin"]] by (auto simp: split_beta Let_def)
  qed simp
  then show ?thesis using assms by (simp add: GetP2SHSigOpCount_def)
qed

text \<open>The value of the inputs as the coins of the state have it.\<close>

definition input_value :: "utxo_state \<Rightarrow> CTxIn \<Rightarrow> CAmount" where
  "input_value s txin = (case u_coins s (prevout txin) of None \<Rightarrow> -1 | Some k \<Rightarrow> nValue (coin_out k))"

definition coins_in :: "CTransaction \<Rightarrow> utxo_state \<Rightarrow> CAmount" where
  "coins_in tx s = sum_list (map (input_value s) (vin tx))"

lemma GetValueIn_loop_ok:
  assumes "cache_at T base c s" "\<forall>txin\<in>set ins. \<not> CTxIn_IsZerocoinSpend txin \<and> \<not> CTxIn_IsZerocoinPublicSpend txin"
    "prevout ` set ins \<subseteq> dom (u_coins s)"
  shows "cache_at T base (snd (GetValueIn_loop base n ins c)) s \<and>
    wrap64 (fst (GetValueIn_loop base n ins c)) = wrap64 (n + sum_list (map (input_value s) ins))"
  using assms
proof (induction ins arbitrary: n c)
  case (Cons txin ins)
  note a = cache_at_Access[OF Cons.prems(1), of "prevout txin"]
  obtain k where k: "u_coins s (prevout txin) = Some k" using Cons.prems(3) by auto
  have "fst (AccessCoin base (prevout txin) c) = k" using Access_coin(2)[OF Cons.prems(1) k] .
  then have step: "GetValueIn_loop base n (txin # ins) c =
      GetValueIn_loop base (wrap64 (n + input_value s txin)) ins (snd (AccessCoin base (prevout txin) c))"
    using Cons.prems(2) k by (simp add: split_beta Let_def input_value_def)
  show ?case using Cons.IH[OF a, of "wrap64 (n + input_value s txin)"] Cons.prems(2,3)
    unfolding step by (simp add: add.assoc)
qed simp

section \<open>What the input checks guarantee\<close>

text \<open>An input of \<open>tx\<close> in a state: its coin is there, mature and of a valid amount.\<close>

definition input_ok :: "Params \<Rightarrow> int \<Rightarrow> utxo_state \<Rightarrow> CTxIn \<Rightarrow> bool" where
  "input_ok par nSpendHeight s txin \<longleftrightarrow>
     (case u_coins s (prevout txin) of
        None \<Rightarrow> False
      | Some k \<Rightarrow> MoneyRange par (nValue (coin_out k)) \<and>
          (fCoinBase k \<or> fCoinStake k \<longrightarrow> nSpendHeight - int (coin_nHeight k) \<ge> nCoinbaseMaturity par))"

definition script_ok :: "crypto \<Rightarrow> nat \<Rightarrow> CTransaction \<Rightarrow> utxo_state \<Rightarrow> nat \<Rightarrow> bool" where
  "script_ok cr flags tx s i \<longleftrightarrow>
     (case u_coins s (prevout (vin tx ! i)) of
        None \<Rightarrow> False
      | Some k \<Rightarrow> CScriptCheck cr (coin_out k, tx, i, flags) = Some True)"

lemma MoneyRange_i64: "MoneyRange par v \<Longrightarrow> nMaxMoneyOut par \<le> INT64_MAX \<Longrightarrow> in_i64 v"
  by (simp add: MoneyRange_def in_i64_def)

lemma CheckTxInputs_loop_ok:
  assumes "cache_at T base c s" "CheckTxInputs_loop par base h v ins c = Inr (v', c')" "MoneyRange par v"
    "nMaxMoneyOut par \<le> INT64_MAX"
  shows "cache_at T base c' s \<and> (\<forall>txin\<in>set ins. input_ok par h s txin) \<and> MoneyRange par v' \<and>
    v' = v + sum_list (map (input_value s) ins)"
  using assms(1-3)
proof (induction ins arbitrary: v c)
  case (Cons txin ins)
  define coin c1 where "coin = fst (AccessCoin base (prevout txin) c)" and "c1 = snd (AccessCoin base (prevout txin) c)"
  have A: "AccessCoin base (prevout txin) c = (coin, c1)" by (simp add: coin_def c1_def)
  let ?v = "wrap64 (v + nValue (coin_out coin))"
  have run: "\<not> Coin_IsSpent coin" "\<not> ((fCoinBase coin \<or> fCoinStake coin) \<and> h - int (coin_nHeight coin) < nCoinbaseMaturity par)"
    "MoneyRange par (nValue (coin_out coin))" "MoneyRange par ?v" "CheckTxInputs_loop par base h ?v ins c1 = Inr (v', c')"
    using Cons.prems(2) by (auto simp: A Let_def split: if_splits)
  obtain k where k: "u_coins s (prevout txin) = Some k"
    using Access_coin(1)[OF Cons.prems(1), of "prevout txin"] run(1) by (auto simp: coin_def)
  have ck: "coin = k" using Access_coin(2)[OF Cons.prems(1) k] by (simp add: coin_def)
  have ex: "?v = v + nValue (coin_out coin)"
    using Cons.prems(3) run(3,4) assms(4) by (intro wrap64_nonneg_sum) (auto simp: MoneyRange_def)
  have "cache_at T base c1 s" unfolding c1_def by (rule cache_at_Access[OF Cons.prems(1)])
  from Cons.IH[OF this run(5,4)] show ?case
    using run(2,3) k ck ex by (auto simp: input_ok_def input_value_def)
qed simp

lemma value_throw_Inr [simp]: "value_throw r = Inr v \<longleftrightarrow> r = Inr v"
  by (cases r) (simp_all add: value_throw_def)

lemma CheckTxInputs_ok:
  assumes "view_ok T base" "cache_at T base c s" "CheckTxInputs par base tx h c = Inr c'"
    "0 \<le> nMaxMoneyOut par" "nMaxMoneyOut par \<le> INT64_MAX"
    "GetValueOut tx = Inr (total_out tx)" "GetShieldedValueIn tx = Inr (shielded_in tx)"
    "MoneyRange par (total_out tx)" "MoneyRange par (shielded_in tx)"
  shows "cache_at T base c' s" "\<forall>txin\<in>set (vin tx). input_ok par h s txin" "MoneyRange par (coins_in tx s)"
    "\<not> IsCoinStake tx \<Longrightarrow> total_out tx \<le> coins_in tx s + shielded_in tx"
proof -
  define c1 c2 where "c1 = snd (HaveInputs base tx c)" and "c2 = snd (HaveShieldedRequirements base tx c1)"
  have c2: "cache_at T base c2 s"
    unfolding c2_def c1_def by (intro HaveShieldedRequirements_ok HaveInputs_ok assms(1,2))
  obtain v where v: "CheckTxInputs_loop par base h 0 (vin tx) c2 = Inr (v, c')"
    and out: "\<not> IsCoinStake tx \<Longrightarrow> total_out tx \<le> wrap64 (v + shielded_in tx)"
    using assms(3) unfolding CheckTxInputs_def
    by (auto simp: split_beta Let_def c1_def[symmetric] c2_def[symmetric] bindE_eq_Inr_iff assms(6,7) split: if_splits)
  have z: "MoneyRange par 0" using assms(4) by (simp add: MoneyRange_def)
  note L = CheckTxInputs_loop_ok[OF c2 v z assms(5)]
  have vi1: "v = coins_in tx s" using L by (simp add: coins_in_def)
  have vi2: "MoneyRange par v" using L by blast
  note vi = vi1 vi2
  show "cache_at T base c' s" "\<forall>txin\<in>set (vin tx). input_ok par h s txin" using L by blast+
  show "MoneyRange par (coins_in tx s)" using vi2 unfolding vi1 .
  show "total_out tx \<le> coins_in tx s + shielded_in tx" if "\<not> IsCoinStake tx"
  proof (cases "v + shielded_in tx \<le> INT64_MAX")
    case True
    then have "in_i64 (v + shielded_in tx)" using vi(2) assms(9) by (simp add: in_i64_def MoneyRange_def)
    then show ?thesis using out[OF that] vi(1) by simp
  next
    case False
    then show ?thesis using vi assms(5,8) by (simp add: MoneyRange_def)
  qed
qed

lemma CheckInputs_scripts_ok:
  assumes "cache_at T base c s" "CheckInputs_scripts cr base queued flags tx i ins c = Inr (cks, c')"
    "ins = drop i (vin tx)" "\<forall>ck\<in>set cks. CScriptCheck cr ck = Some True"
  shows "cache_at T base c' s \<and> (\<forall>j. i \<le> j \<longrightarrow> j < length (vin tx) \<longrightarrow> script_ok cr flags tx s j)"
  using assms
proof (induction ins arbitrary: i c cks)
  case (Cons txin ins)
  define coin c1 where "coin = fst (AccessCoin base (prevout txin) c)" and "c1 = snd (AccessCoin base (prevout txin) c)"
  have A: "AccessCoin base (prevout txin) c = (coin, c1)" by (simp add: coin_def c1_def)
  let ?ck = "(coin_out coin, tx, i, flags)"
  obtain cks' where run: "\<not> Coin_IsSpent coin" "queued \<or> run_check cr ?ck = Inr ()"
    "CheckInputs_scripts cr base queued flags tx (i + 1) ins c1 = Inr (cks', c')" "cks = (if queued then ?ck # cks' else cks')"
    using Cons.prems(2) by (auto simp: A Let_def bindE_eq_Inr_iff split: if_splits)
  obtain k where k: "u_coins s (prevout txin) = Some k"
    using Access_coin(1)[OF Cons.prems(1), of "prevout txin"] run(1) by (auto simp: coin_def)
  have ck: "coin = k" using Access_coin(2)[OF Cons.prems(1) k] by (simp add: coin_def)
  have i: "i < length (vin tx)" "vin tx ! i = txin" "ins = drop (i + 1) (vin tx)"
    using Cons.prems(3) by (metis drop_all linorder_not_le list.distinct(1), metis Cons_nth_drop_Suc drop_all linorder_not_le list.distinct(1) list.inject,
      metis Suc_eq_plus1 drop_Suc list.sel(3) tl_drop)
  have "CScriptCheck cr ?ck = Some True"
  proof (cases queued)
    case True
    then show ?thesis using run(4) Cons.prems(4) by simp
  next
    case False
    then show ?thesis using run(2) by (auto simp: run_check_def split: option.splits bool.splits if_splits)
  qed
  then have here: "script_ok cr flags tx s i" using i(2) k ck by (simp add: script_ok_def)
  have c1: "cache_at T base c1 s" unfolding c1_def by (rule cache_at_Access[OF Cons.prems(1)])
  have "\<forall>ck\<in>set cks'. CScriptCheck cr ck = Some True" using Cons.prems(4) run(4) by (auto split: if_splits)
  from Cons.IH[OF c1 run(3) i(3) this] show ?case using here by (metis Suc_eq_plus1 Suc_leI le_neq_implies_less)
qed simp

lemma CheckInputs_ok:
  assumes "view_ok T base" "cache_at T base c s" "CheckInputs nd base tx fScriptChecks flags queued c = Inr (cks, c')"
    "\<not> IsCoinBase tx" "0 \<le> nMaxMoneyOut (n_consensus nd)" "nMaxMoneyOut (n_consensus nd) \<le> INT64_MAX"
    "GetValueOut tx = Inr (total_out tx)" "GetShieldedValueIn tx = Inr (shielded_in tx)"
    "MoneyRange (n_consensus nd) (total_out tx)" "MoneyRange (n_consensus nd) (shielded_in tx)"
    "n_LookupBlockIndex nd (u_best_block s) = Some h"
    "\<forall>ck\<in>set cks. CScriptCheck (n_crypto nd) ck = Some True"
  shows "cache_at T base c' s" "\<forall>txin\<in>set (vin tx). input_ok (n_consensus nd) (h + 1) s txin"
    "MoneyRange (n_consensus nd) (coins_in tx s)" "\<not> IsCoinStake tx \<Longrightarrow> total_out tx \<le> coins_in tx s + shielded_in tx"
    "fScriptChecks \<Longrightarrow> \<forall>i<length (vin tx). script_ok (n_crypto nd) flags tx s i"
proof -
  define c1 where "c1 = snd (GetBestBlock base c)"
  have c1: "cache_at T base c1 s" unfolding c1_def by (rule cache_at_BestBlock[OF assms(2)])
  have h: "GetSpendHeight nd base c = Some (h + 1, c1)"
    using BestBlock_known[OF assms(2)] assms(11) by (simp add: GetSpendHeight_def split_beta c1_def)
  obtain c2 where c2: "CheckTxInputs (n_consensus nd) base tx (h + 1) c1 = Inr c2"
    and sc: "if fScriptChecks then CheckInputs_scripts (n_crypto nd) base queued flags tx 0 (vin tx) c2 = Inr (cks, c') else c2 = c'"
    using assms(3,4) by (auto simp: CheckInputs_def h bindE_eq_Inr_iff split: if_splits)
  note C = CheckTxInputs_ok[OF assms(1) c1 c2 assms(5-10)]
  show "\<forall>txin\<in>set (vin tx). input_ok (n_consensus nd) (h + 1) s txin" "MoneyRange (n_consensus nd) (coins_in tx s)"
    "\<not> IsCoinStake tx \<Longrightarrow> total_out tx \<le> coins_in tx s + shielded_in tx" by (fact C(2), fact C(3), fact C(4))
  show "cache_at T base c' s"
    using CheckInputs_scripts_ok[OF C(1), of "n_crypto nd" queued flags tx 0 "vin tx"] C(1) sc assms(12)
    by (cases fScriptChecks) auto
  show "\<forall>i<length (vin tx). script_ok (n_crypto nd) flags tx s i" if fScriptChecks
    using CheckInputs_scripts_ok[OF C(1), of "n_crypto nd" queued flags tx 0 "vin tx"] sc assms(12) that by auto
qed

lemma superblock_ok:
  assumes "cache_at T base c s" "ConnectBlock_superblock nd base h txs c = Inr c'"
  shows "cache_at T base c' s"
proof -
  have one: "cache_at T base c'' s" if "CheckSuperblockPayoutTx cp at base tx h c0 = Some (ok, c'')" "cache_at T base c0 s" for cp at tx c0 ok c''
  proof -
    have "c'' = c0 \<or> c'' = snd (AccessCoin base (prevout (vin tx ! 0)) c0)"
      using that(1) by (auto simp: CheckSuperblockPayoutTx_def split_beta Let_def split: if_splits option.splits)
    then show ?thesis using that(2) cache_at_Access[OF that(2)] by auto
  qed
  have "cache_at T base c'' s" if "found_payout nd base h txs c0 = Some (ok, c'')" "cache_at T base c0 s" for c0 ok c''
    using that
  proof (induction txs arbitrary: c0)
    case (Cons tx txs)
    obtain b c1 where c1: "CheckSuperblockPayoutTx (n_params nd) (n_blockAt nd) base tx h c0 = Some (b, c1)"
      using Cons.prems(1) by (auto split: option.splits)
    have "cache_at T base c1 s" by (rule one[OF c1 Cons.prems(2)])
    then show ?case using Cons.IH[of c1] Cons.prems(1) c1 by (auto split: if_splits)
  qed simp
  then show ?thesis using assms by (auto simp: ConnectBlock_superblock_def split: if_splits option.splits)
qed

section \<open>One transaction of a block\<close>

text \<open>What it means that a transaction may be applied in a state.\<close>

definition tx_valid :: "node \<Rightarrow> int \<Rightarrow> bool \<Rightarrow> nat \<Rightarrow> CTransaction \<Rightarrow> utxo_state \<Rightarrow> bool" where
  "tx_valid nd nSpendHeight fScriptChecks flags tx s \<longleftrightarrow>
     IsCoinBase tx \<or>
     (\<forall>txin\<in>set (vin tx). input_ok (n_consensus nd) nSpendHeight s txin) \<and> shielded_ok tx s \<and>
     MoneyRange (n_consensus nd) (coins_in tx s) \<and>
     (IsCoinStake tx \<or> total_out tx \<le> coins_in tx s + shielded_in tx) \<and>
     (\<not> fScriptChecks \<or> (\<forall>i<length (vin tx). script_ok (n_crypto nd) flags tx s i))"

lemma VectorSer_length:
  assumes "\<And>x. 0 < length (f x)"
  shows "length xs \<le> length (VectorSer f xs)"
proof -
  have "length xs \<le> length (concat (map f xs))"
  proof (induction xs)
    case (Cons x xs)
    then show ?case using assms[of x] by (simp del: length_greater_0_conv)
  qed simp
  then show ?thesis by (simp add: VectorSer_def)
qed

lemma vout_bounded: "length (vout tx) \<le> GetTotalSize tx"
proof -
  have "length (vout tx) \<le> length (VectorSer ser_CTxOut (vout tx))"
    by (rule VectorSer_length) (simp add: ser_CTxOut_def ser_int64_def ser_writedata64_def del: length_greater_0_conv)
  then show ?thesis by (simp add: GetTotalSize_def SerializeTransaction_def)
qed

lemma checked_nullifiers:
  assumes "CheckTransaction par tx cs = Inr ()" "0 \<le> nMaxMoneyOut par" "nMaxMoneyOut par \<le> INT64_MAX"
  shows "IsCoinBase tx \<Longrightarrow> nullifiers tx = {}" "shielded_ok tx s \<Longrightarrow> nullifiers tx \<inter> u_nullifiers s = {}"
proof -
  note S = CheckTransaction_sound(6)[OF assms]
  show "nullifiers tx = {}" if "IsCoinBase tx"
    using S that by (auto simp: nullifiers_def hasSaplingData_def split: option.splits)
  show "nullifiers tx \<inter> u_nullifiers s = {}" if "shielded_ok tx s"
    using S that by (auto simp: nullifiers_def hasSaplingData_def shielded_ok_def IsShieldedTx_def split: option.splits)
qed

definition money_ok :: "node \<Rightarrow> bool" where
  "money_ok nd \<longleftrightarrow> 0 \<le> nMaxMoneyOut (n_consensus nd) \<and> nMaxMoneyOut (n_consensus nd) \<le> INT64_MAX"

definition tx_checked :: "node \<Rightarrow> CTransaction \<Rightarrow> bool" where
  "tx_checked nd tx \<longleftrightarrow> (\<exists>cs. CheckTransaction (n_consensus nd) tx cs = Inr ()) \<and> \<not> ContainsZerocoins tx"

lemma GetValueIn_ok:
  assumes "cache_at T base c s" "\<not> IsCoinBase tx" "\<not> HasZerocoinSpendInputs tx" "prevout ` set (vin tx) \<subseteq> dom (u_coins s)"
    "GetShieldedValueIn tx = Inr (shielded_in tx)"
  shows "fst (GetValueIn base tx c) = Inr (wrap64 (coins_in tx s + shielded_in tx))"
    "cache_at T base (snd (GetValueIn base tx c)) s"
proof -
  have "\<forall>txin\<in>set (vin tx). \<not> CTxIn_IsZerocoinSpend txin \<and> \<not> CTxIn_IsZerocoinPublicSpend txin"
    using assms(3) by (auto simp: HasZerocoinSpendInputs_def list_ex_iff)
  from GetValueIn_loop_ok[OF assms(1) this assms(4), of 0]
  have L: "cache_at T base (snd (GetValueIn_loop base 0 (vin tx) c)) s"
    "wrap64 (fst (GetValueIn_loop base 0 (vin tx) c)) = wrap64 (coins_in tx s)" by (simp_all add: coins_in_def)
  have "wrap64 (fst (GetValueIn_loop base 0 (vin tx) c) + shielded_in tx) = wrap64 (coins_in tx s + shielded_in tx)"
    using L(2) by (metis wrap64_add_left)
  then show "fst (GetValueIn base tx c) = Inr (wrap64 (coins_in tx s + shielded_in tx))"
    using assms(2,5) by (simp add: GetValueIn_def split_beta Let_def)
  show "cache_at T base (snd (GetValueIn base tx c)) s" using L(1) assms(2) by (simp add: GetValueIn_def split_beta Let_def)
qed

lemma ConnectBlock_inputs_ok:
  assumes "view_ok T base" "cache_at T base c s" "ConnectBlock_inputs base tx n c = Inr (n', c')"
  shows "cache_at T base c' s" "IsCoinBase tx \<or> HasZerocoinSpendInputs tx \<or> prevout ` set (vin tx) \<subseteq> dom (u_coins s)"
    "IsCoinBase tx \<or> shielded_ok tx s"
proof -
  define c1 c2 where "c1 = snd (HaveInputs base tx c)" and "c2 = snd (HaveShieldedRequirements base tx c1)"
  have c1: "cache_at T base c1 s" unfolding c1_def by (rule HaveInputs_ok(1)[OF assms(2)])
  have c2: "cache_at T base c2 s" unfolding c2_def by (rule HaveShieldedRequirements_ok(1)[OF assms(1) c1])
  have r: "IsCoinBase tx \<and> c' = c \<or>
      \<not> IsCoinBase tx \<and> fst (HaveInputs base tx c) \<and> fst (HaveShieldedRequirements base tx c1) \<and> c' = snd (GetP2SHSigOpCount base tx c2)"
    using assms(3) by (auto simp: ConnectBlock_inputs_def split_beta Let_def c1_def c2_def split: if_splits)
  show "cache_at T base c' s" using r assms(2) GetP2SHSigOpCount_ok[OF c2, of tx] by auto
  show "IsCoinBase tx \<or> HasZerocoinSpendInputs tx \<or> prevout ` set (vin tx) \<subseteq> dom (u_coins s)"
    using r HaveInputs_ok(2)[OF assms(2), of tx] by blast
  show "IsCoinBase tx \<or> shielded_ok tx s" using r HaveShieldedRequirements_ok(2)[OF assms(1) c1, of tx] by blast
qed

lemma ConnectBlock_values_ok:
  assumes "view_ok T base" "cache_at T base c s" "ConnectBlock_values nd base fScriptChecks flags tx c = Inr (v, cks, c')"
    "money_ok nd" "CheckTransaction (n_consensus nd) tx cs = Inr ()" "\<not> HasZerocoinSpendInputs tx"
    "IsCoinBase tx \<or> prevout ` set (vin tx) \<subseteq> dom (u_coins s)" "IsCoinBase tx \<or> shielded_ok tx s"
    "n_LookupBlockIndex nd (u_best_block s) = Some h" "\<forall>ck\<in>set cks. CScriptCheck (n_crypto nd) ck = Some True"
  shows "cache_at T base c' s" "v = (if IsCoinBase tx then 0 else wrap64 (coins_in tx s + shielded_in tx))"
    "tx_valid nd (h + 1) fScriptChecks flags tx s"
proof -
  have m: "0 \<le> nMaxMoneyOut (n_consensus nd)" "nMaxMoneyOut (n_consensus nd) \<le> INT64_MAX" using assms(4) by (simp_all add: money_ok_def)
  note S = CheckTransaction_sound[OF assms(5) m] and V = CheckTransaction_GetValueOut[OF assms(5) m]
  have "cache_at T base c' s \<and> v = (if IsCoinBase tx then 0 else wrap64 (coins_in tx s + shielded_in tx)) \<and>
    tx_valid nd (h + 1) fScriptChecks flags tx s"
  proof (cases "IsCoinBase tx")
    case True
    then show ?thesis using assms(2,3) by (simp add: ConnectBlock_values_def tx_valid_def)
  next
    case False
    define c1 where "c1 = snd (GetValueIn base tx c)"
    note G = GetValueIn_ok[OF assms(2) False assms(6) _ V(2)]
    have dom: "prevout ` set (vin tx) \<subseteq> dom (u_coins s)" using assms(7) False by blast
    have c1: "cache_at T base c1 s" unfolding c1_def by (rule G(2)[OF dom])
    have v: "v = wrap64 (coins_in tx s + shielded_in tx)"
      and ci: "CheckInputs nd base tx fScriptChecks flags (n_nScriptCheckThreads nd \<noteq> 0) c1 = Inr (cks, c')"
      using assms(3) False G(1)[OF dom] by (auto simp: ConnectBlock_values_def split_beta Let_def bindE_eq_Inr_iff c1_def)
    note C = CheckInputs_ok[OF assms(1) c1 ci False m V S(3,4) assms(9,10)]
    show ?thesis using C v False assms(8) unfolding tx_valid_def by auto
  qed
  then show "cache_at T base c' s" "v = (if IsCoinBase tx then 0 else wrap64 (coins_in tx s + shielded_in tx))"
    "tx_valid nd (h + 1) fScriptChecks flags tx s" by blast+
qed

text \<open>The fee of a transaction, and what it takes from the coins.\<close>

definition tx_in :: "CTransaction \<Rightarrow> utxo_state \<Rightarrow> CAmount" where
  "tx_in tx s = (if IsCoinBase tx then 0 else coins_in tx s + shielded_in tx)"

definition tx_fee :: "CTransaction \<Rightarrow> utxo_state \<Rightarrow> CAmount" where
  "tx_fee tx s = (if IsCoinBase tx \<or> IsCoinStake tx then 0 else tx_in tx s - total_out tx)"

definition tx_state :: "('tree \<Rightarrow> uint256 \<Rightarrow> 'tree) \<Rightarrow> nat \<Rightarrow> CTransaction \<Rightarrow> nat \<Rightarrow> CAmount \<Rightarrow> CAmount \<Rightarrow> CTxUndo \<Rightarrow> script_check list \<Rightarrow>
    'tree CCoinsViewCache \<Rightarrow> 'tree connect_state \<Rightarrow> 'tree connect_state" where
  "tx_state tappend i tx n v vo txundo cks c st =
     \<lparr>s_view = c,
      s_nFees = (if IsCoinBase tx \<or> IsCoinStake tx then s_nFees st else wrap64 (s_nFees st + wrap64 (v - vo))),
      s_nSigOps = n, s_nValueOut = wrap64 (s_nValueOut st + vo),
      s_nValueIn = (if IsCoinBase tx then s_nValueIn st else wrap64 (s_nValueIn st + v)),
      s_sapling_tree = append_outputs tappend tx (s_sapling_tree st),
      s_blockundo = (if i > 0 then s_blockundo st @ [txundo] else s_blockundo st), s_checks = s_checks st @ cks\<rparr>"

lemma ConnectBlock_tx_run:
  assumes "ConnectBlock_tx nd tappend base nHeight fScriptChecks flags maintenance i tx st = Inr st'"
    "GetValueOut tx = Inr (vo)"
  obtains n0 n1 c1 v cks c2 txundo c3 where "ConnectBlock_inputs base tx n0 (s_view st) = Inr (n1, c1)"
    "ConnectBlock_values nd base fScriptChecks flags tx c1 = Inr (v, cks, c2)"
    "UpdateCoins base (n_invalid nd) tx nHeight (SkipInvalidUTXOS (n_params nd) (int nHeight)) c2 = Inr (txundo, c3)"
    "st' = tx_state tappend i tx n1 v vo txundo cks c3 st"
proof -
  define n0 where "n0 = (s_nSigOps st + GetLegacySigOpCount tx) mod 2 ^ 32"
  obtain n1 c1 where 1: "ConnectBlock_inputs base tx n0 (s_view st) = Inr (n1, c1)"
    using assms(1) unfolding ConnectBlock_tx_def n0_def[symmetric] Let_def by (auto simp: bindE_eq_Inr_iff split: if_splits)
  obtain v cks c2 where 2: "ConnectBlock_values nd base fScriptChecks flags tx c1 = Inr (v, cks, c2)"
    using assms(1) unfolding ConnectBlock_tx_def n0_def[symmetric] Let_def by (auto simp: bindE_eq_Inr_iff 1 split: if_splits)
  show thesis
  proof (cases "UpdateCoins base (n_invalid nd) tx nHeight (SkipInvalidUTXOS (n_params nd) (int nHeight)) c2")
    case (Inl e)
    then show ?thesis
      using assms(1) unfolding ConnectBlock_tx_def n0_def[symmetric] Let_def by (simp add: 1 2 assms(2) value_throw_def split: if_splits)
  next
    case (Inr u)
    obtain txundo c3 where u: "u = (txundo, c3)" by (cases u)
    have "st' = tx_state tappend i tx n1 v vo txundo cks c3 st"
      using assms(1) Inr u unfolding ConnectBlock_tx_def n0_def[symmetric] Let_def tx_state_def
      by (simp add: 1 2 assms(2) value_throw_def split: if_splits)
    then show ?thesis using that 1 2 Inr u by blast
  qed
qed

lemma ConnectBlock_tx_ok:
  assumes "view_ok T base" "cache_at T base (s_view st) s" "money_ok nd" "tx_checked nd tx"
    "\<And>i. i < length (vout tx) \<Longrightarrow> u_coins s (mk_COutPoint (GetHash tx) i) = None"
    "\<not> SkipInvalidUTXOS (n_params nd) (int nHeight)" "n_LookupBlockIndex nd (u_best_block s) = Some h"
    "ConnectBlock_tx nd tappend base nHeight fScriptChecks flags maintenance i tx st = Inr st'"
    "\<forall>ck\<in>set (s_checks st'). CScriptCheck (n_crypto nd) ck = Some True"
  shows "tx_fits tx s" "cache_at T base (s_view st') (apply_tx nHeight tx s)" "tx_valid nd (h + 1) fScriptChecks flags tx s"
    "s_nFees st' = wrap64 (s_nFees st + tx_fee tx s) \<or> s_nFees st' = s_nFees st \<and> tx_fee tx s = 0"
    "s_nValueOut st' = wrap64 (s_nValueOut st + total_out tx)"
    "s_nValueIn st' = wrap64 (s_nValueIn st + tx_in tx s) \<or> s_nValueIn st' = s_nValueIn st \<and> tx_in tx s = 0"
    "s_blockundo st' = s_blockundo st @ (if i > 0 then [undo_tx tx s] else [])"
    "s_sapling_tree st' = append_outputs tappend tx (s_sapling_tree st)"
    "\<exists>cks. s_checks st' = s_checks st @ cks"
proof -
  obtain cs where cs: "CheckTransaction (n_consensus nd) tx cs = Inr ()" and zc: "\<not> HasZerocoinSpendInputs tx" "\<not> HasZerocoinMintOutputs tx"
    using assms(4) by (auto simp: tx_checked_def ContainsZerocoins_def)
  have m: "0 \<le> nMaxMoneyOut (n_consensus nd)" "nMaxMoneyOut (n_consensus nd) \<le> INT64_MAX" using assms(3) by (simp_all add: money_ok_def)
  note S = CheckTransaction_sound[OF cs m] and V = CheckTransaction_GetValueOut[OF cs m]
  obtain n0 n1 c1 v cks c2 txundo c3 where run: "ConnectBlock_inputs base tx n0 (s_view st) = Inr (n1, c1)"
    "ConnectBlock_values nd base fScriptChecks flags tx c1 = Inr (v, cks, c2)"
    "UpdateCoins base (n_invalid nd) tx nHeight (SkipInvalidUTXOS (n_params nd) (int nHeight)) c2 = Inr (txundo, c3)"
    and st': "st' = tx_state tappend i tx n1 v (total_out tx) txundo cks c3 st"
    by (rule ConnectBlock_tx_run[OF assms(8) V(1)])
  note I = ConnectBlock_inputs_ok[OF assms(1,2) run(1)]
  have dom: "IsCoinBase tx \<or> prevout ` set (vin tx) \<subseteq> dom (u_coins s)" using I(2) zc(1) by blast
  have pass: "\<forall>ck\<in>set cks. CScriptCheck (n_crypto nd) ck = Some True" using assms(9) st' by (simp add: tx_state_def)
  note W = ConnectBlock_values_ok[OF assms(1) I(1) run(2) assms(3) cs zc(1) dom I(3) assms(7) pass]
  have mint: "\<forall>t\<in>set (vout tx). nValue t \<noteq> -1 \<and> \<not> CTxOut_IsZerocoinMint t"
    using S(2) zc(2) by (auto simp: MoneyRange_def HasZerocoinMintOutputs_def list_ex_iff)
  have len: "length (vout tx) \<le> 2 ^ 32" using vout_bounded[of tx] S(9) by simp
  show fits: "tx_fits tx s"
    unfolding tx_fits_def using S(1) dom mint len assms(5) checked_nullifiers(1)[OF cs m] checked_nullifiers(2)[OF cs m, of s] I(3) by auto
  obtain c4 where c4: "UpdateCoins base (n_invalid nd) tx nHeight (SkipInvalidUTXOS (n_params nd) (int nHeight)) c2 = Inr (undo_tx tx s, c4)"
    "cache_at T base c4 (apply_tx nHeight tx s)"
    using UpdateCoins_ok[OF W(1) fits, of "SkipInvalidUTXOS (n_params nd) (int nHeight)" "n_invalid nd" nHeight] assms(6) by blast
  have u: "txundo = undo_tx tx s" "c3 = c4" using c4(1) run(3) by simp_all
  show "cache_at T base (s_view st') (apply_tx nHeight tx s)" using c4(2) u st' by (simp add: tx_state_def)
  show "tx_valid nd (h + 1) fScriptChecks flags tx s" by (rule W(3))
  show "s_nFees st' = wrap64 (s_nFees st + tx_fee tx s) \<or> s_nFees st' = s_nFees st \<and> tx_fee tx s = 0"
    using st' W(2) by (auto simp: tx_state_def tx_fee_def tx_in_def)
  show "s_nValueOut st' = wrap64 (s_nValueOut st + total_out tx)" using st' by (simp add: tx_state_def)
  show "s_nValueIn st' = wrap64 (s_nValueIn st + tx_in tx s) \<or> s_nValueIn st' = s_nValueIn st \<and> tx_in tx s = 0"
    using st' W(2) by (auto simp: tx_state_def tx_in_def)
  show "s_blockundo st' = s_blockundo st @ (if i > 0 then [undo_tx tx s] else [])" using st' u by (simp add: tx_state_def)
  show "s_sapling_tree st' = append_outputs tappend tx (s_sapling_tree st)" "\<exists>cks. s_checks st' = s_checks st @ cks"
    using st' by (simp_all add: tx_state_def)
qed

section \<open>The transactions of a block\<close>

fun txs_valid :: "node \<Rightarrow> int \<Rightarrow> bool \<Rightarrow> nat \<Rightarrow> nat \<Rightarrow> CTransaction list \<Rightarrow> utxo_state \<Rightarrow> bool" where
  "txs_valid nd nSpendHeight fScriptChecks flags nHeight [] s = True"
| "txs_valid nd nSpendHeight fScriptChecks flags nHeight (tx # txs) s \<longleftrightarrow>
     tx_valid nd nSpendHeight fScriptChecks flags tx s \<and>
     txs_valid nd nSpendHeight fScriptChecks flags nHeight txs (apply_tx nHeight tx s)"

text \<open>A quantity of a transaction and the state it is applied in, summed over the block.\<close>

fun sum_txs :: "(CTransaction \<Rightarrow> utxo_state \<Rightarrow> int) \<Rightarrow> nat \<Rightarrow> CTransaction list \<Rightarrow> utxo_state \<Rightarrow> int" where
  "sum_txs f nHeight [] s = 0"
| "sum_txs f nHeight (tx # txs) s = f tx s + sum_txs f nHeight txs (apply_tx nHeight tx s)"

abbreviation (input) outs :: "CTransaction \<Rightarrow> utxo_state \<Rightarrow> int" where "outs tx s \<equiv> total_out tx"

definition fresh_txs :: "CTransaction list \<Rightarrow> utxo_state \<Rightarrow> bool" where
  "fresh_txs txs s \<longleftrightarrow> distinct (map GetHash txs) \<and> (\<forall>op. out_hash op \<in> GetHash ` set txs \<longrightarrow> u_coins s op = None)"

lemma created_other: "out_hash op \<noteq> h \<Longrightarrow> created h f i xs op = None"
  by (induction xs arbitrary: i) (auto simp: mk_COutPoint_def)

lemma fresh_txs_Cons:
  assumes "fresh_txs (tx # txs) s"
  shows "u_coins s (mk_COutPoint (GetHash tx) i) = None" "fresh_txs txs (apply_tx nHeight tx s)"
proof -
  show "u_coins s (mk_COutPoint (GetHash tx) i) = None" using assms by (auto simp: fresh_txs_def mk_COutPoint_def)
  have "u_coins (apply_tx nHeight tx s) op = None" if op: "out_hash op \<in> GetHash ` set txs" for op
  proof -
    have "out_hash op \<noteq> GetHash tx" "u_coins s op = None" using assms op by (auto simp: fresh_txs_def)
    then show ?thesis by (simp add: apply_tx_def map_add_def created_other restrict_map_def)
  qed
  then show "fresh_txs txs (apply_tx nHeight tx s)" using assms by (simp add: fresh_txs_def)
qed

lemma ConnectBlock_tx_checks:
  assumes "ConnectBlock_tx nd tappend base nHeight fScriptChecks flags maintenance i tx st = Inr st'"
  shows "\<exists>cks. s_checks st' = s_checks st @ cks"
proof -
  obtain v where V: "GetValueOut tx = Inr v"
    using assms by (auto simp: ConnectBlock_tx_def Let_def bindE_eq_Inr_iff value_throw_Inr split: if_splits)
  show ?thesis by (rule ConnectBlock_tx_run[OF assms V]) (simp add: tx_state_def)
qed

lemma ConnectBlock_txs_checks:
  assumes "ConnectBlock_txs nd tappend base nHeight fScriptChecks flags maintenance i txs st = Inr st'"
  shows "\<exists>cks. s_checks st' = s_checks st @ cks"
  using assms
proof (induction txs arbitrary: i st)
  case (Cons tx txs)
  then obtain st1 where "ConnectBlock_tx nd tappend base nHeight fScriptChecks flags maintenance i tx st = Inr st1"
    "ConnectBlock_txs nd tappend base nHeight fScriptChecks flags maintenance (i + 1) txs st1 = Inr st'"
    by (auto simp: bindE_eq_Inr_iff)
  then show ?case using Cons.IH[of "i + 1" st1] ConnectBlock_tx_checks by fastforce
qed simp

lemma wrap64_step:
  assumes "a' = wrap64 (a + x) \<or> a' = a \<and> x = 0" "wrap64 b = wrap64 (a' + y)"
  shows "wrap64 b = wrap64 (a + (x + y))"
  using assms by (auto simp: add.assoc)

lemma ConnectBlock_txs_ok:
  assumes "view_ok T base" "cache_at T base (s_view st) s" "money_ok nd" "\<forall>tx\<in>set txs. tx_checked nd tx" "fresh_txs txs s"
    "\<not> SkipInvalidUTXOS (n_params nd) (int nHeight)" "n_LookupBlockIndex nd (u_best_block s) = Some h"
    "ConnectBlock_txs nd tappend base nHeight fScriptChecks flags maintenance i txs st = Inr st'"
    "\<forall>ck\<in>set (s_checks st'). CScriptCheck (n_crypto nd) ck = Some True"
  shows "txs_fit nHeight txs s \<and> cache_at T base (s_view st') (apply_txs nHeight txs s) \<and>
    txs_valid nd (h + 1) fScriptChecks flags nHeight txs s \<and>
    wrap64 (s_nFees st') = wrap64 (s_nFees st + sum_txs tx_fee nHeight txs s) \<and>
    wrap64 (s_nValueOut st') = wrap64 (s_nValueOut st + sum_txs outs nHeight txs s) \<and>
    wrap64 (s_nValueIn st') = wrap64 (s_nValueIn st + sum_txs tx_in nHeight txs s) \<and>
    s_blockundo st' = s_blockundo st @ (if i > 0 then undo_txs nHeight txs s else tl (undo_txs nHeight txs s)) \<and>
    s_sapling_tree st' = fold (append_outputs tappend) txs (s_sapling_tree st)"
  using assms(2,4,5,7,8)
proof (induction txs arbitrary: i st s)
  case Nil
  then show ?case by simp
next
  case (Cons tx txs)
  from Cons.prems(5) obtain st1 where st1: "ConnectBlock_tx nd tappend base nHeight fScriptChecks flags maintenance i tx st = Inr st1"
    "ConnectBlock_txs nd tappend base nHeight fScriptChecks flags maintenance (i + 1) txs st1 = Inr st'"
    by (auto simp: bindE_eq_Inr_iff)
  have pass: "\<forall>ck\<in>set (s_checks st1). CScriptCheck (n_crypto nd) ck = Some True"
    using ConnectBlock_txs_checks[OF st1(2)] assms(9) by auto
  have ck: "tx_checked nd tx" "\<forall>tx\<in>set txs. tx_checked nd tx" using Cons.prems(2) by simp_all
  note one = ConnectBlock_tx_ok[OF assms(1) Cons.prems(1) assms(3) ck(1) fresh_txs_Cons(1)[OF Cons.prems(3)] assms(6) Cons.prems(4) st1(1) pass]
  have lk: "n_LookupBlockIndex nd (u_best_block (apply_tx nHeight tx s)) = Some h" using Cons.prems(4) by (simp add: apply_tx_def)
  note rest = Cons.IH[OF one(2) ck(2) fresh_txs_Cons(2)[OF Cons.prems(3)] lk st1(2)]
  have fees: "wrap64 (s_nFees st') = wrap64 (s_nFees st + sum_txs tx_fee nHeight (tx # txs) s)"
    unfolding sum_txs.simps by (rule wrap64_step[OF one(4)]) (use rest in blast)
  have out: "wrap64 (s_nValueOut st') = wrap64 (s_nValueOut st + sum_txs outs nHeight (tx # txs) s)"
    unfolding sum_txs.simps by (rule wrap64_step[OF disjI1[OF one(5)]]) (use rest in blast)
  have inn: "wrap64 (s_nValueIn st') = wrap64 (s_nValueIn st + sum_txs tx_in nHeight (tx # txs) s)"
    unfolding sum_txs.simps by (rule wrap64_step[OF one(6)]) (use rest in blast)
  have undo: "s_blockundo st' = s_blockundo st @ (if i > 0 then undo_txs nHeight (tx # txs) s else tl (undo_txs nHeight (tx # txs) s))"
    using rest one(7) by simp
  have tree: "s_sapling_tree st' = fold (append_outputs tappend) (tx # txs) (s_sapling_tree st)" using rest one(8) by simp
  show ?case using rest one(1,3) fees out inn undo tree by simp
qed

lemma ConnectBlock_tx_i64:
  assumes "ConnectBlock_tx nd tappend base nHeight fScriptChecks flags maintenance i tx st = Inr st'"
    "in_i64 (s_nFees st)" "in_i64 (s_nValueOut st)" "in_i64 (s_nValueIn st)"
  shows "in_i64 (s_nFees st') \<and> in_i64 (s_nValueOut st') \<and> in_i64 (s_nValueIn st')"
proof -
  obtain v where V: "GetValueOut tx = Inr v"
    using assms(1) by (auto simp: ConnectBlock_tx_def Let_def bindE_eq_Inr_iff value_throw_Inr split: if_splits)
  show ?thesis by (rule ConnectBlock_tx_run[OF assms(1) V]) (use assms(2-4) in \<open>simp add: tx_state_def\<close>)
qed

lemma ConnectBlock_txs_i64:
  assumes "ConnectBlock_txs nd tappend base nHeight fScriptChecks flags maintenance i txs st = Inr st'"
    "in_i64 (s_nFees st)" "in_i64 (s_nValueOut st)" "in_i64 (s_nValueIn st)"
  shows "in_i64 (s_nFees st')" "in_i64 (s_nValueOut st')" "in_i64 (s_nValueIn st')"
proof -
  have "in_i64 (s_nFees st') \<and> in_i64 (s_nValueOut st') \<and> in_i64 (s_nValueIn st')"
    using assms
  proof (induction txs arbitrary: i st)
    case (Cons tx txs)
    then obtain st1 where st1: "ConnectBlock_tx nd tappend base nHeight fScriptChecks flags maintenance i tx st = Inr st1"
      "ConnectBlock_txs nd tappend base nHeight fScriptChecks flags maintenance (i + 1) txs st1 = Inr st'"
      by (auto simp: bindE_eq_Inr_iff)
    then show ?case using Cons.IH[OF st1(2)] ConnectBlock_tx_i64[OF st1(1) Cons.prems(2-4)] by blast
  qed simp
  then show "in_i64 (s_nFees st')" "in_i64 (s_nValueOut st')" "in_i64 (s_nValueIn st')" by blast+
qed

section \<open>What a checked block is\<close>

definition block_checked :: "node \<Rightarrow> CBlock \<Rightarrow> bool" where
  "block_checked nd block \<longleftrightarrow>
     vtx block \<noteq> [] \<and> IsCoinBase (hd (vtx block)) \<and> (\<forall>tx\<in>set (tl (vtx block)). \<not> IsCoinBase tx) \<and>
     (IsProofOfStake block \<longrightarrow> (\<forall>tx\<in>set (drop 2 (vtx block)). \<not> IsCoinStake tx)) \<and>
     (\<exists>cs. \<forall>tx\<in>set (vtx block). CheckTransaction (n_consensus nd) tx cs = Inr ())"

lemma CheckBlock_txs_ok: "CheckBlock_txs par cs txs = Inr () \<longleftrightarrow> (\<forall>tx\<in>set txs. CheckTransaction par tx cs = Inr ())"
  by (induction txs) (auto simp: bindE_eq_Inr_iff)

lemma CheckBlock_block_checked:
  assumes "CheckBlock nd block fChecked a b d = Inr r" "fChecked \<longrightarrow> block_checked nd block"
  shows "block_checked nd block"
proof (cases fChecked)
  case False
  obtain cs where "CheckBlock_txs (n_consensus nd) cs (vtx block) = Inr ()"
    "vtx block \<noteq> []" "IsCoinBase (vtx block ! 0)" "\<not> list_ex IsCoinBase (tl (vtx block))"
    "\<not> (IsProofOfStake block \<and> list_ex IsCoinStake (drop 2 (vtx block)))"
    using assms(1) False unfolding CheckBlock_def by (auto simp: Let_def split_beta bindE_eq_Inr_iff split: if_splits)
  then show ?thesis by (auto simp: block_checked_def CheckBlock_txs_ok hd_conv_nth list_ex_iff)
qed (use assms(2) in simp)

section \<open>The whole block\<close>

definition connected :: "'tree tree_ops \<Rightarrow> ('tree \<Rightarrow> uint256 \<Rightarrow> 'tree) \<Rightarrow> nat \<Rightarrow> CTransaction list \<Rightarrow> 'tree \<Rightarrow> uint256 \<Rightarrow> utxo_state \<Rightarrow> utxo_state" where
  "connected T tappend nHeight txs tree h s =
     (let rt = tree_root T (fold (append_outputs tappend) txs tree)
      in (apply_txs nHeight txs s)\<lparr>u_anchors := insert rt (u_anchors s), u_best_block := h, u_best_anchor := rt\<rparr>)"

lemma run_queue_ok: "run_queue cr cks = Inr () \<Longrightarrow> \<forall>ck\<in>set cks. CScriptCheck cr ck = Some True"
  by (auto simp: run_queue_def list_all_iff split: if_splits)

lemma ConnectBlock_body_ok:
  assumes "view_ok T base" "cache_at T base c s" "money_ok nd" "\<forall>tx\<in>set (vtx block). tx_checked nd tx" "fresh_txs (vtx block) s"
    "\<not> SkipInvalidUTXOS (n_params nd) (ix_nHeight pindex)" "n_LookupBlockIndex nd (u_best_block s) = Some h"
    "ConnectBlock_body nd T tappend base pindex block tree c = Inr (undo, c')"
    "nHeight = ci_nHeight (ix_entry pindex)" "fsc = (n_estimate nd \<le> int nHeight)"
    "flags = connect_flags (n_consensus nd) fsc (ix_pprev pindex)"
    "rt = tree_root T (fold (append_outputs tappend) (vtx block) tree)" "\<not> uint256_IsNull rt" "u_best_anchor s \<in> u_anchors s"
  shows "txs_fit nHeight (vtx block) s" "txs_valid nd (h + 1) fsc flags nHeight (vtx block) s"
    "cache_at T base c' ((apply_txs nHeight (vtx block) s)\<lparr>u_anchors := insert rt (u_anchors s), u_best_anchor := rt\<rparr>)"
    "undo = tl (undo_txs nHeight (vtx block) s)"
    "ConnectBlock_amounts nd (int nHeight) (IsProofOfStake block) (vtx block ! 0) (wrap64 (sum_txs tx_fee nHeight (vtx block) s))
       (wrap64 (sum_txs outs nHeight (vtx block) s)) (wrap64 (sum_txs tx_in nHeight (vtx block) s)) = Inr ()"
    "NetworkUpgradeActive (n_consensus nd) (int nHeight) UPGRADE_V5_0 \<longrightarrow> hashFinalSaplingRoot block = rt"
proof -
  define st0 where "st0 c1 = \<lparr>s_view = c1, s_nFees = 0, s_nSigOps = 0, s_nValueOut = 0, s_nValueIn = 0, s_sapling_tree = tree,
             s_blockundo = [], s_checks = []\<rparr>" for c1
  obtain c1 st m where run: "ConnectBlock_superblock nd base (ix_nHeight pindex) (vtx block) c = Inr c1"
    "ConnectBlock_txs nd tappend base nHeight fsc flags m 0 (vtx block) (st0 c1) = Inr st"
    "NetworkUpgradeActive (n_consensus nd) (int nHeight) UPGRADE_V5_0 \<longrightarrow> hashFinalSaplingRoot block = tree_root T (s_sapling_tree st)"
    "ConnectBlock_amounts nd (int nHeight) (IsProofOfStake block) (vtx block ! 0) (s_nFees st) (s_nValueOut st) (s_nValueIn st) = Inr ()"
    "run_queue (n_crypto nd) (s_checks st) = Inr ()" "undo = s_blockundo st" "c' = PushAnchor T base (s_sapling_tree st) (s_view st)"
    using assms(8) unfolding ConnectBlock_body_def Let_def st0_def[symmetric] assms(9,10,11)
    by (auto simp: bindE_eq_Inr_iff split: if_splits)
  have c1: "cache_at T base (s_view (st0 c1)) s" using superblock_ok[OF assms(2) run(1)] by (simp add: st0_def)
  have skip: "\<not> SkipInvalidUTXOS (n_params nd) (int nHeight)" using assms(6,9) by simp
  note B = ConnectBlock_txs_ok[OF assms(1) c1 assms(3,4,5) skip assms(7) run(2) run_queue_ok[OF run(5)]]
  show "txs_fit nHeight (vtx block) s" "txs_valid nd (h + 1) fsc flags nHeight (vtx block) s" using B by blast+
  show "undo = tl (undo_txs nHeight (vtx block) s)" using B run(6) by (simp add: st0_def)
  have tree: "tree_root T (s_sapling_tree st) = rt" using B assms(12) by (simp add: st0_def)
  show "NetworkUpgradeActive (n_consensus nd) (int nHeight) UPGRADE_V5_0 \<longrightarrow> hashFinalSaplingRoot block = rt" using run(3) tree by simp
  have i64: "in_i64 (s_nFees st)" "in_i64 (s_nValueOut st)" "in_i64 (s_nValueIn st)"
    using ConnectBlock_txs_i64[OF run(2)] by (simp_all add: st0_def in_i64_def)
  show "ConnectBlock_amounts nd (int nHeight) (IsProofOfStake block) (vtx block ! 0) (wrap64 (sum_txs tx_fee nHeight (vtx block) s))
       (wrap64 (sum_txs outs nHeight (vtx block) s)) (wrap64 (sum_txs tx_in nHeight (vtx block) s)) = Inr ()"
    using run(4) B i64 by (simp add: st0_def)
  have at: "cache_inv T base (s_view st)" "abs_cache base (s_view st) = apply_txs nHeight (vtx block) s" using B by (simp_all add: cache_at_def)
  have best: "u_best_anchor (apply_txs nHeight (vtx block) s) \<in> u_anchors (apply_txs nHeight (vtx block) s)"
    using assms(14) by (simp add: apply_txs_keeps)
  have push: "cache_inv T base (PushAnchor T base (s_sapling_tree st) (s_view st))"
    "abs_cache base (PushAnchor T base (s_sapling_tree st) (s_view st)) =
      (apply_txs nHeight (vtx block) s)\<lparr>u_anchors := insert rt (u_anchors s), u_best_anchor := rt\<rparr>"
    using PushAnchor_ok[OF at(1), of "s_sapling_tree st"] best assms(13) unfolding at(2) tree by (simp_all add: apply_txs_keeps)
  show "cache_at T base c' ((apply_txs nHeight (vtx block) s)\<lparr>u_anchors := insert rt (u_anchors s), u_best_anchor := rt\<rparr>)"
    unfolding cache_at_def run(7) using push by (rule conjI)
qed

text \<open>
  What connecting relies on, besides the checks of the block: the block is not the genesis block and has no zerocoins,
  its transaction ids are new, its height is not one at which listed outputs are skipped, the block of the view is in
  the block index, and no Sapling tree has the null root.
\<close>

definition connectable :: "node \<Rightarrow> 'tree tree_ops \<Rightarrow> connect_index \<Rightarrow> CBlock \<Rightarrow> int \<Rightarrow> utxo_state \<Rightarrow> bool" where
  "connectable nd T pindex block h s \<longleftrightarrow>
     money_ok nd \<and> GetBlockHash (n_HashQuark nd) block \<noteq> hashGenesisBlock (n_consensus nd) \<and>
     (\<forall>tx\<in>set (vtx block). \<not> ContainsZerocoins tx) \<and> fresh_txs (vtx block) s \<and>
     \<not> SkipInvalidUTXOS (n_params nd) (ix_nHeight pindex) \<and> n_LookupBlockIndex nd (u_best_block s) = Some h \<and>
     \<not> uint256_IsNull (ci_hash (ix_entry pindex)) \<and> (\<forall>t. \<not> uint256_IsNull (tree_root T t))"

lemma ConnectBlock_run:
  assumes "ConnectBlock nd T tappend base pindex block fChecked False c = Inr (c', undo, e)"
    "GetBlockHash (n_HashQuark nd) block \<noteq> hashGenesisBlock (n_consensus nd)"
  obtains r c1 c2 anchor c3 tree blockundo c4 where "CheckBlock nd block fChecked True True True = Inr r"
    "GetBestBlock base c = (case ix_pprev pindex of None \<Rightarrow> null_hash | Some (h, _) \<Rightarrow> h, c1)"
    "GetBestAnchor base c1 = (anchor, c2)" "GetSaplingAnchorAt base anchor c2 = (Some tree, c3)"
    "ConnectBlock_body nd T tappend base pindex block tree c3 = Inr (blockundo, c4)"
    "ConnectBlock_undo nd blockundo (ix_entry pindex) = Inr (undo, e)" "c' = SetBestBlock (ci_hash (ix_entry pindex)) c4"
    "IsProofOfStake block \<and> \<not> NetworkUpgradeActive (n_consensus nd) (ix_nHeight pindex) UPGRADE_V6_0 \<longrightarrow>
       length (vout (vtx block ! 0)) = 1 \<and> CTxOut_IsEmpty (vout (vtx block ! 0) ! 0)"
proof -
  obtain r where r: "CheckBlock nd block fChecked True True True = Inr r"
    using assms(1) unfolding ConnectBlock_def by (auto split: sum.splits reject.splits)
  obtain best c1 where G: "GetBestBlock base c = (best, c1)" by fastforce
  obtain anchor c2 where A: "GetBestAnchor base c1 = (anchor, c2)" by fastforce
  obtain t c3 where S: "GetSaplingAnchorAt base anchor c2 = (t, c3)" by fastforce
  have best: "best = (case ix_pprev pindex of None \<Rightarrow> null_hash | Some (h, _) \<Rightarrow> h)"
    using assms(1) by (simp add: ConnectBlock_def r G Let_def split: if_splits)
  have rest: "(case t of None \<Rightarrow> Inl AssertFail
      | Some tree \<Rightarrow> bindE (ConnectBlock_body nd T tappend base pindex block tree c3) (\<lambda>(blockundo, c4).
           if False then Inr (c4, None, ix_entry pindex)
           else bindE (ConnectBlock_undo nd blockundo (ix_entry pindex)) (\<lambda>(undo, e).
             Inr (SetBestBlock (ci_hash (ix_entry pindex)) c4, undo, e)))) = Inr (c', undo, e)"
    using assms by (simp add: ConnectBlock_def r G A S Let_def split: if_splits)
  then obtain tree where t: "t = Some tree" by (cases t) simp_all
  have cb: "IsProofOfStake block \<and> \<not> NetworkUpgradeActive (n_consensus nd) (ix_nHeight pindex) UPGRADE_V6_0 \<longrightarrow>
       length (vout (vtx block ! 0)) = 1 \<and> CTxOut_IsEmpty (vout (vtx block ! 0) ! 0)"
    using assms by (simp add: ConnectBlock_def r G Let_def split: if_splits) blast
  show thesis
    using rest that[OF r _ A] G S best t cb by (auto simp: bindE_eq_Inr_iff)
qed

lemma ConnectBlock_undo_ok:
  assumes "ConnectBlock_undo nd blockundo i = Inr (undo, e)"
  shows "undo = (if ci_nStatus i AND BLOCK_HAVE_UNDO = 0 then Some blockundo else None)"
  using assms by (auto simp: ConnectBlock_undo_def Let_def split: if_splits)

lemma tips_commute: "(s :: utxo_state)\<lparr>u_anchors := A, u_best_block := bb, u_best_anchor := ba\<rparr> = s\<lparr>u_anchors := A, u_best_anchor := ba, u_best_block := bb\<rparr>"
  by (cases s) simp

lemma ConnectBlock_ok:
  assumes "view_ok T base" "cache_at T base c s" "connectable nd T pindex block h s" "fChecked \<longrightarrow> block_checked nd block"
    "ConnectBlock nd T tappend base pindex block fChecked False c = Inr (c', undo, e)"
    "nHeight = ci_nHeight (ix_entry pindex)" "fsc = (n_estimate nd \<le> int nHeight)"
  obtains tree where "tree_root T tree = u_best_anchor s" "u_best_anchor s \<in> u_anchors s" "block_checked nd block"
    "u_best_block s = (case ix_pprev pindex of None \<Rightarrow> null_hash | Some (h, _) \<Rightarrow> h)"
    "txs_fit nHeight (vtx block) s"
    "txs_valid nd (h + 1) fsc (connect_flags (n_consensus nd) fsc (ix_pprev pindex)) nHeight (vtx block) s"
    "cache_at T base c' (connected T tappend nHeight (vtx block) tree (ci_hash (ix_entry pindex)) s)"
    "undo = (if ci_nStatus (ix_entry pindex) AND BLOCK_HAVE_UNDO = 0 then Some (tl (undo_txs nHeight (vtx block) s)) else None)"
    "ConnectBlock_amounts nd (int nHeight) (IsProofOfStake block) (vtx block ! 0) (wrap64 (sum_txs tx_fee nHeight (vtx block) s))
       (wrap64 (sum_txs outs nHeight (vtx block) s)) (wrap64 (sum_txs tx_in nHeight (vtx block) s)) = Inr ()"
    "NetworkUpgradeActive (n_consensus nd) (int nHeight) UPGRADE_V5_0 \<longrightarrow>
       hashFinalSaplingRoot block = tree_root T (fold (append_outputs tappend) (vtx block) tree)"
    "IsProofOfStake block \<and> \<not> NetworkUpgradeActive (n_consensus nd) (int nHeight) UPGRADE_V6_0 \<longrightarrow>
       length (vout (vtx block ! 0)) = 1 \<and> CTxOut_IsEmpty (vout (vtx block ! 0) ! 0)"
proof -
  have C: "money_ok nd" "GetBlockHash (n_HashQuark nd) block \<noteq> hashGenesisBlock (n_consensus nd)"
    "\<forall>tx\<in>set (vtx block). \<not> ContainsZerocoins tx" "fresh_txs (vtx block) s"
    "\<not> SkipInvalidUTXOS (n_params nd) (ix_nHeight pindex)" "n_LookupBlockIndex nd (u_best_block s) = Some h"
    "\<not> uint256_IsNull (ci_hash (ix_entry pindex))" "\<And>t. \<not> uint256_IsNull (tree_root T t)"
    using assms(3) by (auto simp: connectable_def)
  obtain r c1 c2 anchor c3 tree blockundo c4 where run:
    "CheckBlock nd block fChecked True True True = Inr r"
    "GetBestBlock base c = (case ix_pprev pindex of None \<Rightarrow> null_hash | Some (h, _) \<Rightarrow> h, c1)"
    "GetBestAnchor base c1 = (anchor, c2)" "GetSaplingAnchorAt base anchor c2 = (Some tree, c3)"
    "ConnectBlock_body nd T tappend base pindex block tree c3 = Inr (blockundo, c4)"
    "ConnectBlock_undo nd blockundo (ix_entry pindex) = Inr (undo, e)" "c' = SetBestBlock (ci_hash (ix_entry pindex)) c4"
    "IsProofOfStake block \<and> \<not> NetworkUpgradeActive (n_consensus nd) (ix_nHeight pindex) UPGRADE_V6_0 \<longrightarrow>
       length (vout (vtx block ! 0)) = 1 \<and> CTxOut_IsEmpty (vout (vtx block ! 0) ! 0)"
    by (rule ConnectBlock_run[OF assms(5) C(2)])
  have c1: "cache_at T base c1 s" using cache_at_BestBlock[OF assms(2)] run(2) by simp
  have c2: "cache_at T base c2 s" and an: "anchor = u_best_anchor s" using cache_at_BestAnchor[OF c1] run(3) by simp_all
  have c3: "cache_at T base c3 s" using cache_at_Anchor[OF assms(1) c2, of anchor] run(4) by simp
  have root: "tree_root T tree = u_best_anchor s" using Anchor_root[OF assms(1) c2, of anchor tree] run(4) an by simp
  have mem: "u_best_anchor s \<in> u_anchors s" using Anchor_known[OF c2, of anchor] run(4) an by simp
  have bb: "u_best_block s = (case ix_pprev pindex of None \<Rightarrow> null_hash | Some (h, _) \<Rightarrow> h)"
    using BestBlock_known[OF assms(2)] run(2) by simp
  have chk: "block_checked nd block" by (rule CheckBlock_block_checked[OF run(1) assms(4)])
  then have txs: "\<forall>tx\<in>set (vtx block). tx_checked nd tx" using C(3) by (auto simp: block_checked_def tx_checked_def)
  note B = ConnectBlock_body_ok[OF assms(1) c3 C(1) txs C(4,5,6) run(5) assms(6,7) refl refl C(8) mem]
  have "cache_at T base c' (connected T tappend nHeight (vtx block) tree (ci_hash (ix_entry pindex)) s)"
    using cache_at_SetBestBlock[OF B(3) C(7)] unfolding run(7) connected_def Let_def tips_commute .
  then show thesis
    using ConnectBlock_undo_ok[OF run(6)] B(4) by (intro that[OF root mem chk bb B(1,2) _ _ B(5,6)]) (use run(8) assms(6) in simp_all)
qed

text \<open>
  (C3) When \<open>ConnectBlock\<close> accepts a block, the block is well-formed and, taking its transactions in order, every
  input of each but the coinbase spends a coin that is there, is in the money range and is mature, the shielded
  requirements hold, a transaction other than the coinbase and the coinstake pays out no more than it takes in, and
  from the checkpoint height on every input script verifies.  The view then shows exactly the state in which the
  transactions are applied in order, the new Sapling root is the best anchor and the block is the best block.
  \<open>connectable\<close> says what this needs: the block is not the genesis block and has no zerocoins, its transaction ids are new,
  its height is not one at which listed outputs are skipped, the view's block is in the index, and no Sapling tree
  has the null root; a block marked as checked has passed \<open>CheckBlock\<close> before.
\<close>

theorem ConnectBlock_sound:
  assumes "view_ok T base" "cache_at T base c s" "connectable nd T pindex block h s" "fChecked \<longrightarrow> block_checked nd block"
    "ConnectBlock nd T tappend base pindex block fChecked False c = Inr (c', undo, e)"
    "nHeight = ci_nHeight (ix_entry pindex)" "fsc = (n_estimate nd \<le> int nHeight)"
  shows "block_checked nd block \<and>
    txs_valid nd (h + 1) fsc (connect_flags (n_consensus nd) fsc (ix_pprev pindex)) nHeight (vtx block) s \<and>
    (\<exists>tree. tree_root T tree = u_best_anchor s \<and>
       cache_at T base c' (connected T tappend nHeight (vtx block) tree (ci_hash (ix_entry pindex)) s))"
  by (rule ConnectBlock_ok[OF assms]) (intro conjI exI, assumption+)

text \<open>
  (C2) Disconnecting a block that was just connected, with the undo data that \<open>ConnectBlock\<close> wrote, succeeds
  without a complaint and restores the coins, nullifiers, anchors and tips that the view had before.  The hypotheses,
  besides those of connecting, say that the coins are well-formed, that the previous block's entry and best anchor
  are those of the view, and that the root of the block's Sapling tree is the previous one or new.
\<close>

theorem ConnectBlock_DisconnectBlock:
  assumes "view_ok T base" "cache_at T base c s" "connectable nd T pindex block h s" "fChecked \<longrightarrow> block_checked nd block"
    "ConnectBlock nd T tappend base pindex block fChecked False c = Inr (c', Some undo, e)"
    "utxo_wf s" "0 < ci_nHeight (ix_entry pindex)" "ix_pprev pindex = Some (prev_hash p, prev_nHeight p)"
    "\<not> uint256_IsNull (u_best_block s)" "empty_root T \<in> u_anchors s"
    "(if NetworkUpgradeActive (n_consensus nd) (prev_nHeight p) UPGRADE_V5_0 then prev_finalSaplingRoot p else empty_root T) = u_best_anchor s"
    "u_best_anchor (abs_cache base c') = u_best_anchor s \<or> u_best_anchor (abs_cache base c') \<notin> u_anchors s"
  shows "\<exists>c''. DisconnectBlock T (n_consensus nd) base (Some undo) p block c' = Inr (DISCONNECT_OK, c'') \<and> cache_at T base c'' s"
proof -
  define nHeight where "nHeight = ci_nHeight (ix_entry pindex)"
  define fsc where "fsc = (n_estimate nd \<le> int nHeight)"
  obtain tree where B:
    "tree_root T tree = u_best_anchor s" "u_best_anchor s \<in> u_anchors s" "block_checked nd block"
    "u_best_block s = (case ix_pprev pindex of None \<Rightarrow> null_hash | Some (h, _) \<Rightarrow> h)"
    "txs_fit nHeight (vtx block) s"
    "cache_at T base c' (connected T tappend nHeight (vtx block) tree (ci_hash (ix_entry pindex)) s)"
    "Some undo = (if ci_nStatus (ix_entry pindex) AND BLOCK_HAVE_UNDO = 0 then Some (tl (undo_txs nHeight (vtx block) s)) else None)"
    by (rule ConnectBlock_ok[OF assms(1-5) nHeight_def fsc_def])
  define rt where "rt = tree_root T (fold (append_outputs tappend) (vtx block) tree)"
  have u: "undo = tl (undo_txs nHeight (vtx block) s)" using B(7) by (simp split: if_splits)
  have at: "cache_at T base c' ((apply_txs nHeight (vtx block) s)
       \<lparr>u_anchors := insert rt (u_anchors s), u_best_block := ci_hash (ix_entry pindex), u_best_anchor := rt\<rparr>)"
    using B(6) by (simp add: connected_def rt_def Let_def)
  have cb: "vtx block \<noteq> []" "IsCoinBase (hd (vtx block))" using B(3) by (simp_all add: block_checked_def)
  have prev: "prev_hash p = u_best_block s" using B(4) assms(8) by simp
  have nn: "\<not> uint256_IsNull (u_best_anchor s)" using assms(3) B(1) unfolding connectable_def by metis
  have "u_best_anchor (abs_cache base c') = rt" using at by (simp add: cache_at_def)
  then have anc: "rt = u_best_anchor s \<or> rt \<notin> u_anchors s" using assms(12) by simp
  show ?thesis
    unfolding u by (rule DisconnectBlock_ok[OF assms(1,6) B(5) _ at cb prev assms(9,11) nn B(2) anc assms(10)])
      (use assms(7) in \<open>simp add: nHeight_def\<close>)
qed

section \<open>The money supply\<close>

definition worth :: "(COutPoint \<Rightarrow> Coin option) \<Rightarrow> COutPoint \<Rightarrow> CAmount" where
  "worth m op = (case m op of None \<Rightarrow> 0 | Some k \<Rightarrow> nValue (coin_out k))"

definition money_supply :: "utxo_state \<Rightarrow> CAmount" where
  "money_supply s = (\<Sum>op\<in>dom (u_coins s). worth (u_coins s) op)"

lemma finite_created: "finite (dom (created h mk i ts))"
  by (induction ts arbitrary: i) simp_all

lemma worth_created:
  assumes "\<forall>t\<in>set ts. 0 \<le> nValue t" "\<And>t. coin_out (mk t) = t" "i + length ts \<le> 2 ^ 32"
  shows "(\<Sum>op\<in>dom (created h mk i ts). worth (created h mk i ts) op) \<le> sum_list (map nValue ts)"
  using assms(1,3)
proof (induction ts arbitrary: i)
  case (Cons t ts)
  let ?m = "created h mk (i + 1) ts" and ?op = "mk_COutPoint h i"
  have IH: "(\<Sum>op\<in>dom ?m. worth ?m op) \<le> sum_list (map nValue ts)" using Cons by simp
  show ?case
  proof (cases "addable t")
    case True
    have new: "?op \<notin> dom ?m" using created_later[of i ts h mk] Cons.prems(2) by (simp add: dom_def)
    then have "(\<Sum>op\<in>dom ?m. worth (?m(?op \<mapsto> mk t)) op) = (\<Sum>op\<in>dom ?m. worth ?m op)"
      by (intro sum.cong refl) (auto simp: worth_def)
    then have "(\<Sum>op\<in>insert ?op (dom ?m). worth (?m(?op \<mapsto> mk t)) op) = nValue t + (\<Sum>op\<in>dom ?m. worth ?m op)"
      using new finite_created[of h mk "i + 1" ts] by (simp add: worth_def assms(2))
    then show ?thesis using True IH by (simp del: fun_upd_apply)
  next
    case False
    then show ?thesis using IH Cons.prems(1) by simp
  qed
qed simp

lemma worth_spent:
  assumes "finite (dom m)" "S \<subseteq> dom m"
  shows "(\<Sum>op\<in>dom (m |` (- S)). worth (m |` (- S)) op) = (\<Sum>op\<in>dom m. worth m op) - (\<Sum>op\<in>S. worth m op)"
proof -
  have "(\<Sum>op\<in>dom (m |` (- S)). worth (m |` (- S)) op) = (\<Sum>op\<in>dom m - S. worth m op)"
    by (rule sum.cong) (auto simp: worth_def)
  then show ?thesis using assms by (simp add: sum_diff)
qed

lemma worth_add:
  assumes "finite (dom m)" "finite (dom n)" "dom m \<inter> dom n = {}"
  shows "(\<Sum>op\<in>dom (m ++ n). worth (m ++ n) op) = (\<Sum>op\<in>dom m. worth m op) + (\<Sum>op\<in>dom n. worth n op)"
proof -
  have "(\<Sum>op\<in>dom (m ++ n). worth (m ++ n) op) = (\<Sum>op\<in>dom m. worth (m ++ n) op) + (\<Sum>op\<in>dom n. worth (m ++ n) op)"
    using assms by (subst sum.union_disjoint[symmetric]) (auto simp: Un_commute)
  also have "(\<Sum>op\<in>dom m. worth (m ++ n) op) = (\<Sum>op\<in>dom m. worth m op)"
    using assms(3) by (intro sum.cong) (auto simp: worth_def map_add_def split: option.splits)
  also have "(\<Sum>op\<in>dom n. worth (m ++ n) op) = (\<Sum>op\<in>dom n. worth n op)"
    by (intro sum.cong) (auto simp: worth_def map_add_def)
  finally show ?thesis .
qed

lemma worth_spends:
  assumes "tx_fits tx s"
  shows "(\<Sum>op\<in>spends tx. worth (u_coins s) op) = (if IsCoinBase tx then 0 else coins_in tx s)"
proof (cases "IsCoinBase tx")
  case False
  then have d: "distinct (map prevout (vin tx))" "prevout ` set (vin tx) \<subseteq> dom (u_coins s)" using assms by (simp_all add: tx_fits_def)
  have "(\<Sum>op\<in>set (map prevout (vin tx)). worth (u_coins s) op) = sum_list (map (worth (u_coins s)) (map prevout (vin tx)))"
    using d(1) by (rule sum_list_distinct_conv_sum_set[symmetric])
  also have "\<dots> = coins_in tx s" unfolding coins_in_def map_map
    using d(2) by (intro arg_cong[of _ _ sum_list] map_cong refl) (auto simp: worth_def input_value_def dom_def split: option.splits)
  finally show ?thesis using False by (simp add: spends_def)
qed (simp add: spends_def)

text \<open>What a transaction moves into the shielded pool.\<close>

definition to_pool :: "CTransaction \<Rightarrow> CAmount" where
  "to_pool tx = shielded_out tx - shielded_in tx"

lemma supply_apply_tx:
  assumes "tx_fits tx s" "finite (dom (u_coins s))" "tx_checked nd tx" "money_ok nd"
  shows "money_supply (apply_tx nHeight tx s) + to_pool tx \<le> money_supply s + total_out tx - tx_in tx s"
    "finite (dom (u_coins (apply_tx nHeight tx s)))"
proof -
  obtain cs where cs: "CheckTransaction (n_consensus nd) tx cs = Inr ()" using assms(3) by (auto simp: tx_checked_def)
  have m: "0 \<le> nMaxMoneyOut (n_consensus nd)" "nMaxMoneyOut (n_consensus nd) \<le> INT64_MAX" using assms(4) by (simp_all add: money_ok_def)
  note S = CheckTransaction_sound[OF cs m]
  define old new where "old = u_coins s |` (- spends tx)" and "new = created (GetHash tx) (new_coin tx nHeight) 0 (vout tx)"
  have ap: "u_coins (apply_tx nHeight tx s) = old ++ new" by (simp add: apply_tx_def old_def new_def)
  have fin: "finite (dom old)" "finite (dom new)" using assms(2) by (simp_all add: old_def new_def finite_created)
  then show "finite (dom (u_coins (apply_tx nHeight tx s)))" by (simp add: ap)
  have "dom old \<inter> dom new = {}" using created_fresh[OF assms(1), of "new_coin tx nHeight"] by (auto simp: old_def new_def)
  then have sup: "money_supply (apply_tx nHeight tx s) = (\<Sum>op\<in>dom old. worth old op) + (\<Sum>op\<in>dom new. worth new op)"
    unfolding money_supply_def ap by (rule worth_add[OF fin])
  have "spends tx \<subseteq> dom (u_coins s)" using assms(1) by (auto simp: spends_def tx_fits_def)
  then have o: "(\<Sum>op\<in>dom old. worth old op) = money_supply s - (if IsCoinBase tx then 0 else coins_in tx s)"
    unfolding old_def money_supply_def by (subst worth_spent[OF assms(2)]) (simp_all add: worth_spends[OF assms(1)])
  have n: "(\<Sum>op\<in>dom new. worth new op) \<le> sum_list (map nValue (vout tx))"
    unfolding new_def using S(2) assms(1) by (intro worth_created) (auto simp: MoneyRange_def new_coin_def tx_fits_def)
  have "IsCoinBase tx \<Longrightarrow> shielded_in tx = 0" using S(6) by (auto simp: shielded_in_def)
  then show "money_supply (apply_tx nHeight tx s) + to_pool tx \<le> money_supply s + total_out tx - tx_in tx s"
    using sup o n by (simp add: to_pool_def total_out_def tx_in_def)
qed

lemma supply_apply_txs:
  assumes "txs_fit nHeight txs s" "finite (dom (u_coins s))" "\<forall>tx\<in>set txs. tx_checked nd tx" "money_ok nd"
  shows "money_supply (apply_txs nHeight txs s) + sum_list (map to_pool txs) \<le>
    money_supply s + sum_txs outs nHeight txs s - sum_txs tx_in nHeight txs s"
  using assms(1-3)
proof (induction txs arbitrary: s)
  case (Cons tx txs)
  have fit: "tx_fits tx s" "txs_fit nHeight txs (apply_tx nHeight tx s)" using Cons.prems(1) by simp_all
  have ck: "tx_checked nd tx" "\<forall>tx\<in>set txs. tx_checked nd tx" using Cons.prems(3) by simp_all
  note one = supply_apply_tx[OF fit(1) Cons.prems(2) ck(1) assms(4), of nHeight]
  show ?case using Cons.IH[OF fit(2) one(2) ck(2)] one(1) by simp
qed simp

text \<open>What a transaction claims beyond what its inputs and the fees give.\<close>

definition tx_mint :: "CTransaction \<Rightarrow> utxo_state \<Rightarrow> CAmount" where
  "tx_mint tx s = (if IsCoinBase tx \<or> IsCoinStake tx then total_out tx - tx_in tx s else 0)"

lemma sum_txs_mint: "sum_txs outs nHeight txs s - sum_txs tx_in nHeight txs s + sum_txs tx_fee nHeight txs s = sum_txs tx_mint nHeight txs s"
proof (induction txs arbitrary: s)
  case (Cons tx txs)
  have "total_out tx - tx_in tx s + tx_fee tx s = tx_mint tx s" by (simp add: tx_mint_def tx_fee_def)
  then show ?case using Cons.IH[of "apply_tx nHeight tx s"] by simp
qed simp

lemma tx_fee_nonneg: "tx_valid nd h fsc flags tx s \<Longrightarrow> 0 \<le> tx_fee tx s"
  by (auto simp: tx_valid_def tx_fee_def tx_in_def)

lemma sum_fees_nonneg: "txs_valid nd h fsc flags nHeight txs s \<Longrightarrow> 0 \<le> sum_txs tx_fee nHeight txs s"
  by (induction txs arbitrary: s) (auto dest!: tx_fee_nonneg)

lemma sum_txs_zero:
  assumes "\<forall>tx\<in>set txs. \<not> IsCoinBase tx \<and> \<not> IsCoinStake tx"
  shows "sum_txs tx_mint nHeight txs s = 0"
  using assms by (induction txs arbitrary: s) (auto simp: tx_mint_def)

lemma wrap64_le: "- 9223372036854775808 \<le> x \<Longrightarrow> wrap64 x \<le> x"
proof -
  assume "- 9223372036854775808 \<le> x"
  then have "0 \<le> x + 9223372036854775808" by simp
  then have "(x + 9223372036854775808) mod 18446744073709551616 \<le> x + 9223372036854775808" by (rule zmod_le_nonneg_dividend)
  then show ?thesis by (simp add: wrap64_def)
qed

lemma GetBlockValue_eq: "GetBlockValue h = Some (if h = 1 then 72000000000 * COIN else 0)"
  by (simp add: GetBlockValue_def GetPremineTotal_eq)

lemma ConnectBlock_amounts_ok:
  assumes "ConnectBlock_amounts nd h pos cb (wrap64 F) (wrap64 V) (wrap64 I) = Inr ()" "in_i64 (V - I + F)" "0 \<le> F"
  shows "V - I + (if pos then F else 0) \<le> (if h = 1 then 72000000000 * COIN else 0)"
proof -
  have mint: "wrap64 (wrap64 (wrap64 V - wrap64 I) + wrap64 F) = V - I + F" using assms(2) by simp
  define bv where "bv = (if h = 1 then 72000000000 * COIN else 0)"
  have bv: "0 \<le> bv" by (simp add: bv_def)
  have "V - I + F \<le> (if pos then bv else wrap64 (bv + wrap64 F))"
    using assms(1) unfolding ConnectBlock_amounts_def Let_def mint GetBlockValue_eq bv_def[symmetric] by (auto split: if_splits)
  moreover have "wrap64 (bv + wrap64 F) \<le> bv + F" using wrap64_le[of "bv + F"] bv assms(3) by simp
  ultimately show ?thesis unfolding bv_def[symmetric] by auto
qed

text \<open>
  The block mints nothing but what the coinbase and the coinstake claim, which fits into 64 bits: in a block that is
  staked the coinbase is empty, and in one that is mined there is no coinstake.
\<close>

lemma tx_mint_range:
  assumes "tx_valid nd h fsc flags tx s" "tx_checked nd tx" "money_ok nd"
  shows "- INT64_MAX \<le> tx_mint tx s" "tx_mint tx s \<le> INT64_MAX"
proof -
  obtain cs where cs: "CheckTransaction (n_consensus nd) tx cs = Inr ()" using assms(2) by (auto simp: tx_checked_def)
  have m: "0 \<le> nMaxMoneyOut (n_consensus nd)" "nMaxMoneyOut (n_consensus nd) \<le> INT64_MAX" using assms(3) by (simp_all add: money_ok_def)
  note S = CheckTransaction_sound[OF cs m]
  have "IsCoinStake tx \<Longrightarrow> shielded_in tx = 0" using S(6) by (auto simp: shielded_in_def)
  then have "tx_mint tx s = 0 \<or> (IsCoinBase tx \<and> tx_mint tx s = total_out tx) \<or>
      (\<not> IsCoinBase tx \<and> tx_mint tx s = total_out tx - coins_in tx s)"
    by (auto simp: tx_mint_def tx_in_def)
  then show "- INT64_MAX \<le> tx_mint tx s" "tx_mint tx s \<le> INT64_MAX"
    using S(3) m assms(1) by (auto simp: MoneyRange_def tx_valid_def)
qed

definition one_minter :: "node \<Rightarrow> nat \<Rightarrow> CBlock \<Rightarrow> bool" where
  "one_minter nd nHeight block \<longleftrightarrow>
     (if IsProofOfStake block then \<not> NetworkUpgradeActive (n_consensus nd) (int nHeight) UPGRADE_V6_0
      else \<forall>tx\<in>set (vtx block). \<not> IsCoinStake tx)"

lemma block_mint_range:
  assumes "block_checked nd block" "txs_valid nd h fsc flags nHeight (vtx block) s" "\<forall>tx\<in>set (vtx block). tx_checked nd tx" "money_ok nd"
    "one_minter nd nHeight block"
    "IsProofOfStake block \<and> \<not> NetworkUpgradeActive (n_consensus nd) (int nHeight) UPGRADE_V6_0 \<longrightarrow>
       length (vout (vtx block ! 0)) = 1 \<and> CTxOut_IsEmpty (vout (vtx block ! 0) ! 0)"
  shows "in_i64 (sum_txs tx_mint nHeight (vtx block) s)"
proof -
  obtain cb txs where v: "vtx block = cb # txs" using assms(1) by (auto simp: block_checked_def neq_Nil_conv)
  have cb: "IsCoinBase cb" "\<forall>tx\<in>set txs. \<not> IsCoinBase tx" using assms(1) v by (simp_all add: block_checked_def)
  have r: "- INT64_MAX \<le> tx_mint cb s" "tx_mint cb s \<le> INT64_MAX"
    using tx_mint_range[of nd h fsc flags cb s] assms(2-4) v by simp_all
  show ?thesis
  proof (cases "IsProofOfStake block")
    case False
    then have "\<forall>tx\<in>set txs. \<not> IsCoinBase tx \<and> \<not> IsCoinStake tx" using assms(5) cb v by (simp add: one_minter_def)
    then show ?thesis using r by (simp add: v sum_txs_zero in_i64_def)
  next
    case True
    obtain cs' txs' where v': "txs = cs' # txs'" using True v by (cases txs) (simp_all add: IsProofOfStake_def)
    have "\<forall>tx\<in>set txs'. \<not> IsCoinBase tx \<and> \<not> IsCoinStake tx" using assms(1) cb True v v' by (simp add: block_checked_def)
    moreover have "tx_mint cb s = 0"
    proof -
      obtain c where c: "CheckTransaction (n_consensus nd) cb c = Inr ()" using assms(3) v by (auto simp: tx_checked_def)
      have m: "0 \<le> nMaxMoneyOut (n_consensus nd)" "nMaxMoneyOut (n_consensus nd) \<le> INT64_MAX" using assms(4) by (simp_all add: money_ok_def)
      have "shielded_out cb = 0" using CheckTransaction_sound(6)[OF c m] cb(1) by (auto simp: shielded_out_def)
      moreover obtain t where "vout cb = [t]" "nValue t = 0"
        using assms(5,6) True v by (auto simp: one_minter_def CTxOut_IsEmpty_def length_Suc_conv)
      ultimately show ?thesis using cb(1) by (simp add: tx_mint_def total_out_def tx_in_def)
    qed
    moreover have "- INT64_MAX \<le> tx_mint cs' (apply_tx nHeight cb s)" "tx_mint cs' (apply_tx nHeight cb s) \<le> INT64_MAX"
      using tx_mint_range[of nd h fsc flags cs' "apply_tx nHeight cb s"] assms(2-4) v v' by simp_all
    ultimately show ?thesis by (simp add: v v' sum_txs_zero in_i64_def)
  qed
qed

text \<open>
  (C1) A connected block creates no money beyond the premine of block 1: the transparent supply plus what the
  transactions moved into the shielded pool grows by at most 72 billion coins in block 1 and not at all in any other
  block; in a staked block it even shrinks by the fees.  Besides the hypotheses of connecting, this needs
  \<open>one_minter\<close>: a staked block before the 6.0 upgrade, or a mined block without coinstakes.
\<close>

theorem ConnectBlock_no_inflation:
  assumes "view_ok T base" "cache_at T base c s" "connectable nd T pindex block h s" "fChecked \<longrightarrow> block_checked nd block"
    "ConnectBlock nd T tappend base pindex block fChecked False c = Inr (c', undo, e)"
    "nHeight = ci_nHeight (ix_entry pindex)" "one_minter nd nHeight block" "finite (dom (u_coins s))"
  shows "money_supply (abs_cache base c') + sum_list (map to_pool (vtx block)) +
      (if IsProofOfStake block then sum_txs tx_fee nHeight (vtx block) s else 0)
    \<le> money_supply s + (if nHeight = 1 then 72000000000 * COIN else 0)"
proof -
  define fsc where "fsc = (n_estimate nd \<le> int nHeight)"
  obtain tree where B: "block_checked nd block" "txs_fit nHeight (vtx block) s"
    "txs_valid nd (h + 1) fsc (connect_flags (n_consensus nd) fsc (ix_pprev pindex)) nHeight (vtx block) s"
    "cache_at T base c' (connected T tappend nHeight (vtx block) tree (ci_hash (ix_entry pindex)) s)"
    "ConnectBlock_amounts nd (int nHeight) (IsProofOfStake block) (vtx block ! 0) (wrap64 (sum_txs tx_fee nHeight (vtx block) s))
       (wrap64 (sum_txs outs nHeight (vtx block) s)) (wrap64 (sum_txs tx_in nHeight (vtx block) s)) = Inr ()"
    "IsProofOfStake block \<and> \<not> NetworkUpgradeActive (n_consensus nd) (int nHeight) UPGRADE_V6_0 \<longrightarrow>
       length (vout (vtx block ! 0)) = 1 \<and> CTxOut_IsEmpty (vout (vtx block ! 0) ! 0)"
    by (rule ConnectBlock_ok[OF assms(1-6) fsc_def])
  have m: "money_ok nd" and txs: "\<forall>tx\<in>set (vtx block). tx_checked nd tx"
    using assms(3) B(1) by (auto simp: connectable_def block_checked_def tx_checked_def)
  have "in_i64 (sum_txs outs nHeight (vtx block) s - sum_txs tx_in nHeight (vtx block) s + sum_txs tx_fee nHeight (vtx block) s)"
    unfolding sum_txs_mint by (rule block_mint_range[OF B(1,3) txs m assms(7) B(6)])
  note A = ConnectBlock_amounts_ok[OF B(5) this sum_fees_nonneg[OF B(3)]]
  have "money_supply (abs_cache base c') = money_supply (apply_txs nHeight (vtx block) s)"
    using B(4) by (simp add: cache_at_def connected_def Let_def money_supply_def)
  then show ?thesis using A supply_apply_txs[OF B(2) assms(8) txs m] by (simp split: if_splits)
qed


section \<open>An example\<close>

text \<open>
  A block with a coinbase only, on top of an empty set of coins.  The test chain is the regression test network
  with another genesis hash; the trees have two roots.
\<close>

definition example_coinbase :: CTransaction where
  "example_coinbase = CMutableTransaction\<lparr>
     vin := [\<lparr>prevout = \<lparr>out_hash = null_hash, out_n = 0xffffffff\<rparr>, scriptSig = [0x52, 0x51], nSequence = 0\<rparr>],
     vout := [\<lparr>nValue = 0, scriptPubKey = [0x51]\<rparr>]\<rparr>"

definition example_trees :: "nat tree_ops" where
  "example_trees = \<lparr>tree_root = (\<lambda>t. if even t then le_bytes 32 1 else le_bytes 32 2), tree_empty = 0\<rparr>"

definition example_coins :: "nat CCoinsView" where
  "example_coins = db_view example_trees (\<lparr>db_COIN = Map.empty, db_BEST_BLOCK = Some (le_bytes 32 9),
     db_HEAD_BLOCKS = None, db_SAPLING_ANCHOR = Map.empty, db_SAPLING_NULLIFIER = Map.empty,
     db_BEST_SAPLING_ANCHOR = None\<rparr>)"

definition example_state :: utxo_state where
  "example_state = \<lparr>u_coins = Map.empty, u_nullifiers = {}, u_anchors = {le_bytes 32 1}, u_best_block = le_bytes 32 9, u_best_anchor = le_bytes 32 1\<rparr>"

definition example_node :: node where
  "example_node = \<lparr>n_params = CRegTestParams\<lparr>consensus := CRegTestParams_consensus\<lparr>hashGenesisBlock := null_hash\<rparr>\<rparr>,
     n_checkpoints = False, n_crypto = \<lparr>c_blake2b = (\<lambda>_ _. []), c_verify = (\<lambda>_ _ _. False), c_lowS = (\<lambda>_. False)\<rparr>,
     n_HashQuark = (\<lambda>_. le_bytes 32 10), n_tip = Some (le_bytes 32 9, 1), n_LookupBlockIndex = (\<lambda>_. Some 1), n_blockAt = (\<lambda>_. None),
     n_invalid = (\<lambda>_. False), n_InitialBlockDownload = False, n_spork19 = False, n_spork20 = 4070908800,
     n_nScriptCheckThreads = 0, n_undoWritten = True, n_maxreorg = 100\<rparr>"

definition example_block :: CBlock where
  "example_block = (CBlock_of_header (CBlockHeader_SetNull\<lparr>bh_nVersion := 3, hashPrevBlock := le_bytes 32 9,
     hashFinalSaplingRoot := le_bytes 32 1\<rparr>))\<lparr>vtx := [example_coinbase]\<rparr>"

definition example_index :: connect_index where
  "example_index = \<lparr>ix_entry = \<lparr>ci_pprev = None, ci_pskip = None, ci_nHeight = 2, ci_nTime = 0, ci_nTimeMax = 0, ci_nBits = 0,
     ci_nChainWork = [], ci_vStakeModifier = [], ci_nStatus = 0, ci_hash = le_bytes 32 10\<rparr>,
     ix_pprev = Some (le_bytes 32 9, 1), ix_nChainSaplingValue = None\<rparr>"

lemma example_coins_ok: "view_ok example_trees example_coins" "cache_at example_trees example_coins mk_CCoinsViewCache example_state"
proof -
  show "view_ok example_trees example_coins" unfolding example_coins_def by (rule db_view_ok) (simp add: db_ok_def)
  have n: "uint256_IsNull null_hash" by code_simp
  have "abs_cache example_coins mk_CCoinsViewCache = example_state"
    by (intro utxo_state_eqI) (auto simp: n example_state_def example_coins_def mk_CCoinsViewCache_def db_view_def unspent_def
        DB_GetBestBlock_def DB_GetBestAnchor_def DB_GetSaplingAnchorAt_def example_trees_def)
  then show "cache_at example_trees example_coins mk_CCoinsViewCache example_state" by (simp add: cache_at_def cache_inv_empty)
qed

lemma example_scripts:
  "\<not> IsZerocoinSpend [0x52, 0x51]" "\<not> IsZerocoinPublicSpend [0x52, 0x51]" "\<not> IsZerocoinMint [0x51]" "\<not> IsPayToExchangeAddress [0x51]"
  "\<not> IsPayToColdStaking [0x51]"
  "GetSigOpCount [0x52, 0x51] False = 0" "GetSigOpCount [0x51] False = 0" "uint256_IsNull null_hash"
  by (code_simp, code_simp, code_simp, code_simp, code_simp, code_simp, code_simp, code_simp)

lemmas example_coinbase_defs = example_coinbase_def CMutableTransaction_def SaplingTxData_default_def

lemma example_coinbase_simps:
  "IsCoinBase example_coinbase" "\<not> IsCoinStake example_coinbase" "\<not> ContainsZerocoins example_coinbase" "\<not> IsShieldedTx example_coinbase"
  "GetLegacySigOpCount example_coinbase = 0" "GetValueOut example_coinbase = Inr 0"
  by (simp_all add: example_coinbase_defs example_scripts IsCoinBase_def IsCoinStake_def COutPoint_IsNull_def CTxIn_IsZerocoinSpend_def
      CTxIn_IsZerocoinPublicSpend_def CTxOut_IsZerocoinMint_def ContainsZerocoins_def HasZerocoinSpendInputs_def HasZerocoinMintOutputs_def
      IsShieldedTx_def isSaplingVersion_def GetLegacySigOpCount_def GetValueOut_def in_i64_def)

lemma example_coinbase_checked: "CheckTransaction (n_consensus example_node) example_coinbase False = Inr ()"
proof -
  have size: "GetTotalSize example_coinbase \<le> 100"
    by (simp add: GetTotalSize_def SerializeTransaction_def example_coinbase_defs isSaplingVersion_def VectorSer_def WriteCompactSize_def
        ser_CTxIn_def ser_COutPoint_def ser_CTxOut_def Serialize_bytes_def ser_int16_def ser_int64_def ser_writedata_defs)
  have shape: "vin example_coinbase \<noteq> []" "vout example_coinbase \<noteq> []" "nVersion example_coinbase = 1"
    by (simp_all add: example_coinbase_defs)
  have par: "nMaxMoneyOut (n_consensus example_node) = 72000000000 * COIN"
    by (simp add: example_node_def CRegTestParams_def CRegTestParams_consensus_def)
  have sap: "Sapling_CheckTransaction (n_consensus example_node) example_coinbase = Inr 0"
    by (simp add: Sapling_CheckTransaction_def example_coinbase_defs hasSaplingData_def hasBindingSig_def isSaplingVersion_def)
  have outs: "CheckTransaction_outs (n_consensus example_node) True False 0 (vout example_coinbase) = Inr 0"
    by (simp add: example_coinbase_defs example_scripts CTxOut_IsEmpty_def MoneyRange_def par Let_def in_i64_def)
  have rest: "\<not> duplicate_inputs [] (vin example_coinbase)" "\<not> HasExchangeAddr example_coinbase"
    "length (scriptSig (vin example_coinbase ! 0)) = 2"
    by (simp_all add: example_coinbase_defs HasExchangeAddr_def example_scripts)
  show ?thesis using size sap outs rest shape example_coinbase_simps(1) by (simp add: CheckTransaction_def)
qed

lemma example_vtx [simp]: "vtx example_block = [example_coinbase]"
  by (simp add: example_block_def)

lemma example_connectable:
  "connectable example_node example_trees example_index example_block 1 example_state" "block_checked example_node example_block"
proof -
  have g: "GetBlockHash (n_HashQuark example_node) example_block = le_bytes 32 10"
    by (simp add: GetBlockHash_def example_block_def CBlock_of_header_def CBlockHeader_SetNull_def CBlockHeader.defs example_node_def)
  have h: "le_bytes 32 10 \<noteq> null_hash" "\<not> uint256_IsNull (le_bytes 32 10)" by (code_simp, code_simp)
  have t: "\<not> uint256_IsNull (tree_root example_trees t)" for t
  proof -
    have "\<not> uint256_IsNull (le_bytes 32 1)" "\<not> uint256_IsNull (le_bytes 32 2)" by (code_simp, code_simp)
    then show ?thesis by (simp add: example_trees_def)
  qed
  show "connectable example_node example_trees example_index example_block 1 example_state"
    unfolding connectable_def g using h t
    by (simp add: example_node_def example_index_def example_state_def fresh_txs_def example_coinbase_simps money_ok_def SkipInvalidUTXOS_def
        CRegTestParams_def CRegTestParams_consensus_def)
  show "block_checked example_node example_block"
    using example_coinbase_checked by (auto simp: block_checked_def example_coinbase_simps IsProofOfStake_def)
qed

lemma example_upgrades:
  "NetworkUpgradeActive (n_consensus example_node) 2 UPGRADE_V5_0" "\<not> NetworkUpgradeActive (n_consensus example_node) 2 UPGRADE_POS"
  "NetworkUpgradeActive (n_consensus example_node) 1 UPGRADE_V5_0" "\<not> IsSuperblockHeight (n_consensus example_node) 2"
  "\<not> SkipInvalidUTXOS (n_params example_node) 2"
  by (simp_all add: example_node_def CRegTestParams_def CRegTestParams_consensus_def NetworkUpgradeActive_def NetworkUpgradeState_def
      IsSuperblockHeight_def GetFirstSuperblockHeight_def SkipInvalidUTXOS_def Let_def)

lemma example_tx_run:
  assumes "cache_at example_trees example_coins (s_view st) example_state" "s_nSigOps st = 0"
    "s_nFees st = 0" "s_nValueOut st = 0" "s_nValueIn st = 0" "s_checks st = []" "s_sapling_tree st = tree"
  obtains st' where "ConnectBlock_txs example_node (\<lambda>t _. t) example_coins 2 fsc flags False 0 [example_coinbase] st = Inr st'"
    "s_nFees st' = 0" "s_nValueOut st' = 0" "s_nValueIn st' = 0" "s_checks st' = []" "s_sapling_tree st' = tree"
proof -
  have fits: "tx_fits example_coinbase example_state"
    using example_coinbase_simps(1,3)
    by (auto simp: tx_fits_def example_state_def nullifiers_def example_coinbase_defs ContainsZerocoins_def HasZerocoinMintOutputs_def)
  obtain c' where u: "UpdateCoins example_coins (n_invalid example_node) example_coinbase 2 (SkipInvalidUTXOS (n_params example_node) (int 2)) (s_view st) =
      Inr (undo_tx example_coinbase example_state, c')"
    using UpdateCoins_ok[OF assms(1) fits, of "SkipInvalidUTXOS (n_params example_node) (int 2)" "n_invalid example_node" 2] example_upgrades(5) by auto
  have app: "append_outputs (\<lambda>t _. t) example_coinbase tree = tree"
    by (simp add: append_outputs_def example_coinbase_defs)
  have "ConnectBlock_txs example_node (\<lambda>t _. t) example_coins 2 fsc flags False 0 [example_coinbase] st =
      Inr \<lparr>s_view = c', s_nFees = 0, s_nSigOps = 0, s_nValueOut = 0, s_nValueIn = 0, s_sapling_tree = tree,
           s_blockundo = s_blockundo st, s_checks = []\<rparr>"
    using u assms(2-7) app
    by (simp add: ConnectBlock_tx_def example_coinbase_simps ConnectBlock_inputs_def ConnectBlock_values_def value_throw_def Let_def in_i64_def)
  then show thesis by (rule that) simp_all
qed

lemma example_body_run:
  assumes "cache_at example_trees example_coins c example_state" "tree_root example_trees tree = le_bytes 32 1"
  obtains undo c' where "ConnectBlock_body example_node example_trees (\<lambda>t _. t) example_coins example_index example_block tree c = Inr (undo, c')"
proof -
  define st0 where "st0 = \<lparr>s_view = c, s_nFees = 0, s_nSigOps = 0, s_nValueOut = 0, s_nValueIn = 0, s_sapling_tree = tree,
     s_blockundo = [], s_checks = []\<rparr>"
  have i: "ci_nHeight (ix_entry example_index) = 2" "hashFinalSaplingRoot example_block = le_bytes 32 1" "bh_nTime example_block = 0"
    "\<not> IsProofOfStake example_block"
    by (simp_all add: example_index_def example_block_def CBlock_of_header_def CBlockHeader_SetNull_def CBlockHeader.defs IsProofOfStake_def)
  have m: "\<not> int (bh_nTime example_block) > n_spork20 example_node" by (simp add: i example_node_def)
  define fsc where "fsc = (n_estimate example_node \<le> 2)"
  define flags where "flags = connect_flags (n_consensus example_node) fsc (ix_pprev example_index)"
  obtain st' where st': "ConnectBlock_txs example_node (\<lambda>t _. t) example_coins 2 fsc flags False 0 [example_coinbase] st0 = Inr st'"
    "s_nFees st' = 0" "s_nValueOut st' = 0" "s_nValueIn st' = 0" "s_checks st' = []" "s_sapling_tree st' = tree"
    by (rule example_tx_run[of st0 tree fsc flags]) (use assms(1) in \<open>simp_all add: st0_def\<close>)
  have am: "ConnectBlock_amounts example_node 2 False example_coinbase 0 0 0 = Inr ()"
    by (simp add: ConnectBlock_amounts_def GetBlockValue_eq Let_def in_i64_def)
  have "ConnectBlock_body example_node example_trees (\<lambda>t _. t) example_coins example_index example_block tree c =
      Inr (s_blockundo st', PushAnchor example_trees example_coins tree (s_view st'))"
    unfolding ConnectBlock_body_def Let_def i(1) example_vtx
    using st' am m i(2,4) assms(2) example_upgrades(1,4)
    by (simp add: ConnectBlock_superblock_def st0_def[symmetric] fsc_def[symmetric] flags_def[symmetric] run_queue_def)
  then show thesis by (rule that)
qed

lemma example_run:
  obtains c' undo e where
    "ConnectBlock example_node example_trees (\<lambda>t _. t) example_coins example_index example_block True False mk_CCoinsViewCache = Inr (c', Some undo, e)"
proof -
  note V = example_coins_ok
  obtain best c1 where G: "GetBestBlock example_coins mk_CCoinsViewCache = (best, c1)" by fastforce
  have c1: "cache_at example_trees example_coins c1 example_state" and best: "best = le_bytes 32 9"
    using cache_at_BestBlock[OF V(2)] BestBlock_known[OF V(2)] G by (simp_all add: example_state_def)
  obtain anchor c2 where A: "GetBestAnchor example_coins c1 = (anchor, c2)" by fastforce
  have c2: "cache_at example_trees example_coins c2 example_state" and an: "anchor = le_bytes 32 1"
    using cache_at_BestAnchor[OF c1] A by (simp_all add: example_state_def)
  obtain t c3 where S: "GetSaplingAnchorAt example_coins anchor c2 = (t, c3)" by fastforce
  have c3: "cache_at example_trees example_coins c3 example_state" using cache_at_Anchor[OF V(1) c2, of anchor] S by simp
  obtain tree where t: "t = Some tree" using Anchor_known[OF c2, of anchor] S an by (auto simp: example_state_def)
  have root: "tree_root example_trees tree = le_bytes 32 1" using Anchor_root[OF V(1) c2, of anchor tree] S t an by simp
  obtain undo c' where B: "ConnectBlock_body example_node example_trees (\<lambda>t _. t) example_coins example_index example_block tree c3 = Inr (undo, c')"
    by (rule example_body_run[OF c3 root])
  have i: "ix_pprev example_index = Some (le_bytes 32 9, 1)" "ci_nHeight (ix_entry example_index) = 2" "ix_nChainSaplingValue example_index = None"
    "ci_nStatus (ix_entry example_index) = 0" "n_undoWritten example_node"
    by (simp_all add: example_index_def example_node_def)
  have g: "GetBlockHash (n_HashQuark example_node) example_block \<noteq> hashGenesisBlock (n_consensus example_node)"
    using example_connectable(1) by (simp add: connectable_def)
  obtain e where U: "ConnectBlock_undo example_node undo (ix_entry example_index) = Inr (Some undo, e)"
    using i by (auto simp: ConnectBlock_undo_def Let_def)
  have "ConnectBlock example_node example_trees (\<lambda>t _. t) example_coins example_index example_block True False mk_CCoinsViewCache =
      Inr (SetBestBlock (ci_hash (ix_entry example_index)) c', Some undo, e)"
    using best t i g example_upgrades(2)
    by (simp add: ConnectBlock_def CheckBlock_def G A S B U IsProofOfStake_def Let_def)
  then show thesis by (rule that)
qed

text \<open>The same block, after it was connected.\<close>

definition example_prev :: prev_index where
  "example_prev = \<lparr>prev_hash = le_bytes 32 9, prev_nHeight = 1, prev_finalSaplingRoot = le_bytes 32 1\<rparr>"

theorem ConnectBlock_sound_witness:
  "\<exists>c' undo e. ConnectBlock example_node example_trees (\<lambda>t _. t) example_coins example_index example_block True False mk_CCoinsViewCache = Inr (c', undo, e) \<and>
     (\<exists>tree. tree_root example_trees tree = le_bytes 32 1 \<and>
        cache_at example_trees example_coins c' (connected example_trees (\<lambda>t _. t) 2 [example_coinbase] tree (le_bytes 32 10) example_state))"
proof -
  obtain c' undo e where run: "ConnectBlock example_node example_trees (\<lambda>t _. t) example_coins example_index example_block True False mk_CCoinsViewCache =
      Inr (c', Some undo, e)" by (rule example_run)
  have "u_best_anchor example_state = le_bytes 32 1" "ci_nHeight (ix_entry example_index) = 2" "ci_hash (ix_entry example_index) = le_bytes 32 10"
    by (simp_all add: example_state_def example_index_def)
  then show ?thesis
    using run ConnectBlock_sound[OF example_coins_ok example_connectable(1) impI[OF example_connectable(2)] run refl refl] by auto
qed

theorem ConnectBlock_DisconnectBlock_witness:
  "\<exists>c' undo e c''. ConnectBlock example_node example_trees (\<lambda>t _. t) example_coins example_index example_block True False mk_CCoinsViewCache = Inr (c', Some undo, e) \<and>
     DisconnectBlock example_trees (n_consensus example_node) example_coins (Some undo) example_prev example_block c' = Inr (DISCONNECT_OK, c'') \<and>
     cache_at example_trees example_coins c'' example_state"
proof -
  obtain c' undo e where run: "ConnectBlock example_node example_trees (\<lambda>t _. t) example_coins example_index example_block True False mk_CCoinsViewCache =
      Inr (c', Some undo, e)" by (rule example_run)
  have wf: "utxo_wf example_state" "0 < ci_nHeight (ix_entry example_index)"
    "ix_pprev example_index = Some (prev_hash example_prev, prev_nHeight example_prev)" "empty_root example_trees \<in> u_anchors example_state"
    by (simp_all add: utxo_wf_def example_state_def example_index_def example_prev_def example_trees_def)
  have "\<not> uint256_IsNull (le_bytes 32 9)" by code_simp
  then have nn: "\<not> uint256_IsNull (u_best_block example_state)" by (simp add: example_state_def)
  have root: "(if NetworkUpgradeActive (n_consensus example_node) (prev_nHeight example_prev) UPGRADE_V5_0 then prev_finalSaplingRoot example_prev
      else empty_root example_trees) = u_best_anchor example_state"
    by (simp add: example_prev_def example_state_def example_trees_def)
  have "u_best_anchor (abs_cache example_coins c') \<in> {le_bytes 32 1, le_bytes 32 2}"
    by (rule ConnectBlock_ok[OF example_coins_ok example_connectable(1) impI[OF example_connectable(2)] run refl refl])
      (simp add: cache_at_def connected_def Let_def example_trees_def)
  moreover have "le_bytes 32 2 \<noteq> le_bytes 32 1" by code_simp
  ultimately have anc: "u_best_anchor (abs_cache example_coins c') = u_best_anchor example_state \<or>
      u_best_anchor (abs_cache example_coins c') \<notin> u_anchors example_state"
    by (auto simp: example_state_def)
  show ?thesis
    using run ConnectBlock_DisconnectBlock[OF example_coins_ok example_connectable(1) impI[OF example_connectable(2)] run wf(1-3) nn wf(4) root anc]
    by blast
qed

theorem ConnectBlock_no_inflation_witness:
  "\<exists>c' undo e. ConnectBlock example_node example_trees (\<lambda>t _. t) example_coins example_index example_block True False mk_CCoinsViewCache = Inr (c', undo, e) \<and>
     money_supply (abs_cache example_coins c') \<le> money_supply example_state"
proof -
  obtain c' undo e where run: "ConnectBlock example_node example_trees (\<lambda>t _. t) example_coins example_index example_block True False mk_CCoinsViewCache =
      Inr (c', Some undo, e)" by (rule example_run)
  have "\<not> IsProofOfStake example_block" "ci_nHeight (ix_entry example_index) = 2" "finite (dom (u_coins example_state))"
    by (simp_all add: IsProofOfStake_def example_index_def example_state_def)
  moreover have "one_minter example_node 2 example_block" by (simp add: one_minter_def IsProofOfStake_def example_coinbase_simps)
  moreover have "to_pool example_coinbase = 0" by (simp add: to_pool_def shielded_out_def shielded_in_def example_coinbase_defs)
  ultimately show ?thesis
    using run ConnectBlock_no_inflation[OF example_coins_ok example_connectable(1) impI[OF example_connectable(2)] run refl] by auto
qed


end
